(* ===== verification/Prelude.thy ===== *)
theory Prelude
  imports Main "HOL-Library.Word"
begin

text \<open>
  Shared vocabulary of the development: the C integer types as words, the outcome of a C
  computation, the errno values the sources test, byte-addressed memory with little-endian
  accesses, the byte-order conversions of the host, and the lemmas on them that the component
  theories use.  The host is little-endian, as on every platform the Makefile builds for, so
  \<open>cpu_to_le\<close> conversions are the identity and \<open>cpu_to_be\<close> conversions swap bytes.
\<close>

unbundle bit_operations_syntax

subsection \<open>Types\<close>

type_synonym u8 = "8 word"
type_synonym u16 = "16 word"
type_synonym u32 = "32 word"
type_synonym u64 = "64 word"

text \<open>Byte-addressed memory, as the device sees the guest's pages once they are mapped.\<close>

type_synonym mem = "u64 \<Rightarrow> u8"

text \<open>
  The outcome of a C function: a value, an access outside an object (undefined behaviour in C),
  an abort (\<open>BUG_ON\<close> or \<open>assert\<close>), or a loop cut off when the model's fuel is used up.
\<close>

datatype 'a run = Done 'a | Wild | Abort | NoFuel

fun bind_run :: "'a run \<Rightarrow> ('a \<Rightarrow> 'b run) \<Rightarrow> 'b run" where
  "bind_run (Done x) f = f x"
| "bind_run Wild f = Wild"
| "bind_run Abort f = Abort"
| "bind_run NoFuel f = NoFuel"

datatype errno = EAGAIN | EINTR | EIO | EINVAL | ENOSPC | ENOMEM | ENOSYS | ENODEV

named_theorems c_simps \<open>unfolding the small accessor functions of the model\<close>
named_theorems mem_simps \<open>loads over stores\<close>

lemma bind_run_Done_iff:
  "bind_run m f = Done y \<longleftrightarrow> (\<exists>x. m = Done x \<and> f x = Done y)"
  by (cases m) auto

lemma bind_run_assoc: "bind_run (bind_run m f) g = bind_run m (\<lambda>x. bind_run (f x) g)"
  by (cases m) auto

lemma bind_run_cong [fundef_cong]:
  "m = m' \<Longrightarrow> (\<And>x. m' = Done x \<Longrightarrow> f x = g x) \<Longrightarrow> bind_run m f = bind_run m' g"
  by (cases m') auto

subsection \<open>Words as little-endian byte lists\<close>

primrec word_of_le :: "u8 list \<Rightarrow> 'a::len word" where
  "word_of_le [] = 0"
| "word_of_le (b # bs) = ucast b OR push_bit 8 (word_of_le bs)"

primrec le_of_word :: "nat \<Rightarrow> 'a::len word \<Rightarrow> u8 list" where
  "le_of_word 0 w = []"
| "le_of_word (Suc n) w = ucast w # le_of_word n (drop_bit 8 w)"

lemma length_le_of_word [simp]: "length (le_of_word n w) = n"
  by (induction n arbitrary: w) auto

lemma le_of_word_eq_Nil [simp]: "le_of_word n w = [] \<longleftrightarrow> n = 0"
  by (cases n) auto

lemma bit_word_of_le:
  "bit (word_of_le bs :: 'a::len word) i \<longleftrightarrow>
     i < LENGTH('a) \<and> i div 8 < length bs \<and> bit (bs ! (i div 8)) (i mod 8)"
proof (induction bs arbitrary: i)
  case Nil
  then show ?case by simp
next
  case (Cons b bs)
  show ?case
  proof (cases "i < 8")
    case True
    then show ?thesis
      by (auto simp: bit_or_iff bit_ucast_iff bit_push_bit_iff dest: bit_imp_le_length)
  next
    case False
    then have i: "i div 8 = Suc ((i - 8) div 8)" "i mod 8 = (i - 8) mod 8"
      by (simp_all add: le_div_geq le_mod_geq)
    have "\<not> bit b i" using False bit_imp_le_length [of b i] by auto
    then show ?thesis
      using False by (auto simp: bit_or_iff bit_ucast_iff bit_push_bit_iff Cons.IH i)
  qed
qed

lemma nth_le_of_word:
  "k < n \<Longrightarrow> le_of_word n w ! k = ucast (drop_bit (8 * k) w)"
proof (induction n arbitrary: k w)
  case 0
  then show ?case by simp
next
  case (Suc n)
  then show ?case
    by (cases k) (simp_all add: drop_bit_drop_bit algebra_simps)
qed

lemma word_of_le_of_word:
  fixes w :: "'a::len word"
  assumes "LENGTH('a) \<le> 8 * n"
  shows "word_of_le (le_of_word n w) = w"
proof (rule bit_word_eqI)
  fix i assume i: "i < LENGTH('a)"
  then have "i div 8 < n" using assms by auto
  then show "bit (word_of_le (le_of_word n w) :: 'a word) i = bit w i"
    using i by (auto simp: bit_word_of_le nth_le_of_word bit_ucast_iff bit_drop_bit_eq)
qed

lemma le_of_word_of_le:
  assumes "length bs = n" and "8 * n \<le> LENGTH('a)"
  shows "le_of_word n (word_of_le bs :: 'a::len word) = bs"
proof (rule nth_equalityI)
  show "length (le_of_word n (word_of_le bs :: 'a word)) = length bs"
    using assms by simp
next
  fix k assume "k < length (le_of_word n (word_of_le bs :: 'a word))"
  then have k: "k < n" by simp
  show "le_of_word n (word_of_le bs :: 'a word) ! k = bs ! k"
  proof (rule bit_word_eqI)
    fix i assume i: "i < LENGTH(8)"
    have "8 * k + i < LENGTH('a)" using k i assms(2) by simp
    moreover have "(8 * k + i) div 8 = k" "(8 * k + i) mod 8 = i" using i by simp_all
    ultimately show "bit (le_of_word n (word_of_le bs :: 'a word) ! k) i = bit (bs ! k) i"
      using k i assms(1)
      by (simp add: nth_le_of_word bit_ucast_iff bit_drop_bit_eq bit_word_of_le)
  qed
qed

text \<open>\<open>be64_to_cpu\<close> and its kin on a little-endian host reverse the bytes of the word.\<close>

definition be16_to_cpu :: "u16 \<Rightarrow> u16" where
  "be16_to_cpu w = word_of_le (rev (le_of_word 2 w))"

definition be32_to_cpu :: "u32 \<Rightarrow> u32" where
  "be32_to_cpu w = word_of_le (rev (le_of_word 4 w))"

definition be64_to_cpu :: "u64 \<Rightarrow> u64" where
  "be64_to_cpu w = word_of_le (rev (le_of_word 8 w))"

definition cpu_to_be16 :: "u16 \<Rightarrow> u16" where
  "cpu_to_be16 w = be16_to_cpu w"

definition cpu_to_be64 :: "u64 \<Rightarrow> u64" where
  "cpu_to_be64 w = be64_to_cpu w"

lemma be64_cpu_to_be64 [simp]: "be64_to_cpu (cpu_to_be64 w) = w"
  by (simp add: be64_to_cpu_def cpu_to_be64_def le_of_word_of_le word_of_le_of_word)

lemma be16_cpu_to_be16 [simp]: "be16_to_cpu (cpu_to_be16 w) = w"
  by (simp add: be16_to_cpu_def cpu_to_be16_def le_of_word_of_le word_of_le_of_word)

lemma be64_to_cpu_0 [simp]: "be64_to_cpu 0 = 0"
  by (simp add: be64_to_cpu_def numeral_eq_Suc)

lemma be64_to_cpu_inj [simp]: "be64_to_cpu a = be64_to_cpu b \<longleftrightarrow> a = b"
  by (metis be64_cpu_to_be64 cpu_to_be64_def)

lemma be64_to_cpu_eq_0 [simp]: "be64_to_cpu a = 0 \<longleftrightarrow> a = 0"
  by (metis be64_to_cpu_0 be64_to_cpu_inj)

subsection \<open>Loads and stores\<close>

definition ldn :: "mem \<Rightarrow> u64 \<Rightarrow> nat \<Rightarrow> u8 list" where
  "ldn m a n = map (\<lambda>i. m (a + of_nat i)) [0..<n]"

primrec stn :: "mem \<Rightarrow> u64 \<Rightarrow> u8 list \<Rightarrow> mem" where
  "stn m a [] = m"
| "stn m a (b # bs) = stn (m(a := b)) (a + 1) bs"

definition ld8 :: "mem \<Rightarrow> u64 \<Rightarrow> u8" where
  "ld8 m a = m a"

definition ld16 :: "mem \<Rightarrow> u64 \<Rightarrow> u16" where
  "ld16 m a = word_of_le (ldn m a 2)"

definition ld32 :: "mem \<Rightarrow> u64 \<Rightarrow> u32" where
  "ld32 m a = word_of_le (ldn m a 4)"

definition ld64 :: "mem \<Rightarrow> u64 \<Rightarrow> u64" where
  "ld64 m a = word_of_le (ldn m a 8)"

definition st8 :: "mem \<Rightarrow> u64 \<Rightarrow> u8 \<Rightarrow> mem" where
  "st8 m a v = m(a := v)"

definition st16 :: "mem \<Rightarrow> u64 \<Rightarrow> u16 \<Rightarrow> mem" where
  "st16 m a v = stn m a (le_of_word 2 v)"

definition st32 :: "mem \<Rightarrow> u64 \<Rightarrow> u32 \<Rightarrow> mem" where
  "st32 m a v = stn m a (le_of_word 4 v)"

definition st64 :: "mem \<Rightarrow> u64 \<Rightarrow> u64 \<Rightarrow> mem" where
  "st64 m a v = stn m a (le_of_word 8 v)"

lemma length_ldn [simp]: "length (ldn m a n) = n"
  by (simp add: ldn_def)

lemma nth_ldn [simp]: "i < n \<Longrightarrow> ldn m a n ! i = m (a + of_nat i)"
  by (simp add: ldn_def)

text \<open>
  The distance of an address from a base decides whether a store of a list at the base
  reaches it.  \<open>unat (x - a)\<close> counts bytes upwards and wraps, so no case distinction on
  ranges that cross the end of the address space is needed.
\<close>

lemma unat64_less: "unat (x :: u64) < 2 ^ 64"
  using unsigned_less [of x] by simp

lemma unat_shift1: "k < 64 \<Longrightarrow> unat (push_bit k 1 :: u64) = 2 ^ k"
  by (simp only: unsigned_push_bit_eq)
    (simp add: push_bit_eq_mult take_bit_nat_eq_self power_strict_increasing)

lemma unat_shift1_minus1: "k < 64 \<Longrightarrow> unat (push_bit k 1 - 1 :: u64) = 2 ^ k - 1"
  using unat_shift1 [of k] by (metis unat_minus_one unat_0 power_not_zero zero_neq_numeral)

lemma sint_small:
  assumes "unat x < 2 ^ 63"
  shows "sint (x :: u64) = int (unat x)"
proof -
  have "int (unat x) < int (2 ^ 63)" using assms by (simp only: of_nat_less_iff)
  then have "int (unat x) < 2 ^ 63" by (simp only: of_nat_power of_nat_numeral)
  moreover have "- (2 ^ 63) \<le> int (unat x)"
    by (rule order_trans [OF _ of_nat_0_le_iff]) simp
  ultimately have "signed_take_bit 63 (int (unat x)) = int (unat x)"
    by (intro signed_take_bit_int_eq_self)
  moreover have "LENGTH(64) - Suc 0 = 63" by simp
  ultimately show ?thesis unfolding sint_uint uint_nat by (simp only:)
qed

lemma and_low_mask: "x AND (push_bit k 1 - 1) = take_bit k (x :: u64)"
  by (simp add: take_bit_eq_mask mask_eq_exp_minus_1)

lemma unat_take_bit64: "unat (take_bit k (x :: u64)) = unat x mod 2 ^ k"
  by (rule trans [OF unsigned_take_bit_eq take_bit_eq_mod])

lemma unat_drop_bit64: "unat (drop_bit k (x :: u64)) = unat x div 2 ^ k"
  by (rule trans [OF unat_drop_bit_eq drop_bit_eq_div])

lemma unat_add64: "unat x + unat y < 2 ^ 64 \<Longrightarrow> unat (x + y :: u64) = unat x + unat y"
  by (simp add: unat_word_ariths)

lemma unat_add_of_nat: "unat x + n < 2 ^ 64 \<Longrightarrow> unat (x + of_nat n :: u64) = unat x + n"
  by (simp add: unat_word_ariths unat_of_nat)

text \<open>Moving inside a block of \<open>2 ^ k\<close> bytes changes neither the block number nor wraps around.\<close>

lemma unat_inside_block:
  assumes "unat x mod 2 ^ k + i < 2 ^ k" and "k \<le> 64"
  shows "unat (x + of_nat i :: u64) = unat x + i"
proof -
  have e: "(2 :: nat) ^ 64 = 2 ^ k * 2 ^ (64 - k)" using assms(2) by (simp flip: power_add)
  have "unat x div 2 ^ k < 2 ^ (64 - k)"
    using unat64_less [of x] e by (simp add: less_mult_imp_div_less mult.commute)
  then have "2 ^ k * (unat x div 2 ^ k + 1) \<le> 2 ^ 64" unfolding e by (intro mult_le_mono) simp_all
  moreover have "unat x + i < 2 ^ k * (unat x div 2 ^ k + 1)"
  proof -
    have "unat x + i = 2 ^ k * (unat x div 2 ^ k) + (unat x mod 2 ^ k + i)" by simp
    also have "\<dots> < 2 ^ k * (unat x div 2 ^ k) + 2 ^ k" using assms(1) by linarith
    finally show ?thesis by simp
  qed
  ultimately have "unat x + i < 2 ^ 64" by linarith
  then show ?thesis by (simp add: unat_word_ariths unat_of_nat)
qed

lemma inside_block:
  assumes "unat x mod 2 ^ k + i < 2 ^ k" and "k \<le> 64"
  shows "drop_bit k (x + of_nat i :: u64) = drop_bit k x"
    and "take_bit k (x + of_nat i :: u64) = take_bit k x + of_nat i"
proof -
  have d: "(unat x + i) div 2 ^ k = unat x div 2 ^ k" "(unat x + i) mod 2 ^ k = unat x mod 2 ^ k + i"
    using assms(1) div_add1_eq [of "unat x" i "2 ^ k"] mod_add_left_eq [of "unat x" "2 ^ k" i]
    by (auto simp: mod_less)
  show "drop_bit k (x + of_nat i) = drop_bit k x"
    by (simp only: word_unat_eq_iff unat_drop_bit64 unat_inside_block [OF assms] d)
  have "unat (take_bit k x + of_nat i :: u64) = unat x mod 2 ^ k + i"
    using unat_inside_block [of "take_bit k x" k i] assms by (simp only: unat_take_bit64 mod_mod_trivial)
  then show "take_bit k (x + of_nat i) = take_bit k x + of_nat i"
    by (simp only: word_unat_eq_iff unat_take_bit64 unat_inside_block [OF assms] d)
qed

lemma unat_Suc_diff:
  fixes x a :: u64
  assumes "x \<noteq> a"
  shows "unat (x - a) = Suc (unat (x - (a + 1)))"
proof -
  have e: "x - (a + 1) = (x - a) - 1" by simp
  have nz: "x - a \<noteq> 0" using assms by simp
  then have "0 < unat (x - a)" by (simp add: unat_gt_0)
  then show ?thesis unfolding e using unat_minus_one [OF nz] by simp
qed

lemma stn_apply:
  assumes "length bs \<le> 2 ^ 64"
  shows "stn m a bs x = (if unat (x - a) < length bs then bs ! unat (x - a) else m x)"
  using assms
proof (induction bs arbitrary: m a)
  case Nil
  then show ?case by simp
next
  case (Cons b bs)
  have IH: "stn (m(a := b)) (a + 1) bs x =
      (if unat (x - (a + 1)) < length bs then bs ! unat (x - (a + 1)) else (m(a := b)) x)"
    using Cons by (simp add: Cons.IH)
  show ?case
  proof (cases "x = a")
    case True
    have "a - (a + 1) = (- 1 :: u64)" by simp
    then have "unat (a - (a + 1)) = 2 ^ 64 - 1"
      by (simp only: unsigned_minus_1_eq_mask) (simp add: mask_eq_exp_minus_1)
    moreover have "length bs < 2 ^ 64" using Cons.prems by simp
    ultimately show ?thesis using IH True by simp
  next
    case False
    then show ?thesis using IH unat_Suc_diff [OF False] by simp
  qed
qed

lemma stn_append: "stn m a (xs @ ys) = stn (stn m a xs) (a + of_nat (length xs)) ys"
  by (induction xs arbitrary: m a) (simp_all add: add.assoc)

lemma unat_of_nat64: "n < 2 ^ 64 \<Longrightarrow> unat (of_nat n :: u64) = n"
  by (simp add: unat_of_nat)

lemma ldn_stn_same [mem_simps]:
  assumes "length bs \<le> 2 ^ 64" and "n = length bs"
  shows "ldn (stn m a bs) a n = bs"
  by (rule nth_equalityI) (use assms in \<open>auto simp: stn_apply unat_of_nat64\<close>)

text \<open>Two ranges given by base and length do not meet.\<close>

definition disjoint :: "u64 \<Rightarrow> nat \<Rightarrow> u64 \<Rightarrow> nat \<Rightarrow> bool" where
  "disjoint a n b k \<longleftrightarrow> n \<le> unat (b - a) \<and> k \<le> unat (a - b)"

lemma disjoint_sym: "disjoint a n b k \<Longrightarrow> disjoint b k a n"
  by (simp add: disjoint_def)

lemma unat_diff_sum:
  fixes a b :: u64
  assumes "a \<noteq> b"
  shows "unat (a - b) + unat (b - a) = 2 ^ 64"
proof -
  have e: "b - a = 0 - (a - b)" by simp
  have "0 < unat (a - b)" using assms by (simp add: unat_gt_0)
  then have "unat (b - a) = 2 ^ 64 - unat (a - b)"
    unfolding e unat_sub_if_size by (simp add: word_size)
  then show ?thesis using unat64_less [of "a - b"] by simp
qed

lemma disjoint_sub_half:
  fixes a b :: u64
  assumes d: "disjoint a n b k" and i: "i + n' \<le> n" "0 < n'" and j: "j + k' \<le> k" "0 < k'"
  shows "n' \<le> unat ((b + of_nat j) - (a + of_nat i))"
proof -
  let ?D = "unat (b - a)"
  have "a \<noteq> b" using d i by (auto simp: disjoint_def)
  then have s: "unat (a - b) + ?D = 2 ^ 64" by (rule unat_diff_sum)
  have b1: "n \<le> ?D" "k \<le> unat (a - b)" using d by (simp_all add: disjoint_def)
  have "(b + of_nat j) - (a + of_nat i) = of_nat ?D + of_nat j - of_nat i" by simp
  also have "\<dots> = of_nat (?D + j - i)" using b1 i by (simp add: of_nat_diff)
  finally have e: "(b + of_nat j) - (a + of_nat i) = of_nat (?D + j - i)" .
  have "?D + j - i < 2 ^ 64" using b1 j s by linarith
  then have "unat ((b + of_nat j) - (a + of_nat i)) = ?D + j - i"
    unfolding e by (simp add: unat_of_nat)
  then show ?thesis using b1 i by linarith
qed

lemma disjoint_sub:
  assumes "disjoint a n b k" and "i + n' \<le> n" "0 < n'" and "j + k' \<le> k" "0 < k'"
  shows "disjoint (a + of_nat i) n' (b + of_nat j) k'"
  using disjoint_sub_half [OF assms] disjoint_sub_half [OF disjoint_sym [OF assms(1)] assms(4,5,2,3)]
  by (simp add: disjoint_def)

lemma disjoint_same_base:
  assumes "i + n' \<le> j" and "j + k' \<le> 2 ^ 64" and "0 < n'" and "0 < k'"
  shows "disjoint (a + of_nat i) n' (a + of_nat j :: u64) k'"
proof -
  have "(a + of_nat j) - (a + of_nat i) = (of_nat (j - i) :: u64)"
    using assms by (simp add: of_nat_diff)
  moreover have lt: "j - i < 2 ^ 64" using assms by linarith
  ultimately have 1: "unat ((a + of_nat j) - (a + of_nat i)) = j - i" by (simp add: unat_of_nat)
  have "0 < j - i" using assms by linarith
  then have "a + of_nat i \<noteq> a + of_nat j" using 1 by (metis diff_self not_less0 unat_0)
  from unat_diff_sum [OF this] 1 have 2: "unat ((a + of_nat i) - (a + of_nat j)) = 2 ^ 64 - (j - i)"
    using lt by simp
  have "n' \<le> j - i" "k' \<le> 2 ^ 64 - (j - i)" using assms by linarith+
  then show ?thesis unfolding disjoint_def 1 2 by simp
qed

lemma disjoint_offset:
  fixes a b :: u64
  assumes "disjoint a n b k" and "i < n"
  shows "k \<le> unat (a + of_nat i - b)"
proof (cases "k = 0")
  case True
  then show ?thesis by simp
next
  case False
  have ub: "unat (a - b) < 2 ^ 64" by (rule unat64_less)
  have lt: "unat (b - a) < 2 ^ 64" by (rule unat64_less)
  have i: "i < 2 ^ 64" and le: "i < unat (b - a)" using assms lt by (auto simp: disjoint_def)
  have "a \<noteq> b" using assms False by (auto simp: disjoint_def)
  have sum: "unat (a - b) + unat (b - a) = 2 ^ 64" using \<open>a \<noteq> b\<close> by (rule unat_diff_sum)
  have e: "a + of_nat i - b = (a - b) + of_nat i" by simp
  have "unat ((a - b) + of_nat i :: u64) = unat (a - b) + i"
    using sum le i by (simp add: unat_word_ariths unat_of_nat64)
  then show ?thesis unfolding e using assms by (simp add: disjoint_def)
qed

lemma ldn_stn_disjoint [mem_simps]:
  assumes "disjoint a n b (length bs)"
  shows "ldn (stn m b bs) a n = ldn m a n"
proof (rule nth_equalityI)
  show "length (ldn (stn m b bs) a n) = length (ldn m a n)" by simp
next
  fix i assume "i < length (ldn (stn m b bs) a n)"
  then have i: "i < n" by simp
  have "length bs \<le> 2 ^ 64"
    using assms unat64_less [of "a - b"] by (simp add: disjoint_def)
  moreover have "\<not> unat (a + of_nat i - b) < length bs"
    using disjoint_offset [OF assms i] by simp
  ultimately show "ldn (stn m b bs) a n ! i = ldn m a n ! i"
    using i by (simp add: stn_apply)
qed

lemma ld16_stn_disjoint [mem_simps]:
  "disjoint a 2 b (length bs) \<Longrightarrow> ld16 (stn m b bs) a = ld16 m a"
  by (simp add: ld16_def mem_simps)

lemma ld32_stn_disjoint [mem_simps]:
  "disjoint a 4 b (length bs) \<Longrightarrow> ld32 (stn m b bs) a = ld32 m a"
  by (simp add: ld32_def mem_simps)

lemma ld64_stn_disjoint [mem_simps]:
  "disjoint a 8 b (length bs) \<Longrightarrow> ld64 (stn m b bs) a = ld64 m a"
  by (simp add: ld64_def mem_simps)

lemma ld_st_same [mem_simps]:
  "ld16 (st16 m a v) a = v" "ld32 (st32 m a w) a = w" "ld64 (st64 m a x) a = x"
  by (simp_all add: ld16_def st16_def ld32_def st32_def ld64_def st64_def ldn_stn_same word_of_le_of_word)

lemma ld_st_disjoint [mem_simps]:
  "disjoint a 2 b 2 \<Longrightarrow> ld16 (st16 m b v) a = ld16 m a"
  "disjoint a 2 b 4 \<Longrightarrow> ld16 (st32 m b w) a = ld16 m a"
  "disjoint a 4 b 2 \<Longrightarrow> ld32 (st16 m b v) a = ld32 m a"
  "disjoint a 4 b 4 \<Longrightarrow> ld32 (st32 m b w) a = ld32 m a"
  "disjoint a 8 b 2 \<Longrightarrow> ld64 (st16 m b v) a = ld64 m a"
  "disjoint a 8 b 4 \<Longrightarrow> ld64 (st32 m b w) a = ld64 m a"
  by (simp_all add: st16_def st32_def mem_simps)

lemma stn_prefix_absorb:
  assumes "length d \<le> 2 ^ 64"
  shows "stn (stn m a (take k d)) a d = stn m a d"
proof
  fix x
  have "length (take k d) \<le> 2 ^ 64" using assms by simp
  then show "stn (stn m a (take k d)) a d x = stn m a d x"
    using assms by (simp add: stn_apply del: length_take) simp
qed

subsection \<open>Byte lists as files see them\<close>

definition overlay :: "u8 list \<Rightarrow> nat \<Rightarrow> u8 list \<Rightarrow> u8 list" where
  "overlay xs off ys =
     take off xs @ replicate (off - length xs) 0 @ ys @ drop (off + length ys) xs"

lemma length_overlay: "length (overlay xs off ys) = max (length xs) (off + length ys)"
  by (simp add: overlay_def)

lemma slice_overlay [simp]: "take (length ys) (drop off (overlay xs off ys)) = ys"
  by (simp add: overlay_def)

lemma overlay_Nil: "off \<le> length xs \<Longrightarrow> overlay xs off [] = xs"
  by (simp add: overlay_def)

lemma nth_overlay_outside:
  assumes "i < length xs" and "i < off \<or> off + length ys \<le> i"
  shows "overlay xs off ys ! i = xs ! i"
  using assms by (auto simp: overlay_def nth_append)

lemma overlay_append:
  "overlay (overlay xs off ys) (off + length ys) zs = overlay xs off (ys @ zs)"
proof (cases "off \<le> length xs")
  case True
  then show ?thesis by (simp add: overlay_def algebra_simps)
next
  case False
  then show ?thesis by (cases ys) (simp_all add: overlay_def)
qed

end
