(* ===== verification/GuestMap.thy ===== *)
theory GuestMap
  imports Prelude
begin

text \<open>
  Mapping guest memory (\<^verbatim>\<open>demu.c\<close>, \<^verbatim>\<open>demu.h\<close>).  The Xen libraries that map foreign pages and
  grant references are outside the repository: whether a request succeeds is the parameter
  \<open>map_ok\<close>, applied to the kind of mapping, the first frame or grant and the number of pages.  A
  successful mapping of the page at guest address \<open>a\<close> is identified with \<open>a\<close> itself, so the host
  pointer handed out for an address is that address; two mappings of one page alias, as they do
  in the program.  The state keeps the ledger of live mappings.  \<open>malloc\<close> is taken to succeed.
\<close>

definition TARGET_PAGE_SHIFT :: nat where
  [c_simps]: "TARGET_PAGE_SHIFT = 12"

definition TARGET_PAGE_MASK :: u64 where
  [c_simps]: "TARGET_PAGE_MASK = NOT (push_bit TARGET_PAGE_SHIFT 1 - 1)"

definition XEN_GRANT_ADDR_OFF :: u64 where
  [c_simps]: "XEN_GRANT_ADDR_OFF = push_bit 63 1"

definition P2ROUNDUP :: "u64 \<Rightarrow> u64 \<Rightarrow> u64" where
  "P2ROUNDUP x a = - ((- x) AND (- a))"

record demu_map =
  use_gnttab :: int
  mappings :: "(u64 \<times> u32) list"

definition demu_detect_mappings_model :: "demu_map \<Rightarrow> u64 \<Rightarrow> demu_map" where
  "demu_detect_mappings_model g addr =
     (if 0 \<le> use_gnttab g then g
      else g\<lparr>use_gnttab := (if addr AND XEN_GRANT_ADDR_OFF \<noteq> 0 then 1 else 0)\<rparr>)"

text \<open>The number of pages, an \<open>unsigned int\<close>, that \<open>size\<close> bytes at \<open>addr\<close> touch.\<close>

definition npages :: "u64 \<Rightarrow> u64 \<Rightarrow> u32" where
  "npages addr len =
     (let len = len + (addr AND NOT TARGET_PAGE_MASK);
          len = P2ROUNDUP len (push_bit TARGET_PAGE_SHIFT 1)
      in ucast (drop_bit TARGET_PAGE_SHIFT len))"

definition grant_of :: "u64 \<Rightarrow> u32" where
  "grant_of addr = ucast (drop_bit TARGET_PAGE_SHIFT (addr AND NOT XEN_GRANT_ADDR_OFF))"

definition demu_map_guest_range ::
  "(bool \<Rightarrow> u64 \<Rightarrow> u32 \<Rightarrow> bool) \<Rightarrow> demu_map \<Rightarrow> u64 \<Rightarrow> u64 \<Rightarrow> (u64 option \<times> demu_map) run" where
  "demu_map_guest_range map_ok g0 addr len =
     (let n = npages addr len;
          g = demu_detect_mappings_model g0 addr;
          page = addr AND TARGET_PAGE_MASK
      in if 0 < use_gnttab g then
           (if addr AND XEN_GRANT_ADDR_OFF = 0 then Abort
            else if map_ok True (ucast (grant_of addr)) n
            then Done (Some (page + (addr AND NOT TARGET_PAGE_MASK)),
                       g\<lparr>mappings := (page, n) # mappings g\<rparr>)
            else Done (None, g))
         else
           (if addr AND XEN_GRANT_ADDR_OFF \<noteq> 0 then Abort
            else if map_ok False (drop_bit TARGET_PAGE_SHIFT addr) n
            then Done (Some (page + (addr AND NOT TARGET_PAGE_MASK)),
                       g\<lparr>mappings := (page, n) # mappings g\<rparr>)
            else Done (None, g)))"

definition demu_unmap_guest_range :: "demu_map \<Rightarrow> u64 \<Rightarrow> u64 \<Rightarrow> demu_map" where
  "demu_unmap_guest_range g ptr len =
     g\<lparr>mappings := remove1 (ptr AND TARGET_PAGE_MASK, npages ptr len) (mappings g)\<rparr>"

subsection \<open>Rounding to pages\<close>


lemma page_mask: "TARGET_PAGE_MASK = NOT (mask 12)" "NOT TARGET_PAGE_MASK = mask 12"
  by (simp_all add: c_simps mask_eq_exp_minus_1)

lemma page_split: "(addr AND TARGET_PAGE_MASK) + (addr AND NOT TARGET_PAGE_MASK) = addr"
proof -
  have "(addr AND TARGET_PAGE_MASK) AND (addr AND NOT TARGET_PAGE_MASK) = 0"
    by (rule bit_word_eqI) (simp add: bit_simps)
  then have "(addr AND TARGET_PAGE_MASK) + (addr AND NOT TARGET_PAGE_MASK) =
      (addr AND TARGET_PAGE_MASK) OR (addr AND NOT TARGET_PAGE_MASK)"
    by (rule disjunctive_add_eq_or)
  also have "\<dots> = addr" by (rule bit_word_eqI) (auto simp: bit_simps)
  finally show ?thesis .
qed

lemma unat_page: "unat ((a :: u64) AND TARGET_PAGE_MASK) = 4096 * (unat a div 4096)"
proof -
  have "a AND TARGET_PAGE_MASK = push_bit 12 (drop_bit 12 a)"
    unfolding page_mask by (rule bit_word_eqI) (auto simp: bit_simps)
  moreover have "unat (push_bit 12 (drop_bit 12 a)) = 4096 * (unat a div 4096)"
  proof -
    have "4096 * (unat a div 4096) < 2 ^ 64" using unat64_less [of a] by linarith
    then show ?thesis
      by (subst unsigned_push_bit_eq, subst unat_drop_bit_eq)
        (simp add: push_bit_eq_mult drop_bit_eq_div take_bit_eq_mod)
  qed
  ultimately show ?thesis by simp
qed

lemma unat_uminus64: "x \<noteq> 0 \<Longrightarrow> unat (- x :: u64) = 2 ^ 64 - unat x"
  using unat_sub_if_size [of 0 x] by (simp add: word_size unat_gt_0 not_le)

lemma ceil_by_complement:
  fixes x n :: nat
  assumes "x \<le> 4096 * n"
  shows "4096 * n - 4096 * ((4096 * n - x) div 4096) = 4096 * ((x + 4095) div 4096)"
proof -
  obtain k r where x: "x = 4096 * k + r" "r < 4096"
    by (metis mod_less_divisor mult_div_mod_eq zero_less_numeral)
  show ?thesis
  proof (cases "r = 0")
    case True
    then have "(4096 * n - x) div 4096 = n - k" "(x + 4095) div 4096 = k" "k \<le> n"
      using x assms by (simp_all add: diff_mult_distrib2 [symmetric])
    then show ?thesis by (simp add: diff_mult_distrib2 [symmetric])
  next
    case False
    then have k: "k < n" using x assms by auto
    then have "4096 * n - x = 4096 * (n - k - 1) + (4096 - r)"
      using x False by (simp add: diff_mult_distrib2)
    then have 1: "(4096 * n - x) div 4096 = n - k - 1" using False x(2) by simp
    have "x + 4095 = 4096 * (k + 1) + (r - 1)" using x False by simp
    then have 2: "(x + 4095) div 4096 = k + 1" using x(2) by simp
    show ?thesis using k unfolding 1 2 by (simp add: diff_mult_distrib2)
  qed
qed

lemma P2ROUNDUP_page:
  assumes "unat x + 4095 < 2 ^ 64"
  shows "unat (P2ROUNDUP x 4096) = 4096 * ((unat x + 4095) div 4096)"
proof (cases "x = 0")
  case True
  then show ?thesis by (simp add: P2ROUNDUP_def)
next
  case False
  have m: "- (4096 :: u64) = TARGET_PAGE_MASK" by (simp add: c_simps)
  let ?y = "(- x) AND TARGET_PAGE_MASK"
  have y: "unat ?y = 4096 * ((2 ^ 64 - unat x) div 4096)"
    by (simp add: unat_page unat_uminus64 False)
  have "0 < unat x" using False by (simp add: unat_gt_0)
  then have "0 < unat ?y" unfolding y using assms by (simp add: div_greater_zero_iff)
  then have "?y \<noteq> 0" by (simp add: unat_gt_0 [symmetric])
  then have "unat (P2ROUNDUP x 4096) = 2 ^ 64 - unat ?y"
    by (simp add: P2ROUNDUP_def m unat_uminus64)
  also have "\<dots> = 4096 * ((unat x + 4095) div 4096)"
    unfolding y using ceil_by_complement [of "unat x" "2 ^ 52"] assms by simp
  finally show ?thesis .
qed


lemma npages_spec:
  assumes "unat len + unat addr mod 4096 + 4095 < 2 ^ 44"
  shows "unat (npages addr len) = (unat len + unat addr mod 4096 + 4095) div 4096"
proof -
  have o: "unat (addr AND NOT TARGET_PAGE_MASK) = unat addr mod 4096"
    using unat_mod [of addr 4096]
    by (simp add: page_mask take_bit_eq_mask [symmetric] take_bit_eq_mod)
  let ?l = "len + (addr AND NOT TARGET_PAGE_MASK)"
  have l: "unat ?l = unat len + unat addr mod 4096"
    using assms o by (simp add: unat_word_ariths)
  have p: "(push_bit TARGET_PAGE_SHIFT 1 :: u64) = 4096" by (simp add: c_simps)
  have "unat (P2ROUNDUP ?l 4096) = 4096 * ((unat len + unat addr mod 4096 + 4095) div 4096)"
    using assms l by (subst P2ROUNDUP_page) simp_all
  then have "unat (drop_bit 12 (P2ROUNDUP ?l 4096)) = (unat len + unat addr mod 4096 + 4095) div 4096"
    by (simp add: drop_bit_eq_div unat_div)
  moreover have "(unat len + unat addr mod 4096 + 4095) div 4096 < 2 ^ 32"
    using assms by simp
  ultimately show ?thesis
    by (simp add: npages_def Let_def p TARGET_PAGE_SHIFT_def unsigned_ucast_eq take_bit_eq_mod)
qed

subsection \<open>Mapping and unmapping\<close>

lemma demu_map_guest_range_Some:
  assumes "demu_map_guest_range ok g a n = Done (Some p, g')"
  shows "p = a \<and> mappings g' = (a AND TARGET_PAGE_MASK, npages a n) # mappings g \<and>
    use_gnttab g' = use_gnttab (demu_detect_mappings_model g a)"
  using assms by (auto simp: demu_map_guest_range_def demu_detect_mappings_model_def Let_def page_split
      split: if_splits)

lemma demu_map_guest_range_None:
  assumes "demu_map_guest_range ok g a n = Done (None, g')"
  shows "mappings g' = mappings g \<and> use_gnttab g' = use_gnttab (demu_detect_mappings_model g a)"
  using assms by (auto simp: demu_map_guest_range_def demu_detect_mappings_model_def Let_def
      split: if_splits)

lemma demu_unmap_map:
  assumes "demu_map_guest_range ok g a n = Done (Some p, g')"
  shows "mappings (demu_unmap_guest_range g' p n) = mappings g"
  using demu_map_guest_range_Some [OF assms] by (simp add: demu_unmap_guest_range_def)

lemma demu_map_mode:
  assumes "demu_map_guest_range ok g a n \<noteq> Abort"
  shows "if 0 < use_gnttab (demu_detect_mappings_model g a)
    then a AND XEN_GRANT_ADDR_OFF \<noteq> 0 else a AND XEN_GRANT_ADDR_OFF = 0"
  using assms by (auto simp: demu_map_guest_range_def Let_def split: if_splits)

lemma demu_map_guest_range_first:
  "use_gnttab g < 0 \<Longrightarrow> demu_map_guest_range ok g a n \<noteq> Abort"
  by (auto simp: demu_map_guest_range_def demu_detect_mappings_model_def Let_def split: if_splits)

subsection \<open>Properties\<close>

text \<open>
  For every range that fits in 44 bits, the page count handed to the Xen libraries is exactly
  the number of pages that the range touches, its offset into the first page included.
\<close>

theorem npages_exact:
  assumes "unat len + unat addr mod 4096 + 4095 < 2 ^ 44"
  shows "unat (npages addr len) = (unat len + unat addr mod 4096 + 4095) div 4096"
  using assms by (rule npages_spec)

theorem npages_exact_witness: "unat (npages 0x1FFF 2) = 2"
  using npages_exact [of 2 "0x1FFF"] by simp

text \<open>
  Mapping a guest range and unmapping the pointer it returned, with the same length, restores
  the ledger of live mappings; the pointer is the guest address itself, offset in page included;
  and once a range has been mapped, the mode (grants or foreign pages) is settled and every later
  successful request has an address of that kind.
\<close>

theorem demu_map_unmap_balanced:
  assumes "demu_map_guest_range ok g a n = Done (Some p, g')"
    and "demu_map_guest_range ok g' b k \<noteq> Abort"
  shows "p = a \<and> mappings (demu_unmap_guest_range g' p n) = mappings g \<and> 0 \<le> use_gnttab g' \<and>
    (a AND XEN_GRANT_ADDR_OFF = 0) = (b AND XEN_GRANT_ADDR_OFF = 0)"
proof -
  have g': "use_gnttab g' = use_gnttab (demu_detect_mappings_model g a)"
    and p: "p = a" using demu_map_guest_range_Some [OF assms(1)] by auto
  then have m: "0 \<le> use_gnttab g'" by (simp add: demu_detect_mappings_model_def)
  have "if 0 < use_gnttab g' then a AND XEN_GRANT_ADDR_OFF \<noteq> 0 else a AND XEN_GRANT_ADDR_OFF = 0"
    using demu_map_mode [of ok g a n] assms(1) by (simp add: g')
  moreover have "if 0 < use_gnttab g' then b AND XEN_GRANT_ADDR_OFF \<noteq> 0 else b AND XEN_GRANT_ADDR_OFF = 0"
    using demu_map_mode [OF assms(2)] m by (simp add: demu_detect_mappings_model_def)
  ultimately show ?thesis using p m demu_unmap_map [OF assms(1)] by (auto split: if_splits)
qed

theorem demu_map_unmap_balanced_witness:
  "mappings (demu_unmap_guest_range \<lparr>use_gnttab = 0, mappings = [(0x1000, 2), (0x7000, 1)]\<rparr> 0x1FFF 2) =
     [(0x7000, 1)]"
  using demu_map_unmap_balanced [of "\<lambda>k f n. True" "\<lparr>use_gnttab = -1, mappings = [(0x7000, 1)]\<rparr>" "0x1FFF" 2
      "0x1FFF" "\<lparr>use_gnttab = 0, mappings = [(0x1000, 2), (0x7000, 1)]\<rparr>" "0x3000" 1]
  by (simp add: demu_map_guest_range_def demu_detect_mappings_model_def npages_def P2ROUNDUP_def c_simps)

end
