(* ===== verification/Virtqueue.thy ===== *)
theory Virtqueue
  imports GuestMap
begin

text \<open>
  The split virtqueue of \<^verbatim>\<open>virtio/core.c\<close> and \<^verbatim>\<open>include/kvm/virtio.h\<close>, over byte-addressed guest
  memory.  The ring formats are those of the virtio specification, which the code gets from the
  system's \<^verbatim>\<open>linux/virtio_ring.h\<close>; the inline functions of that header (\<open>vring_need_event\<close>,
  \<open>vring_size\<close>, \<open>vring_init\<close>) are not in the repository and are the parameters of
  \<open>vring_abi\<close>.  Both byte orders are the host's (\<open>VIRTIO_RING_ENDIAN\<close> is not overridden), so the
  \<open>virtio_guest_to_host\<close> conversions are the identity.
\<close>

subsection \<open>The ring formats\<close>

definition VRING_DESC_F_NEXT :: u16 where [c_simps]: "VRING_DESC_F_NEXT = 1"
definition VRING_DESC_F_WRITE :: u16 where [c_simps]: "VRING_DESC_F_WRITE = 2"
definition VRING_DESC_F_INDIRECT :: u16 where [c_simps]: "VRING_DESC_F_INDIRECT = 4"
definition VRING_AVAIL_F_NO_INTERRUPT :: u16 where [c_simps]: "VRING_AVAIL_F_NO_INTERRUPT = 1"
definition VIRTIO_RING_F_INDIRECT_DESC :: nat where [c_simps]: "VIRTIO_RING_F_INDIRECT_DESC = 28"
definition VIRTIO_RING_F_EVENT_IDX :: nat where [c_simps]: "VIRTIO_RING_F_EVENT_IDX = 29"

record vring_abi =
  vring_need_event :: "u16 \<Rightarrow> u16 \<Rightarrow> u16 \<Rightarrow> bool"
  vring_size :: "u32 \<Rightarrow> u32 \<Rightarrow> u64"
  vring_avail_off :: "u32 \<Rightarrow> u64"
  vring_used_off :: "u32 \<Rightarrow> u64 \<Rightarrow> u32 \<Rightarrow> u64"

text \<open>What the specification says of \<open>vring_need_event\<close>: the event index was passed.\<close>

definition need_event_spec :: "vring_abi \<Rightarrow> bool" where
  "need_event_spec abi \<longleftrightarrow>
     (\<forall>event new old. vring_need_event abi event new old \<longleftrightarrow> new - event - 1 < new - old)"

text \<open>Addresses of the fields of descriptors, of the available ring and of the used ring.\<close>

definition desc_at :: "u64 \<Rightarrow> u16 \<Rightarrow> u64" where
  "desc_at d i = d + 16 * ucast i"

definition desc_addr :: "mem \<Rightarrow> u64 \<Rightarrow> u16 \<Rightarrow> u64" where
  "desc_addr m d i = ld64 m (desc_at d i)"

definition desc_len :: "mem \<Rightarrow> u64 \<Rightarrow> u16 \<Rightarrow> u32" where
  "desc_len m d i = ld32 m (desc_at d i + 8)"

definition desc_flags :: "mem \<Rightarrow> u64 \<Rightarrow> u16 \<Rightarrow> u16" where
  "desc_flags m d i = ld16 m (desc_at d i + 12)"

definition desc_next :: "mem \<Rightarrow> u64 \<Rightarrow> u16 \<Rightarrow> u16" where
  "desc_next m d i = ld16 m (desc_at d i + 14)"

definition avail_ring_at :: "u64 \<Rightarrow> u32 \<Rightarrow> u64" where
  "avail_ring_at a i = a + 4 + 2 * ucast i"

definition used_elem_at :: "u64 \<Rightarrow> u32 \<Rightarrow> u64" where
  "used_elem_at u i = u + 4 + 8 * ucast i"

subsection \<open>Queue state\<close>

text \<open>
  \<open>struct vring_addr\<close> is a union: the legacy view of its words is \<open>pfn\<close>, \<open>align\<close>, \<open>pgsize\<close>.
\<close>

record vring_addr =
  va_legacy :: bool
  desc_lo :: u32
  desc_hi :: u32
  avail_lo :: u32
  avail_hi :: u32
  used_lo :: u32
  used_hi :: u32

abbreviation pfn :: "vring_addr \<Rightarrow> u32" where "pfn \<equiv> desc_lo"
abbreviation align :: "vring_addr \<Rightarrow> u32" where "align \<equiv> desc_hi"
abbreviation pgsize :: "vring_addr \<Rightarrow> u32" where "pgsize \<equiv> avail_lo"

record virt_queue =
  vr_num :: u32
  vr_desc :: "u64 option"
  vr_avail :: "u64 option"
  vr_used :: "u64 option"
  vq_addr :: vring_addr
  last_avail_idx :: u16
  last_used_signalled :: u16
  vq_endian :: u16
  use_event_idx :: bool
  vq_enabled :: bool

text \<open>All zero bytes, as \<open>calloc\<close> and \<open>memset\<close> leave a queue.\<close>

definition zero_vring_addr :: vring_addr where
  "zero_vring_addr = \<lparr>va_legacy = False, desc_lo = 0, desc_hi = 0, avail_lo = 0, avail_hi = 0,
     used_lo = 0, used_hi = 0\<rparr>"

definition zero_vq :: virt_queue where
  "zero_vq = \<lparr>vr_num = 0, vr_desc = None, vr_avail = None, vr_used = None,
     vq_addr = zero_vring_addr, last_avail_idx = 0, last_used_signalled = 0, vq_endian = 0,
     use_event_idx = False, vq_enabled = False\<rparr>"

subsection \<open>The available ring\<close>

definition virt_queue__pop :: "mem \<Rightarrow> virt_queue \<Rightarrow> (u16 \<times> virt_queue) run" where
  "virt_queue__pop m vq =
     (case vr_avail vq of
        None \<Rightarrow> Wild
      | Some a \<Rightarrow>
          if vr_num vq = 0 then Wild
          else Done (ld16 m (avail_ring_at a (ucast (last_avail_idx vq) mod vr_num vq)),
                     vq\<lparr>last_avail_idx := last_avail_idx vq + 1\<rparr>))"

definition virt_queue__available :: "mem \<Rightarrow> virt_queue \<Rightarrow> (bool \<times> mem) run" where
  "virt_queue__available m vq =
     (case vr_avail vq of
        None \<Rightarrow> Done (False, m)
      | Some a \<Rightarrow>
          if use_event_idx vq then
            (case vr_used vq of
               None \<Rightarrow> Wild
             | Some u \<Rightarrow>
                 let m' = st16 m (used_elem_at u (vr_num vq)) (last_avail_idx vq)
                 in Done (ld16 m' (a + 2) \<noteq> last_avail_idx vq, m'))
          else Done (ld16 m (a + 2) \<noteq> last_avail_idx vq, m))"

subsection \<open>The used ring\<close>

definition virt_queue__used_idx_advance :: "mem \<Rightarrow> virt_queue \<Rightarrow> u16 \<Rightarrow> mem run" where
  "virt_queue__used_idx_advance m vq jump =
     (case vr_used vq of
        None \<Rightarrow> Wild
      | Some u \<Rightarrow> Done (st16 m (u + 2) (ld16 m (u + 2) + jump)))"

definition virt_queue__set_used_elem_no_update ::
  "mem \<Rightarrow> virt_queue \<Rightarrow> u32 \<Rightarrow> u32 \<Rightarrow> u16 \<Rightarrow> mem run" where
  "virt_queue__set_used_elem_no_update m vq head len offset =
     (case vr_used vq of
        None \<Rightarrow> Wild
      | Some u \<Rightarrow>
          if vr_num vq = 0 then Wild
          else
            let idx = ld16 m (u + 2) + offset;
                e = used_elem_at u (ucast idx mod vr_num vq)
            in Done (st32 (st32 m e head) (e + 4) len))"

definition virt_queue__set_used_elem :: "mem \<Rightarrow> virt_queue \<Rightarrow> u32 \<Rightarrow> u32 \<Rightarrow> mem run" where
  "virt_queue__set_used_elem m vq head len =
     bind_run (virt_queue__set_used_elem_no_update m vq head len 0)
       (\<lambda>m'. virt_queue__used_idx_advance m' vq 1)"

definition virtio_queue__should_signal :: "vring_abi \<Rightarrow> mem \<Rightarrow> virt_queue \<Rightarrow> (bool \<times> virt_queue) run" where
  "virtio_queue__should_signal abi m vq =
     (case (vr_avail vq, vr_used vq) of
        (Some a, Some u) \<Rightarrow>
          if \<not> use_event_idx vq then
            Done (ld16 m a AND VRING_AVAIL_F_NO_INTERRUPT = 0, vq)
          else
            let old_idx = last_used_signalled vq;
                new_idx = ld16 m (u + 2);
                event_idx = ld16 m (avail_ring_at a (vr_num vq))
            in if vring_need_event abi event_idx new_idx old_idx
               then Done (True, vq\<lparr>last_used_signalled := new_idx\<rparr>)
               else Done (False, vq)
      | (Some a, None) \<Rightarrow>
          if \<not> use_event_idx vq then
            Done (ld16 m a AND VRING_AVAIL_F_NO_INTERRUPT = 0, vq)
          else Wild
      | (None, _) \<Rightarrow> Wild)"

subsection \<open>Descriptor chains\<close>

definition virt_desc__test_flag :: "mem \<Rightarrow> u64 \<Rightarrow> u16 \<Rightarrow> u16 \<Rightarrow> bool" where
  "virt_desc__test_flag m d i flag \<longleftrightarrow> desc_flags m d i AND flag \<noteq> 0"

definition next_desc :: "mem \<Rightarrow> u64 \<Rightarrow> u16 \<Rightarrow> u32 \<Rightarrow> u32" where
  "next_desc m d i maxd =
     (if \<not> virt_desc__test_flag m d i VRING_DESC_F_NEXT then maxd
      else min (ucast (desc_next m d i)) maxd)"

text \<open>An element of the request's \<open>iov\<close> array; a failed mapping leaves a null base.\<close>

record seg =
  seg_base :: "u64 option"
  seg_len :: u32

definition VIRTIO_BLK_QUEUE_SIZE :: nat where
  [c_simps]: "VIRTIO_BLK_QUEUE_SIZE = 256"

text \<open>
  The do-while loop of \<open>virt_queue__get_head_iov\<close>.  The caller's \<open>iov\<close> array has \<open>cap\<close>
  elements and nothing bounds the walk but the array: writing past it is \<open>Wild\<close>.
\<close>

function head_iov_loop ::
  "(bool \<Rightarrow> u64 \<Rightarrow> u32 \<Rightarrow> bool) \<Rightarrow> nat \<Rightarrow> mem \<Rightarrow> u64 \<Rightarrow> u16 \<Rightarrow> u16 \<Rightarrow> demu_map \<Rightarrow>
   seg list \<Rightarrow> u16 \<Rightarrow> u16 \<Rightarrow> (seg list \<times> u16 \<times> u16 \<times> demu_map) run" where
  "head_iov_loop ok cap m d maxd idx g acc out inn =
     (if cap \<le> length acc then Wild
      else
        bind_run (demu_map_guest_range ok g (desc_addr m d idx) (ucast (desc_len m d idx))) (\<lambda>(base, g').
          let is_write = virt_desc__test_flag m d idx VRING_DESC_F_WRITE;
              acc' = acc @ [\<lparr>seg_base = base, seg_len = desc_len m d idx\<rparr>];
              out' = (if is_write then out else out + 1);
              inn' = (if is_write then inn + 1 else inn);
              idx' = ucast (next_desc m d idx (ucast maxd))
          in if idx' = maxd then Done (acc', out', inn', g')
             else head_iov_loop ok cap m d maxd idx' g' acc' out' inn'))"
  by pat_completeness auto
termination
  by (relation "measure (\<lambda>(ok, cap, m, d, maxd, idx, g, acc, out, inn). cap - length acc)")
     (auto simp: Let_def)

declare head_iov_loop.simps [simp del]

definition virt_queue__get_head_iov ::
  "(bool \<Rightarrow> u64 \<Rightarrow> u32 \<Rightarrow> bool) \<Rightarrow> nat \<Rightarrow> mem \<Rightarrow> demu_map \<Rightarrow> virt_queue \<Rightarrow> u16 \<Rightarrow>
   (seg list \<times> u16 \<times> u16 \<times> demu_map) run" where
  "virt_queue__get_head_iov ok cap m g vq head =
     (case vr_desc vq of
        None \<Rightarrow> Wild
      | Some d \<Rightarrow>
          if virt_desc__test_flag m d head VRING_DESC_F_INDIRECT then
            (let dlen = desc_len m d head;
                 maxd = ucast (dlen div 16)
             in bind_run (demu_map_guest_range ok g (desc_addr m d head) (ucast dlen)) (\<lambda>(t, g1).
                  case t of
                    None \<Rightarrow> Wild
                  | Some t \<Rightarrow>
                      bind_run (head_iov_loop ok cap m t maxd 0 g1 [] 0 0) (\<lambda>(iov, out, inn, g2).
                        Done (iov, out, inn,
                          if dlen \<noteq> 0 then demu_unmap_guest_range g2 t (ucast dlen) else g2))))
          else head_iov_loop ok cap m d (ucast (vr_num vq)) head g [] 0 0)"

definition virt_queue__get_iov ::
  "(bool \<Rightarrow> u64 \<Rightarrow> u32 \<Rightarrow> bool) \<Rightarrow> nat \<Rightarrow> mem \<Rightarrow> demu_map \<Rightarrow> virt_queue \<Rightarrow>
   (u16 \<times> virt_queue \<times> seg list \<times> u16 \<times> u16 \<times> demu_map) run" where
  "virt_queue__get_iov ok cap m g vq =
     bind_run (virt_queue__pop m vq) (\<lambda>(head, vq').
       bind_run (virt_queue__get_head_iov ok cap m g vq' head) (\<lambda>(iov, out, inn, g').
         Done (head, vq', iov, out, inn, g')))"

text \<open>
  \<open>virt_queue__get_inout_iov\<close> splits the chain over two arrays (of \<open>cap\<close> elements each here).
\<close>

function inout_iov_loop ::
  "(bool \<Rightarrow> u64 \<Rightarrow> u32 \<Rightarrow> bool) \<Rightarrow> nat \<Rightarrow> mem \<Rightarrow> u64 \<Rightarrow> u16 \<Rightarrow> demu_map \<Rightarrow>
   seg list \<Rightarrow> seg list \<Rightarrow> (seg list \<times> seg list \<times> demu_map) run" where
  "inout_iov_loop ok cap m d idx g ins outs =
     (let is_write = virt_desc__test_flag m d idx VRING_DESC_F_WRITE
      in if cap \<le> length (if is_write then ins else outs) then Wild
         else
           bind_run (demu_map_guest_range ok g (desc_addr m d idx) (ucast (desc_len m d idx))) (\<lambda>(base, g').
             let s = \<lparr>seg_base = base, seg_len = desc_len m d idx\<rparr>;
                 ins' = (if is_write then ins @ [s] else ins);
                 outs' = (if is_write then outs else outs @ [s])
             in if virt_desc__test_flag m d idx VRING_DESC_F_NEXT
                then inout_iov_loop ok cap m d (desc_next m d idx) g' ins' outs'
                else Done (ins', outs', g')))"
  by pat_completeness auto
termination
  by (relation "measure (\<lambda>(ok, cap, m, d, idx, g, ins, outs). (cap - length ins) + (cap - length outs))")
     (auto simp: Let_def split: if_splits)

declare inout_iov_loop.simps [simp del]

definition virt_queue__get_inout_iov ::
  "(bool \<Rightarrow> u64 \<Rightarrow> u32 \<Rightarrow> bool) \<Rightarrow> nat \<Rightarrow> mem \<Rightarrow> demu_map \<Rightarrow> virt_queue \<Rightarrow>
   (u16 \<times> virt_queue \<times> seg list \<times> seg list \<times> demu_map) run" where
  "virt_queue__get_inout_iov ok cap m g vq =
     bind_run (virt_queue__pop m vq) (\<lambda>(head, vq').
       case vr_desc vq' of
         None \<Rightarrow> Wild
       | Some d \<Rightarrow>
           bind_run (inout_iov_loop ok cap m d head g [] []) (\<lambda>(ins, outs, g').
             Done (head, vq', ins, outs, g')))"

end
