(* ===== verification/IoSpace.thy ===== *)
theory IoSpace
  imports GuestMap
begin

text \<open>
  The ranges of guest addresses the program serves (\<^verbatim>\<open>demu.c\<close>).  The list \<open>spaces\<close> is
  \<open>demu_state.memory\<close>, the newest range first.  A range names its handler and the device it was
  registered for, an index in the program's list of devices.  The hypervisor's own table of ranges
  is the ledger \<open>io_ranges\<close>; whether it accepts a range is the parameter \<open>map_io\<close>.
\<close>

datatype mmio_fn = Virtio_mmio_legacy_callback | Virtio_mmio_modern_callback

record demu_space =
  sp_start :: u64
  sp_end :: u64
  sp_fn :: mmio_fn
  sp_ptr :: nat

text \<open>
  The state the devices share: guest memory, its mappings, the interrupt levels the program has set,
  latest first, and the ranges.
\<close>

record machine =
  ram :: mem
  gmap :: demu_map
  irq_levels :: "(u32 \<times> int) list"
  spaces :: "demu_space list"
  io_ranges :: "(u64 \<times> u64) list"

definition demu_set_irq :: "u32 \<Rightarrow> int \<Rightarrow> 'a machine_scheme \<Rightarrow> 'a machine_scheme" where
  "demu_set_irq irq level s = s\<lparr>irq_levels := (irq, level) # irq_levels s\<rparr>"

fun demu_find_space :: "demu_space list \<Rightarrow> u64 \<Rightarrow> demu_space option" where
  "demu_find_space [] addr = None"
| "demu_find_space (sp # sps) addr =
     (if sp_start sp \<le> addr \<and> addr \<le> sp_end sp then Some sp else demu_find_space sps addr)"

definition demu_find_memory_space :: "'a machine_scheme \<Rightarrow> u64 \<Rightarrow> demu_space option" where
  "demu_find_memory_space s addr = demu_find_space (spaces s) addr"

text \<open>\<open>malloc\<close> is taken to succeed.\<close>

definition demu_register_space ::
  "demu_space list \<Rightarrow> u64 \<Rightarrow> u64 \<Rightarrow> mmio_fn \<Rightarrow> nat \<Rightarrow> int \<times> demu_space list" where
  "demu_register_space sps start stop fn p =
     (if demu_find_space sps start \<noteq> None \<or> demu_find_space sps stop \<noteq> None then (-1, sps)
      else (0, \<lparr>sp_start = start, sp_end = stop, sp_fn = fn, sp_ptr = p\<rparr> # sps))"

text \<open>The first range that starts at \<open>start\<close> is removed; its end is returned.\<close>

fun demu_deregister_space :: "demu_space list \<Rightarrow> u64 \<Rightarrow> u64 option \<times> demu_space list" where
  "demu_deregister_space [] start = (None, [])"
| "demu_deregister_space (sp # sps) start =
     (if start = sp_start sp then (Some (sp_end sp), sps)
      else case demu_deregister_space sps start of (e, sps') \<Rightarrow> (e, sp # sps'))"

definition demu_register_memory_space ::
  "(u64 \<Rightarrow> u64 \<Rightarrow> int) \<Rightarrow> 'a machine_scheme \<Rightarrow> u64 \<Rightarrow> u64 \<Rightarrow> mmio_fn \<Rightarrow> nat \<Rightarrow> int \<times> 'a machine_scheme" where
  "demu_register_memory_space map_io s start len fn p =
     (case demu_register_space (spaces s) start (start + len - 1) fn p of
        (rc, sps) \<Rightarrow>
          if rc < 0 then (-1, s)
          else if map_io start (start + len - 1) < 0 then
            (-1, s\<lparr>spaces := snd (demu_deregister_space sps start)\<rparr>)
          else (0, s\<lparr>spaces := sps, io_ranges := (start, start + len - 1) # io_ranges s\<rparr>))"

definition demu_deregister_memory_space :: "'a machine_scheme \<Rightarrow> u64 \<Rightarrow> 'a machine_scheme" where
  "demu_deregister_memory_space s start =
     (case demu_deregister_space (spaces s) start of
        (e, sps) \<Rightarrow>
          s\<lparr>spaces := sps, io_ranges := remove1 (start, case e of Some e \<Rightarrow> e | None \<Rightarrow> 0) (io_ranges s)\<rparr>)"

subsection \<open>Disjoint ranges\<close>

definition space_ok :: "demu_space \<Rightarrow> bool" where
  "space_ok sp \<longleftrightarrow> sp_start sp \<le> sp_end sp"

definition apart :: "demu_space \<Rightarrow> demu_space \<Rightarrow> bool" where
  "apart a b \<longleftrightarrow> sp_end a < sp_start b \<or> sp_end b < sp_start a"

text \<open>Every range is ordered, no two meet, and the hypervisor knows exactly these.\<close>

definition spaces_ok :: "demu_space list \<Rightarrow> bool" where
  "spaces_ok sps \<longleftrightarrow> list_all space_ok sps \<and> sorted_wrt apart sps"

lemma find_space_None:
  "demu_find_space sps a = None \<longleftrightarrow> (\<forall>sp\<in>set sps. \<not> (sp_start sp \<le> a \<and> a \<le> sp_end sp))"
  by (induction sps) auto

lemma find_space_Some:
  "demu_find_space sps a = Some sp \<Longrightarrow> sp \<in> set sps \<and> sp_start sp \<le> a \<and> a \<le> sp_end sp"
  by (induction sps) (auto split: if_splits)

lemma apart_sym: "apart a b \<Longrightarrow> apart b a"
  by (auto simp: apart_def)

lemma spaces_ok_unique:
  assumes "spaces_ok sps" and "x \<in> set sps" and "y \<in> set sps"
    and "sp_start x \<le> a" "a \<le> sp_end x" and "sp_start y \<le> a" "a \<le> sp_end y"
  shows "x = y"
proof (rule ccontr)
  assume "x \<noteq> y"
  then have "apart x y"
    using assms(1-3) unfolding spaces_ok_def sorted_wrt_iff_nth_less in_set_conv_nth
    by (metis apart_sym linorder_neqE_nat)
  then show False using assms(4-7) by (fastforce simp: apart_def)
qed

text \<open>Under the invariant a look-up does not depend on the order of the list.\<close>

lemma find_space_iff:
  assumes "spaces_ok sps"
  shows "demu_find_space sps a = Some sp \<longleftrightarrow> sp \<in> set sps \<and> sp_start sp \<le> a \<and> a \<le> sp_end sp"
proof
  assume r: "sp \<in> set sps \<and> sp_start sp \<le> a \<and> a \<le> sp_end sp"
  then obtain sp' where s: "demu_find_space sps a = Some sp'"
    using find_space_None [of sps a] by fastforce
  show "demu_find_space sps a = Some sp"
    using spaces_ok_unique [OF assms, of sp' sp a] find_space_Some [OF s] r s by blast
qed (rule find_space_Some)

text \<open>
  Checking the two ends is enough when the new range is at least as long as every other one, as it
  is here: each device registers \<open>VIRTIO_MMIO_IO_SIZE\<close> bytes.
\<close>

definition same_extent :: "u64 \<Rightarrow> demu_space list \<Rightarrow> bool" where
  "same_extent n sps \<longleftrightarrow> (\<forall>sp\<in>set sps. sp_end sp - sp_start sp = n)"

lemma ends_apart:
  assumes "sp_start sp \<le> sp_end sp" and "sp_end sp - sp_start sp = n" and "start \<le> start + n"
    and "\<not> (sp_start sp \<le> start \<and> start \<le> sp_end sp)"
    and "\<not> (sp_start sp \<le> start + n \<and> start + n \<le> sp_end sp)"
  shows "start + n < sp_start sp \<or> sp_end sp < start"
proof (rule ccontr)
  assume "\<not> (start + n < sp_start sp \<or> sp_end sp < start)"
  then have "start < sp_start sp" "sp_end sp < start + n" using assms(4,5) by auto
  moreover have "unat (sp_end sp) = unat (sp_start sp) + unat n"
    using assms(1,2) unat_sub [of "sp_start sp" "sp_end sp"] by (auto simp: word_le_nat_alt)
  moreover have "unat (start + n) = unat start + unat n"
    using assms(3) by (simp add: unat_plus_simple)
  ultimately show False by (simp add: word_less_nat_alt)
qed

lemma register_ok:
  assumes "spaces_ok sps" and "same_extent n sps" and "start \<le> start + n"
    and "demu_register_space sps start (start + n) fn p = (rc, sps')"
  shows "spaces_ok sps' \<and> same_extent n sps'"
  using assms ends_apart [of _ n start]
  by (fastforce simp: demu_register_space_def spaces_ok_def same_extent_def space_ok_def apart_def
      list_all_iff find_space_None split: if_splits)

lemma deregister_subset: "demu_deregister_space sps a = (e, sps') \<Longrightarrow> set sps' \<subseteq> set sps"
  by (induction sps arbitrary: sps') (auto split: if_splits prod.splits)

lemma deregister_ok: "spaces_ok sps \<Longrightarrow> spaces_ok (snd (demu_deregister_space sps a))"
proof (induction sps)
  case Nil
  then show ?case by simp
next
  case (Cons sp sps)
  obtain e sps' where r: "demu_deregister_space sps a = (e, sps')" by fastforce
  show ?case using Cons r deregister_subset [OF r] by (auto simp: spaces_ok_def)
qed

lemma register_deregister:
  "demu_register_space sps start stop fn p = (0, sps') \<Longrightarrow>
     demu_deregister_space sps' start = (Some stop, sps)"
  by (auto simp: demu_register_space_def split: if_splits)

end
