(* ===== verification/VirtioDev.thy ===== *)
theory VirtioDev
  imports Virtqueue IoSpace
begin

text \<open>
  The part of \<^verbatim>\<open>virtio/core.c\<close> and \<^verbatim>\<open>include/kvm/virtio.h\<close> that every virtio device shares: the
  device record, the table of operations a device provides, the life of a queue, the status and the
  configuration space.  The state of one device extends the machine's; \<open>'d\<close> is the type of the
  device's own state, the \<open>dev\<close> pointer of the operations.  What lies outside the repository is in
  the record \<open>env\<close>: the mapping libraries, the functions of the virtio ring header, the results of
  the system calls, and the fuel for the loops of the layers below.
\<close>

record env =
  map_ok :: "bool \<Rightarrow> u64 \<Rightarrow> u32 \<Rightarrow> bool"
  map_io :: "u64 \<Rightarrow> u64 \<Rightarrow> int"
  ring_abi :: vring_abi
  host_page :: u64
  efd_ok :: bool
  thread_ok :: bool
  sys_errno :: int
  serial_stat :: "(nat \<times> nat \<times> nat) option"
  io_fuel :: nat
  heap_junk :: "u16 list"
  config_len :: nat

subsection \<open>Constants\<close>

definition VIRTIO_ENDIAN_LE :: u16 where [c_simps]: "VIRTIO_ENDIAN_LE = 1"
definition VIRTIO_ENDIAN_HOST :: u16 where [c_simps]: "VIRTIO_ENDIAN_HOST = VIRTIO_ENDIAN_LE"
definition VIRTIO_CONFIG_S_DRIVER_OK :: u8 where [c_simps]: "VIRTIO_CONFIG_S_DRIVER_OK = 4"
definition VIRTIO_CONFIG_S_MASK :: u32 where [c_simps]: "VIRTIO_CONFIG_S_MASK = 0xCF"
definition VIRTIO__STATUS_START :: u32 where [c_simps]: "VIRTIO__STATUS_START = push_bit 8 1"
definition VIRTIO__STATUS_STOP :: u32 where [c_simps]: "VIRTIO__STATUS_STOP = push_bit 9 1"
definition VIRTIO__STATUS_SWAB :: u32 where [c_simps]: "VIRTIO__STATUS_SWAB = push_bit 10 1"
definition VIRTIO_PCI_O_CONFIG :: int where [c_simps]: "VIRTIO_PCI_O_CONFIG = 0"
definition VIRTIO_PCI_O_MSIX :: int where [c_simps]: "VIRTIO_PCI_O_MSIX = 1"
definition VIRTIO_IRQ_HIGH :: int where [c_simps]: "VIRTIO_IRQ_HIGH = 1"

subsection \<open>State\<close>

record virtio_device =
  vd_legacy :: bool
  vd_endian :: u16
  vd_features :: u64
  vd_status :: u32

text \<open>
  The registers, \<open>struct virtio_mmio_hdr\<close>, are a packed structure of 42 words; the code reads and
  writes some of them by their byte offset, so \<open>hdr\<close> is its image.
\<close>

record virtio_mmio =
  vm_addr :: u32
  vm_irq :: u32
  hdr :: "u32 list"

record 'd vstate = machine +
  vdev :: virtio_device
  vmmio :: virtio_mmio
  dev :: 'd

abbreviation upd_vdev :: "(virtio_device \<Rightarrow> virtio_device) \<Rightarrow> 'd vstate \<Rightarrow> 'd vstate" where
  "upd_vdev f s \<equiv> s\<lparr>vdev := f (vdev s)\<rparr>"

definition hdr_get :: "'d vstate \<Rightarrow> nat \<Rightarrow> u32" where
  "hdr_get s off = hdr (vmmio s) ! (off div 4)"

definition hdr_set :: "nat \<Rightarrow> u32 \<Rightarrow> 'd vstate \<Rightarrow> 'd vstate" where
  "hdr_set off v s = s\<lparr>vmmio := (vmmio s)\<lparr>hdr := (hdr (vmmio s))[off div 4 := v]\<rparr>\<rparr>"

text \<open>
  The operations of a device that this layer calls; the transport's own ones are called directly, since
  there is one transport.  \<open>get_vq\<close> is the address of a queue, here the queue itself and how to store
  it: \<open>None\<close> is an address outside the device's array.  \<open>get_config\<close> is the configuration's bytes.
\<close>

record 'd virtio_ops =
  get_config :: "'d \<Rightarrow> u8 list"
  put_config :: "u8 list \<Rightarrow> 'd \<Rightarrow> 'd"
  get_host_features :: "'d \<Rightarrow> u64"
  get_vq_count :: "'d \<Rightarrow> int"
  init_vq :: "'d vstate \<Rightarrow> u32 \<Rightarrow> (int \<times> 'd vstate) run"
  exit_vq :: "('d vstate \<Rightarrow> u32 \<Rightarrow> 'd vstate run) option"
  notify_vq :: "'d vstate \<Rightarrow> u32 \<Rightarrow> (int \<times> 'd vstate) run"
  get_vq :: "'d \<Rightarrow> u32 \<Rightarrow> virt_queue option"
  put_vq :: "'d \<Rightarrow> u32 \<Rightarrow> virt_queue \<Rightarrow> 'd"
  get_size_vq :: "'d \<Rightarrow> u32 \<Rightarrow> int"
  set_size_vq :: "'d \<Rightarrow> u32 \<Rightarrow> int \<Rightarrow> int \<times> 'd"
  notify_status :: "('d vstate \<Rightarrow> u32 \<Rightarrow> 'd vstate) option"

definition sel_vq :: "'d virtio_ops \<Rightarrow> 'd vstate \<Rightarrow> u32 \<Rightarrow> virt_queue run" where
  "sel_vq ops s n = (case get_vq ops (dev s) n of Some vq \<Rightarrow> Done vq | None \<Rightarrow> Wild)"

definition set_vq :: "'d virtio_ops \<Rightarrow> u32 \<Rightarrow> virt_queue \<Rightarrow> 'd vstate \<Rightarrow> 'd vstate" where
  "set_vq ops n vq s = s\<lparr>dev := put_vq ops (dev s) n vq\<rparr>"

subsection \<open>Queues\<close>

definition legacy_base :: "vring_addr \<Rightarrow> u64" where
  "legacy_base a = ucast (pfn a) * ucast (pgsize a)"

definition modern_addr :: "u32 \<Rightarrow> u32 \<Rightarrow> u64" where
  "modern_addr hi lo = push_bit 32 (ucast hi) OR ucast lo"

text \<open>The event index is used when \<open>features\<close> and the number of the feature bit have a bit in common.\<close>

definition uses_event_idx :: "u64 \<Rightarrow> bool" where
  "uses_event_idx features \<longleftrightarrow> features AND of_nat VIRTIO_RING_F_EVENT_IDX \<noteq> 0"

definition virtio_init_device_vq ::
  "env \<Rightarrow> virtio_device \<Rightarrow> demu_map \<Rightarrow> virt_queue \<Rightarrow> u32 \<Rightarrow> (virt_queue \<times> demu_map) run" where
  "virtio_init_device_vq e vd g vq nr_descs =
     (let addr = vq_addr vq;
          vq1 = vq\<lparr>vq_endian := vd_endian vd, use_event_idx := uses_event_idx (vd_features vd),
                vq_enabled := True\<rparr>
      in if va_legacy addr then
           bind_run (demu_map_guest_range (map_ok e) g (legacy_base addr)
               (vring_size (ring_abi e) nr_descs (align addr))) (\<lambda>(p, g').
             case p of
               None \<Rightarrow> Abort
             | Some p \<Rightarrow>
                 Done (vq1\<lparr>vr_num := nr_descs, vr_desc := Some p,
                         vr_avail := Some (p + vring_avail_off (ring_abi e) nr_descs),
                         vr_used := Some (p + vring_used_off (ring_abi e) nr_descs p (align addr))\<rparr>, g'))
         else
           bind_run (demu_map_guest_range (map_ok e) g (modern_addr (desc_hi addr) (desc_lo addr)) (host_page e)) (\<lambda>(d, g1).
             bind_run (demu_map_guest_range (map_ok e) g1 (modern_addr (used_hi addr) (used_lo addr)) (host_page e)) (\<lambda>(u, g2).
               bind_run (demu_map_guest_range (map_ok e) g2 (modern_addr (avail_hi addr) (avail_lo addr)) (host_page e)) (\<lambda>(a, g3).
                 if d = None \<or> u = None \<or> a = None then Abort
                 else Done (vq1\<lparr>vr_num := nr_descs, vr_desc := d, vr_avail := a, vr_used := u\<rparr>, g3)))))"

definition unmap_queue :: "env \<Rightarrow> virt_queue \<Rightarrow> demu_map \<Rightarrow> demu_map" where
  "unmap_queue e vq g =
     (let ptr = \<lambda>p. (case p of Some a \<Rightarrow> a | None \<Rightarrow> 0)
      in if va_legacy (vq_addr vq) then
           demu_unmap_guest_range g (ptr (vr_desc vq)) (vring_size (ring_abi e) (vr_num vq) (align (vq_addr vq)))
         else
           demu_unmap_guest_range
             (demu_unmap_guest_range
               (demu_unmap_guest_range g (ptr (vr_desc vq)) (host_page e))
               (ptr (vr_used vq)) (host_page e))
             (ptr (vr_avail vq)) (host_page e))"

definition virtio_exit_vq :: "env \<Rightarrow> 'd virtio_ops \<Rightarrow> 'd vstate \<Rightarrow> u32 \<Rightarrow> 'd vstate run" where
  "virtio_exit_vq e ops s num =
     bind_run (sel_vq ops s num) (\<lambda>vq.
       if vq_enabled vq then
         bind_run (case exit_vq ops of Some ex \<Rightarrow> ex s num | None \<Rightarrow> Done s) (\<lambda>s1.
           bind_run (sel_vq ops s1 num) (\<lambda>vq1.
             Done (set_vq ops num zero_vq (s1\<lparr>gmap := unmap_queue e vq1 (gmap s1)\<rparr>))))
       else Done (set_vq ops num zero_vq s))"

subsection \<open>Reset\<close>

text \<open>
  \<open>virtio_mmio_exit_vq\<close> is \<open>virtio_exit_vq\<close> on the transport's device, and \<open>virtio_mmio_reset\<close> does it
  for each queue (\<^verbatim>\<open>virtio/mmio.c\<close>).
\<close>

definition virtio_mmio_exit_vq :: "env \<Rightarrow> 'd virtio_ops \<Rightarrow> 'd vstate \<Rightarrow> u32 \<Rightarrow> 'd vstate run" where
  "virtio_mmio_exit_vq e ops s vq = virtio_exit_vq e ops s vq"

fun exit_vqs :: "env \<Rightarrow> 'd virtio_ops \<Rightarrow> nat \<Rightarrow> nat \<Rightarrow> 'd vstate \<Rightarrow> 'd vstate run" where
  "exit_vqs e ops vq 0 s = Done s"
| "exit_vqs e ops vq (Suc n) s =
     bind_run (virtio_mmio_exit_vq e ops s (of_nat vq)) (exit_vqs e ops (Suc vq) n)"

definition virtio_mmio_reset :: "env \<Rightarrow> 'd virtio_ops \<Rightarrow> 'd vstate \<Rightarrow> 'd vstate run" where
  "virtio_mmio_reset e ops s = exit_vqs e ops 0 (nat (get_vq_count ops (dev s))) s"

subsection \<open>Features, status, configuration\<close>

definition virtio_set_guest_features :: "'d vstate \<Rightarrow> u64 \<Rightarrow> 'd vstate" where
  "virtio_set_guest_features s features = upd_vdev (\<lambda>d. d\<lparr>vd_features := vd_features d OR features\<rparr>) s"

definition virtio_notify_status :: "env \<Rightarrow> 'd virtio_ops \<Rightarrow> 'd vstate \<Rightarrow> u8 \<Rightarrow> 'd vstate run" where
  "virtio_notify_status e ops s status =
     (let st0 = (vd_status (vdev s) AND NOT VIRTIO_CONFIG_S_MASK) OR ucast status;
          s0 = upd_vdev (\<lambda>d. d\<lparr>vd_status := st0\<rparr>) s
      in bind_run
           (if status AND VIRTIO_CONFIG_S_DRIVER_OK \<noteq> 0 \<and> st0 AND VIRTIO__STATUS_START = 0 then
              Done (upd_vdev (\<lambda>d. d\<lparr>vd_status := st0 OR VIRTIO__STATUS_START\<rparr>) s0,
                    ucast status OR VIRTIO__STATUS_START)
            else if status = 0 \<and> st0 AND VIRTIO__STATUS_START \<noteq> 0 then
              bind_run (virtio_mmio_reset e ops
                  (upd_vdev (\<lambda>d. d\<lparr>vd_status := st0 AND NOT VIRTIO__STATUS_START\<rparr>) s0)) (\<lambda>s1.
                Done (s1, ucast status OR VIRTIO__STATUS_STOP))
            else Done (s0, ucast status)) (\<lambda>(s1, ext).
         let swab = (status = 0 \<and> vd_status (vdev s1) AND VIRTIO__STATUS_SWAB = 0);
             s2 = (if swab then upd_vdev (\<lambda>d. d\<lparr>vd_status := vd_status d OR VIRTIO__STATUS_SWAB\<rparr>) s1 else s1);
             ext2 = (if swab then ext OR VIRTIO__STATUS_SWAB else ext)
         in Done (case notify_status ops of Some f \<Rightarrow> f s2 ext2 | None \<Rightarrow> s2)))"

text \<open>
  The transfer buffer of an access is a word of eight bytes, of which an access of \<open>n\<close> bytes
  uses the low ones.  An access beyond the configuration's bytes is \<open>Wild\<close>.
\<close>

definition low_bytes :: "nat \<Rightarrow> u64 \<Rightarrow> u64 \<Rightarrow> u64" where
  "low_bytes n data v = (data AND NOT (mask (8 * n))) OR (v AND mask (8 * n))"

definition virtio_read_config ::
  "'d virtio_ops \<Rightarrow> 'd vstate \<Rightarrow> u32 \<Rightarrow> u64 \<Rightarrow> u32 \<Rightarrow> (bool \<times> u64) run" where
  "virtio_read_config ops s offset data len =
     (if len \<in> {1, 2, 4} then
        if unat offset + unat len \<le> length (get_config ops (dev s)) then
          Done (True, low_bytes (unat len) data
            (word_of_le (take (unat len) (drop (unat offset) (get_config ops (dev s))))))
        else Wild
      else Done (False, data))"

definition virtio_write_config ::
  "'d virtio_ops \<Rightarrow> 'd vstate \<Rightarrow> u32 \<Rightarrow> u64 \<Rightarrow> u32 \<Rightarrow> (bool \<times> 'd vstate) run" where
  "virtio_write_config ops s offset data len =
     (if len \<in> {1, 2, 4} then
        if unat offset + unat len \<le> length (get_config ops (dev s)) then
          Done (True, s\<lparr>dev := put_config ops
            (overlay (get_config ops (dev s)) (unat offset) (le_of_word (unat len) data)) (dev s)\<rparr>)
        else Wild
      else Done (False, s))"

definition virtio__get_dev_specific_field :: "int \<Rightarrow> bool \<Rightarrow> int \<times> u32 option" where
  "virtio__get_dev_specific_field offset msix =
     (if msix then
        if offset < 4 then (VIRTIO_PCI_O_MSIX, None)
        else (VIRTIO_PCI_O_CONFIG, Some (of_int (offset - 4)))
      else (VIRTIO_PCI_O_CONFIG, Some (of_int offset)))"

end
