(* ===== verification/VirtioMmio.thy ===== *)
theory VirtioMmio
  imports VirtioDev
begin

text \<open>
  The virtio-mmio transport (\<^verbatim>\<open>virtio/mmio.c\<close>, \<^verbatim>\<open>virtio/mmio-modern.c\<close>, \<^verbatim>\<open>virtio/mmio-legacy.c\<close>): the
  registers, in the layouts of virtio 1.x and of its legacy predecessor, the interrupts, and setting
  the transport up.  The host is little-endian, so \<open>le32_to_cpu\<close> and \<open>cpu_to_le32\<close> are the identity.
\<close>

subsection \<open>Register offsets\<close>

definition VIRTIO_MMIO_MAGIC_VALUE :: u32 where [c_simps]: "VIRTIO_MMIO_MAGIC_VALUE = 0x000"
definition VIRTIO_MMIO_VERSION :: u32 where [c_simps]: "VIRTIO_MMIO_VERSION = 0x004"
definition VIRTIO_MMIO_DEVICE_ID :: u32 where [c_simps]: "VIRTIO_MMIO_DEVICE_ID = 0x008"
definition VIRTIO_MMIO_VENDOR_ID :: u32 where [c_simps]: "VIRTIO_MMIO_VENDOR_ID = 0x00c"
definition VIRTIO_MMIO_DEVICE_FEATURES :: u32 where [c_simps]: "VIRTIO_MMIO_DEVICE_FEATURES = 0x010"
definition VIRTIO_MMIO_DEVICE_FEATURES_SEL :: u32 where [c_simps]: "VIRTIO_MMIO_DEVICE_FEATURES_SEL = 0x014"
definition VIRTIO_MMIO_DRIVER_FEATURES :: u32 where [c_simps]: "VIRTIO_MMIO_DRIVER_FEATURES = 0x020"
definition VIRTIO_MMIO_DRIVER_FEATURES_SEL :: u32 where [c_simps]: "VIRTIO_MMIO_DRIVER_FEATURES_SEL = 0x024"
definition VIRTIO_MMIO_GUEST_PAGE_SIZE :: u32 where [c_simps]: "VIRTIO_MMIO_GUEST_PAGE_SIZE = 0x028"
definition VIRTIO_MMIO_QUEUE_SEL :: u32 where [c_simps]: "VIRTIO_MMIO_QUEUE_SEL = 0x030"
definition VIRTIO_MMIO_QUEUE_NUM_MAX :: u32 where [c_simps]: "VIRTIO_MMIO_QUEUE_NUM_MAX = 0x034"
definition VIRTIO_MMIO_QUEUE_NUM :: u32 where [c_simps]: "VIRTIO_MMIO_QUEUE_NUM = 0x038"
definition VIRTIO_MMIO_QUEUE_ALIGN :: u32 where [c_simps]: "VIRTIO_MMIO_QUEUE_ALIGN = 0x03c"
definition VIRTIO_MMIO_QUEUE_PFN :: u32 where [c_simps]: "VIRTIO_MMIO_QUEUE_PFN = 0x040"
definition VIRTIO_MMIO_QUEUE_READY :: u32 where [c_simps]: "VIRTIO_MMIO_QUEUE_READY = 0x044"
definition VIRTIO_MMIO_QUEUE_NOTIFY :: u32 where [c_simps]: "VIRTIO_MMIO_QUEUE_NOTIFY = 0x050"
definition VIRTIO_MMIO_INTERRUPT_STATUS :: u32 where [c_simps]: "VIRTIO_MMIO_INTERRUPT_STATUS = 0x060"
definition VIRTIO_MMIO_INTERRUPT_ACK :: u32 where [c_simps]: "VIRTIO_MMIO_INTERRUPT_ACK = 0x064"
definition VIRTIO_MMIO_STATUS :: u32 where [c_simps]: "VIRTIO_MMIO_STATUS = 0x070"
definition VIRTIO_MMIO_QUEUE_DESC_LOW :: u32 where [c_simps]: "VIRTIO_MMIO_QUEUE_DESC_LOW = 0x080"
definition VIRTIO_MMIO_QUEUE_DESC_HIGH :: u32 where [c_simps]: "VIRTIO_MMIO_QUEUE_DESC_HIGH = 0x084"
definition VIRTIO_MMIO_QUEUE_AVAIL_LOW :: u32 where [c_simps]: "VIRTIO_MMIO_QUEUE_AVAIL_LOW = 0x090"
definition VIRTIO_MMIO_QUEUE_AVAIL_HIGH :: u32 where [c_simps]: "VIRTIO_MMIO_QUEUE_AVAIL_HIGH = 0x094"
definition VIRTIO_MMIO_QUEUE_USED_LOW :: u32 where [c_simps]: "VIRTIO_MMIO_QUEUE_USED_LOW = 0x0a0"
definition VIRTIO_MMIO_QUEUE_USED_HIGH :: u32 where [c_simps]: "VIRTIO_MMIO_QUEUE_USED_HIGH = 0x0a4"
definition VIRTIO_MMIO_CONFIG_GENERATION :: u32 where [c_simps]: "VIRTIO_MMIO_CONFIG_GENERATION = 0x0fc"
definition VIRTIO_MMIO_CONFIG :: u32 where [c_simps]: "VIRTIO_MMIO_CONFIG = 0x100"
definition VIRTIO_MMIO_INT_VRING :: u32 where [c_simps]: "VIRTIO_MMIO_INT_VRING = push_bit 0 1"
definition VIRTIO_MMIO_INT_CONFIG :: u32 where [c_simps]: "VIRTIO_MMIO_INT_CONFIG = push_bit 1 1"
definition VIRTIO_MMIO_IO_SIZE :: u64 where [c_simps]: "VIRTIO_MMIO_IO_SIZE = 0x200"
definition VIRTIO_F_VERSION_1 :: nat where [c_simps]: "VIRTIO_F_VERSION_1 = 32"
definition VIRTIO_F_ACCESS_PLATFORM :: nat where [c_simps]: "VIRTIO_F_ACCESS_PLATFORM = 33"

text \<open>The offsets in the structure of the fields that have no register of their own name here.\<close>

abbreviation (input) reg :: "u32 \<Rightarrow> nat" where "reg r \<equiv> unat r"

subsection \<open>Interrupts\<close>

definition kvm__irq_trigger :: "'d vstate \<Rightarrow> u32 \<Rightarrow> 'd vstate" where
  "kvm__irq_trigger s irq = demu_set_irq irq VIRTIO_IRQ_HIGH s"

definition virtio_mmio_signal_vq :: "'d vstate \<Rightarrow> u32 \<Rightarrow> int \<times> 'd vstate" where
  "virtio_mmio_signal_vq s vq =
     (let s1 = hdr_set (reg VIRTIO_MMIO_INTERRUPT_STATUS)
                 (hdr_get s (reg VIRTIO_MMIO_INTERRUPT_STATUS) OR VIRTIO_MMIO_INT_VRING) s
      in (0, kvm__irq_trigger s1 (vm_irq (vmmio s1))))"

definition virtio_mmio_signal_config :: "'d vstate \<Rightarrow> int \<times> 'd vstate" where
  "virtio_mmio_signal_config s =
     (let s1 = hdr_set (reg VIRTIO_MMIO_INTERRUPT_STATUS)
                 (hdr_get s (reg VIRTIO_MMIO_INTERRUPT_STATUS) OR VIRTIO_MMIO_INT_CONFIG) s
      in (0, kvm__irq_trigger s1 (vm_irq (vmmio s1))))"

definition virtio_mmio_init_vq :: "'d virtio_ops \<Rightarrow> 'd vstate \<Rightarrow> u32 \<Rightarrow> (int \<times> 'd vstate) run" where
  "virtio_mmio_init_vq ops s vq = init_vq ops s vq"

definition virtio_mmio_device_specific ::
  "'d virtio_ops \<Rightarrow> 'd vstate \<Rightarrow> u32 \<Rightarrow> u64 \<Rightarrow> u32 \<Rightarrow> bool \<Rightarrow> (u64 \<times> 'd vstate) run" where
  "virtio_mmio_device_specific ops s addr data len is_write =
     (if is_write then
        bind_run (virtio_write_config ops s addr data len) (\<lambda>(b, s'). Done (data, s'))
      else bind_run (virtio_read_config ops s addr data len) (\<lambda>(b, data'). Done (data', s)))"

subsection \<open>The registers of virtio 1.x\<close>

definition modern_config_in ::
  "'d virtio_ops \<Rightarrow> 'd vstate \<Rightarrow> u32 \<Rightarrow> u64 \<Rightarrow> u64 run" where
  "modern_config_in ops s addr data =
     (let ret = (\<lambda>val :: u32. Done (low_bytes 4 data (ucast val)));
          sel = hdr_get s (reg VIRTIO_MMIO_QUEUE_SEL);
          vq = (\<lambda>f. bind_run (sel_vq ops s sel) (\<lambda>q. ret (f q)));
          host_sel = hdr_get s (reg VIRTIO_MMIO_DEVICE_FEATURES_SEL)
      in if addr \<in> {VIRTIO_MMIO_MAGIC_VALUE, VIRTIO_MMIO_VERSION, VIRTIO_MMIO_DEVICE_ID,
            VIRTIO_MMIO_VENDOR_ID, VIRTIO_MMIO_STATUS, VIRTIO_MMIO_INTERRUPT_STATUS} then
           ret (hdr_get s (unat addr))
         else if addr = VIRTIO_MMIO_DEVICE_FEATURES then
           (if host_sel > 1 then ret 0
            else ret (ucast (drop_bit (32 * unat host_sel)
              (push_bit VIRTIO_F_VERSION_1 1 OR push_bit VIRTIO_F_ACCESS_PLATFORM 1 OR get_host_features ops (dev s)))))
         else if addr = VIRTIO_MMIO_QUEUE_NUM_MAX then ret (of_int (get_size_vq ops (dev s) sel))
         else if addr = VIRTIO_MMIO_QUEUE_READY then vq (\<lambda>q. of_bool (vq_enabled q))
         else if addr = VIRTIO_MMIO_QUEUE_DESC_LOW then vq (\<lambda>q. desc_lo (vq_addr q))
         else if addr = VIRTIO_MMIO_QUEUE_DESC_HIGH then vq (\<lambda>q. desc_hi (vq_addr q))
         else if addr = VIRTIO_MMIO_QUEUE_USED_LOW then vq (\<lambda>q. used_lo (vq_addr q))
         else if addr = VIRTIO_MMIO_QUEUE_USED_HIGH then vq (\<lambda>q. used_hi (vq_addr q))
         else if addr = VIRTIO_MMIO_QUEUE_AVAIL_LOW then vq (\<lambda>q. avail_lo (vq_addr q))
         else if addr = VIRTIO_MMIO_QUEUE_AVAIL_HIGH then vq (\<lambda>q. avail_hi (vq_addr q))
         else if addr = VIRTIO_MMIO_CONFIG_GENERATION then ret 0
         else Done data)"

definition upd_vq_addr ::
  "'d virtio_ops \<Rightarrow> (vring_addr \<Rightarrow> vring_addr) \<Rightarrow> 'd vstate \<Rightarrow> 'd vstate run" where
  "upd_vq_addr ops f s =
     (let sel = hdr_get s (reg VIRTIO_MMIO_QUEUE_SEL)
      in bind_run (sel_vq ops s sel) (\<lambda>q. Done (set_vq ops sel (q\<lparr>vq_addr := f (vq_addr q)\<rparr>) s)))"

text \<open>The second word of the driver's features is only looked at for a warning.\<close>

definition modern_config_out ::
  "env \<Rightarrow> 'd virtio_ops \<Rightarrow> 'd vstate \<Rightarrow> u32 \<Rightarrow> u64 \<Rightarrow> 'd vstate run" where
  "modern_config_out e ops s addr data =
     (let val = ucast data :: u32;
          sel = hdr_get s (reg VIRTIO_MMIO_QUEUE_SEL)
      in if addr \<in> {VIRTIO_MMIO_DEVICE_FEATURES_SEL, VIRTIO_MMIO_DRIVER_FEATURES_SEL, VIRTIO_MMIO_QUEUE_SEL} then
           Done (hdr_set (unat addr) val s)
         else if addr = VIRTIO_MMIO_STATUS then
           virtio_notify_status e ops (hdr_set (reg VIRTIO_MMIO_STATUS) val s) (ucast val)
         else if addr = VIRTIO_MMIO_DRIVER_FEATURES then
           Done (if hdr_get s (reg VIRTIO_MMIO_DRIVER_FEATURES_SEL) = 0
                 then virtio_set_guest_features s (ucast val) else s)
         else if addr = VIRTIO_MMIO_QUEUE_NUM then
           (let s1 = hdr_set (reg VIRTIO_MMIO_QUEUE_NUM) val s
            in Done (s1\<lparr>dev := snd (set_size_vq ops (dev s1) sel (sint val))\<rparr>))
         else if addr = VIRTIO_MMIO_QUEUE_READY then
           (if val \<noteq> 0 then bind_run (virtio_mmio_init_vq ops s sel) (\<lambda>(r, s'). Done s')
            else virtio_mmio_exit_vq e ops s sel)
         else if addr = VIRTIO_MMIO_QUEUE_NOTIFY then
           bind_run (notify_vq ops s val) (\<lambda>(r, s'). Done s')
         else if addr = VIRTIO_MMIO_INTERRUPT_ACK then
           Done (hdr_set (reg VIRTIO_MMIO_INTERRUPT_STATUS)
             (hdr_get s (reg VIRTIO_MMIO_INTERRUPT_STATUS) AND NOT val) s)
         else if addr = VIRTIO_MMIO_QUEUE_DESC_LOW then upd_vq_addr ops (\<lambda>a. a\<lparr>desc_lo := val\<rparr>) s
         else if addr = VIRTIO_MMIO_QUEUE_DESC_HIGH then upd_vq_addr ops (\<lambda>a. a\<lparr>desc_hi := val\<rparr>) s
         else if addr = VIRTIO_MMIO_QUEUE_USED_LOW then upd_vq_addr ops (\<lambda>a. a\<lparr>used_lo := val\<rparr>) s
         else if addr = VIRTIO_MMIO_QUEUE_USED_HIGH then upd_vq_addr ops (\<lambda>a. a\<lparr>used_hi := val\<rparr>) s
         else if addr = VIRTIO_MMIO_QUEUE_AVAIL_LOW then upd_vq_addr ops (\<lambda>a. a\<lparr>avail_lo := val\<rparr>) s
         else if addr = VIRTIO_MMIO_QUEUE_AVAIL_HIGH then upd_vq_addr ops (\<lambda>a. a\<lparr>avail_hi := val\<rparr>) s
         else Done s)"

definition reg_offset :: "'d vstate \<Rightarrow> u64 \<Rightarrow> u32" where
  "reg_offset s addr = ucast (addr - ucast (vm_addr (vmmio s)))"

definition virtio_mmio_modern_callback ::
  "env \<Rightarrow> 'd virtio_ops \<Rightarrow> 'd vstate \<Rightarrow> u64 \<Rightarrow> u64 \<Rightarrow> u32 \<Rightarrow> bool \<Rightarrow> (u64 \<times> 'd vstate) run" where
  "virtio_mmio_modern_callback e ops s addr data len is_write =
     (let offset = reg_offset s addr
      in if offset \<ge> VIRTIO_MMIO_CONFIG then
           virtio_mmio_device_specific ops s (offset - VIRTIO_MMIO_CONFIG) data len is_write
         else if len \<noteq> 4 then Done (data, s)
         else if is_write then bind_run (modern_config_out e ops s offset data) (\<lambda>s'. Done (data, s'))
         else bind_run (modern_config_in ops s offset data) (\<lambda>data'. Done (data', s)))"

subsection \<open>The legacy registers\<close>

definition ioport__read32 :: "u64 \<Rightarrow> u32" where
  "ioport__read32 data = ucast data"

definition ioport__write32 :: "u64 \<Rightarrow> u32 \<Rightarrow> u64" where
  "ioport__write32 data val = low_bytes 4 data (ucast val)"

definition legacy_config_in :: "'d virtio_ops \<Rightarrow> 'd vstate \<Rightarrow> u32 \<Rightarrow> u64 \<Rightarrow> u64 run" where
  "legacy_config_in ops s addr data =
     (let sel = hdr_get s (reg VIRTIO_MMIO_QUEUE_SEL)
      in if addr \<in> {VIRTIO_MMIO_MAGIC_VALUE, VIRTIO_MMIO_VERSION, VIRTIO_MMIO_DEVICE_ID,
            VIRTIO_MMIO_VENDOR_ID, VIRTIO_MMIO_STATUS, VIRTIO_MMIO_INTERRUPT_STATUS} then
           Done (ioport__write32 data (hdr_get s (unat addr)))
         else if addr = VIRTIO_MMIO_DEVICE_FEATURES then
           Done (ioport__write32 data
             (if hdr_get s (reg VIRTIO_MMIO_DEVICE_FEATURES_SEL) = 0
              then ucast (get_host_features ops (dev s)) else 0))
         else if addr = VIRTIO_MMIO_QUEUE_PFN then
           bind_run (sel_vq ops s sel) (\<lambda>q. Done (ioport__write32 data (pfn (vq_addr q))))
         else if addr = VIRTIO_MMIO_QUEUE_NUM_MAX then
           Done (ioport__write32 data (of_int (get_size_vq ops (dev s) sel)))
         else Done data)"

definition legacy_config_out ::
  "env \<Rightarrow> 'd virtio_ops \<Rightarrow> 'd vstate \<Rightarrow> u32 \<Rightarrow> u64 \<Rightarrow> 'd vstate run" where
  "legacy_config_out e ops s addr data =
     (let val = ioport__read32 data;
          sel = hdr_get s (reg VIRTIO_MMIO_QUEUE_SEL)
      in if addr \<in> {VIRTIO_MMIO_DEVICE_FEATURES_SEL, VIRTIO_MMIO_DRIVER_FEATURES_SEL, VIRTIO_MMIO_QUEUE_SEL} then
           Done (hdr_set (unat addr) val s)
         else if addr = VIRTIO_MMIO_STATUS then
           (let s1 = hdr_set (reg VIRTIO_MMIO_STATUS) val s;
                s2 = (if val = 0 then upd_vdev (\<lambda>d. d\<lparr>vd_endian := VIRTIO_ENDIAN_HOST\<rparr>) s1 else s1)
            in virtio_notify_status e ops s2 (ucast val))
         else if addr = VIRTIO_MMIO_DRIVER_FEATURES then
           Done (if hdr_get s (reg VIRTIO_MMIO_DRIVER_FEATURES_SEL) = 0
                 then virtio_set_guest_features s (ucast val) else s)
         else if addr = VIRTIO_MMIO_GUEST_PAGE_SIZE then
           Done (hdr_set (reg VIRTIO_MMIO_GUEST_PAGE_SIZE) val s)
         else if addr = VIRTIO_MMIO_QUEUE_NUM then
           (let s1 = hdr_set (reg VIRTIO_MMIO_QUEUE_NUM) val s
            in Done (s1\<lparr>dev := snd (set_size_vq ops (dev s1) sel (sint val))\<rparr>))
         else if addr = VIRTIO_MMIO_QUEUE_ALIGN then upd_vq_addr ops (\<lambda>a. a\<lparr>desc_hi := val\<rparr>) s
         else if addr = VIRTIO_MMIO_QUEUE_PFN then
           (if val \<noteq> 0 then
              bind_run (upd_vq_addr ops (\<lambda>a. a\<lparr>va_legacy := True, desc_lo := val,
                  avail_lo := hdr_get s (reg VIRTIO_MMIO_GUEST_PAGE_SIZE)\<rparr>) s) (\<lambda>s1.
                bind_run (virtio_mmio_init_vq ops s1 sel) (\<lambda>(r, s'). Done s'))
            else virtio_mmio_exit_vq e ops s sel)
         else if addr = VIRTIO_MMIO_QUEUE_NOTIFY then
           bind_run (notify_vq ops s val) (\<lambda>(r, s'). Done s')
         else if addr = VIRTIO_MMIO_INTERRUPT_ACK then
           Done (hdr_set (reg VIRTIO_MMIO_INTERRUPT_STATUS)
             (hdr_get s (reg VIRTIO_MMIO_INTERRUPT_STATUS) AND NOT val) s)
         else Done s)"

definition virtio_mmio_legacy_callback ::
  "env \<Rightarrow> 'd virtio_ops \<Rightarrow> 'd vstate \<Rightarrow> u64 \<Rightarrow> u64 \<Rightarrow> u32 \<Rightarrow> bool \<Rightarrow> (u64 \<times> 'd vstate) run" where
  "virtio_mmio_legacy_callback e ops s addr data len is_write =
     (let offset = reg_offset s addr
      in if offset \<ge> VIRTIO_MMIO_CONFIG then
           virtio_mmio_device_specific ops s (offset - VIRTIO_MMIO_CONFIG) data len is_write
         else if is_write then bind_run (legacy_config_out e ops s offset data) (\<lambda>s'. Done (data, s'))
         else bind_run (legacy_config_in ops s offset data) (\<lambda>data'. Done (data', s)))"

subsection \<open>Setting the transport up\<close>

text \<open>The registers after \<open>calloc\<close>, and as \<open>virtio_mmio_init\<close> presents them.\<close>

definition zero_hdr :: "u32 list" where
  "zero_hdr = replicate 42 0"

definition initial_hdr :: "bool \<Rightarrow> int \<Rightarrow> u32 list" where
  "initial_hdr legacy subsys_id =
     (zero_hdr
       [unat VIRTIO_MMIO_MAGIC_VALUE div 4 := word_of_le [0x76, 0x69, 0x72, 0x74],
        unat VIRTIO_MMIO_VERSION div 4 := (if legacy then 1 else 2),
        unat VIRTIO_MMIO_DEVICE_ID div 4 := of_int subsys_id,
        unat VIRTIO_MMIO_VENDOR_ID div 4 := 0x4d564b4c,
        unat VIRTIO_MMIO_QUEUE_NUM_MAX div 4 := 256])"

text \<open>\<open>ptr\<close> is the device's index, which the handler gets back as its \<open>void *\<close> argument.\<close>

definition virtio_mmio_init ::
  "env \<Rightarrow> 'd vstate \<Rightarrow> nat \<Rightarrow> int \<Rightarrow> u32 \<Rightarrow> u32 \<Rightarrow> int \<times> 'd vstate" where
  "virtio_mmio_init e s p subsys_id addr irq =
     (let legacy = vd_legacy (vdev s);
          s1 = s\<lparr>vmmio := (vmmio s)\<lparr>vm_addr := addr, vm_irq := irq\<rparr>\<rparr>;
          s2 = (if legacy then s1 else upd_vdev (\<lambda>d. d\<lparr>vd_endian := VIRTIO_ENDIAN_LE\<rparr>) s1)
      in case demu_register_memory_space (map_io e) s2 (ucast addr) VIRTIO_MMIO_IO_SIZE
             (if legacy then Virtio_mmio_legacy_callback else Virtio_mmio_modern_callback) p of
           (r, s3) \<Rightarrow>
             if r < 0 then (r, s3)
             else (0, s3\<lparr>vmmio := (vmmio s3)\<lparr>hdr := initial_hdr legacy subsys_id\<rparr>\<rparr>))"

definition virtio_mmio_exit :: "env \<Rightarrow> 'd virtio_ops \<Rightarrow> 'd vstate \<Rightarrow> (int \<times> 'd vstate) run" where
  "virtio_mmio_exit e ops s =
     bind_run (virtio_mmio_reset e ops s) (\<lambda>s1.
       Done (0, demu_deregister_memory_space s1 (ucast (vm_addr (vmmio s1)))))"

datatype virtio_trans = VIRTIO_PCI | VIRTIO_PCI_LEGACY | VIRTIO_MMIO | VIRTIO_MMIO_LEGACY

definition virtio_init ::
  "env \<Rightarrow> 'd vstate \<Rightarrow> nat \<Rightarrow> virtio_trans \<Rightarrow> int \<Rightarrow> u32 \<Rightarrow> u32 \<Rightarrow> int \<times> 'd vstate" where
  "virtio_init e s p tr subsys_id addr irq =
     (let s1 = (if vd_endian (vdev s) = 0 then upd_vdev (\<lambda>d. d\<lparr>vd_endian := VIRTIO_ENDIAN_HOST\<rparr>) s else s);
          new = (\<lambda>s. s\<lparr>vmmio := \<lparr>vm_addr = 0, vm_irq = 0, hdr = zero_hdr\<rparr>\<rparr>)
      in case tr of
           VIRTIO_MMIO_LEGACY \<Rightarrow>
             virtio_mmio_init e (new (upd_vdev (\<lambda>d. d\<lparr>vd_legacy := True\<rparr>) s1)) p subsys_id addr irq
         | VIRTIO_MMIO \<Rightarrow> virtio_mmio_init e (new s1) p subsys_id addr irq
         | _ \<Rightarrow> (-1, s1))"

end
