(* ===== verification/RbTree.thy ===== *)
theory RbTree
  imports Prelude
begin

text \<open>
  The red-black tree of \<^verbatim>\<open>util/rbtree.c\<close> and \<^verbatim>\<open>include/linux/rbtree_augmented.h\<close>, without
  augmentation.  A node pointer, from which the code reaches the node's subtree through the child
  links and everything else through the parent link, is a zipper: the subtree and the path of
  ancestors from the parent to the root.  \<open>LeftOf c x s\<close> is an ancestor of colour \<open>c\<close> whose left
  child we come from and whose right child is \<open>s\<close>.  An assignment through a node or its ancestors
  is an update of the zipper; \<open>plug\<close> reads off the tree at the root.  The colour kept in the low
  bit of \<open>__rb_parent_color\<close> is the node's first component.
\<close>

datatype colour = Red | Black

datatype 'a rbt = Leaf | Node colour "'a rbt" 'a "'a rbt"

datatype 'a frame = LeftOf colour 'a "'a rbt" | RightOf colour "'a rbt" 'a

type_synonym 'a path = "'a frame list"

fun fill :: "'a frame \<Rightarrow> 'a rbt \<Rightarrow> 'a rbt" where
  "fill (LeftOf c x r) t = Node c t x r"
| "fill (RightOf c l x) t = Node c l x t"

fun plug :: "'a rbt \<Rightarrow> 'a path \<Rightarrow> 'a rbt" where
  "plug t [] = t"
| "plug t (f # ps) = plug (fill f t) ps"

fun frame_colour :: "'a frame \<Rightarrow> colour" where
  "frame_colour (LeftOf c x r) = c"
| "frame_colour (RightOf c l x) = c"

fun is_red :: "'a rbt \<Rightarrow> bool" where
  "is_red (Node Red l x r) = True"
| "is_red t = False"

fun rb_set_colour :: "colour \<Rightarrow> 'a rbt \<Rightarrow> 'a rbt" where
  "rb_set_colour c Leaf = Leaf"
| "rb_set_colour c (Node d l x r) = Node c l x r"

subsection \<open>Insertion\<close>

text \<open>
  The loop of \<open>__rb_insert\<close> at a red node with parent and grandparent at the head of the path.  A
  red parent without a grandparent is a null dereference.
\<close>

fun rb_insert_loop :: "'a rbt \<Rightarrow> 'a path \<Rightarrow> 'a rbt run" where
  "rb_insert_loop node [] = Done (rb_set_colour Black node)"
| "rb_insert_loop node [p] =
     (if frame_colour p = Black then Done (plug node [p]) else Wild)"
| "rb_insert_loop node (p # g # gs) =
     (if frame_colour p = Black then Done (plug node (p # g # gs))
      else
        (case g of
           LeftOf gc gx u \<Rightarrow>
             if is_red u then
               rb_insert_loop (Node Red (rb_set_colour Black (fill p node)) gx (rb_set_colour Black u)) gs
             else
               (case p of
                  RightOf pc pl px \<Rightarrow>
                    (case node of
                       Leaf \<Rightarrow> Wild
                     | Node nc nl nx nr \<Rightarrow>
                         Done (plug (Node gc (Node Red pl px (rb_set_colour Black nl)) nx
                                      (Node Red (rb_set_colour Black nr) gx u)) gs))
                | LeftOf pc px pr \<Rightarrow>
                    Done (plug (Node gc node px (Node Red (rb_set_colour Black pr) gx u)) gs))
         | RightOf gc u gx \<Rightarrow>
             if is_red u then
               rb_insert_loop (Node Red (rb_set_colour Black u) gx (rb_set_colour Black (fill p node))) gs
             else
               (case p of
                  LeftOf pc px pr \<Rightarrow>
                    (case node of
                       Leaf \<Rightarrow> Wild
                     | Node nc nl nx nr \<Rightarrow>
                         Done (plug (Node gc (Node Red u gx (rb_set_colour Black nl)) nx
                                      (Node Red (rb_set_colour Black nr) px pr)) gs))
                | RightOf pc pl px \<Rightarrow>
                    Done (plug (Node gc (Node Red u gx (rb_set_colour Black pl)) px node) gs))))"

text \<open>
  The descent that the users of the tree write out before \<open>rb_link_node\<close>, and that a lookup does:
  it stops at the key or at the empty link where the key belongs.
\<close>

fun rb_descend :: "'a::linorder \<Rightarrow> 'a rbt \<Rightarrow> 'a path \<Rightarrow> 'a rbt \<times> 'a path" where
  "rb_descend k Leaf ps = (Leaf, ps)"
| "rb_descend k (Node c l x r) ps =
     (if k < x then rb_descend k l (LeftOf c x r # ps)
      else if x < k then rb_descend k r (RightOf c l x # ps)
      else (Node c l x r, ps))"

text \<open>\<open>rb_link_node\<close> hangs a red node without children at the link; \<open>rb_insert_color\<close> rebalances.\<close>

definition rb_insert_at :: "'a \<Rightarrow> 'a path \<Rightarrow> 'a rbt run" where
  "rb_insert_at k ps = rb_insert_loop (Node Red Leaf k Leaf) ps"

definition rb_lookup :: "'a::linorder \<Rightarrow> 'a rbt \<Rightarrow> bool" where
  "rb_lookup k t = (fst (rb_descend k t []) \<noteq> Leaf)"

definition rb_insert :: "'a::linorder \<Rightarrow> 'a rbt \<Rightarrow> 'a rbt run" where
  "rb_insert k t =
     (case rb_descend k t [] of
        (Leaf, ps) \<Rightarrow> rb_insert_at k ps
      | _ \<Rightarrow> Done t)"

subsection \<open>Removal\<close>

text \<open>
  One round of \<open>____rb_erase_color\<close> below a parent of colour \<open>pc\<close> with a black sibling: cases 2, 3
  and 4.  \<open>Short t\<close> is case 2 under a black parent, where the loop goes on one level up.
\<close>

datatype 'a fixup = Fixed "'a rbt" | Short "'a rbt" | Crash

definition erase_right_sibling :: "colour \<Rightarrow> 'a rbt \<Rightarrow> 'a \<Rightarrow> 'a rbt \<Rightarrow> 'a fixup" where
  "erase_right_sibling pc t px s =
     (case s of
        Leaf \<Rightarrow> Crash
      | Node sc sl sx sr \<Rightarrow>
          if \<not> is_red sr then
            if \<not> is_red sl then
              if pc = Red then Fixed (Node Black t px (Node Red sl sx sr))
              else Short (Node pc t px (Node Red sl sx sr))
            else
              (case sl of
                 Leaf \<Rightarrow> Crash
               | Node lc sll slx slr \<Rightarrow>
                   Fixed (Node pc (Node Black t px sll) slx (Node Black (rb_set_colour Black slr) sx sr)))
          else Fixed (Node pc (Node Black t px sl) sx (rb_set_colour Black sr)))"

definition erase_left_sibling :: "colour \<Rightarrow> 'a rbt \<Rightarrow> 'a \<Rightarrow> 'a rbt \<Rightarrow> 'a fixup" where
  "erase_left_sibling pc s px t =
     (case s of
        Leaf \<Rightarrow> Crash
      | Node sc sl sx sr \<Rightarrow>
          if \<not> is_red sl then
            if \<not> is_red sr then
              if pc = Red then Fixed (Node Black (Node Red sl sx sr) px t)
              else Short (Node pc (Node Red sl sx sr) px t)
            else
              (case sr of
                 Leaf \<Rightarrow> Crash
               | Node rc srl srx srr \<Rightarrow>
                   Fixed (Node pc (Node Black sl sx (rb_set_colour Black srl)) srx (Node Black srr px t)))
          else Fixed (Node pc (rb_set_colour Black sl) sx (Node Black sr px t)))"

text \<open>
  \<open>____rb_erase_color\<close> at the child that lacks a black node.  Case 1 rotates a red sibling up; the
  parent is then red, so cases 2 to 4 finish below it.
\<close>

fun rb_erase_color :: "'a rbt \<Rightarrow> 'a path \<Rightarrow> 'a rbt run" where
  "rb_erase_color t [] = Done t"
| "rb_erase_color t (LeftOf c x s # ps) =
     (if is_red s then
        (case s of
           Node sc (Node tc a y b) sx sr \<Rightarrow>
             (case erase_right_sibling Red t x (Node Black a y b) of
                Fixed u \<Rightarrow> Done (plug (Node c u sx sr) ps)
              | _ \<Rightarrow> Wild)
         | _ \<Rightarrow> Wild)
      else
        (case erase_right_sibling c t x s of
           Fixed u \<Rightarrow> Done (plug u ps)
         | Short u \<Rightarrow> rb_erase_color u ps
         | Crash \<Rightarrow> Wild))"
| "rb_erase_color t (RightOf c s x # ps) =
     (if is_red s then
        (case s of
           Node sc sl sx (Node tc a y b) \<Rightarrow>
             (case erase_left_sibling Red (Node Black a y b) x t of
                Fixed u \<Rightarrow> Done (plug (Node c sl sx u) ps)
              | _ \<Rightarrow> Wild)
         | _ \<Rightarrow> Wild)
      else
        (case erase_left_sibling c s x t of
           Fixed u \<Rightarrow> Done (plug u ps)
         | Short u \<Rightarrow> rb_erase_color u ps
         | Crash \<Rightarrow> Wild))"

text \<open>The leftmost node below a right child, with the path down to it: the successor.\<close>

fun rb_leftmost :: "'a rbt \<Rightarrow> 'a path \<Rightarrow> 'a rbt \<times> 'a path" where
  "rb_leftmost Leaf ps = (Leaf, ps)"
| "rb_leftmost (Node c Leaf x r) ps = (Node c Leaf x r, ps)"
| "rb_leftmost (Node c l x r) ps = rb_leftmost l (LeftOf c x r # ps)"

text \<open>
  The child that takes the place of a removed node with no left child, and the rebalancing when
  the node was black: the tails of cases 1, 2 and 3 of \<open>__rb_erase_augmented\<close>.
\<close>

definition rb_splice :: "colour \<Rightarrow> 'a rbt \<Rightarrow> colour \<Rightarrow> 'a path \<Rightarrow> 'a rbt run" where
  "rb_splice childc child c ps =
     (if child \<noteq> Leaf then Done (plug (rb_set_colour childc child) ps)
      else if c = Black \<and> ps \<noteq> [] then rb_erase_color Leaf ps
      else Done (plug Leaf ps))"

definition rb_erase :: "'a rbt \<Rightarrow> 'a path \<Rightarrow> 'a rbt run" where
  "rb_erase node ps =
     (case node of
        Leaf \<Rightarrow> Wild
      | Node c l x r \<Rightarrow>
          if l = Leaf then rb_splice c r c ps
          else if r = Leaf then Done (plug (rb_set_colour c l) ps)
          else
            (case rb_leftmost r [] of
               (Node sc sl s c2, inner) \<Rightarrow> rb_splice Black c2 sc (inner @ RightOf c l s # ps)
             | (Leaf, inner) \<Rightarrow> Wild))"

definition rb_remove :: "'a::linorder \<Rightarrow> 'a rbt \<Rightarrow> 'a rbt run" where
  "rb_remove k t = (case rb_descend k t [] of (node, ps) \<Rightarrow> rb_erase node ps)"

subsection \<open>Traversal\<close>

fun rb_rightmost :: "'a rbt \<Rightarrow> 'a path \<Rightarrow> 'a rbt \<times> 'a path" where
  "rb_rightmost Leaf ps = (Leaf, ps)"
| "rb_rightmost (Node c l x Leaf) ps = (Node c l x Leaf, ps)"
| "rb_rightmost (Node c l x r) ps = rb_rightmost r (RightOf c l x # ps)"

definition rb_first :: "'a rbt \<Rightarrow> ('a rbt \<times> 'a path) option" where
  "rb_first t = (if t = Leaf then None else Some (rb_leftmost t []))"

definition rb_last :: "'a rbt \<Rightarrow> ('a rbt \<times> 'a path) option" where
  "rb_last t = (if t = Leaf then None else Some (rb_rightmost t []))"

fun rb_up_from_right :: "'a rbt \<Rightarrow> 'a path \<Rightarrow> ('a rbt \<times> 'a path) option" where
  "rb_up_from_right t [] = None"
| "rb_up_from_right t (LeftOf c x r # ps) = Some (Node c t x r, ps)"
| "rb_up_from_right t (RightOf c l x # ps) = rb_up_from_right (Node c l x t) ps"

fun rb_up_from_left :: "'a rbt \<Rightarrow> 'a path \<Rightarrow> ('a rbt \<times> 'a path) option" where
  "rb_up_from_left t [] = None"
| "rb_up_from_left t (RightOf c l x # ps) = Some (Node c l x t, ps)"
| "rb_up_from_left t (LeftOf c x r # ps) = rb_up_from_left (Node c t x r) ps"

fun rb_next :: "'a rbt \<times> 'a path \<Rightarrow> ('a rbt \<times> 'a path) option" where
  "rb_next (Leaf, ps) = None"
| "rb_next (Node c l x r, ps) =
     (if r \<noteq> Leaf then Some (rb_leftmost r (RightOf c l x # ps))
      else rb_up_from_right (Node c l x r) ps)"

fun rb_prev :: "'a rbt \<times> 'a path \<Rightarrow> ('a rbt \<times> 'a path) option" where
  "rb_prev (Leaf, ps) = None"
| "rb_prev (Node c l x r, ps) =
     (if l \<noteq> Leaf then Some (rb_rightmost l (LeftOf c x r # ps))
      else rb_up_from_left (Node c l x r) ps)"

fun rb_replace_node :: "'a \<Rightarrow> 'a rbt \<times> 'a path \<Rightarrow> 'a rbt" where
  "rb_replace_node y (Leaf, ps) = plug Leaf ps"
| "rb_replace_node y (Node c l x r, ps) = plug (Node c l y r) ps"

fun rb_left_deepest_node :: "'a rbt \<Rightarrow> 'a path \<Rightarrow> 'a rbt \<times> 'a path" where
  "rb_left_deepest_node Leaf ps = (Leaf, ps)"
| "rb_left_deepest_node (Node c l x r) ps =
     (if l \<noteq> Leaf then rb_left_deepest_node l (LeftOf c x r # ps)
      else if r \<noteq> Leaf then rb_left_deepest_node r (RightOf c l x # ps)
      else (Node c l x r, ps))"

fun rb_next_postorder :: "'a rbt \<times> 'a path \<Rightarrow> ('a rbt \<times> 'a path) option" where
  "rb_next_postorder (t, []) = None"
| "rb_next_postorder (t, LeftOf c x r # ps) =
     (if r \<noteq> Leaf then Some (rb_left_deepest_node r (RightOf c t x # ps)) else Some (Node c t x r, ps))"
| "rb_next_postorder (t, RightOf c l x # ps) = Some (Node c l x t, ps)"

definition rb_first_postorder :: "'a rbt \<Rightarrow> ('a rbt \<times> 'a path) option" where
  "rb_first_postorder t = (if t = Leaf then None else Some (rb_left_deepest_node t []))"

end
