(* ===== verification/RbTreeProofs.thy ===== *)
theory RbTreeProofs
  imports RbTree
begin

text \<open>
  The red-black tree is an ordered set: insertion and removal keep the in-order sequence but for
  the key, and keep the colour and black-height rules, so no pointer of the rebalancing loops is
  null and the height stays logarithmic.
\<close>

subsection \<open>In-order sequence\<close>

fun inorder :: "'a rbt \<Rightarrow> 'a list" where
  "inorder Leaf = []"
| "inorder (Node c l x r) = inorder l @ x # inorder r"

fun before :: "'a path \<Rightarrow> 'a list" where
  "before [] = []"
| "before (LeftOf c x r # ps) = before ps"
| "before (RightOf c l x # ps) = before ps @ inorder l @ [x]"

fun after :: "'a path \<Rightarrow> 'a list" where
  "after [] = []"
| "after (LeftOf c x r # ps) = x # inorder r @ after ps"
| "after (RightOf c l x # ps) = after ps"

lemma inorder_plug [simp]: "inorder (plug t ps) = before ps @ inorder t @ after ps"
proof (induction ps arbitrary: t)
  case (Cons f ps)
  then show ?case by (cases f) simp_all
qed simp

lemma inorder_set_colour [simp]: "inorder (rb_set_colour c t) = inorder t"
  by (cases t) simp_all

lemma inorder_fill [simp]: "inorder (fill f t) = before [f] @ inorder t @ after [f]"
  by (cases f) simp_all

lemma before_append [simp]: "before (ps @ qs) = before qs @ before ps"
  by (induction ps rule: before.induct) simp_all

lemma after_append [simp]: "after (ps @ qs) = after ps @ after qs"
  by (induction ps rule: after.induct) simp_all

lemma before_Cons: "before (f # ps) = before ps @ before [f]"
  by (cases f) simp_all

lemma after_Cons: "after (f # ps) = after [f] @ after ps"
  by (cases f) simp_all

lemma inorder_insert_loop:
  "rb_insert_loop t ps = Done u \<Longrightarrow> inorder u = before ps @ inorder t @ after ps"
proof (induction t ps rule: rb_insert_loop.induct)
  case (1 t)
  then show ?case by auto
next
  case (2 t p)
  then show ?case by (cases p) (auto split: if_splits)
next
  case (3 t p g gs)
  show ?case
    using 3
    by (cases g; cases p)
      (auto simp: before_Cons [of g] after_Cons [of g] split: if_splits rbt.splits)
qed

lemma erase_right_sibling_inorder:
  "erase_right_sibling pc t px s = Fixed u \<or> erase_right_sibling pc t px s = Short u \<Longrightarrow>
     inorder u = inorder t @ px # inorder s"
  by (auto simp: erase_right_sibling_def split: rbt.splits if_splits)

lemma erase_left_sibling_inorder:
  "erase_left_sibling pc s px t = Fixed u \<or> erase_left_sibling pc s px t = Short u \<Longrightarrow>
     inorder u = inorder s @ px # inorder t"
  by (auto simp: erase_left_sibling_def split: rbt.splits if_splits)

lemma inorder_erase_color:
  "rb_erase_color t ps = Done u \<Longrightarrow> inorder u = before ps @ inorder t @ after ps"
proof (induction t ps arbitrary: u rule: rb_erase_color.induct)
  case (2 t c x s ps)
  then show ?case
    by (auto split: if_splits rbt.splits fixup.splits
        dest!: erase_right_sibling_inorder [OF disjI1] erase_right_sibling_inorder [OF disjI2])
next
  case (3 t c s x ps)
  then show ?case
    by (auto split: if_splits rbt.splits fixup.splits
        dest!: erase_left_sibling_inorder [OF disjI1] erase_left_sibling_inorder [OF disjI2])
qed simp

lemma inorder_splice:
  "rb_splice cc child c ps = Done u \<Longrightarrow> inorder u = before ps @ inorder child @ after ps"
  using inorder_erase_color [of Leaf ps u] by (auto simp: rb_splice_def split: if_splits)

lemma leftmost_spec:
  assumes "r \<noteq> Leaf"
  shows "\<exists>sc s c2 inner. rb_leftmost r ps = (Node sc Leaf s c2, inner @ ps) \<and> before inner = [] \<and>
    inorder r = s # inorder c2 @ after inner"
  using assms
proof (induction r ps rule: rb_leftmost.induct)
  case (3 c v va vb vc x r ps)
  then obtain sc s c2 inner where
    "rb_leftmost (Node v va vb vc) (LeftOf c x r # ps) = (Node sc Leaf s c2, inner @ LeftOf c x r # ps)"
    "before inner = []" "inorder (Node v va vb vc) = s # inorder c2 @ after inner" by blast
  then show ?case by (intro exI [of _ sc] exI [of _ s] exI [of _ c2] exI [of _ "inner @ [LeftOf c x r]"]) simp
qed auto

lemma inorder_erase:
  assumes "rb_erase (Node c l x r) ps = Done u"
  shows "inorder u = before ps @ inorder l @ inorder r @ after ps"
proof (cases "l = Leaf \<or> r = Leaf")
  case True
  then show ?thesis
    using assms inorder_splice [of c r c ps u] by (auto simp: rb_erase_def split: if_splits)
next
  case False
  then obtain sc s c2 inner where
    "rb_leftmost r [] = (Node sc Leaf s c2, inner)" "before inner = []" "inorder r = s # inorder c2 @ after inner"
    using leftmost_spec [of r "[]"] by auto
  then show ?thesis
    using assms False inorder_splice [of Black c2 sc "inner @ RightOf c l s # ps" u]
    by (simp add: rb_erase_def)
qed

subsection \<open>Descent\<close>

lemma descend_plug: "rb_descend k t ps = (u, qs) \<Longrightarrow> plug u qs = plug t ps"
  by (induction k t ps rule: rb_descend.induct) (auto split: if_splits)

lemma descend_found:
  "rb_descend k t ps = (Node c l x r, qs) \<Longrightarrow> x = (k :: 'a :: linorder)"
  by (induction k t ps rule: rb_descend.induct) (auto split: if_splits)

lemma descend_context:
  assumes "sorted_wrt (<) (inorder t)" and "rb_descend k t ps = (u, qs)"
    and "\<forall>y\<in>set (before ps). y < k" and "\<forall>y\<in>set (after ps). k < y"
  shows "(\<forall>y\<in>set (before qs). y < (k :: 'a :: linorder)) \<and> (\<forall>y\<in>set (after qs). k < y)"
  using assms
proof (induction k t ps rule: rb_descend.induct)
  case (1 k ps)
  then show ?case by simp
next
  case (2 k c l x r ps)
  have s: "sorted_wrt (<) (inorder l)" "sorted_wrt (<) (inorder r)"
    "\<forall>y\<in>set (inorder l). y < x" "\<forall>y\<in>set (inorder r). x < y"
    using "2.prems"(1) by (simp_all add: sorted_wrt_append)
  consider (lt) "k < x" | (gt) "x < k" "\<not> k < x" | (eq) "\<not> k < x" "\<not> x < k" by fastforce
  then show ?case
  proof cases
    case lt
    then have "\<forall>y\<in>set (after (LeftOf c x r # ps)). k < y"
      using s(4) "2.prems"(4) less_trans by auto
    then show ?thesis using "2.IH"(1) [OF lt s(1)] "2.prems"(2,3) lt by simp
  next
    case gt
    then have "\<forall>y\<in>set (before (RightOf c l x # ps)). y < k"
      using s(3) "2.prems"(3) less_trans by auto
    then show ?thesis using "2.IH"(2) [OF gt(2,1) s(2)] "2.prems"(2,4) gt by simp
  next
    case eq
    then show ?thesis using "2.prems" by simp
  qed
qed

lemma rb_lookup_iff:
  assumes "sorted_wrt (<) (inorder t)"
  shows "rb_lookup k t \<longleftrightarrow> k \<in> set (inorder t)"
proof -
  obtain u qs where d: "rb_descend k t [] = (u, qs)" by fastforce
  have i: "inorder t = before qs @ inorder u @ after qs"
    using descend_plug [OF d] by (metis inorder_plug plug.simps(1))
  have c: "\<forall>y\<in>set (before qs). y < k" "\<forall>y\<in>set (after qs). k < y"
    using descend_context [OF assms d] by auto
  show ?thesis
  proof (cases u)
    case Leaf
    then show ?thesis using c i d by (auto simp: rb_lookup_def)
  next
    case (Node c l x r)
    then show ?thesis using i d descend_found [of k t "[]" c l x r qs] by (simp add: rb_lookup_def)
  qed
qed

subsection \<open>Colours and black heights\<close>

text \<open>\<open>rb n t\<close>: no red node has a red child and every path to a leaf has \<open>n\<close> black nodes.\<close>

fun rb :: "nat \<Rightarrow> 'a rbt \<Rightarrow> bool" where
  "rb n Leaf = (n = 0)"
| "rb n (Node Red l x r) = (rb n l \<and> rb n r \<and> \<not> is_red l \<and> \<not> is_red r)"
| "rb n (Node Black l x r) = (0 < n \<and> rb (n - 1) l \<and> rb (n - 1) r)"

definition rb_tree :: "'a rbt \<Rightarrow> bool" where
  "rb_tree t \<longleftrightarrow> (\<exists>n. rb n t) \<and> \<not> is_red t"

text \<open>The paths into which a tree of black height \<open>n\<close> fits; the root is black.\<close>

fun red_head :: "'a path \<Rightarrow> bool" where
  "red_head [] = False"
| "red_head (f # ps) = (frame_colour f = Red)"

fun frame_sibling :: "'a frame \<Rightarrow> 'a rbt" where
  "frame_sibling (LeftOf c x r) = r"
| "frame_sibling (RightOf c l x) = l"

fun fits :: "nat \<Rightarrow> 'a path \<Rightarrow> bool" where
  "fits n [] = True"
| "fits n (f # ps) =
     (rb n (frame_sibling f) \<and>
      (if frame_colour f = Red then ps \<noteq> [] \<and> \<not> is_red (frame_sibling f) \<and> \<not> red_head ps \<and> fits n ps
       else fits (Suc n) ps))"

lemma colour_neq [simp]: "c \<noteq> Black \<longleftrightarrow> c = Red" "c \<noteq> Red \<longleftrightarrow> c = Black"
  by (cases c; simp)+

lemma rb_set_Black [simp]: "\<not> is_red t \<Longrightarrow> rb_set_colour Black t = t"
  by (cases t rule: is_red.cases) simp_all

lemma not_red_set_Black [simp]: "\<not> is_red (rb_set_colour Black t)"
  by (cases t) simp_all

lemma is_red_Node [simp]: "is_red (Node c l x r) \<longleftrightarrow> c = Red"
  by (cases c) simp_all

lemma rb_Node: "rb n (Node c l x r) \<longleftrightarrow>
    (if c = Red then rb n l \<and> rb n r \<and> \<not> is_red l \<and> \<not> is_red r
     else 0 < n \<and> rb (n - 1) l \<and> rb (n - 1) r)"
  by (cases c) simp_all

lemma rb_set_colour_red: "is_red t \<Longrightarrow> rb n t \<Longrightarrow> rb (Suc n) (rb_set_colour Black t)"
  by (cases t rule: is_red.cases) simp_all

lemma plug_rb_tree:
  "rb n t \<Longrightarrow> fits n ps \<Longrightarrow> (red_head ps \<or> ps = [] \<Longrightarrow> \<not> is_red t) \<Longrightarrow> rb_tree (plug t ps)"
proof (induction ps arbitrary: n t)
  case Nil
  then show ?case by (auto simp: rb_tree_def)
next
  case (Cons f ps)
  show ?case
  proof (cases "frame_colour f = Red")
    case True
    then show ?thesis using Cons.prems by (cases f) (auto intro!: Cons.IH [of n])
  next
    case False
    then show ?thesis using Cons.prems by (cases f) (auto intro!: Cons.IH [of "Suc n"])
  qed
qed

lemma insert_loop_rb_tree:
  assumes "rb n t" and "is_red t" and "fits n ps"
  shows "\<exists>u. rb_insert_loop t ps = Done u \<and> rb_tree u"
  using assms
proof (induction t ps arbitrary: n rule: rb_insert_loop.induct)
  case (1 t)
  then show ?case using rb_set_colour_red by (auto simp: rb_tree_def)
next
  case (2 t p)
  then show ?case using plug_rb_tree [of n t "[p]"] by (auto split: if_splits)
next
  case (3 t p g gs)
  show ?case
  proof (cases "frame_colour p = Black")
    case True
    then show ?thesis using 3 plug_rb_tree [of n t "p # g # gs"] by simp
  next
    case p: False
    have g: "frame_colour g = Black" and fp: "rb n (frame_sibling p)" "\<not> is_red (frame_sibling p)"
      and fg: "rb n (frame_sibling g)" "fits (Suc n) gs" using "3.prems"(3) p by auto
    have filled: "rb (Suc n) (rb_set_colour Black (fill p t))"
      using "3.prems"(1) fp p by (cases p) (simp_all add: rb_Node)
    show ?thesis
    proof (cases "is_red (frame_sibling g)")
      case True
      then have u: "rb (Suc n) (rb_set_colour Black (frame_sibling g))"
        using fg(1) rb_set_colour_red by blast
      show ?thesis
      proof (cases g)
        case (LeftOf gc gx u)
        then show ?thesis
          using "3.IH"(1) [OF _ LeftOf, of "Suc n"] True p filled u fg(2) by auto
      next
        case (RightOf gc u gx)
        then show ?thesis
          using "3.IH"(2) [OF _ RightOf, of "Suc n"] True p filled u fg(2) by auto
      qed
    next
      case False
      then show ?thesis
        using "3.prems"(1,2) p g fp fg
        by (cases g; cases p; cases t)
          (auto simp: rb_Node intro!: plug_rb_tree [of "Suc n"])
    qed
  qed
qed

lemma erase_right_sibling_rb:
  assumes "rb n t" and "\<not> is_red t" and "rb (Suc n) s" and "\<not> is_red s"
  shows "(\<exists>u. erase_right_sibling pc t px s = Fixed u \<and>
        rb (if pc = Red then Suc n else Suc (Suc n)) u \<and> (is_red u \<longrightarrow> pc = Red)) \<or>
    (\<exists>u. erase_right_sibling pc t px s = Short u \<and> pc = Black \<and> rb (Suc n) u \<and> \<not> is_red u)"
  using assms
  by (auto simp: erase_right_sibling_def rb_Node rb_set_colour_red split: rbt.splits if_splits)

lemma erase_left_sibling_rb:
  assumes "rb n t" and "\<not> is_red t" and "rb (Suc n) s" and "\<not> is_red s"
  shows "(\<exists>u. erase_left_sibling pc s px t = Fixed u \<and>
        rb (if pc = Red then Suc n else Suc (Suc n)) u \<and> (is_red u \<longrightarrow> pc = Red)) \<or>
    (\<exists>u. erase_left_sibling pc s px t = Short u \<and> pc = Black \<and> rb (Suc n) u \<and> \<not> is_red u)"
  using assms
  by (auto simp: erase_left_sibling_def rb_Node rb_set_colour_red split: rbt.splits if_splits)

lemma rb_Suc_black_Node: "rb (Suc n) t \<Longrightarrow> \<not> is_red t \<Longrightarrow> \<exists>a y b. t = Node Black a y b"
  by (cases t rule: is_red.cases) auto

lemma erase_color_rb_tree:
  assumes "rb n t" and "\<not> is_red t" and "fits (Suc n) ps"
  shows "\<exists>u. rb_erase_color t ps = Done u \<and> rb_tree u"
  using assms
proof (induction t ps arbitrary: n rule: rb_erase_color.induct)
  case (1 t)
  then show ?case by (auto simp: rb_tree_def)
next
  case (2 t c x s ps)
  show ?case
  proof (cases "is_red s")
    case True
    then obtain sl sx sr where s: "s = Node Red sl sx sr" by (cases s rule: is_red.cases) auto
    then obtain a y b where sl: "sl = Node Black a y b"
      using "2.prems"(3) rb_Suc_black_Node [of n sl] by (auto split: if_splits)
    have "\<exists>u. erase_right_sibling Red t x sl = Fixed u \<and> rb (Suc n) u"
      using erase_right_sibling_rb [OF "2.prems"(1,2), of sl Red x] "2.prems"(3) s sl
      by (auto split: if_splits)
    then show ?thesis
      using "2.prems"(3) s sl by (auto split: if_splits intro!: plug_rb_tree [of "Suc (Suc n)"])
  next
    case False
    from erase_right_sibling_rb [OF "2.prems"(1,2) _ False, of c x] "2.prems"(3)
    consider (fixed) u where "erase_right_sibling c t x s = Fixed u"
        "rb (if c = Red then Suc n else Suc (Suc n)) u" "is_red u \<longrightarrow> c = Red"
      | (short) u where "erase_right_sibling c t x s = Short u" "c = Black" "rb (Suc n) u" "\<not> is_red u"
      by auto
    then show ?thesis
    proof cases
      case fixed
      then show ?thesis
        using False "2.prems"(3) plug_rb_tree [of "if c = Red then Suc n else Suc (Suc n)" u ps]
        by (cases c) auto
    next
      case short
      then show ?thesis using "2.IH" [OF _ short(1) short(3,4)] False "2.prems"(3) by simp
    qed
  qed
next
  case (3 t c s x ps)
  show ?case
  proof (cases "is_red s")
    case True
    then obtain sl sx sr where s: "s = Node Red sl sx sr" by (cases s rule: is_red.cases) auto
    then obtain a y b where sr: "sr = Node Black a y b"
      using "3.prems"(3) rb_Suc_black_Node [of n sr] by (auto split: if_splits)
    have "\<exists>u. erase_left_sibling Red sr x t = Fixed u \<and> rb (Suc n) u"
      using erase_left_sibling_rb [OF "3.prems"(1,2), of sr Red x] "3.prems"(3) s sr
      by (auto split: if_splits)
    then show ?thesis
      using "3.prems"(3) s sr by (auto split: if_splits intro!: plug_rb_tree [of "Suc (Suc n)"])
  next
    case False
    from erase_left_sibling_rb [OF "3.prems"(1,2) _ False, of c x] "3.prems"(3)
    consider (fixed) u where "erase_left_sibling c s x t = Fixed u"
        "rb (if c = Red then Suc n else Suc (Suc n)) u" "is_red u \<longrightarrow> c = Red"
      | (short) u where "erase_left_sibling c s x t = Short u" "c = Black" "rb (Suc n) u" "\<not> is_red u"
      by auto
    then show ?thesis
    proof cases
      case fixed
      then show ?thesis
        using False "3.prems"(3) plug_rb_tree [of "if c = Red then Suc n else Suc (Suc n)" u ps]
        by (cases c) auto
    next
      case short
      then show ?thesis using "3.IH" [OF _ short(1) short(3,4)] False "3.prems"(3) by simp
    qed
  qed
qed

lemma splice_rb_tree:
  assumes "rb n (Node c Leaf x child)" and "fits n ps" and "red_head ps \<or> ps = [] \<Longrightarrow> c = Black"
    and "cc = Black \<or> cc = c"
  shows "\<exists>u. rb_splice cc child c ps = Done u \<and> rb_tree u"
proof (cases "child = Leaf")
  case True
  have "n = (if c = Red then 0 else 1)" using assms(1) True by (cases c) auto
  then show ?thesis
    using True assms(2,3) erase_color_rb_tree [of 0 Leaf ps] plug_rb_tree [of 0 Leaf ps]
    by (cases "c = Red") (auto simp: rb_splice_def rb_tree_def)
next
  case False
  then have c: "c = Black" "n = 1" "is_red child" "rb 0 child"
    using assms(1) by (cases c; cases child rule: is_red.cases; auto)+
  then have "rb 1 (rb_set_colour Black child)" using rb_set_colour_red by force
  then show ?thesis
    using False assms c plug_rb_tree [of 1 "rb_set_colour Black child" ps]
    by (auto simp: rb_splice_def)
qed

lemma leftmost_append:
  "rb_leftmost r ps = (fst (rb_leftmost r []), snd (rb_leftmost r []) @ ps)"
proof (induction r arbitrary: ps)
  case (Node c l x r)
  show ?case
  proof (cases l)
    case Leaf
    then show ?thesis by simp
  next
    case l: (Node c' l' x' r')
    show ?thesis
      using Node.IH(1) [of "LeftOf c x r # ps"] Node.IH(1) [of "[LeftOf c x r]"] by (simp add: l)
  qed
qed simp

lemma leftmost_fits:
  assumes "rb n r" and "fits n ps" and "red_head ps \<longrightarrow> \<not> is_red r" and "ps \<noteq> []"
    and "rb_leftmost r ps = (u, qs)"
  shows "\<exists>m. rb m u \<and> fits m qs \<and> (red_head qs \<longrightarrow> \<not> is_red u) \<and> qs \<noteq> []"
  using assms
proof (induction r ps arbitrary: n rule: rb_leftmost.induct)
  case (3 c v va vb vc x r ps)
  then show ?case
    by (cases c) (auto intro!: "3.IH" [of "if c = Red then n else n - 1"] split: if_splits)
qed auto

lemma erase_rb_tree:
  assumes "rb n (Node c l x r)" and "fits n ps" and "red_head ps \<or> ps = [] \<Longrightarrow> c = Black"
  shows "\<exists>u. rb_erase (Node c l x r) ps = Done u \<and> rb_tree u"
proof -
  consider (left) "l = Leaf" | (right) "l \<noteq> Leaf" "r = Leaf" | (both) "l \<noteq> Leaf" "r \<noteq> Leaf" by blast
  then show ?thesis
  proof cases
    case left
    then show ?thesis using splice_rb_tree [of n c x r ps c] assms by (simp add: rb_erase_def)
  next
    case right
    then have c: "c = Black" "n = 1" "is_red l" "rb 0 l"
      using assms(1) by (cases c; cases l rule: is_red.cases; auto)+
    then have "rb 1 (rb_set_colour Black l)" using rb_set_colour_red by force
    then show ?thesis
      using right c assms plug_rb_tree [of 1 "rb_set_colour Black l" ps] by (simp add: rb_erase_def)
  next
    case both
    then obtain sc s c2 inner where lm: "rb_leftmost r [] = (Node sc Leaf s c2, inner)"
      using leftmost_spec [of r "[]"] by auto
    let ?ps = "RightOf c l s # ps"
    have "rb_leftmost r ?ps = (Node sc Leaf s c2, inner @ ?ps)"
      by (subst leftmost_append) (simp add: lm)
    moreover have "rb (if c = Red then n else n - 1) r" "fits (if c = Red then n else n - 1) ?ps"
      "red_head ?ps \<longrightarrow> \<not> is_red r"
      using assms by (cases c; auto)+
    ultimately obtain m where m: "rb m (Node sc Leaf s c2)" "fits m (inner @ ?ps)"
      "red_head (inner @ ?ps) \<longrightarrow> \<not> is_red (Node sc Leaf s c2)"
      using leftmost_fits by blast
    have "\<exists>u. rb_splice Black c2 sc (inner @ ?ps) = Done u \<and> rb_tree u"
      by (rule splice_rb_tree [OF m(1,2)]) (use m(3) in auto)
    then show ?thesis using both lm by (simp add: rb_erase_def)
  qed
qed

subsection \<open>The operations on keys\<close>

text \<open>The invariant of a tree whose users keep it ordered.\<close>

definition rb_inv :: "'a::linorder rbt \<Rightarrow> bool" where
  "rb_inv t \<longleftrightarrow> rb_tree t \<and> sorted_wrt (<) (inorder t)"

lemma descend_fits:
  assumes "rb n t" and "fits n ps" and "red_head ps \<or> ps = [] \<Longrightarrow> \<not> is_red t"
    and "rb_descend k t ps = (u, qs)"
  shows "\<exists>m. rb m u \<and> fits m qs \<and> (red_head qs \<or> qs = [] \<longrightarrow> \<not> is_red u)"
  using assms
proof (induction k t ps arbitrary: n rule: rb_descend.induct)
  case (2 k c l x r ps)
  let ?n = "if c = Red then n else n - 1"
  consider (lt) "k < x" | (gt) "x < k" "\<not> k < x" | (eq) "\<not> k < x" "\<not> x < k" by fastforce
  then show ?case
  proof cases
    case lt
    have "rb ?n l" "fits ?n (LeftOf c x r # ps)"
      "red_head (LeftOf c x r # ps) \<or> LeftOf c x r # ps = [] \<Longrightarrow> \<not> is_red l"
      using "2.prems"(1-3) by (cases c; auto)+
    from "2.IH"(1) [OF lt this] show ?thesis using "2.prems"(4) lt by simp
  next
    case gt
    have "rb ?n r" "fits ?n (RightOf c l x # ps)"
      "red_head (RightOf c l x # ps) \<or> RightOf c l x # ps = [] \<Longrightarrow> \<not> is_red r"
      using "2.prems"(1-3) by (cases c; auto)+
    from "2.IH"(2) [OF gt(2,1) this] show ?thesis using "2.prems"(4) gt by simp
  next
    case eq
    then show ?thesis using "2.prems" by auto
  qed
qed auto

lemma descend_rb_inv:
  assumes "rb_inv t" and "rb_descend k t [] = (u, qs)"
  shows "inorder t = before qs @ inorder u @ after qs" and "\<forall>y\<in>set (before qs). y < k"
    and "\<forall>y\<in>set (after qs). k < y"
    and "\<exists>m. rb m u \<and> fits m qs \<and> (red_head qs \<or> qs = [] \<longrightarrow> \<not> is_red u)"
proof -
  show "inorder t = before qs @ inorder u @ after qs"
    using descend_plug [OF assms(2)] by (metis inorder_plug plug.simps(1))
  show "\<forall>y\<in>set (before qs). y < k" "\<forall>y\<in>set (after qs). k < y"
    using descend_context [OF _ assms(2)] assms(1) by (auto simp: rb_inv_def)
  show "\<exists>m. rb m u \<and> fits m qs \<and> (red_head qs \<or> qs = [] \<longrightarrow> \<not> is_red u)"
    using assms descend_fits [OF _ _ _ assms(2)] by (fastforce simp: rb_inv_def rb_tree_def)
qed

lemma rb_insert_inv:
  assumes "rb_inv t"
  shows "\<exists>u. rb_insert k t = Done u \<and> rb_inv u \<and> set (inorder u) = insert k (set (inorder t))"
proof -
  obtain v qs where d: "rb_descend k t [] = (v, qs)" by fastforce
  note i = descend_rb_inv [OF assms d]
  show ?thesis
  proof (cases v)
    case Leaf
    then have f: "fits 0 qs" using i(4) by auto
    then have "rb 0 (Node Red Leaf k Leaf)" "is_red (Node Red Leaf k Leaf)" by simp_all
    from insert_loop_rb_tree [OF this f] obtain u
      where u: "rb_insert_loop (Node Red Leaf k Leaf) qs = Done u" "rb_tree u" by blast
    have "inorder u = before qs @ k # after qs" using inorder_insert_loop [OF u(1)] by simp
    then show ?thesis
      using assms u Leaf d i(1-3)
      by (auto simp: rb_insert_def rb_insert_at_def rb_inv_def sorted_wrt_append)
  next
    case (Node c l x r)
    then show ?thesis
      using assms d i(1) descend_found [of k t "[]" c l x r qs] by (auto simp: rb_insert_def)
  qed
qed

lemma rb_remove_inv:
  assumes "rb_inv t" and "k \<in> set (inorder t)"
  shows "\<exists>u. rb_remove k t = Done u \<and> rb_inv u \<and> set (inorder u) = set (inorder t) - {k}"
proof -
  obtain v qs where d: "rb_descend k t [] = (v, qs)" by fastforce
  note i = descend_rb_inv [OF assms(1) d]
  from assms i(1-3) obtain c l x r where v: "v = Node c l x r" by (cases v) auto
  then have x: "x = k" using d descend_found [of k t "[]" c l x r qs] by simp
  obtain m where m: "rb m (Node c l x r)" "fits m qs" "red_head qs \<or> qs = [] \<longrightarrow> c = Black"
    using i(4) v by auto
  then obtain u where u: "rb_erase (Node c l x r) qs = Done u" "rb_tree u"
    using erase_rb_tree [OF m(1,2)] by blast
  have "inorder u = before qs @ inorder l @ inorder r @ after qs" using inorder_erase [OF u(1)] .
  then show ?thesis
    using assms(1) u v x d i(1)
    by (auto simp: rb_remove_def rb_inv_def sorted_wrt_append)
qed

lemma rb_inv_Leaf [simp]: "rb_inv Leaf"
  by (auto simp: rb_inv_def rb_tree_def)

subsection \<open>Height\<close>

fun height :: "'a rbt \<Rightarrow> nat" where
  "height Leaf = 0"
| "height (Node c l x r) = Suc (max (height l) (height r))"

lemma rb_height: "rb n t \<Longrightarrow> height t \<le> 2 * n + (if is_red t then 1 else 0)"
proof (induction n t rule: rb.induct)
  case (2 n l x r)
  then show ?case by (auto split: if_splits)
next
  case (3 n l x r)
  then show ?case by (auto split: if_splits)
qed auto

lemma rb_count: "rb n t \<Longrightarrow> 2 ^ n \<le> length (inorder t) + 1"
proof (induction n t rule: rb.induct)
  case (2 n l x r)
  then show ?case by simp
next
  case (3 n l x r)
  then have "(2 :: nat) ^ n = 2 ^ (n - 1) + 2 ^ (n - 1)" by (cases n) auto
  then show ?case using 3 by auto
qed auto

lemma rb_tree_height:
  assumes "rb_tree t"
  shows "2 ^ (height t div 2) \<le> length (inorder t) + 1"
proof -
  obtain n where n: "rb n t" and r: "\<not> is_red t" using assms by (auto simp: rb_tree_def)
  have "height t div 2 \<le> n" using rb_height [OF n] r by simp
  then have "(2 :: nat) ^ (height t div 2) \<le> 2 ^ n" by (simp add: power_increasing)
  then show ?thesis using rb_count [OF n] by linarith
qed

subsection \<open>Traversal\<close>

lemma up_from_right_spec:
  "case rb_up_from_right t ps of
     None \<Rightarrow> after ps = []
   | Some (Node c l y r, qs) \<Rightarrow> before qs @ inorder l = before ps @ inorder t \<and> after ps = y # inorder r @ after qs
   | Some (Leaf, qs) \<Rightarrow> False"
  by (induction t ps rule: rb_up_from_right.induct) (auto split: option.splits rbt.splits)

lemma leftmost_position:
  assumes "r \<noteq> Leaf"
  shows "\<exists>c y r' qs. rb_leftmost r ps = (Node c Leaf y r', qs) \<and> before qs = before ps \<and>
    inorder r @ after ps = y # inorder r' @ after qs"
  using leftmost_spec [OF assms, of ps] by auto

lemma rb_next_spec:
  "case rb_next (Node c l x r, ps) of
     None \<Rightarrow> inorder r @ after ps = []
   | Some (Node c' l' y r', qs) \<Rightarrow>
       before qs @ inorder l' = before ps @ inorder l @ [x] \<and>
       inorder r @ after ps = y # inorder r' @ after qs
   | Some (Leaf, qs) \<Rightarrow> False"
proof (cases "r = Leaf")
  case True
  then show ?thesis
    using up_from_right_spec [of ps "Node c l x r"] by (auto split: option.splits rbt.splits)
next
  case False
  then show ?thesis using leftmost_position [of r "RightOf c l x # ps"] by auto
qed

subsection \<open>The interface its users rely on\<close>

text \<open>
  An index over keys whose operations may dereference a null pointer, and do not as long as the
  invariant holds and only present keys are removed.
\<close>

locale key_index =
  fixes inv :: "'t \<Rightarrow> bool" and keys :: "'t \<Rightarrow> 'k set"
    and lookup :: "'k \<Rightarrow> 't \<Rightarrow> bool"
    and ins :: "'k \<Rightarrow> 't \<Rightarrow> 't run" and rem :: "'k \<Rightarrow> 't \<Rightarrow> 't run"
  assumes lookup: "inv t \<Longrightarrow> lookup k t \<longleftrightarrow> k \<in> keys t"
    and ins: "inv t \<Longrightarrow> \<exists>u. ins k t = Done u \<and> inv u \<and> keys u = insert k (keys t)"
    and rem: "inv t \<Longrightarrow> k \<in> keys t \<Longrightarrow> \<exists>u. rem k t = Done u \<and> inv u \<and> keys u = keys t - {k}"
begin

text \<open>An index that holds the keys of a list without repetitions, the way an LRU list is indexed.\<close>

lemma admit:
  assumes "inv t" and "keys t = set ks" and "distinct ks" and "k \<notin> set ks"
  shows "\<exists>u. ins k t = Done u \<and> inv u \<and> keys u = set (ks @ [k]) \<and> distinct (ks @ [k])"
  using ins [OF assms(1), of k] assms by auto

lemma evict:
  assumes "inv t" and "keys t = set (k # ks)" and "distinct (k # ks)"
  shows "\<exists>u. rem k t = Done u \<and> inv u \<and> keys u = set ks \<and> distinct ks"
  using rem [OF assms(1), of k] assms by auto

lemma replace_oldest:
  assumes "inv t" and "keys t = set (k # ks)" and "distinct (k # ks)" and "j \<notin> set ks"
  shows "\<exists>u v. rem k t = Done u \<and> \<not> lookup j u \<and> ins j u = Done v \<and> inv v \<and>
    keys v = set (ks @ [j]) \<and> distinct (ks @ [j])"
  using evict [OF assms(1-3)] admit [of _ ks j] assms(4) lookup by metis

lemma touch:
  assumes "keys t = set ks" and "distinct ks" and "k \<in> set ks"
  shows "keys t = set (filter (\<lambda>j. j \<noteq> k) ks @ [k]) \<and> distinct (filter (\<lambda>j. j \<noteq> k) ks @ [k])"
  using assms by auto

end

interpretation rbi: key_index rb_inv "\<lambda>t :: 'a::linorder rbt. set (inorder t)" rb_lookup rb_insert rb_remove
proof (unfold_locales, goal_cases)
  case (1 t k)
  then show ?case by (simp add: rb_inv_def rb_lookup_iff)
next
  case (2 t k)
  then show ?case by (rule rb_insert_inv)
next
  case (3 t k)
  then show ?case by (rule rb_remove_inv)
qed

subsection \<open>Properties\<close>

text \<open>
  C22: Inserting a key into a red-black tree dereferences no null pointer, keeps the tree ordered,
  red-black and black-rooted, adds exactly that key, and leaves the height at most twice the
  logarithm of the number of keys.
\<close>

theorem rb_insert_correct:
  assumes "rb_inv t"
  shows "\<exists>u. rb_insert k t = Done u \<and> rb_inv u \<and> set (inorder u) = insert k (set (inorder t)) \<and>
    2 ^ (height u div 2) \<le> length (inorder u) + 1"
  using rb_insert_inv [OF assms, of k] rb_tree_height by (fastforce simp: rb_inv_def)

theorem rb_insert_correct_witness:
  "\<exists>u. rb_insert 2 (Node Black Leaf 1 (Node Red Leaf (3 :: nat) Leaf)) = Done u \<and> set (inorder u) = {1, 2, 3}"
proof -
  have "rb_inv (Node Black Leaf 1 (Node Red Leaf (3 :: nat) Leaf))"
    by (auto simp: rb_inv_def rb_tree_def intro: exI [of _ 1])
  from rb_insert_correct [OF this, of 2] show ?thesis by auto
qed

text \<open>
  C11: Erasing a key that is present dereferences no null pointer (every sibling that the
  rebalancing follows exists), keeps the tree ordered, red-black and black-rooted, and removes
  exactly that key.
\<close>

theorem rb_erase_correct:
  assumes "rb_inv t" and "k \<in> set (inorder t)"
  shows "\<exists>u. rb_remove k t = Done u \<and> rb_inv u \<and> set (inorder u) = set (inorder t) - {k}"
  using assms by (rule rb_remove_inv)

theorem rb_erase_correct_witness:
  "\<exists>u. rb_remove 1 (Node Black Leaf 1 (Node Red Leaf (3 :: nat) Leaf)) = Done u \<and> set (inorder u) = {3}"
proof -
  have "rb_inv (Node Black Leaf 1 (Node Red Leaf (3 :: nat) Leaf))"
    by (auto simp: rb_inv_def rb_tree_def intro: exI [of _ 1])
  from rb_erase_correct [OF this, of 1] show ?thesis by auto
qed

end
