(* ===== verification/ReadWrite.thy ===== *)
theory ReadWrite
  imports Prelude
begin

text \<open>
  The transfer loops of \<^verbatim>\<open>util/read-write.c\<close>.  A file descriptor is a record with the file's
  bytes, the file position, and the script of what the kernel will answer: \<open>SErr e\<close> makes the
  next system call fail with \<open>e\<close>, \<open>SMax n\<close> makes it transfer at most \<open>n\<close> bytes (zero is an
  end-of-file or a full device).  A call that finds the script used up transfers all it can.
  So every finite pattern of interruptions, short transfers and errors is an input of the model.
  A \<open>ssize_t\<close> result is an option: \<open>None\<close> is -1, \<open>Some d\<close> the bytes (or their number) moved.
\<close>

subsection \<open>The system calls\<close>

datatype sysret = SErr errno | SMax nat

record fdesc =
  fbytes :: "u8 list"
  fpos :: nat
  fscript :: "sysret list"

definition serve :: "fdesc \<Rightarrow> nat \<Rightarrow> (errno + nat) \<times> fdesc" where
  "serve f count =
     (case fscript f of
        [] \<Rightarrow> (Inr count, f)
      | SErr e # s \<Rightarrow> (Inl e, f\<lparr>fscript := s\<rparr>)
      | SMax n # s \<Rightarrow> (Inr (min n count), f\<lparr>fscript := s\<rparr>))"

definition sys_pread :: "fdesc \<Rightarrow> nat \<Rightarrow> int \<Rightarrow> (errno + u8 list) \<times> fdesc" where
  "sys_pread f count off =
     (if off < 0 then (Inl EINVAL, f)
      else case serve f count of
        (Inl e, f') \<Rightarrow> (Inl e, f')
      | (Inr k, f') \<Rightarrow> (Inr (take k (drop (nat off) (fbytes f))), f'))"

definition sys_pwrite :: "fdesc \<Rightarrow> u8 list \<Rightarrow> int \<Rightarrow> (errno + nat) \<times> fdesc" where
  "sys_pwrite f bs off =
     (if off < 0 then (Inl EINVAL, f)
      else case serve f (length bs) of
        (Inl e, f') \<Rightarrow> (Inl e, f')
      | (Inr k, f') \<Rightarrow>
          (Inr k, if k = 0 then f' else f'\<lparr>fbytes := overlay (fbytes f) (nat off) (take k bs)\<rparr>))"

definition sys_read :: "fdesc \<Rightarrow> nat \<Rightarrow> (errno + u8 list) \<times> fdesc" where
  "sys_read f count =
     (case sys_pread f count (int (fpos f)) of
        (Inl e, f') \<Rightarrow> (Inl e, f')
      | (Inr d, f') \<Rightarrow> (Inr d, f'\<lparr>fpos := fpos f + length d\<rparr>))"

definition sys_write :: "fdesc \<Rightarrow> u8 list \<Rightarrow> (errno + nat) \<times> fdesc" where
  "sys_write f bs =
     (case sys_pwrite f bs (int (fpos f)) of
        (Inl e, f') \<Rightarrow> (Inl e, f')
      | (Inr k, f') \<Rightarrow> (Inr k, f'\<lparr>fpos := fpos f + k\<rparr>))"

text \<open>\<open>fdatasync\<close> and \<open>fsync\<close> move no data; they can fail.\<close>

definition sys_fsync :: "fdesc \<Rightarrow> (errno + unit) \<times> fdesc" where
  "sys_fsync f = (case serve f 0 of (Inl e, f') \<Rightarrow> (Inl e, f') | (Inr _, f') \<Rightarrow> (Inr (), f'))"

definition transient :: "errno \<Rightarrow> bool" where
  "transient e \<longleftrightarrow> e = EAGAIN \<or> e = EINTR"

lemmas sys_defs = serve_def sys_pread_def sys_pwrite_def sys_read_def sys_write_def sys_fsync_def

lemma serve_script:
  "serve f n = (r, f') \<Longrightarrow> fscript f' = tl (fscript f) \<and> fbytes f' = fbytes f \<and> fpos f' = fpos f"
  by (auto simp: serve_def split: list.splits sysret.splits)

lemma transient_consumes:
  "sys_pread f n off = (Inl e, f') \<Longrightarrow> transient e \<Longrightarrow> length (fscript f') < length (fscript f)"
  "sys_pwrite f bs off = (Inl e, f') \<Longrightarrow> transient e \<Longrightarrow> length (fscript f') < length (fscript f)"
  "sys_read f n = (Inl e, f') \<Longrightarrow> transient e \<Longrightarrow> length (fscript f') < length (fscript f)"
  "sys_write f bs = (Inl e, f') \<Longrightarrow> transient e \<Longrightarrow> length (fscript f') < length (fscript f)"
  by (auto simp: sys_defs transient_def split: if_splits list.splits sysret.splits prod.splits sum.splits)

subsection \<open>Restarting calls\<close>

text \<open>
  \<open>goto restart\<close> while the error is transient.  Each restart uses up one element of the script.
\<close>

function xpread :: "fdesc \<Rightarrow> nat \<Rightarrow> int \<Rightarrow> (errno + u8 list) \<times> fdesc" where
  "xpread f count off =
     (case sys_pread f count off of
        (Inl e, f') \<Rightarrow> if transient e then xpread f' count off else (Inl e, f')
      | (Inr d, f') \<Rightarrow> (Inr d, f'))"
  by pat_completeness auto
termination
  by (relation "measure (\<lambda>(f, count, off). length (fscript f))")
     (auto dest: transient_consumes [OF sym])

function xpwrite :: "fdesc \<Rightarrow> u8 list \<Rightarrow> int \<Rightarrow> (errno + nat) \<times> fdesc" where
  "xpwrite f bs off =
     (case sys_pwrite f bs off of
        (Inl e, f') \<Rightarrow> if transient e then xpwrite f' bs off else (Inl e, f')
      | (Inr k, f') \<Rightarrow> (Inr k, f'))"
  by pat_completeness auto
termination
  by (relation "measure (\<lambda>(f, bs, off). length (fscript f))")
     (auto dest: transient_consumes [OF sym])

function xread :: "fdesc \<Rightarrow> nat \<Rightarrow> (errno + u8 list) \<times> fdesc" where
  "xread f count =
     (case sys_read f count of
        (Inl e, f') \<Rightarrow> if transient e then xread f' count else (Inl e, f')
      | (Inr d, f') \<Rightarrow> (Inr d, f'))"
  by pat_completeness auto
termination
  by (relation "measure (\<lambda>(f, count). length (fscript f))") (auto dest: transient_consumes [OF sym])

function xwrite :: "fdesc \<Rightarrow> u8 list \<Rightarrow> (errno + nat) \<times> fdesc" where
  "xwrite f bs =
     (case sys_write f bs of
        (Inl e, f') \<Rightarrow> if transient e then xwrite f' bs else (Inl e, f')
      | (Inr k, f') \<Rightarrow> (Inr k, f'))"
  by pat_completeness auto
termination
  by (relation "measure (\<lambda>(f, bs). length (fscript f))") (auto dest: transient_consumes [OF sym])

declare xpread.simps [simp del] xpwrite.simps [simp del] xread.simps [simp del] xwrite.simps [simp del]

subsection \<open>Full transfers\<close>

function pread_loop :: "fdesc \<Rightarrow> nat \<Rightarrow> int \<Rightarrow> u8 list \<Rightarrow> u8 list option \<times> fdesc" where
  "pread_loop f count off acc =
     (if count = 0 then (Some acc, f)
      else case xpread f count off of
        (Inl e, f') \<Rightarrow> (if acc \<noteq> [] then Some acc else None, f')
      | (Inr d, f') \<Rightarrow>
          if d = [] then (if acc \<noteq> [] then Some acc else None, f')
          else pread_loop f' (count - length d) (off + int (length d)) (acc @ d))"
  by pat_completeness auto
termination
  by (relation "measure (\<lambda>(f, count, off, acc). count)") auto

definition pread_in_full :: "fdesc \<Rightarrow> nat \<Rightarrow> int \<Rightarrow> u8 list option \<times> fdesc" where
  "pread_in_full f count off = pread_loop f count off []"

function pwrite_loop :: "fdesc \<Rightarrow> u8 list \<Rightarrow> int \<Rightarrow> nat \<Rightarrow> nat option \<times> fdesc" where
  "pwrite_loop f bs off tot =
     (if bs = [] then (Some tot, f)
      else case xpwrite f bs off of
        (Inl e, f') \<Rightarrow> (None, f')
      | (Inr k, f') \<Rightarrow>
          if k = 0 then (None, f')
          else pwrite_loop f' (drop k bs) (off + int k) (tot + k))"
  by pat_completeness auto
termination
  by (relation "measure (\<lambda>(f, bs, off, tot). length bs)") auto

definition pwrite_in_full :: "fdesc \<Rightarrow> u8 list \<Rightarrow> int \<Rightarrow> nat option \<times> fdesc" where
  "pwrite_in_full f bs off = pwrite_loop f bs off 0"

function read_loop :: "fdesc \<Rightarrow> nat \<Rightarrow> u8 list \<Rightarrow> u8 list option \<times> fdesc" where
  "read_loop f count acc =
     (if count = 0 then (Some acc, f)
      else case xread f count of
        (Inl e, f') \<Rightarrow> (if acc \<noteq> [] then Some acc else None, f')
      | (Inr d, f') \<Rightarrow>
          if d = [] then (if acc \<noteq> [] then Some acc else None, f')
          else read_loop f' (count - length d) (acc @ d))"
  by pat_completeness auto
termination
  by (relation "measure (\<lambda>(f, count, acc). count)") auto

definition read_in_full :: "fdesc \<Rightarrow> nat \<Rightarrow> u8 list option \<times> fdesc" where
  "read_in_full f count = read_loop f count []"

function write_loop :: "fdesc \<Rightarrow> u8 list \<Rightarrow> nat \<Rightarrow> nat option \<times> fdesc" where
  "write_loop f bs tot =
     (if bs = [] then (Some tot, f)
      else case xwrite f bs of
        (Inl e, f') \<Rightarrow> (None, f')
      | (Inr k, f') \<Rightarrow>
          if k = 0 then (None, f') else write_loop f' (drop k bs) (tot + k))"
  by pat_completeness auto
termination
  by (relation "measure (\<lambda>(f, bs, tot). length bs)") auto

definition write_in_full :: "fdesc \<Rightarrow> u8 list \<Rightarrow> nat option \<times> fdesc" where
  "write_in_full f bs = write_loop f bs 0"

text \<open>\<open>read_file\<close>: the whole file, or an error when a byte is left after \<open>max_size\<close>.\<close>

definition read_file :: "fdesc \<Rightarrow> nat \<Rightarrow> u8 list option \<times> fdesc" where
  "read_file f max_size =
     (case read_in_full f max_size of
        (ret, f1) \<Rightarrow>
          (case xread f1 1 of
             (Inr [], f2) \<Rightarrow> (ret, f2)
           | (_, f2) \<Rightarrow> (None, f2)))"

declare pread_loop.simps [simp del] pwrite_loop.simps [simp del]
  read_loop.simps [simp del] write_loop.simps [simp del]


subsection \<open>What the loops return\<close>

text \<open>A script without hard errors: interruptions and short transfers of at least a byte.\<close>

fun benign_ret :: "sysret \<Rightarrow> bool" where
  "benign_ret (SErr e) = transient e"
| "benign_ret (SMax n) = (0 < n)"

definition benign :: "fdesc \<Rightarrow> bool" where
  "benign f \<longleftrightarrow> list_all benign_ret (fscript f)"

definition file_slice :: "fdesc \<Rightarrow> nat \<Rightarrow> int \<Rightarrow> u8 list" where
  "file_slice f count off = take count (drop (nat off) (fbytes f))"

lemma benign_serve: "benign f \<Longrightarrow> serve f n = (r, f') \<Longrightarrow> benign f'"
  by (auto simp: benign_def serve_def split: list.splits sysret.splits)

lemma xpread_frame:
  "xpread f count off = (r, f') \<Longrightarrow> fbytes f' = fbytes f \<and> fpos f' = fpos f \<and> (benign f \<longrightarrow> benign f')"
proof (induction f count off rule: xpread.induct)
  case (1 f count off)
  obtain r1 f1 where s: "sys_pread f count off = (r1, f1)" by fastforce
  have fr: "fbytes f1 = fbytes f \<and> fpos f1 = fpos f \<and> (benign f \<longrightarrow> benign f1)"
    using s by (auto simp: sys_pread_def dest: serve_script benign_serve
        split: if_splits prod.splits sum.splits)
  show ?case
  proof (cases r1)
    case (Inl e)
    show ?thesis
    proof (cases "transient e")
      case True
      then have "xpread f1 count off = (r, f')"
        using "1.prems" s Inl by (simp add: xpread.simps [of f])
      then show ?thesis using "1.IH" [OF s [symmetric] Inl True] fr by simp
    next
      case False
      then show ?thesis using "1.prems" s Inl fr by (simp add: xpread.simps [of f])
    qed
  next
    case (Inr d)
    then show ?thesis using "1.prems" s fr by (simp add: xpread.simps [of f])
  qed
qed


lemma take_min_ex: "\<exists>k\<le>c. take (min n c) xs = take k xs"
  by (metis min.cobounded2)

lemma xpread_result:
  "xpread f count off = (Inr d, f') \<Longrightarrow> 0 \<le> off \<and> (\<exists>k\<le>count. d = file_slice f k off)"
proof (induction f count off rule: xpread.induct)
  case (1 f count off)
  obtain r1 f1 where s: "sys_pread f count off = (r1, f1)" by fastforce
  show ?case
  proof (cases r1)
    case (Inl e)
    then have "transient e" "xpread f1 count off = (Inr d, f')"
      using "1.prems" s by (auto simp: xpread.simps [of f] split: if_splits)
    moreover have "fbytes f1 = fbytes f"
      using s by (auto simp: sys_pread_def dest: serve_script split: if_splits prod.splits sum.splits)
    ultimately show ?thesis using "1.IH" [OF s [symmetric] Inl] by (auto simp: file_slice_def)
  next
    case (Inr d1)
    then have d: "d1 = d" using "1.prems" s by (simp add: xpread.simps [of f])
    then show ?thesis
      using s Inr by (auto simp: sys_pread_def serve_def file_slice_def take_min_ex
          split: if_splits prod.splits sum.splits list.splits sysret.splits)
  qed
qed

lemma xpread_benign:
  assumes "benign f" and "0 \<le> off" and "0 < count"
  shows "\<exists>k f'. 0 < k \<and> k \<le> count \<and> xpread f count off = (Inr (file_slice f k off), f')"
  using assms
proof (induction f count off rule: xpread.induct)
  case (1 f count off)
  show ?case
  proof (cases "fscript f")
    case Nil
    then show ?thesis using "1.prems"
      by (auto simp: xpread.simps [of f] sys_pread_def serve_def file_slice_def intro!: exI [of _ count])
  next
    case (Cons r s)
    show ?thesis
    proof (cases r)
      case (SErr e)
      let ?f = "f\<lparr>fscript := s\<rparr>"
      have t: "transient e" using "1.prems"(1) Cons SErr by (simp add: benign_def)
      have sp: "sys_pread f count off = (Inl e, ?f)"
        using "1.prems" Cons SErr by (simp add: sys_pread_def serve_def)
      have "benign ?f" using "1.prems"(1) Cons by (simp add: benign_def)
      then show ?thesis
        using "1.IH" [OF sp [symmetric] refl t] "1.prems" sp t
        by (auto simp: xpread.simps [of f] file_slice_def)
    next
      case (SMax n)
      have "0 < n" using "1.prems"(1) Cons SMax by (simp add: benign_def)
      then show ?thesis using "1.prems" Cons SMax
        by (auto simp: xpread.simps [of f] sys_pread_def serve_def file_slice_def
            intro!: exI [of _ "min n count"])
    qed
  qed
qed

lemma file_slice_cat:
  assumes "k \<le> count" and "0 \<le> off" and "d = file_slice f k off" and "d \<noteq> []"
  shows "d @ take (count - length d) (drop (nat (off + int (length d))) (fbytes f)) =
    file_slice f count off"
proof -
  let ?xs = "drop (nat off) (fbytes f)"
  have n: "nat (off + int (length d)) = nat off + length d" using assms(2) by simp
  have "d = take (length d) ?xs"
    using assms(3) by (metis append_eq_conv_conj append_take_drop_id file_slice_def)
  moreover have "length d \<le> count" using assms(1,3) by (simp add: file_slice_def)
  ultimately show ?thesis
    unfolding file_slice_def n
    by (metis add.commute drop_drop le_add_diff_inverse take_add)
qed

lemma pread_loop_frame:
  "pread_loop f count off acc = (r, f') \<Longrightarrow>
     fbytes f' = fbytes f \<and> fpos f' = fpos f \<and> (benign f \<longrightarrow> benign f')"
proof (induction f count off acc rule: pread_loop.induct)
  case (1 f count off acc)
  obtain r1 f1 where x: "xpread f count off = (r1, f1)" by fastforce
  show ?case
    using "1.prems" "1.IH" [OF _ x [symmetric]] x xpread_frame [OF x]
    by (auto simp: pread_loop.simps [of f] split: if_splits sum.splits)
qed

lemma pread_loop_slice:
  "pread_loop f count off acc = (Some d, f') \<Longrightarrow> 0 < count \<longrightarrow> acc \<noteq> [] \<longrightarrow> 0 \<le> off \<Longrightarrow>
     \<exists>k\<le>count. d = acc @ file_slice f k off"
proof (induction f count off acc rule: pread_loop.induct)
  case (1 f count off acc)
  obtain r1 f1 where x: "xpread f count off = (r1, f1)" by fastforce
  show ?case
  proof (cases "count = 0")
    case True
    then show ?thesis using "1.prems" by (simp add: pread_loop.simps [of f] file_slice_def)
  next
    case False
    show ?thesis
    proof (cases r1)
      case (Inl e)
      then show ?thesis using "1.prems"(1) False x
        by (auto simp: pread_loop.simps [of f] file_slice_def split: if_splits intro!: exI [of _ 0])
    next
      case (Inr d1)
      note xr = xpread_result [OF x [unfolded Inr]]
      show ?thesis
      proof (cases "d1 = []")
        case True
        then show ?thesis using "1.prems"(1) False x Inr
          by (auto simp: pread_loop.simps [of f] file_slice_def split: if_splits intro!: exI [of _ 0])
      next
        case ne: False
        obtain k where k: "k \<le> count" "d1 = file_slice f k off" "0 \<le> off" using xr by auto
        have b: "fbytes f1 = fbytes f" using xpread_frame [OF x] by simp
        have "pread_loop f1 (count - length d1) (off + int (length d1)) (acc @ d1) = (Some d, f')"
          using "1.prems"(1) False x Inr ne by (simp add: pread_loop.simps [of f])
        then obtain j where j: "j \<le> count - length d1"
          and d: "d = (acc @ d1) @ file_slice f1 j (off + int (length d1))"
          using "1.IH" [OF False x [symmetric] Inr ne] k by auto
        have ld: "length d1 \<le> count" using k by (simp add: file_slice_def)
        have "d1 @ file_slice f1 j (off + int (length d1)) = file_slice f (length d1 + j) off"
        proof -
          have "d1 = file_slice f (min k (length d1 + j)) off"
            using k by (auto simp: file_slice_def min_def)
          from file_slice_cat [OF _ k(3) this ne, of "length d1 + j"] show ?thesis
            by (simp add: file_slice_def b)
        qed
        then show ?thesis using d j ld by (intro exI [of _ "length d1 + j"]) simp
      qed
    qed
  qed
qed

lemma pread_loop_benign:
  assumes "benign f" and "0 \<le> off"
  shows "fst (pread_loop f count off acc) =
    (if 0 < count \<and> acc @ file_slice f count off = [] then None
     else Some (acc @ file_slice f count off))"
  using assms
proof (induction f count off acc rule: pread_loop.induct)
  case (1 f count off acc)
  show ?case
  proof (cases "count = 0")
    case True
    then show ?thesis by (simp add: pread_loop.simps [of f] file_slice_def)
  next
    case False
    then obtain k f1 where k: "0 < k" "k \<le> count"
      and x: "xpread f count off = (Inr (file_slice f k off), f1)"
      using xpread_benign [OF "1.prems"] by blast
    let ?d = "file_slice f k off"
    show ?thesis
    proof (cases "?d = []")
      case True
      then have "file_slice f count off = []" using k by (auto simp: file_slice_def)
      then show ?thesis using True x False by (simp add: pread_loop.simps [of f])
    next
      case ne: False
      have b: "fbytes f1 = fbytes f" "benign f1"
        using xpread_frame [OF x] "1.prems"(1) by simp_all
      have cat: "?d @ file_slice f1 (count - length ?d) (off + int (length ?d)) = file_slice f count off"
        using file_slice_cat [OF k(2) "1.prems"(2) refl ne] by (simp add: file_slice_def b)
      have "fst (pread_loop f count off acc) =
          fst (pread_loop f1 (count - length ?d) (off + int (length ?d)) (acc @ ?d))"
        using False x ne by (simp add: pread_loop.simps [of f])
      also have "\<dots> = Some ((acc @ ?d) @ file_slice f1 (count - length ?d) (off + int (length ?d)))"
        using "1.IH" [OF False x [symmetric] refl ne b(2)] "1.prems"(2) ne by simp
      also have "\<dots> = Some (acc @ file_slice f count off)" by (simp add: cat)
      finally show ?thesis using cat ne by auto
    qed
  qed
qed

lemma pread_in_full_benign:
  assumes "benign f" and "0 \<le> off"
  shows "\<exists>f'. pread_in_full f count off =
      (if 0 < count \<and> file_slice f count off = [] then None else Some (file_slice f count off), f') \<and>
    fbytes f' = fbytes f \<and> benign f'"
proof -
  obtain r f' where p: "pread_loop f count off [] = (r, f')" by fastforce
  have "r = (if 0 < count \<and> file_slice f count off = [] then None else Some (file_slice f count off))"
    using pread_loop_benign [OF assms, of count "[]"] p by simp
  then show ?thesis
    using p pread_loop_frame [OF p] assms(1) by (simp add: pread_in_full_def)
qed


definition file_put :: "u8 list \<Rightarrow> int \<Rightarrow> u8 list \<Rightarrow> u8 list" where
  "file_put xs off bs = (if bs = [] then xs else overlay xs (nat off) bs)"

lemma file_put_Nil [simp]: "file_put xs off [] = xs"
  by (simp add: file_put_def)

lemma file_put_cat:
  assumes "0 \<le> off"
  shows "file_put (file_put xs off ys) (off + int (length ys)) zs = file_put xs off (ys @ zs)"
proof -
  have n: "nat (off + int (length ys)) = nat off + length ys" using assms by simp
  show ?thesis using overlay_append [of xs "nat off" ys zs] by (simp add: file_put_def n)
qed

lemma file_put_slice [simp]: "take (length bs) (drop (nat off) (file_put xs off bs)) = bs"
  by (simp add: file_put_def)

lemma sys_pwrite_put:
  "sys_pwrite f bs off = (r, f') \<Longrightarrow>
     fbytes f' = (case r of Inl e \<Rightarrow> fbytes f | Inr k \<Rightarrow> file_put (fbytes f) off (take k bs)) \<and>
     (case r of Inl e \<Rightarrow> True | Inr k \<Rightarrow> 0 \<le> off \<and> k \<le> length bs) \<and> (benign f \<longrightarrow> benign f')"
  by (auto simp: sys_pwrite_def serve_def file_put_def benign_def min_def
      split: if_splits list.splits sysret.splits)

lemma xpwrite_put:
  "xpwrite f bs off = (r, f') \<Longrightarrow>
     fbytes f' = (case r of Inl e \<Rightarrow> fbytes f | Inr k \<Rightarrow> file_put (fbytes f) off (take k bs)) \<and>
     (case r of Inl e \<Rightarrow> True | Inr k \<Rightarrow> 0 \<le> off \<and> k \<le> length bs) \<and> (benign f \<longrightarrow> benign f')"
proof (induction f bs off rule: xpwrite.induct)
  case (1 f bs off)
  obtain r1 f1 where s: "sys_pwrite f bs off = (r1, f1)" by fastforce
  note put = sys_pwrite_put [OF s]
  show ?case
  proof (cases "\<exists>e. r1 = Inl e \<and> transient e")
    case True
    then obtain e where e: "r1 = Inl e" "transient e" by blast
    then have "xpwrite f1 bs off = (r, f')" using "1.prems" s by (simp add: xpwrite.simps [of f])
    then show ?thesis using "1.IH" [OF s [symmetric] e] put e by (auto split: sum.splits)
  next
    case False
    then have "r1 = r" "f1 = f'"
      using "1.prems" s by (auto simp: xpwrite.simps [of f] split: sum.splits if_splits)
    then show ?thesis using put by simp
  qed
qed

lemma xpwrite_benign:
  assumes "benign f" and "0 \<le> off" and "bs \<noteq> []"
  shows "\<exists>k f'. 0 < k \<and> xpwrite f bs off = (Inr k, f') \<and>
      (if fscript f = [] then k = length bs \<and> fscript f' = []
       else length (fscript f') < length (fscript f))"
  using assms
proof (induction f bs off rule: xpwrite.induct)
  case (1 f bs off)
  show ?case
  proof (cases "fscript f")
    case Nil
    then show ?thesis using "1.prems" by (auto simp: xpwrite.simps [of f] sys_pwrite_def serve_def)
  next
    case (Cons r s)
    show ?thesis
    proof (cases r)
      case (SErr e)
      have t: "transient e" using "1.prems"(1) Cons SErr by (simp add: benign_def)
      have sp: "sys_pwrite f bs off = (Inl e, f\<lparr>fscript := s\<rparr>)"
        using "1.prems" Cons SErr by (simp add: sys_pwrite_def serve_def)
      have "benign (f\<lparr>fscript := s\<rparr>)" using "1.prems"(1) Cons by (simp add: benign_def)
      from "1.IH" [OF sp [symmetric] refl t this "1.prems"(2,3)] show ?thesis using sp t Cons
        by (auto simp: xpwrite.simps [of f] split: if_splits)
    next
      case (SMax n)
      have "0 < n" using "1.prems"(1) Cons SMax by (simp add: benign_def)
      then show ?thesis using "1.prems" Cons SMax
        by (auto simp: xpwrite.simps [of f] sys_pwrite_def serve_def)
    qed
  qed
qed

lemma pwrite_loop_step:
  assumes "bs \<noteq> []" and "xpwrite f bs off = (Inr k, f1)" and "k \<noteq> 0"
  shows "pwrite_loop f bs off tot = pwrite_loop f1 (drop k bs) (off + int k) (tot + k)"
  using assms by (simp add: pwrite_loop.simps [of f])

lemma pwrite_loop_put:
  "pwrite_loop f bs off tot = (r, f') \<Longrightarrow>
     (\<exists>k\<le>length bs. fbytes f' = file_put (fbytes f) off (take k bs) \<and>
        (\<forall>n. r = Some n \<longrightarrow> k = length bs \<and> n = tot + length bs)) \<and> (benign f \<longrightarrow> benign f')"
proof (induction f bs off tot rule: pwrite_loop.induct)
  case (1 f bs off tot)
  show ?case
  proof (cases "bs = []")
    case True
    then show ?thesis using "1.prems" by (auto simp: pwrite_loop.simps [of f])
  next
    case False
    obtain r1 f1 where x: "xpwrite f bs off = (r1, f1)" by fastforce
    note put = xpwrite_put [OF x]
    show ?thesis
    proof (cases "\<exists>k. r1 = Inr k \<and> k \<noteq> 0")
      case True
      then obtain k where k: "r1 = Inr k" "k \<noteq> 0" by blast
      have "pwrite_loop f1 (drop k bs) (off + int k) (tot + k) = (r, f')"
        using "1.prems" pwrite_loop_step [OF False x [unfolded k(1)] k(2)] by simp
      from "1.IH" [OF False x [symmetric] k this] obtain j
        where j: "j \<le> length bs - k" "benign f1 \<longrightarrow> benign f'"
          "fbytes f' = file_put (fbytes f1) (off + int k) (take j (drop k bs))"
          "\<forall>n. r = Some n \<longrightarrow> j = length bs - k \<and> n = tot + k + (length bs - k)"
        by auto
      have kl: "k \<le> length bs" "0 \<le> off" using put k by simp_all
      then have "fbytes f' = file_put (fbytes f) off (take (k + j) bs)"
        using j(3) put k file_put_cat [OF kl(2), of "fbytes f" "take k bs" "take j (drop k bs)"]
        by (simp add: take_add)
      then show ?thesis using j kl put by (intro conjI exI [of _ "k + j"]) auto
    next
      case stop: False
      then have "r = None" "f' = f1"
        using "1.prems" False x by (auto simp: pwrite_loop.simps [of f] split: sum.splits if_splits)
      moreover have "fbytes f1 = fbytes f" using put stop by (auto split: sum.splits)
      ultimately show ?thesis using put by (intro conjI exI [of _ 0]) auto
    qed
  qed
qed

lemma pwrite_loop_benign:
  "benign f \<Longrightarrow> 0 \<le> off \<Longrightarrow> fst (pwrite_loop f bs off tot) = Some (tot + length bs)"
proof (induction f bs off tot rule: pwrite_loop.induct)
  case (1 f bs off tot)
  show ?case
  proof (cases "bs = []")
    case True
    then show ?thesis by (simp add: pwrite_loop.simps [of f])
  next
    case False
    then obtain k f1 where k: "0 < k" and x: "xpwrite f bs off = (Inr k, f1)"
      using xpwrite_benign [of f off bs] "1.prems" by auto
    have "k \<le> length bs" "benign f1" using xpwrite_put [OF x] "1.prems"(1) by simp_all
    then show ?thesis
      using "1.IH" [OF False x [symmetric] refl] "1.prems"(2) k pwrite_loop_step [OF False x]
      by simp
  qed
qed

lemma pwrite_in_full_ok:
  assumes "pwrite_in_full f bs off = (Some n, f')"
  shows "n = length bs \<and> fbytes f' = file_put (fbytes f) off bs"
  using pwrite_loop_put [OF assms [unfolded pwrite_in_full_def]] by auto

lemma pwrite_in_full_benign:
  assumes "benign f" and "0 \<le> off"
  shows "\<exists>f'. pwrite_in_full f bs off = (Some (length bs), f') \<and>
    fbytes f' = file_put (fbytes f) off bs \<and> benign f'"
proof -
  obtain r f' where p: "pwrite_loop f bs off 0 = (r, f')" by fastforce
  then have "r = Some (length bs)" using pwrite_loop_benign [OF assms, of bs 0] by simp
  then show ?thesis
    using p pwrite_loop_put [OF p] assms(1) by (auto simp: pwrite_in_full_def)
qed

subsection \<open>Properties\<close>

text \<open>
  A positioned read that is interrupted, told to try again or served piecemeal any number of
  times still returns exactly the requested slice of the file, and fails only when the slice is
  empty.  The file is not changed.
\<close>

theorem pread_in_full_correct:
  assumes "benign f" and "0 \<le> off"
  shows "\<exists>f'. pread_in_full f count off =
      (if 0 < count \<and> file_slice f count off = [] then None else Some (file_slice f count off), f') \<and>
    fbytes f' = fbytes f"
  using pread_in_full_benign [OF assms] by blast

theorem pread_in_full_correct_witness:
  "\<exists>f'. pread_in_full \<lparr>fbytes = [1, 2, 3, 4, 5, 6], fpos = 0,
      fscript = [SErr EINTR, SMax 2, SErr EAGAIN, SMax 1]\<rparr> 4 1 = (Some [2, 3, 4, 5], f') \<and>
    fbytes f' = [1, 2, 3, 4, 5, 6]"
  using pread_in_full_correct [of "\<lparr>fbytes = [1, 2, 3, 4, 5, 6], fpos = 0,
      fscript = [SErr EINTR, SMax 2, SErr EAGAIN, SMax 1]\<rparr>" 1 4]
  by (simp add: benign_def file_slice_def transient_def eval_nat_numeral)

text \<open>
  What \<open>pwrite_in_full\<close> stores, under any pattern of interruptions and short writes,
  \<open>pread_in_full\<close> gives back from the same offset.
\<close>

theorem pwrite_pread_roundtrip:
  assumes "benign f" and "0 \<le> off" and "bs \<noteq> []"
  shows "\<exists>f' f''. pwrite_in_full f bs off = (Some (length bs), f') \<and>
    pread_in_full f' (length bs) off = (Some bs, f'')"
proof -
  obtain f' where w: "pwrite_in_full f bs off = (Some (length bs), f')"
    and f': "fbytes f' = file_put (fbytes f) off bs" "benign f'"
    using pwrite_in_full_benign [OF assms(1,2), of bs] by blast
  have "file_slice f' (length bs) off = bs" by (simp add: file_slice_def f'(1))
  then show ?thesis
    using w pread_in_full_benign [OF f'(2) assms(2), of "length bs"] assms(3) by auto
qed

theorem pwrite_pread_roundtrip_witness:
  "\<exists>f' f''. pwrite_in_full \<lparr>fbytes = [1, 2], fpos = 0, fscript = [SMax 1, SErr EINTR]\<rparr> [7, 8] 3 =
      (Some 2, f') \<and> pread_in_full f' 2 3 = (Some [7, 8], f'')"
  using pwrite_pread_roundtrip [of "\<lparr>fbytes = [1, 2], fpos = 0, fscript = [SMax 1, SErr EINTR]\<rparr>" 3 "[7, 8]"]
  by (simp add: benign_def transient_def eval_nat_numeral)

text \<open>
  Whatever the kernel answers, a \<open>pwrite_in_full\<close> that reports success has written all the
  bytes it was given, and nothing else in the file has changed.
\<close>

theorem pwrite_in_full_all_or_error:
  assumes "pwrite_in_full f bs off = (Some n, f')"
  shows "n = length bs \<and> fbytes f' = file_put (fbytes f) off bs"
  using assms by (rule pwrite_in_full_ok)

theorem pwrite_in_full_all_or_error_witness:
  "fbytes (snd (pwrite_in_full \<lparr>fbytes = [1, 2, 3], fpos = 0, fscript = [SMax 1]\<rparr> [7, 8] 1)) =
     file_put [1, 2, 3] 1 [7, 8]"
  using pwrite_in_full_all_or_error [of "\<lparr>fbytes = [1, 2, 3], fpos = 0, fscript = [SMax 1]\<rparr>" "[7, 8]" 1 2
      "\<lparr>fbytes = [1, 7, 8], fpos = 0, fscript = []\<rparr>"]
  by (simp add: pwrite_in_full_def pwrite_loop.simps xpwrite.simps sys_pwrite_def serve_def overlay_def)

end
