(* ===== verification/QcowTypes.thy ===== *)
theory QcowTypes
  imports RbTreeProofs ReadWrite
begin

text \<open>
  The data of \<^verbatim>\<open>include/kvm/qcow.h\<close> and the two caches of \<^verbatim>\<open>disk/qcow.c\<close>.  A cache is an LRU list
  of nodes, the least recently used first, and a red-black tree over the nodes' offsets.  The tree
  node and the list node of a table are one object in the code; here the tree holds the offset and
  the list the table, and a node found in the tree is fetched from the list by its offset.  Table
  entries keep the byte order of the disk, as in the code, and are converted where they are used.
  The image's descriptor, \<open>q->fd\<close>, is the field \<open>q_fd\<close>.  Allocations are taken to succeed.
\<close>

subsection \<open>Arrays of words in a buffer\<close>

definition chunks :: "nat \<Rightarrow> u8 list \<Rightarrow> u8 list list" where
  "chunks n bs = map (\<lambda>i. take n (drop (i * n) bs)) [0..<length bs div n]"

definition words64 :: "u8 list \<Rightarrow> u64 list" where
  "words64 bs = map word_of_le (chunks 8 bs)"

definition bytes64 :: "u64 list \<Rightarrow> u8 list" where
  "bytes64 ws = concat (map (le_of_word 8) ws)"

definition words16 :: "u8 list \<Rightarrow> u16 list" where
  "words16 bs = map word_of_le (chunks 2 bs)"

definition bytes16 :: "u16 list \<Rightarrow> u8 list" where
  "bytes16 ws = concat (map (le_of_word 2) ws)"

text \<open>A read of at most \<open>n\<close> bytes into a buffer that holds \<open>old\<close>.\<close>

definition into_buffer :: "u8 list \<Rightarrow> u8 list \<Rightarrow> u8 list" where
  "into_buffer old d = d @ drop (length d) old"

subsection \<open>Constants and records\<close>

definition SECTOR_SHIFT :: nat where [c_simps]: "SECTOR_SHIFT = 9"
definition QCOW_MAGIC :: u32 where [c_simps]: "QCOW_MAGIC = 0x514649FB"
definition QCOW1_VERSION :: u32 where [c_simps]: "QCOW1_VERSION = 1"
definition QCOW2_VERSION :: u32 where [c_simps]: "QCOW2_VERSION = 2"
definition QCOW1_OFLAG_COMPRESSED :: u64 where [c_simps]: "QCOW1_OFLAG_COMPRESSED = push_bit 63 1"
definition QCOW2_OFLAG_COPIED :: u64 where [c_simps]: "QCOW2_OFLAG_COPIED = push_bit 63 1"
definition QCOW2_OFLAG_COMPRESSED :: u64 where [c_simps]: "QCOW2_OFLAG_COMPRESSED = push_bit 62 1"
definition QCOW2_OFLAGS_MASK :: u64 where
  [c_simps]: "QCOW2_OFLAGS_MASK = QCOW2_OFLAG_COPIED OR QCOW2_OFLAG_COMPRESSED"
definition QCOW2_OFFSET_MASK :: u64 where [c_simps]: "QCOW2_OFFSET_MASK = NOT QCOW2_OFLAGS_MASK"
definition MAX_CACHE_NODES :: int where [c_simps]: "MAX_CACHE_NODES = 32"
definition QCOW_REFCOUNT_BLOCK_SHIFT :: nat where [c_simps]: "QCOW_REFCOUNT_BLOCK_SHIFT = 1"

record qcow_l2_table =
  l2t_offset :: u64
  l2t_dirty :: bool
  l2t_table :: "u64 list"

record qcow_l1_table =
  table_size :: u32
  l1_table :: "u64 list"
  l1_root :: "u64 rbt"
  l1_lru :: "qcow_l2_table list"
  l1_nr_cached :: int

record qcow_refcount_block =
  rfb_offset :: u64
  rfb_size :: u64
  rfb_dirty :: bool
  rfb_entries :: "u16 list"

record qcow_refcount_table =
  rf_size :: u32
  rf_table :: "u64 list"
  rf_root :: "u64 rbt"
  rf_lru :: "qcow_refcount_block list"
  rf_nr_cached :: int

record qcow_header =
  hd_size :: u64
  l1_table_offset :: u64
  l1_size :: u32
  cluster_bits :: u8
  l2_bits :: u8
  refcount_table_offset :: u64
  refcount_table_size :: u32

record qcow =
  header :: qcow_header
  table :: qcow_l1_table
  refcount_table :: qcow_refcount_table
  q_fd :: fdesc
  csize_shift :: nat
  csize_mask :: u32
  version :: u32
  cluster_size :: u64
  cluster_offset_mask :: u64
  free_clust_idx :: u64

text \<open>
  \<open>1 << n\<close> for the two exponents of the header.  The probing functions compute these shifts first,
  in \<open>int\<close>, so the exponents are known to be below 31 from there on.
\<close>

definition l2_entries :: "qcow \<Rightarrow> u64" where
  "l2_entries q = push_bit (unat (l2_bits (header q))) 1"

definition cbits :: "qcow \<Rightarrow> nat" where
  "cbits q = unat (cluster_bits (header q))"

abbreviation upd_table :: "(qcow_l1_table \<Rightarrow> qcow_l1_table) \<Rightarrow> qcow \<Rightarrow> qcow" where
  "upd_table f q \<equiv> q\<lparr>table := f (table q)\<rparr>"

abbreviation upd_rft :: "(qcow_refcount_table \<Rightarrow> qcow_refcount_table) \<Rightarrow> qcow \<Rightarrow> qcow" where
  "upd_rft f q \<equiv> q\<lparr>refcount_table := f (refcount_table q)\<rparr>"

subsection \<open>Index arithmetic\<close>

definition get_l1_index :: "qcow \<Rightarrow> u64 \<Rightarrow> u64" where
  "get_l1_index q offset = drop_bit (unat (l2_bits (header q)) + cbits q) offset"

definition get_l2_index :: "qcow \<Rightarrow> u64 \<Rightarrow> u64" where
  "get_l2_index q offset = drop_bit (cbits q) offset AND (l2_entries q - 1)"

definition get_cluster_offset :: "qcow \<Rightarrow> u64 \<Rightarrow> u64" where
  "get_cluster_offset q offset = offset AND (push_bit (cbits q) 1 - 1)"

subsection \<open>Writing through\<close>

definition qcow_pwrite_sync :: "fdesc \<Rightarrow> u8 list \<Rightarrow> int \<Rightarrow> bool \<times> fdesc" where
  "qcow_pwrite_sync f buf offset =
     (case pwrite_in_full f buf offset of
        (None, f') \<Rightarrow> (False, f')
      | (Some _, f') \<Rightarrow> (case sys_fsync f' of (Inl _, f'') \<Rightarrow> (False, f'') | (Inr _, f'') \<Rightarrow> (True, f'')))"

subsection \<open>The cache of level 2 tables\<close>

definition find_l2 :: "u64 \<Rightarrow> qcow_l2_table list \<Rightarrow> qcow_l2_table option" where
  "find_l2 offset ts = find (\<lambda>t. l2t_offset t = offset) ts"

definition l2_table_insert :: "u64 rbt \<Rightarrow> qcow_l2_table \<Rightarrow> u64 rbt run" where
  "l2_table_insert root new = rb_insert (l2t_offset new) root"

definition l2_table_lookup :: "qcow_l1_table \<Rightarrow> u64 \<Rightarrow> qcow_l2_table option run" where
  "l2_table_lookup l1t offset =
     (if rb_lookup offset (l1_root l1t)
      then (case find_l2 offset (l1_lru l1t) of None \<Rightarrow> Wild | Some t \<Rightarrow> Done (Some t))
      else Done None)"

fun l1_free_nodes :: "qcow_l2_table list \<Rightarrow> u64 rbt \<Rightarrow> u64 rbt run" where
  "l1_free_nodes [] r = Done r"
| "l1_free_nodes (t # ts) r = bind_run (rb_remove (l2t_offset t) r) (l1_free_nodes ts)"

definition l1_table_free_cache :: "qcow_l1_table \<Rightarrow> qcow_l1_table run" where
  "l1_table_free_cache l1t =
     bind_run (l1_free_nodes (l1_lru l1t) (l1_root l1t)) (\<lambda>r. Done (l1t\<lparr>l1_lru := [], l1_root := r\<rparr>))"

text \<open>The table, the node of the cache it is: its new state is stored back under its offset.\<close>

definition put_l2 :: "qcow_l2_table \<Rightarrow> qcow_l1_table \<Rightarrow> qcow_l1_table" where
  "put_l2 c l1t = l1t\<lparr>l1_lru := map (\<lambda>t. if l2t_offset t = l2t_offset c then c else t) (l1_lru l1t)\<rparr>"

definition qcow_l2_cache_write :: "qcow \<Rightarrow> qcow_l2_table \<Rightarrow> bool \<times> qcow_l2_table \<times> qcow" where
  "qcow_l2_cache_write q c =
     (if \<not> l2t_dirty c then (True, c, q)
      else case qcow_pwrite_sync (q_fd q) (bytes64 (l2t_table c)) (sint (l2t_offset c)) of
        (ok, f) \<Rightarrow> (ok, if ok then c\<lparr>l2t_dirty := False\<rparr> else c, q\<lparr>q_fd := f\<rparr>))"

text \<open>
  \<open>cache_table\<close>.  When the cache is full the oldest node goes.  A node whose offset is cached
  already would be linked into the list while the tree keeps the other node, or corrupt the list
  when it is that node; both are \<open>Wild\<close>.
\<close>

definition l1_evict :: "qcow_l1_table \<Rightarrow> qcow_l1_table run" where
  "l1_evict l1t =
     (case l1_lru l1t of
        [] \<Rightarrow> Wild
      | lru # ts \<Rightarrow>
          bind_run (rb_remove (l2t_offset lru) (l1_root l1t)) (\<lambda>r.
            Done (l1t\<lparr>l1_root := r, l1_lru := ts, l1_nr_cached := l1_nr_cached l1t - 1\<rparr>)))"

definition cache_table :: "qcow_l1_table \<Rightarrow> qcow_l2_table \<Rightarrow> qcow_l1_table run" where
  "cache_table l1t0 c =
     bind_run (if l1_nr_cached l1t0 = MAX_CACHE_NODES then l1_evict l1t0 else Done l1t0) (\<lambda>l1t.
       if rb_lookup (l2t_offset c) (l1_root l1t) then Wild
       else bind_run (l2_table_insert (l1_root l1t) c) (\<lambda>r.
         Done (l1t\<lparr>l1_root := r, l1_lru := l1_lru l1t @ [c], l1_nr_cached := l1_nr_cached l1t + 1\<rparr>)))"

definition l2_table_search :: "qcow_l1_table \<Rightarrow> u64 \<Rightarrow> (qcow_l2_table option \<times> qcow_l1_table) run" where
  "l2_table_search l1t offset =
     bind_run (l2_table_lookup l1t offset) (\<lambda>found.
       case found of
         None \<Rightarrow> Done (None, l1t)
       | Some t \<Rightarrow>
           Done (Some t, l1t\<lparr>l1_lru := filter (\<lambda>u. l2t_offset u \<noteq> offset) (l1_lru l1t) @ [t]\<rparr>))"

definition new_cache_table :: "qcow \<Rightarrow> u64 \<Rightarrow> qcow_l2_table" where
  "new_cache_table q offset =
     \<lparr>l2t_offset = offset, l2t_dirty = False, l2t_table = replicate (unat (l2_entries q)) 0\<rparr>"

definition qcow_read_l2_table :: "qcow \<Rightarrow> u64 \<Rightarrow> (qcow_l2_table option \<times> qcow) run" where
  "qcow_read_l2_table q offset =
     bind_run (l2_table_search (table q) offset) (\<lambda>(found, l1t).
       case found of
         Some t \<Rightarrow> Done (Some t, q\<lparr>table := l1t\<rparr>)
       | None \<Rightarrow>
           let c = new_cache_table q offset;
               n = 8 * unat (l2_entries q)
           in (case pread_in_full (q_fd q) n (sint offset) of
                 (None, f) \<Rightarrow> Done (None, q\<lparr>q_fd := f\<rparr>)
               | (Some d, f) \<Rightarrow>
                   let c' = c\<lparr>l2t_table := words64 (into_buffer (bytes64 (l2t_table c)) d)\<rparr>
                   in bind_run (cache_table l1t c') (\<lambda>l1t'. Done (Some c', q\<lparr>table := l1t', q_fd := f\<rparr>))))"

subsection \<open>The cache of refcount blocks\<close>

definition find_rfb :: "u64 \<Rightarrow> qcow_refcount_block list \<Rightarrow> qcow_refcount_block option" where
  "find_rfb offset bs = find (\<lambda>b. rfb_offset b = offset) bs"

definition refcount_block_insert :: "u64 rbt \<Rightarrow> qcow_refcount_block \<Rightarrow> u64 rbt run" where
  "refcount_block_insert root new = rb_insert (rfb_offset new) root"

definition refcount_block_lookup :: "qcow_refcount_table \<Rightarrow> u64 \<Rightarrow> qcow_refcount_block option run" where
  "refcount_block_lookup rft offset =
     (if rb_lookup offset (rf_root rft)
      then (case find_rfb offset (rf_lru rft) of None \<Rightarrow> Wild | Some b \<Rightarrow> Done (Some b))
      else Done None)"

fun rf_free_nodes :: "qcow_refcount_block list \<Rightarrow> u64 rbt \<Rightarrow> u64 rbt run" where
  "rf_free_nodes [] r = Done r"
| "rf_free_nodes (b # bs) r = bind_run (rb_remove (rfb_offset b) r) (rf_free_nodes bs)"

definition refcount_table_free_cache :: "qcow_refcount_table \<Rightarrow> qcow_refcount_table run" where
  "refcount_table_free_cache rft =
     bind_run (rf_free_nodes (rf_lru rft) (rf_root rft)) (\<lambda>r. Done (rft\<lparr>rf_lru := [], rf_root := r\<rparr>))"

definition put_rfb :: "qcow_refcount_block \<Rightarrow> qcow_refcount_table \<Rightarrow> qcow_refcount_table" where
  "put_rfb c rft = rft\<lparr>rf_lru := map (\<lambda>b. if rfb_offset b = rfb_offset c then c else b) (rf_lru rft)\<rparr>"

definition write_refcount_block :: "qcow \<Rightarrow> qcow_refcount_block \<Rightarrow> bool \<times> qcow_refcount_block \<times> qcow" where
  "write_refcount_block q b =
     (if \<not> rfb_dirty b then (True, b, q)
      else case qcow_pwrite_sync (q_fd q) (take (2 * unat (rfb_size b)) (bytes16 (rfb_entries b)))
          (sint (rfb_offset b)) of
        (ok, f) \<Rightarrow> (ok, if ok then b\<lparr>rfb_dirty := False\<rparr> else b, q\<lparr>q_fd := f\<rparr>))"

definition rf_evict :: "qcow_refcount_table \<Rightarrow> qcow_refcount_table run" where
  "rf_evict rft =
     (case rf_lru rft of
        [] \<Rightarrow> Wild
      | lru # bs \<Rightarrow>
          bind_run (rb_remove (rfb_offset lru) (rf_root rft)) (\<lambda>r.
            Done (rft\<lparr>rf_root := r, rf_lru := bs, rf_nr_cached := rf_nr_cached rft - 1\<rparr>)))"

definition cache_refcount_block :: "qcow_refcount_table \<Rightarrow> qcow_refcount_block \<Rightarrow> qcow_refcount_table run" where
  "cache_refcount_block rft0 c =
     bind_run (if rf_nr_cached rft0 = MAX_CACHE_NODES then rf_evict rft0 else Done rft0) (\<lambda>rft.
       if rb_lookup (rfb_offset c) (rf_root rft) then Wild
       else bind_run (refcount_block_insert (rf_root rft) c) (\<lambda>r.
         Done (rft\<lparr>rf_root := r, rf_lru := rf_lru rft @ [c], rf_nr_cached := rf_nr_cached rft + 1\<rparr>)))"

definition refcount_block_search ::
  "qcow_refcount_table \<Rightarrow> u64 \<Rightarrow> (qcow_refcount_block option \<times> qcow_refcount_table) run" where
  "refcount_block_search rft offset =
     bind_run (refcount_block_lookup rft offset) (\<lambda>found.
       case found of
         None \<Rightarrow> Done (None, rft)
       | Some b \<Rightarrow>
           Done (Some b, rft\<lparr>rf_lru := filter (\<lambda>u. rfb_offset u \<noteq> offset) (rf_lru rft) @ [b]\<rparr>))"

text \<open>\<open>malloc\<close> leaves the entries indeterminate; they are overwritten before they are read, as far as
  the file reaches.  \<open>junk\<close> is the memory's content.\<close>

definition new_refcount_block :: "u16 list \<Rightarrow> qcow \<Rightarrow> u64 \<Rightarrow> qcow_refcount_block" where
  "new_refcount_block junk q offset =
     \<lparr>rfb_offset = offset, rfb_size = cluster_size q div 2, rfb_dirty = False,
      rfb_entries = take (unat (cluster_size q div 2)) (junk @ replicate (unat (cluster_size q div 2)) 0)\<rparr>"

end
