(* ===== verification/VecIo.thy ===== *)
theory VecIo
  imports ReadWrite
begin

text \<open>
  The scatter/gather half of \<^verbatim>\<open>util/read-write.c\<close>.  An \<open>iovec\<close> names a range of memory; the
  C pointer \<open>iov\<close> is the list of the array's elements from the pointed-to one to the end of
  the array, so it can hold more elements than \<open>iovcnt\<close>, and stepping past its end is \<open>Wild\<close>.
  The loops can run forever, so they take fuel: \<open>NoFuel\<close> for every amount is a loop that
  never returns.
\<close>

record iovec =
  iov_base :: u64
  iov_len :: nat

primrec scatter :: "mem \<Rightarrow> iovec list \<Rightarrow> u8 list \<Rightarrow> mem" where
  "scatter m [] d = m"
| "scatter m (v # vs) d =
     scatter (stn m (iov_base v) (take (iov_len v) d)) vs (drop (iov_len v) d)"

definition gather :: "mem \<Rightarrow> iovec list \<Rightarrow> u8 list" where
  "gather m iov = concat (map (\<lambda>v. ldn m (iov_base v) (iov_len v)) iov)"

definition iov_total :: "iovec list \<Rightarrow> nat" where
  "iov_total iov = sum_list (map iov_len iov)"

lemma iov_total_simps [simp]:
  "iov_total [] = 0" "iov_total (v # vs) = iov_len v + iov_total vs"
  "iov_total (vs @ ws) = iov_total vs + iov_total ws"
  by (simp_all add: iov_total_def)

lemma length_gather [simp]: "length (gather m iov) = iov_total iov"
  by (induction iov) (simp_all add: gather_def)

lemma scatter_Nil [simp]: "scatter m iov [] = m"
  by (induction iov arbitrary: m) auto

subsection \<open>The system calls on vectors\<close>

definition sys_preadv :: "fdesc \<Rightarrow> mem \<Rightarrow> iovec list \<Rightarrow> int \<Rightarrow> (errno + nat) \<times> mem \<times> fdesc" where
  "sys_preadv f m iov off =
     (case sys_pread f (iov_total iov) off of
        (Inl e, f') \<Rightarrow> (Inl e, m, f')
      | (Inr d, f') \<Rightarrow> (Inr (length d), scatter m iov d, f'))"

definition sys_pwritev :: "fdesc \<Rightarrow> mem \<Rightarrow> iovec list \<Rightarrow> int \<Rightarrow> (errno + nat) \<times> fdesc" where
  "sys_pwritev f m iov off = sys_pwrite f (gather m iov) off"

definition sys_readv :: "fdesc \<Rightarrow> mem \<Rightarrow> iovec list \<Rightarrow> (errno + nat) \<times> mem \<times> fdesc" where
  "sys_readv f m iov =
     (case sys_read f (iov_total iov) of
        (Inl e, f') \<Rightarrow> (Inl e, m, f')
      | (Inr d, f') \<Rightarrow> (Inr (length d), scatter m iov d, f'))"

definition sys_writev :: "fdesc \<Rightarrow> mem \<Rightarrow> iovec list \<Rightarrow> (errno + nat) \<times> fdesc" where
  "sys_writev f m iov = sys_write f (gather m iov)"

lemmas sysv_defs = sys_preadv_def sys_pwritev_def sys_readv_def sys_writev_def

lemma transient_consumes_v:
  "sys_preadv f m iov off = (Inl e, m', f') \<Longrightarrow> transient e \<Longrightarrow> length (fscript f') < length (fscript f)"
  "sys_pwritev f m iov off = (Inl e, f') \<Longrightarrow> transient e \<Longrightarrow> length (fscript f') < length (fscript f)"
  "sys_readv f m iov = (Inl e, m', f') \<Longrightarrow> transient e \<Longrightarrow> length (fscript f') < length (fscript f)"
  "sys_writev f m iov = (Inl e, f') \<Longrightarrow> transient e \<Longrightarrow> length (fscript f') < length (fscript f)"
  by (auto simp: sysv_defs dest: transient_consumes split: prod.splits sum.splits)

function xpreadv :: "fdesc \<Rightarrow> mem \<Rightarrow> iovec list \<Rightarrow> int \<Rightarrow> (errno + nat) \<times> mem \<times> fdesc" where
  "xpreadv f m iov off =
     (case sys_preadv f m iov off of
        (Inl e, m', f') \<Rightarrow> if transient e then xpreadv f' m' iov off else (Inl e, m', f')
      | (Inr n, m', f') \<Rightarrow> (Inr n, m', f'))"
  by pat_completeness auto
termination
  by (relation "measure (\<lambda>(f, m, iov, off). length (fscript f))")
     (auto dest: transient_consumes_v [OF sym])

function xpwritev :: "fdesc \<Rightarrow> mem \<Rightarrow> iovec list \<Rightarrow> int \<Rightarrow> (errno + nat) \<times> fdesc" where
  "xpwritev f m iov off =
     (case sys_pwritev f m iov off of
        (Inl e, f') \<Rightarrow> if transient e then xpwritev f' m iov off else (Inl e, f')
      | (Inr n, f') \<Rightarrow> (Inr n, f'))"
  by pat_completeness auto
termination
  by (relation "measure (\<lambda>(f, m, iov, off). length (fscript f))")
     (auto dest: transient_consumes_v [OF sym])

function xreadv :: "fdesc \<Rightarrow> mem \<Rightarrow> iovec list \<Rightarrow> (errno + nat) \<times> mem \<times> fdesc" where
  "xreadv f m iov =
     (case sys_readv f m iov of
        (Inl e, m', f') \<Rightarrow> if transient e then xreadv f' m' iov else (Inl e, m', f')
      | (Inr n, m', f') \<Rightarrow> (Inr n, m', f'))"
  by pat_completeness auto
termination
  by (relation "measure (\<lambda>(f, m, iov). length (fscript f))")
     (auto dest: transient_consumes_v [OF sym])

function xwritev :: "fdesc \<Rightarrow> mem \<Rightarrow> iovec list \<Rightarrow> (errno + nat) \<times> fdesc" where
  "xwritev f m iov =
     (case sys_writev f m iov of
        (Inl e, f') \<Rightarrow> if transient e then xwritev f' m iov else (Inl e, f')
      | (Inr n, f') \<Rightarrow> (Inr n, f'))"
  by pat_completeness auto
termination
  by (relation "measure (\<lambda>(f, m, iov). length (fscript f))")
     (auto dest: transient_consumes_v [OF sym])

declare xpreadv.simps [simp del] xpwritev.simps [simp del] xreadv.simps [simp del] xwritev.simps [simp del]

subsection \<open>Sizes and shifting\<close>

fun get_iov_size :: "iovec list \<Rightarrow> int \<Rightarrow> nat run" where
  "get_iov_size iov iovcnt =
     (if iovcnt = 0 then Done 0
      else case iov of
        [] \<Rightarrow> Wild
      | v # vs \<Rightarrow> bind_run (get_iov_size vs (iovcnt - 1)) (\<lambda>n. Done (iov_len v + n)))"

text \<open>
  The cursor that \<open>shift_iovec\<close> updates through its pointer arguments: the current element, the
  elements left, and the bytes done, still to do, and the file offset.
\<close>

record cursor =
  cur_iov :: "iovec list"
  cur_cnt :: int
  cur_total :: nat
  cur_count :: nat
  cur_off :: int

function shift_iovec :: "nat \<Rightarrow> cursor \<Rightarrow> cursor run" where
  "shift_iovec nr c =
     (case cur_iov c of
        [] \<Rightarrow> Wild
      | v # vs \<Rightarrow>
          if iov_len v \<le> nr then
            shift_iovec (nr - iov_len v)
              (c\<lparr>cur_total := cur_total c + iov_len v, cur_count := cur_count c - iov_len v,
                 cur_off := cur_off c + int (iov_len v), cur_cnt := cur_cnt c - 1,
                 cur_iov := vs\<rparr>)
          else Done c)"
  by pat_completeness auto
termination
  by (relation "measure (\<lambda>(nr, c). length (cur_iov c))") auto

declare get_iov_size.simps [simp del] shift_iovec.simps [simp del]

lemma get_iov_size_ok: "get_iov_size (iov @ rest) (int (length iov)) = Done (iov_total iov)"
  by (induction iov) (simp_all add: get_iov_size.simps)

lemma get_iov_size_negative: "iovcnt < 0 \<Longrightarrow> get_iov_size iov iovcnt = Wild"
  by (induction iov arbitrary: iovcnt) (simp_all add: get_iov_size.simps)

subsection \<open>The loops\<close>

fun preadv_loop :: "nat \<Rightarrow> fdesc \<Rightarrow> mem \<Rightarrow> cursor \<Rightarrow> (nat option \<times> mem \<times> fdesc) run" where
  "preadv_loop fuel f m c =
     (if cur_count c = 0 then Done (Some (cur_total c), m, f)
      else case fuel of
        0 \<Rightarrow> NoFuel
      | Suc fuel' \<Rightarrow>
          (case xpreadv f m (take (nat (cur_cnt c)) (cur_iov c)) (cur_off c) of
             (Inl e, m', f') \<Rightarrow>
               Done (if 0 < cur_total c then Some (cur_total c) else None, m', f')
           | (Inr nr, m', f') \<Rightarrow>
               if nr = 0 then Done (if 0 < cur_total c then Some (cur_total c) else None, m', f')
               else bind_run (shift_iovec nr c) (preadv_loop fuel' f' m')))"

definition preadv_in_full ::
  "nat \<Rightarrow> fdesc \<Rightarrow> mem \<Rightarrow> iovec list \<Rightarrow> int \<Rightarrow> int \<Rightarrow> (nat option \<times> mem \<times> fdesc) run" where
  "preadv_in_full fuel f m iov iovcnt off =
     bind_run (get_iov_size iov iovcnt) (\<lambda>count.
       preadv_loop fuel f m
         \<lparr>cur_iov = iov, cur_cnt = iovcnt, cur_total = 0, cur_count = count, cur_off = off\<rparr>)"

fun pwritev_loop :: "nat \<Rightarrow> fdesc \<Rightarrow> mem \<Rightarrow> cursor \<Rightarrow> (nat option \<times> fdesc) run" where
  "pwritev_loop fuel f m c =
     (if cur_count c = 0 then Done (Some (cur_total c), f)
      else case fuel of
        0 \<Rightarrow> NoFuel
      | Suc fuel' \<Rightarrow>
          (case xpwritev f m (take (nat (cur_cnt c)) (cur_iov c)) (cur_off c) of
             (Inl e, f') \<Rightarrow> Done (None, f')
           | (Inr nr, f') \<Rightarrow>
               if nr = 0 then Done (None, f')
               else bind_run (shift_iovec nr c) (pwritev_loop fuel' f' m)))"

definition pwritev_in_full ::
  "nat \<Rightarrow> fdesc \<Rightarrow> mem \<Rightarrow> iovec list \<Rightarrow> int \<Rightarrow> int \<Rightarrow> (nat option \<times> fdesc) run" where
  "pwritev_in_full fuel f m iov iovcnt off =
     bind_run (get_iov_size iov iovcnt) (\<lambda>count.
       pwritev_loop fuel f m
         \<lparr>cur_iov = iov, cur_cnt = iovcnt, cur_total = 0, cur_count = count, cur_off = off\<rparr>)"

text \<open>The variants at the file position pass no offset to \<open>shift_iovec\<close>.\<close>

fun readv_loop :: "nat \<Rightarrow> fdesc \<Rightarrow> mem \<Rightarrow> cursor \<Rightarrow> (nat option \<times> mem \<times> fdesc) run" where
  "readv_loop fuel f m c =
     (if cur_count c = 0 then Done (Some (cur_total c), m, f)
      else case fuel of
        0 \<Rightarrow> NoFuel
      | Suc fuel' \<Rightarrow>
          (case xreadv f m (take (nat (cur_cnt c)) (cur_iov c)) of
             (Inl e, m', f') \<Rightarrow>
               Done (if 0 < cur_total c then Some (cur_total c) else None, m', f')
           | (Inr nr, m', f') \<Rightarrow>
               if nr = 0 then Done (if 0 < cur_total c then Some (cur_total c) else None, m', f')
               else bind_run (shift_iovec nr c) (readv_loop fuel' f' m')))"

definition readv_in_full ::
  "nat \<Rightarrow> fdesc \<Rightarrow> mem \<Rightarrow> iovec list \<Rightarrow> int \<Rightarrow> (nat option \<times> mem \<times> fdesc) run" where
  "readv_in_full fuel f m iov iovcnt =
     bind_run (get_iov_size iov iovcnt) (\<lambda>count.
       readv_loop fuel f m
         \<lparr>cur_iov = iov, cur_cnt = iovcnt, cur_total = 0, cur_count = count, cur_off = 0\<rparr>)"

fun writev_loop :: "nat \<Rightarrow> fdesc \<Rightarrow> mem \<Rightarrow> cursor \<Rightarrow> (nat option \<times> fdesc) run" where
  "writev_loop fuel f m c =
     (if cur_count c = 0 then Done (Some (cur_total c), f)
      else case fuel of
        0 \<Rightarrow> NoFuel
      | Suc fuel' \<Rightarrow>
          (case xwritev f m (take (nat (cur_cnt c)) (cur_iov c)) of
             (Inl e, f') \<Rightarrow> Done (None, f')
           | (Inr nr, f') \<Rightarrow>
               if nr = 0 then Done (None, f')
               else bind_run (shift_iovec nr c) (writev_loop fuel' f' m)))"

definition writev_in_full ::
  "nat \<Rightarrow> fdesc \<Rightarrow> mem \<Rightarrow> iovec list \<Rightarrow> int \<Rightarrow> (nat option \<times> fdesc) run" where
  "writev_in_full fuel f m iov iovcnt =
     bind_run (get_iov_size iov iovcnt) (\<lambda>count.
       writev_loop fuel f m
         \<lparr>cur_iov = iov, cur_cnt = iovcnt, cur_total = 0, cur_count = count, cur_off = 0\<rparr>)"

declare preadv_loop.simps [simp del] pwritev_loop.simps [simp del]
  readv_loop.simps [simp del] writev_loop.simps [simp del]

end
