(* ===== verification/QcowRead.thy ===== *)
theory QcowRead
  imports QcowTypes VecIo
begin

text \<open>
  Reading from a QCOW image (\<^verbatim>\<open>disk/qcow.c\<close>) into guest memory.  The default build has no zlib, so a
  compressed cluster is read and then refused; a build with it is the parameter \<open>z\<close>.  \<open>ssize_t\<close> results
  are integers, -1 the error.
\<close>

text \<open>
  With zlib: what \<open>inflate\<close> writes for an input and the room it has (nothing for an error of the stream),
  and what the buffer \<open>cluster_data\<close> holds before a cluster is read into it.
\<close>

record zlib =
  inflate :: "u8 list \<Rightarrow> nat \<Rightarrow> u8 list option"
  cluster_data :: "u8 list"

definition qcow_decompress_buffer :: "zlib option \<Rightarrow> nat \<Rightarrow> u8 list \<Rightarrow> u8 list option" where
  "qcow_decompress_buffer z out_buf_size buf =
     (case z of
        None \<Rightarrow> None
      | Some zl \<Rightarrow>
          (case inflate zl buf out_buf_size of
             None \<Rightarrow> None
           | Some d \<Rightarrow> if length d \<noteq> out_buf_size then None else Some d))"

text \<open>The part common to both versions: bounds, the level 1 entry, and the length of the piece.\<close>

definition piece_length :: "qcow \<Rightarrow> u64 \<Rightarrow> u32 \<Rightarrow> u64" where
  "piece_length q clust_offset dst_len =
     (let len = cluster_size q - clust_offset in if len > ucast dst_len then ucast dst_len else len)"

definition zero_piece :: "mem \<Rightarrow> u64 \<Rightarrow> u64 \<Rightarrow> mem" where
  "zero_piece m dst len = stn m dst (replicate (unat len) 0)"

definition read_piece :: "qcow \<Rightarrow> mem \<Rightarrow> u64 \<Rightarrow> u64 \<Rightarrow> u64 \<Rightarrow> int \<times> mem \<times> qcow" where
  "read_piece q m dst len pos =
     (case pread_in_full (q_fd q) (unat len) (sint pos) of
        (None, f) \<Rightarrow> (-1, m, q\<lparr>q_fd := f\<rparr>)
      | (Some d, f) \<Rightarrow> (int (unat len), stn m dst d, q\<lparr>q_fd := f\<rparr>))"

text \<open>
  A compressed cluster: \<open>csize\<close> bytes go to \<open>cluster_data\<close>, a buffer of one cluster, of which the
  decompressor gets all but the first \<open>skip\<close>; it fills \<open>cluster_cache\<close>, and a piece of this is copied.
\<close>

definition read_compressed ::
  "zlib option \<Rightarrow> qcow \<Rightarrow> mem \<Rightarrow> u64 \<Rightarrow> u64 \<Rightarrow> u64 \<Rightarrow> nat \<Rightarrow> nat \<Rightarrow> int \<Rightarrow> (int \<times> mem \<times> qcow) run" where
  "read_compressed z q m dst clust_offset len csize skip pos =
     (case pread_in_full (q_fd q) csize pos of
        (None, f) \<Rightarrow> Done (-1, m, q\<lparr>q_fd := f\<rparr>)
      | (Some d, f) \<Rightarrow>
          if unat (cluster_size q) < length d \<or> z \<noteq> None \<and> unat (cluster_size q) < csize then Wild
          else
            let buf = (case z of None \<Rightarrow> d | Some zl \<Rightarrow> take csize (into_buffer (cluster_data zl) d))
            in case qcow_decompress_buffer z (unat (cluster_size q)) (drop skip buf) of
                 None \<Rightarrow> Done (-1, m, q\<lparr>q_fd := f\<rparr>)
               | Some c \<Rightarrow>
                   Done (int (unat len), stn m dst (take (unat len) (drop (unat clust_offset) c)), q\<lparr>q_fd := f\<rparr>))"

definition qcow1_read_cluster_z :: "zlib option \<Rightarrow> qcow \<Rightarrow> mem \<Rightarrow> u64 \<Rightarrow> u64 \<Rightarrow> u32 \<Rightarrow> (int \<times> mem \<times> qcow) run" where
  "qcow1_read_cluster_z z q m offset dst dst_len =
     (let l1_idx = get_l1_index q offset;
          clust_offset = get_cluster_offset q offset;
          len = piece_length q clust_offset dst_len
      in if l1_idx \<ge> ucast (table_size (table q)) then Done (-1, m, q)
         else if clust_offset \<ge> cluster_size q then Done (-1, m, q)
         else
           let l2t_offset = be64_to_cpu (l1_table (table q) ! unat l1_idx)
           in if l2t_offset = 0 then Done (int (unat len), zero_piece m dst len, q)
              else
                bind_run (qcow_read_l2_table q l2t_offset) (\<lambda>(l2t, q').
                  case l2t of
                    None \<Rightarrow> Done (-1, m, q')
                  | Some t \<Rightarrow>
                      let l2_idx = get_l2_index q offset
                      in if l2_idx \<ge> l2_entries q then Done (-1, m, q')
                         else
                           let clust_start = be64_to_cpu (l2t_table t ! unat l2_idx)
                           in if clust_start AND QCOW1_OFLAG_COMPRESSED \<noteq> 0 then
                                let coffset = sint (ucast (clust_start AND cluster_offset_mask q) :: u32);
                                    csize = ucast (drop_bit (63 - cbits q) clust_start) AND
                                      ucast (cluster_size q - 1) :: u32
                                in read_compressed z q' m dst clust_offset len (unat csize) 0 coffset
                              else if clust_start = 0 then Done (int (unat len), zero_piece m dst len, q')
                              else Done (read_piece q' m dst len (clust_start + clust_offset))))"

definition qcow2_read_cluster_z :: "zlib option \<Rightarrow> qcow \<Rightarrow> mem \<Rightarrow> u64 \<Rightarrow> u64 \<Rightarrow> u32 \<Rightarrow> (int \<times> mem \<times> qcow) run" where
  "qcow2_read_cluster_z z q m offset dst dst_len =
     (let l1_idx = get_l1_index q offset;
          clust_offset = get_cluster_offset q offset;
          len = piece_length q clust_offset dst_len
      in if l1_idx \<ge> ucast (table_size (table q)) then Done (-1, m, q)
         else if clust_offset \<ge> cluster_size q then Done (-1, m, q)
         else
           let l2t_offset = be64_to_cpu (l1_table (table q) ! unat l1_idx) AND NOT QCOW2_OFLAG_COPIED
           in if l2t_offset = 0 then Done (int (unat len), zero_piece m dst len, q)
              else
                bind_run (qcow_read_l2_table q l2t_offset) (\<lambda>(l2t, q').
                  case l2t of
                    None \<Rightarrow> Done (-1, m, q')
                  | Some t \<Rightarrow>
                      let l2_idx = get_l2_index q offset
                      in if l2_idx \<ge> l2_entries q then Done (-1, m, q')
                         else
                           let clust_start = be64_to_cpu (l2t_table t ! unat l2_idx)
                           in if clust_start AND QCOW2_OFLAG_COMPRESSED \<noteq> 0 then
                                let coffset = ucast (clust_start AND cluster_offset_mask q) :: u32;
                                    nb_csectors = (ucast (drop_bit (csize_shift q) clust_start)
                                      AND csize_mask q) + 1 :: u32
                                in read_compressed z q' m dst clust_offset len (512 * unat nb_csectors)
                                     (unat (coffset AND 511)) (sint (coffset AND NOT 511))
                              else
                                let clust_start = clust_start AND QCOW2_OFFSET_MASK
                                in if clust_start = 0
                                   then Done (int (unat len), zero_piece m dst len, q')
                                   else Done (read_piece q' m dst len (clust_start + clust_offset))))"

text \<open>The default build.\<close>

definition qcow1_read_cluster :: "qcow \<Rightarrow> mem \<Rightarrow> u64 \<Rightarrow> u64 \<Rightarrow> u32 \<Rightarrow> (int \<times> mem \<times> qcow) run" where
  "qcow1_read_cluster = qcow1_read_cluster_z None"

definition qcow2_read_cluster :: "qcow \<Rightarrow> mem \<Rightarrow> u64 \<Rightarrow> u64 \<Rightarrow> u32 \<Rightarrow> (int \<times> mem \<times> qcow) run" where
  "qcow2_read_cluster = qcow2_read_cluster_z None"

text \<open>
  The loop of \<open>qcow_read_sector_single\<close>.  \<open>nr\<close> is a \<open>u32\<close>: the error -1 becomes \<open>0xffffffff\<close>
  and passes the test \<open>nr <= 0\<close>, so the buffer pointer and the count move on by that much.  From
  then on the pointer is outside the buffer and a cluster that delivers data is \<open>Wild\<close>.
\<close>

definition qcow_read_cluster :: "qcow \<Rightarrow> mem \<Rightarrow> u64 \<Rightarrow> u64 \<Rightarrow> u32 \<Rightarrow> (int \<times> mem \<times> qcow) run" where
  "qcow_read_cluster q m offset dst dst_len =
     (if version q = QCOW1_VERSION then qcow1_read_cluster q m offset dst dst_len
      else qcow2_read_cluster q m offset dst dst_len)"

fun read_single_loop ::
  "nat \<Rightarrow> qcow \<Rightarrow> mem \<Rightarrow> u64 \<Rightarrow> u64 \<Rightarrow> u32 \<Rightarrow> u32 \<Rightarrow> u64 \<Rightarrow> (int \<times> mem \<times> qcow) run" where
  "read_single_loop fuel q m sector dst dst_len nr_read buf =
     (if \<not> nr_read < dst_len then Done (int (unat dst_len), m, q)
      else case fuel of
        0 \<Rightarrow> NoFuel
      | Suc fuel' \<Rightarrow>
          let offset = push_bit SECTOR_SHIFT sector
          in if offset \<ge> hd_size (header q) then Done (-1, m, q)
             else
               bind_run (qcow_read_cluster q m offset buf (dst_len - nr_read)) (\<lambda>(r, m', q').
                 let nr = of_int r :: u32
                 in if 0 \<le> r \<and> buf \<noteq> dst + ucast nr_read then Wild
                    else if nr = 0 then Done (-1, m', q')
                    else read_single_loop fuel' q' m' (sector + ucast (drop_bit SECTOR_SHIFT nr)) dst dst_len
                           (nr_read + nr) (buf + ucast nr)))"

declare read_single_loop.simps [simp del]

text \<open>Every round that delivers data moves on by at least a byte, and an error ends the progress.\<close>

definition qcow_read_sector_single :: "qcow \<Rightarrow> mem \<Rightarrow> u64 \<Rightarrow> u64 \<Rightarrow> u32 \<Rightarrow> (int \<times> mem \<times> qcow) run" where
  "qcow_read_sector_single q m sector dst dst_len =
     read_single_loop (2 * unat dst_len + 2) q m sector dst dst_len 0 dst"

text \<open>\<open>while (iovcount--)\<close>: a negative count, or one past the array, runs off the vector.\<close>

fun qcow_read_sector ::
  "qcow \<Rightarrow> mem \<Rightarrow> u64 \<Rightarrow> iovec list \<Rightarrow> int \<Rightarrow> int \<Rightarrow> (int \<times> mem \<times> qcow) run" where
  "qcow_read_sector q m sector [] iovcount tot = (if iovcount = 0 then Done (tot, m, q) else Wild)"
| "qcow_read_sector q m sector (v # iov) iovcount tot =
     (if iovcount = 0 then Done (tot, m, q)
      else
        bind_run (qcow_read_sector_single q m sector (iov_base v) (of_nat (iov_len v))) (\<lambda>(nr, m', q').
          if nr \<noteq> int (iov_len v) then Done (-1, m', q')
          else qcow_read_sector q' m' (sector + of_nat (iov_len v div 512)) iov (iovcount - 1) (tot + nr)))"

end
