(* ===== verification/QcowAlloc.thy ===== *)
theory QcowAlloc
  imports QcowRead
begin

text \<open>
  Reference counts and allocation of clusters (\<^verbatim>\<open>disk/qcow.c\<close>).  \<open>qcow_alloc_clusters\<close> scans for
  free clusters and restarts when it meets a used one, and growing the refcount table counts the
  cluster of the new block itself, which may grow the table again; both take fuel.  A block that is
  freed while the cache still points to it is \<open>Wild\<close>.  \<open>jk\<close> is what \<open>malloc\<close> leaves in the
  entries of a block where the file is too short to fill it.
\<close>

datatype rfb_ptr = RfbEnospc | RfbNull | RfbAt qcow_refcount_block

definition rft_index :: "qcow \<Rightarrow> u64 \<Rightarrow> u64" where
  "rft_index q clust_idx = drop_bit (cbits q - QCOW_REFCOUNT_BLOCK_SHIFT) clust_idx"

definition rfb_index :: "qcow \<Rightarrow> u64 \<Rightarrow> u64" where
  "rfb_index q clust_idx = clust_idx AND (push_bit (cbits q - QCOW_REFCOUNT_BLOCK_SHIFT) 1 - 1)"

definition qcow_read_refcount_block :: "u16 list \<Rightarrow> qcow \<Rightarrow> u64 \<Rightarrow> (rfb_ptr \<times> qcow) run" where
  "qcow_read_refcount_block jk q clust_idx =
     (let rft = refcount_table q;
          rft_idx = rft_index q clust_idx
      in if rft_idx \<ge> ucast (rf_size rft) then Done (RfbEnospc, q)
         else
           let off = be64_to_cpu (rf_table rft ! unat rft_idx)
           in if off = 0 then Done (RfbEnospc, q)
              else
                bind_run (refcount_block_search rft off) (\<lambda>(found, rft').
                  case found of
                    Some b \<Rightarrow> Done (RfbAt b, q\<lparr>refcount_table := rft'\<rparr>)
                  | None \<Rightarrow>
                      let b = new_refcount_block jk q off
                      in (case pread_in_full (q_fd q) (2 * unat (rfb_size b)) (sint off) of
                            (None, f) \<Rightarrow> Done (RfbNull, q\<lparr>q_fd := f\<rparr>)
                          | (Some d, f) \<Rightarrow>
                              let b' = b\<lparr>rfb_entries := words16 (into_buffer (bytes16 (rfb_entries b)) d)\<rparr>
                              in bind_run (cache_refcount_block rft' b') (\<lambda>rft''.
                                   Done (RfbAt b', q\<lparr>refcount_table := rft'', q_fd := f\<rparr>)))))"

text \<open>The \<open>u16\<close> result; \<open>-1\<close> is the error and also the largest count.\<close>

definition qcow_get_refcount :: "u16 list \<Rightarrow> qcow \<Rightarrow> u64 \<Rightarrow> (u16 \<times> qcow) run" where
  "qcow_get_refcount jk q clust_idx =
     bind_run (qcow_read_refcount_block jk q clust_idx) (\<lambda>(p, q').
       case p of
         RfbEnospc \<Rightarrow> Done (0, q')
       | RfbNull \<Rightarrow> Done (-1, q')
       | RfbAt b \<Rightarrow>
           let i = rfb_index q' clust_idx
           in if i \<ge> rfb_size b then Done (-1, q')
              else Done (be16_to_cpu (rfb_entries b ! unat i), q'))"

text \<open>The scan of \<open>qcow_alloc_clusters\<close>: \<open>clust_num\<close> clusters in a row with count zero.\<close>

fun alloc_scan :: "nat \<Rightarrow> u16 list \<Rightarrow> qcow \<Rightarrow> u64 \<Rightarrow> u32 \<Rightarrow> u32 \<Rightarrow> (u32 option \<times> qcow) run" where
  "alloc_scan fuel jk q clust_num i clust_idx =
     (if \<not> ucast i < clust_num then Done (Some clust_idx, q)
      else case fuel of
        0 \<Rightarrow> NoFuel
      | Suc fuel' \<Rightarrow>
          let idx = ucast (free_clust_idx q) :: u32;
              q1 = q\<lparr>free_clust_idx := free_clust_idx q + 1\<rparr>
          in bind_run (qcow_get_refcount jk q1 (ucast idx)) (\<lambda>(rc, q2).
               if rc = -1 then Done (None, q2)
               else if 0 < rc then alloc_scan fuel' jk q2 clust_num 0 idx
               else alloc_scan fuel' jk q2 clust_num (i + 1) idx))"

declare alloc_scan.simps [simp del]

definition clusters_of :: "qcow \<Rightarrow> u64 \<Rightarrow> u64" where
  "clusters_of q len = drop_bit (cbits q) (len + (cluster_size q - 1))"

text \<open>The index of the first of the clusters found, \<open>clust_idx - clust_num\<close> after \<open>clust_idx++\<close>.\<close>

definition alloc_first :: "nat \<Rightarrow> u16 list \<Rightarrow> qcow \<Rightarrow> u64 \<Rightarrow> (u64 option \<times> qcow) run" where
  "alloc_first fuel jk q len =
     (let n = clusters_of q len
      in bind_run (alloc_scan fuel jk q n 0 0) (\<lambda>(r, q').
           Done (map_option (\<lambda>idx. ucast (idx + 1) - n) r, q')))"

text \<open>\<open>qcow_alloc_clusters\<close> with \<open>update_ref\<close> zero; \<open>-1\<close> is the error.\<close>

definition alloc_no_update :: "nat \<Rightarrow> u16 list \<Rightarrow> qcow \<Rightarrow> u64 \<Rightarrow> (u64 \<times> qcow) run" where
  "alloc_no_update fuel jk q len =
     bind_run (alloc_first fuel jk q len) (\<lambda>(r, q').
       Done (case r of None \<Rightarrow> -1 | Some first \<Rightarrow> push_bit (cbits q') first, q'))"

definition qcow_write_refcount_table :: "qcow \<Rightarrow> bool \<times> qcow" where
  "qcow_write_refcount_table q =
     (case qcow_pwrite_sync (q_fd q)
         (take (8 * unat (rf_size (refcount_table q))) (bytes64 (rf_table (refcount_table q))))
         (sint (refcount_table_offset (header q))) of
        (ok, f) \<Rightarrow> (ok, q\<lparr>q_fd := f\<rparr>))"

text \<open>
  \<open>update_cluster_refcount\<close> and \<open>qcow_grow_refcount_block\<close>, which call each other.  The second
  returns the offset of the new block, under which the cache holds it.
\<close>

definition bump_refcount :: "qcow \<Rightarrow> u64 \<Rightarrow> qcow_refcount_block \<Rightarrow> u16 \<Rightarrow> bool \<times> qcow" where
  "bump_refcount q clust_idx b app =
     (let i = rfb_index q clust_idx
      in if i \<ge> rfb_size b then (False, q)
         else
           let rc = be16_to_cpu (rfb_entries b ! unat i) + app;
               b1 = b\<lparr>rfb_entries := (rfb_entries b)[unat i := cpu_to_be16 rc], rfb_dirty := True\<rparr>
           in case write_refcount_block q b1 of
                (ok, b2, q1) \<Rightarrow>
                  let q2 = q1\<lparr>refcount_table := put_rfb b2 (refcount_table q1)\<rparr>
                  in if \<not> ok then (False, q2)
                     else if rc = 0 \<and> clust_idx < free_clust_idx q2
                     then (True, q2\<lparr>free_clust_idx := clust_idx\<rparr>)
                     else (True, q2))"

fun update_cluster_refcount :: "nat \<Rightarrow> u16 list \<Rightarrow> qcow \<Rightarrow> u64 \<Rightarrow> u16 \<Rightarrow> (bool \<times> qcow) run"
  and qcow_grow_refcount_block :: "nat \<Rightarrow> u16 list \<Rightarrow> qcow \<Rightarrow> u64 \<Rightarrow> (u64 option \<times> qcow) run" where
  "update_cluster_refcount 0 jk q clust_idx app = NoFuel"
| "update_cluster_refcount (Suc fuel) jk q clust_idx app =
     bind_run (qcow_read_refcount_block jk q clust_idx) (\<lambda>(p, q1).
       case p of
         RfbNull \<Rightarrow> Done (False, q1)
       | RfbAt b \<Rightarrow> Done (bump_refcount q1 clust_idx b app)
       | RfbEnospc \<Rightarrow>
           bind_run (qcow_grow_refcount_block fuel jk q1 clust_idx) (\<lambda>(r, q2).
             case r of
               None \<Rightarrow> Done (False, q2)
             | Some off \<Rightarrow>
                 (case find_rfb off (rf_lru (refcount_table q2)) of
                    None \<Rightarrow> Wild
                  | Some b \<Rightarrow> Done (bump_refcount q2 clust_idx b app))))"
| "qcow_grow_refcount_block 0 jk q clust_idx = NoFuel"
| "qcow_grow_refcount_block (Suc fuel) jk q clust_idx =
     (let rft_idx = rft_index q clust_idx
      in if rft_idx \<ge> ucast (rf_size (refcount_table q)) then Done (None, q)
         else
           bind_run (alloc_no_update fuel jk q (cluster_size q)) (\<lambda>(off, q1).
             if off = -1 then Done (None, q1)
             else
               let b = (new_refcount_block jk q1 off)
                     \<lparr>rfb_entries := replicate (unat (cluster_size q1 div 2)) 0, rfb_dirty := True\<rparr>
               in case write_refcount_block q1 b of
                    (ok, b1, q2) \<Rightarrow>
                      if \<not> ok then Done (None, q2)
                      else
                        bind_run (cache_refcount_block (refcount_table q2) b1) (\<lambda>rft.
                          let q3 = q2\<lparr>refcount_table := rft\<lparr>rf_table :=
                                (rf_table rft)[unat rft_idx := cpu_to_be64 off]\<rparr>\<rparr>
                          in bind_run (update_cluster_refcount fuel jk q3 (drop_bit (cbits q3) off) 1) (\<lambda>(ok2, q4).
                               if \<not> ok2 then Wild
                               else case qcow_write_refcount_table q4 of
                                 (ok3, q5) \<Rightarrow> if \<not> ok3 then Wild else Done (Some off, q5)))))"

fun update_range :: "nat \<Rightarrow> u16 list \<Rightarrow> qcow \<Rightarrow> u64 list \<Rightarrow> (bool \<times> qcow) run" where
  "update_range fuel jk q [] = Done (True, q)"
| "update_range fuel jk q (c # cs) =
     bind_run (update_cluster_refcount fuel jk q c 1) (\<lambda>(ok, q').
       if ok then update_range fuel jk q' cs else Done (False, q'))"

definition qcow_alloc_clusters :: "nat \<Rightarrow> u16 list \<Rightarrow> qcow \<Rightarrow> u64 \<Rightarrow> bool \<Rightarrow> (u64 \<times> qcow) run" where
  "qcow_alloc_clusters fuel jk q len update_ref =
     (if \<not> update_ref then alloc_no_update fuel jk q len
      else
        bind_run (alloc_first fuel jk q len) (\<lambda>(r, q1).
          case r of
            None \<Rightarrow> Done (-1, q1)
          | Some first \<Rightarrow>
              bind_run (update_range fuel jk q1 (map (\<lambda>i. first + of_nat i) [0..<unat (clusters_of q1 len)]))
                (\<lambda>(ok, q2). Done (if ok then push_bit (cbits q2) first else -1, q2))))"

fun free_loop :: "nat \<Rightarrow> u16 list \<Rightarrow> qcow \<Rightarrow> u64 \<Rightarrow> u64 \<Rightarrow> qcow run" where
  "free_loop fuel jk q offset end_off =
     (if \<not> offset \<le> end_off then Done q
      else case fuel of
        0 \<Rightarrow> NoFuel
      | Suc fuel' \<Rightarrow>
          bind_run (update_cluster_refcount fuel jk q (drop_bit (cbits q) offset) (-1)) (\<lambda>(ok, q').
            free_loop fuel' jk q' (offset + cluster_size q') end_off))"

declare free_loop.simps [simp del]

definition qcow_free_clusters :: "nat \<Rightarrow> u16 list \<Rightarrow> qcow \<Rightarrow> u64 \<Rightarrow> u64 \<Rightarrow> qcow run" where
  "qcow_free_clusters fuel jk q clust_start len =
     (let m = NOT (cluster_size q - 1)
      in free_loop fuel jk q (clust_start AND m) ((clust_start + len - 1) AND m))"

end
