(* ===== verification/QcowWrite.thy ===== *)
theory QcowWrite
  imports QcowAlloc
begin

text \<open>
  Writing to a QCOW image (\<^verbatim>\<open>disk/qcow.c\<close>), flushing and closing it.  The program never reaches
  the write path, since it opens QCOW images read-only, but the code is there.  Results are \<open>None\<close>
  or \<open>-1\<close> for errors.  A table that is freed while the cache still points to it is \<open>Wild\<close>.
\<close>

definition qcow_write_l1_table :: "qcow \<Rightarrow> bool \<times> qcow" where
  "qcow_write_l1_table q =
     (case qcow_pwrite_sync (q_fd q) (take (8 * unat (table_size (table q))) (bytes64 (l1_table (table q))))
         (sint (l1_table_offset (header q))) of
        (ok, f) \<Rightarrow> (ok, q\<lparr>q_fd := f\<rparr>))"

text \<open>
  The tail of \<open>get_cluster_table\<close>: write the table, cache it, and publish it in the level 1 table
  under the new offset.  \<open>cached\<close> tells whether the table is already a node of the cache.
\<close>

definition publish_table ::
  "nat \<Rightarrow> u16 list \<Rightarrow> qcow \<Rightarrow> qcow_l2_table \<Rightarrow> bool \<Rightarrow> u64 \<Rightarrow> u64 \<Rightarrow> u64 \<Rightarrow>
   (qcow_l2_table option \<times> qcow) run" where
  "publish_table fuel jk q t cached l1t_idx l2t_off l2t_new_off =
     (case qcow_l2_cache_write q (t\<lparr>l2t_dirty := True\<rparr>) of
        (ok, t1, q0) \<Rightarrow>
          let q1 = (if cached then q0\<lparr>table := put_l2 t1 (table q0)\<rparr> else q0)
          in if \<not> ok then
               if cached then Wild
               else bind_run (qcow_free_clusters fuel jk q1 l2t_new_off (cluster_size q1)) (\<lambda>q2. Done (None, q2))
             else
               bind_run (cache_table (table q1) t1) (\<lambda>l1t.
                 let q2 = q1\<lparr>table := l1t\<lparr>l1_table :=
                       (l1_table l1t)[unat l1t_idx := cpu_to_be64 (l2t_new_off OR QCOW2_OFLAG_COPIED)]\<rparr>\<rparr>
                 in case qcow_write_l1_table q2 of
                      (ok2, q3) \<Rightarrow>
                        if \<not> ok2 then Wild
                        else bind_run (qcow_free_clusters fuel jk q3 l2t_off (cluster_size q3)) (\<lambda>q4.
                          Done (Some t1, q4))))"

definition get_cluster_table ::
  "nat \<Rightarrow> u16 list \<Rightarrow> qcow \<Rightarrow> u64 \<Rightarrow> ((qcow_l2_table \<times> u64) option \<times> qcow) run" where
  "get_cluster_table fuel jk q offset =
     (let l1t_idx = get_l1_index q offset;
          l2t_idx = get_l2_index q offset
      in if l1t_idx \<ge> ucast (table_size (table q)) then Done (None, q)
         else if l2t_idx \<ge> l2_entries q then Done (None, q)
         else
           let l2t_off = be64_to_cpu (l1_table (table q) ! unat l1t_idx)
           in if l2t_off AND QCOW2_OFLAG_COPIED \<noteq> 0 then
                bind_run (qcow_read_l2_table q (l2t_off AND NOT QCOW2_OFLAG_COPIED)) (\<lambda>(t, q').
                  Done (map_option (\<lambda>t. (t, l2t_idx)) t, q'))
              else
                bind_run (qcow_alloc_clusters fuel jk q (l2_entries q * 8) True) (\<lambda>(l2t_new_off, q1).
                  if l2t_new_off \<noteq> -1 then Done (None, q1)
                  else if l2t_off \<noteq> 0 then
                    bind_run (qcow_read_l2_table q1 l2t_off) (\<lambda>(t, q2).
                      case t of
                        None \<Rightarrow>
                          bind_run (qcow_free_clusters fuel jk q2 l2t_new_off (cluster_size q2)) (\<lambda>q3.
                            Done (None, q3))
                      | Some t \<Rightarrow>
                          bind_run (publish_table fuel jk q2 t True l1t_idx l2t_off l2t_new_off) (\<lambda>(r, q3).
                            Done (map_option (\<lambda>t. (t, l2t_idx)) r, q3)))
                  else
                    bind_run (publish_table fuel jk q1 (new_cache_table q1 l2t_new_off) False
                        l1t_idx l2t_off l2t_new_off) (\<lambda>(r, q2).
                      Done (map_option (\<lambda>t. (t, l2t_idx)) r, q2))))"

text \<open>
  \<open>qcow_write_cluster\<close> on the \<open>src_len\<close> bytes of the guest's buffer.  \<open>copy_buff\<close> is a memory of
  its own, where \<open>qcow2_read_cluster\<close> puts the old cluster at address 0.
\<close>

definition copy_cluster :: "qcow \<Rightarrow> u64 \<Rightarrow> u64 \<Rightarrow> (u8 list option \<times> qcow) run" where
  "copy_cluster q clust_start offset =
     (if clust_start = 0 then Done (Some (replicate (unat (cluster_size q)) 0), q)
      else
        bind_run (qcow2_read_cluster q (\<lambda>a. 0) offset 0 (ucast (cluster_size q))) (\<lambda>(r, m, q').
          Done (if r < 0 then None else Some (ldn m 0 (unat (cluster_size q))), q')))"

text \<open>The new cluster is written and entered in the table, and the old one freed.\<close>

definition write_new_cluster ::
  "nat \<Rightarrow> u16 list \<Rightarrow> qcow \<Rightarrow> qcow_l2_table \<Rightarrow> u64 \<Rightarrow> u64 \<Rightarrow> u8 list \<Rightarrow> nat \<Rightarrow> (int \<times> qcow) run" where
  "write_new_cluster fuel jk q t l2t_idx clust_new_start copy_buff len =
     (let entry = be64_to_cpu (l2t_table t ! unat l2t_idx);
          clust_flags = entry AND QCOW2_OFLAGS_MASK;
          clust_start = entry AND QCOW2_OFFSET_MASK
      in case pwrite_in_full (q_fd q) copy_buff (sint clust_new_start) of
           (None, f) \<Rightarrow>
             bind_run (qcow_free_clusters fuel jk (q\<lparr>q_fd := f\<rparr>) clust_new_start (cluster_size q))
               (\<lambda>q4. Done (-1, q4))
         | (Some k, f) \<Rightarrow>
             let t1 = t\<lparr>l2t_table := (l2t_table t)[unat l2t_idx :=
                   cpu_to_be64 (clust_new_start OR QCOW2_OFLAG_COPIED)], l2t_dirty := True\<rparr>
             in case qcow_l2_cache_write (q\<lparr>q_fd := f\<rparr>) t1 of
                  (ok, t2, q4) \<Rightarrow>
                    let q5 = q4\<lparr>table := put_l2 t2 (table q4)\<rparr>
                    in if \<not> ok then
                         bind_run (qcow_free_clusters fuel jk q5 clust_new_start (cluster_size q5))
                           (\<lambda>q6. Done (-1, q6))
                       else if clust_flags AND QCOW2_OFLAG_COMPRESSED \<noteq> 0 then
                         let len2 = ((ucast (drop_bit (csize_shift q5) clust_start)
                               AND csize_mask q5) + 1) * 512 :: u32
                         in bind_run (qcow_free_clusters fuel jk q5
                              (clust_start AND cluster_offset_mask q5 AND NOT 511) (ucast len2))
                              (\<lambda>q6. Done (int len, q6))
                       else if clust_start \<noteq> 0 then
                         bind_run (qcow_free_clusters fuel jk q5 clust_start (cluster_size q5))
                           (\<lambda>q6. Done (int len, q6))
                       else Done (int len, q5))"

definition qcow_write_cluster ::
  "nat \<Rightarrow> u16 list \<Rightarrow> qcow \<Rightarrow> u64 \<Rightarrow> u8 list \<Rightarrow> (int \<times> qcow) run" where
  "qcow_write_cluster fuel jk q offset src =
     (let clust_off = get_cluster_offset q offset
      in if clust_off \<ge> cluster_size q then Done (-1, q)
         else
           let len = min (unat (cluster_size q - clust_off)) (length src);
               buf = take len src
           in bind_run (get_cluster_table fuel jk q offset) (\<lambda>(r, q1).
                case r of
                  None \<Rightarrow> Done (-1, q1)
                | Some (t, l2t_idx) \<Rightarrow>
                    let entry = be64_to_cpu (l2t_table t ! unat l2t_idx);
                        clust_flags = entry AND QCOW2_OFLAGS_MASK;
                        clust_start = entry AND QCOW2_OFFSET_MASK
                    in if clust_flags AND QCOW2_OFLAG_COPIED = 0 then
                         bind_run (qcow_alloc_clusters fuel jk q1 (cluster_size q1) True) (\<lambda>(clust_new_start, q2).
                           if clust_new_start \<noteq> -1 then Done (-1, q2)
                           else
                             bind_run (copy_cluster q2 clust_start (offset AND NOT (cluster_size q2 - 1))) (\<lambda>(old, q3).
                               case old of
                                 None \<Rightarrow>
                                   bind_run (qcow_free_clusters fuel jk q3 clust_new_start (cluster_size q3)) (\<lambda>q4.
                                     Done (-1, q4))
                               | Some cb \<Rightarrow>
                                   write_new_cluster fuel jk q3 t l2t_idx clust_new_start
                                     (overlay cb (unat clust_off) buf) len))
                       else
                         (case pwrite_in_full (q_fd q1) buf (sint (clust_start + clust_off)) of
                            (None, f) \<Rightarrow> Done (-1, q1\<lparr>q_fd := f\<rparr>)
                          | (Some k, f) \<Rightarrow> Done (int len, q1\<lparr>q_fd := f\<rparr>))))"

text \<open>\<open>qcow_write_sector_single\<close>: every round writes at least a byte, so the length is fuel enough.\<close>

fun write_single_loop ::
  "nat \<Rightarrow> nat \<Rightarrow> u16 list \<Rightarrow> qcow \<Rightarrow> u64 \<Rightarrow> u8 list \<Rightarrow> nat \<Rightarrow> (int \<times> qcow) run" where
  "write_single_loop n fuel jk q offset src nr_written =
     (if src = [] then Done (int nr_written, q)
      else case n of
        0 \<Rightarrow> NoFuel
      | Suc n' \<Rightarrow>
          if offset \<ge> hd_size (header q) then Done (-1, q)
          else
            bind_run (qcow_write_cluster fuel jk q offset src) (\<lambda>(nr, q').
              if nr < 0 then Done (-1, q')
              else write_single_loop n' fuel jk q' (offset + of_int nr) (drop (nat nr) src)
                     (nr_written + nat nr)))"

declare write_single_loop.simps [simp del]

definition qcow_write_sector_single ::
  "nat \<Rightarrow> u16 list \<Rightarrow> qcow \<Rightarrow> u64 \<Rightarrow> u8 list \<Rightarrow> (int \<times> qcow) run" where
  "qcow_write_sector_single fuel jk q sector src =
     write_single_loop (length src) fuel jk q (push_bit SECTOR_SHIFT sector) src 0"

fun qcow_write_sector ::
  "nat \<Rightarrow> u16 list \<Rightarrow> qcow \<Rightarrow> mem \<Rightarrow> u64 \<Rightarrow> iovec list \<Rightarrow> int \<Rightarrow> int \<Rightarrow> (int \<times> qcow) run" where
  "qcow_write_sector fuel jk q m sector [] iovcount tot = (if iovcount = 0 then Done (tot, q) else Wild)"
| "qcow_write_sector fuel jk q m sector (v # iov) iovcount tot =
     (if iovcount = 0 then Done (tot, q)
      else
        bind_run (qcow_write_sector_single fuel jk q sector (ldn m (iov_base v) (iov_len v))) (\<lambda>(nr, q').
          if nr \<noteq> int (iov_len v) then Done (-1, q')
          else qcow_write_sector fuel jk q' m (sector + of_nat (iov_len v div 512)) iov (iovcount - 1) (tot + nr)))"

subsection \<open>Flush and close\<close>

fun flush_blocks :: "qcow \<Rightarrow> qcow_refcount_block list \<Rightarrow> bool \<times> qcow" where
  "flush_blocks q [] = (True, q)"
| "flush_blocks q (b # bs) =
     (case write_refcount_block q b of
        (ok, b', q') \<Rightarrow>
          let q'' = q'\<lparr>refcount_table := put_rfb b' (refcount_table q')\<rparr>
          in if ok then flush_blocks q'' bs else (False, q''))"

fun flush_tables :: "qcow \<Rightarrow> qcow_l2_table list \<Rightarrow> bool \<times> qcow" where
  "flush_tables q [] = (True, q)"
| "flush_tables q (t # ts) =
     (case qcow_l2_cache_write q t of
        (ok, t', q') \<Rightarrow>
          let q'' = q'\<lparr>table := put_l2 t' (table q')\<rparr>
          in if ok then flush_tables q'' ts else (False, q''))"

text \<open>
  The level 1 table is not written: the code tests the address of the function \<open>qcow_write_l1_table\<close>.
\<close>

definition qcow_disk_flush :: "qcow \<Rightarrow> int \<times> qcow" where
  "qcow_disk_flush q =
     (case flush_blocks q (rf_lru (refcount_table q)) of
        (False, q1) \<Rightarrow> (-1, q1)
      | (True, q1) \<Rightarrow>
          (case flush_tables q1 (l1_lru (table q1)) of
             (False, q2) \<Rightarrow> (-1, q2)
           | (True, q2) \<Rightarrow>
               (case sys_fsync (q_fd q2) of
                  (Inl e, f) \<Rightarrow> (-1, q2\<lparr>q_fd := f\<rparr>)
                | (Inr _, f) \<Rightarrow> (0, q2\<lparr>q_fd := f\<rparr>))))"

definition qcow_disk_close :: "qcow \<Rightarrow> qcow run" where
  "qcow_disk_close q =
     bind_run (refcount_table_free_cache (refcount_table q)) (\<lambda>rft.
       bind_run (l1_table_free_cache (table q)) (\<lambda>l1t.
         Done (q\<lparr>refcount_table := rft\<lparr>rf_table := []\<rparr>, table := l1t\<lparr>l1_table := []\<rparr>\<rparr>)))"

end
