(* ===== verification/QcowProbe.thy ===== *)
theory QcowProbe
  imports QcowWrite
begin

text \<open>
  Recognising and opening a QCOW image (\<^verbatim>\<open>disk/qcow.c\<close>).  The structures of the header are laid out
  as the compiler does, with natural alignment.  \<open>stk\<close> is what the header structure holds on the
  stack before a read that may be short.  Shifts by more than an \<open>int\<close> can take are undefined
  behaviour: \<open>Wild\<close>.
\<close>

record qcow1_header_disk =
  h1_magic :: u32
  h1_version :: u32
  h1_backing_file_offset :: u64
  h1_backing_file_size :: u32
  h1_mtime :: u32
  h1_size :: u64
  h1_cluster_bits :: u8
  h1_l2_bits :: u8
  h1_crypt_method :: u32
  h1_l1_table_offset :: u64

record qcow2_header_disk =
  h2_magic :: u32
  h2_version :: u32
  h2_backing_file_offset :: u64
  h2_backing_file_size :: u32
  h2_cluster_bits :: u32
  h2_size :: u64
  h2_crypt_method :: u32
  h2_l1_size :: u32
  h2_l1_table_offset :: u64
  h2_refcount_table_offset :: u64
  h2_refcount_table_clusters :: u32
  h2_nb_snapshots :: u32
  h2_snapshots_offset :: u64

definition field :: "u8 list \<Rightarrow> nat \<Rightarrow> nat \<Rightarrow> 'a::len word" where
  "field bs off n = word_of_le (take n (drop off bs))"

text \<open>The structure read from the file, its fields converted from big-endian.\<close>

definition header1_of_bytes :: "u8 list \<Rightarrow> qcow1_header_disk" where
  "header1_of_bytes bs =
     \<lparr>h1_magic = be32_to_cpu (field bs 0 4), h1_version = be32_to_cpu (field bs 4 4),
      h1_backing_file_offset = be64_to_cpu (field bs 8 8),
      h1_backing_file_size = be32_to_cpu (field bs 16 4), h1_mtime = be32_to_cpu (field bs 20 4),
      h1_size = be64_to_cpu (field bs 24 8), h1_cluster_bits = field bs 32 1, h1_l2_bits = field bs 33 1,
      h1_crypt_method = be32_to_cpu (field bs 36 4), h1_l1_table_offset = be64_to_cpu (field bs 40 8)\<rparr>"

definition header2_of_bytes :: "u8 list \<Rightarrow> qcow2_header_disk" where
  "header2_of_bytes bs =
     \<lparr>h2_magic = be32_to_cpu (field bs 0 4), h2_version = be32_to_cpu (field bs 4 4),
      h2_backing_file_offset = be64_to_cpu (field bs 8 8),
      h2_backing_file_size = be32_to_cpu (field bs 16 4),
      h2_cluster_bits = be32_to_cpu (field bs 20 4), h2_size = be64_to_cpu (field bs 24 8),
      h2_crypt_method = be32_to_cpu (field bs 32 4), h2_l1_size = be32_to_cpu (field bs 36 4),
      h2_l1_table_offset = be64_to_cpu (field bs 40 8),
      h2_refcount_table_offset = be64_to_cpu (field bs 48 8),
      h2_refcount_table_clusters = be32_to_cpu (field bs 56 4),
      h2_nb_snapshots = be32_to_cpu (field bs 60 4), h2_snapshots_offset = be64_to_cpu (field bs 64 8)\<rparr>"

definition read_struct :: "u8 list \<Rightarrow> fdesc \<Rightarrow> nat \<Rightarrow> u8 list option \<times> fdesc" where
  "read_struct stk f n =
     (case pread_in_full f n 0 of
        (None, f') \<Rightarrow> (None, f')
      | (Some d, f') \<Rightarrow> (Some (into_buffer stk d), f'))"

definition qcow2_read_header :: "u8 list \<Rightarrow> fdesc \<Rightarrow> qcow_header option \<times> fdesc" where
  "qcow2_read_header stk f =
     (case read_struct stk f 72 of
        (None, f') \<Rightarrow> (None, f')
      | (Some bs, f') \<Rightarrow>
          let h = header2_of_bytes bs
          in (Some \<lparr>hd_size = h2_size h, l1_table_offset = h2_l1_table_offset h, l1_size = h2_l1_size h,
                cluster_bits = ucast (h2_cluster_bits h), l2_bits = ucast (h2_cluster_bits h - 3),
                refcount_table_offset = h2_refcount_table_offset h,
                refcount_table_size = h2_refcount_table_clusters h\<rparr>, f'))"

text \<open>
  In version 1 the size of the level 1 table is computed from the exponents, whose shifts and
  product are \<open>int\<close>s.
\<close>

definition qcow1_read_header :: "u8 list \<Rightarrow> fdesc \<Rightarrow> (qcow_header option \<times> fdesc) run" where
  "qcow1_read_header stk f =
     (case read_struct stk f 48 of
        (None, f') \<Rightarrow> Done (None, f')
      | (Some bs, f') \<Rightarrow>
          let h = header1_of_bytes bs;
              l2 = unat (h1_l2_bits h);
              cb = unat (h1_cluster_bits h)
          in if 30 < l2 + cb then Wild
             else
               Done (Some \<lparr>hd_size = h1_size h, l1_table_offset = h1_l1_table_offset h,
                  l1_size = ucast (h1_size h div push_bit (l2 + cb) 1),
                  cluster_bits = h1_cluster_bits h, l2_bits = h1_l2_bits h,
                  refcount_table_offset = 0, refcount_table_size = 0\<rparr>, f'))"

definition zero_qcow :: "fdesc \<Rightarrow> qcow_header \<Rightarrow> qcow" where
  "zero_qcow f h =
     \<lparr>header = h,
      table = \<lparr>table_size = 0, l1_table = [], l1_root = Leaf, l1_lru = [], l1_nr_cached = 0\<rparr>,
      refcount_table = \<lparr>rf_size = 0, rf_table = [], rf_root = Leaf, rf_lru = [], rf_nr_cached = 0\<rparr>,
      q_fd = f, csize_shift = 0, csize_mask = 0, version = 0, cluster_size = 0,
      cluster_offset_mask = 0, free_clust_idx = 0\<rparr>"

text \<open>A table of \<open>n\<close> words from the file; the byte count is returned through an \<open>int\<close>.\<close>

definition read_words :: "fdesc \<Rightarrow> nat \<Rightarrow> int \<Rightarrow> u64 list option \<times> fdesc" where
  "read_words f n pos =
     (case pread_in_full f (8 * n) pos of
        (None, f') \<Rightarrow> (None, f')
      | (Some d, f') \<Rightarrow>
          (if sint (of_nat (length d) :: u32) < 0 then None
           else Some (words64 (into_buffer (replicate (8 * n) 0) d)), f'))"

definition qcow_read_l1_table :: "qcow \<Rightarrow> bool \<times> qcow" where
  "qcow_read_l1_table q =
     (let n = l1_size (header q)
      in case read_words (q_fd q) (unat n) (sint (l1_table_offset (header q))) of
           (None, f) \<Rightarrow> (False, q\<lparr>q_fd := f\<rparr>)
         | (Some ws, f) \<Rightarrow> (True, q\<lparr>table := (table q)\<lparr>table_size := n, l1_table := ws\<rparr>, q_fd := f\<rparr>))"

definition qcow_read_refcount_table :: "qcow \<Rightarrow> bool \<times> qcow" where
  "qcow_read_refcount_table q =
     (let n = ucast ((ucast (refcount_table_size (header q)) * cluster_size q) div 8) :: u32
      in case read_words (q_fd q) (unat n) (sint (refcount_table_offset (header q))) of
           (None, f) \<Rightarrow> (False, q\<lparr>q_fd := f\<rparr>)
         | (Some ws, f) \<Rightarrow>
             (True, q\<lparr>refcount_table := (refcount_table q)\<lparr>rf_size := n, rf_table := ws, rf_root := Leaf,
                rf_lru := []\<rparr>, q_fd := f\<rparr>))"

definition qcow1_probe :: "u8 list \<Rightarrow> fdesc \<Rightarrow> (qcow option \<times> fdesc) run" where
  "qcow1_probe stk f =
     bind_run (qcow1_read_header stk f) (\<lambda>(ho, f1).
       case ho of
         None \<Rightarrow> Done (None, f1)
       | Some h \<Rightarrow>
           let cb = unat (cluster_bits h)
           in if cb = 0 then Wild
              else
                let q = (zero_qcow f1 h)\<lparr>version := QCOW1_VERSION, cluster_size := push_bit cb 1,
                      cluster_offset_mask := push_bit (63 - cb) 1 - 1\<rparr>
                in (case qcow_read_l1_table q of
                      (False, q1) \<Rightarrow> Done (None, q_fd q1)
                    | (True, q1) \<Rightarrow> Done (Some q1, q_fd q1)))"

definition qcow2_probe :: "u8 list \<Rightarrow> fdesc \<Rightarrow> (qcow option \<times> fdesc) run" where
  "qcow2_probe stk f =
     (case qcow2_read_header stk f of
        (None, f1) \<Rightarrow> Done (None, f1)
      | (Some h, f1) \<Rightarrow>
          let cb = unat (cluster_bits h)
          in if cb < 8 \<or> 30 < cb then Wild
             else
               let q = (zero_qcow f1 h)\<lparr>version := QCOW2_VERSION, csize_shift := 70 - cb,
                     csize_mask := push_bit (cb - 8) 1 - 1,
                     cluster_offset_mask := push_bit (70 - cb) 1 - 1, cluster_size := push_bit cb 1\<rparr>
               in (case qcow_read_l1_table q of
                     (False, q1) \<Rightarrow> Done (None, q_fd q1)
                   | (True, q1) \<Rightarrow>
                       (case qcow_read_refcount_table q1 of
                          (False, q2) \<Rightarrow> Done (None, q_fd q2)
                        | (True, q2) \<Rightarrow> Done (Some q2, q_fd q2))))"

definition qcow1_check_image :: "u8 list \<Rightarrow> fdesc \<Rightarrow> bool \<times> fdesc" where
  "qcow1_check_image stk f =
     (case read_struct stk f 48 of
        (None, f') \<Rightarrow> (False, f')
      | (Some bs, f') \<Rightarrow>
          (h1_magic (header1_of_bytes bs) = QCOW_MAGIC \<and> h1_version (header1_of_bytes bs) = QCOW1_VERSION, f'))"

definition qcow2_check_image :: "u8 list \<Rightarrow> fdesc \<Rightarrow> bool \<times> fdesc" where
  "qcow2_check_image stk f =
     (case read_struct stk f 72 of
        (None, f') \<Rightarrow> (False, f')
      | (Some bs, f') \<Rightarrow>
          (h2_magic (header2_of_bytes bs) = QCOW_MAGIC \<and> h2_version (header2_of_bytes bs) = QCOW2_VERSION, f'))"

definition qcow_probe :: "u8 list \<Rightarrow> fdesc \<Rightarrow> (qcow option \<times> fdesc) run" where
  "qcow_probe stk f =
     (case qcow1_check_image stk f of
        (True, f1) \<Rightarrow> qcow1_probe stk f1
      | (False, f1) \<Rightarrow>
          (case qcow2_check_image stk f1 of
             (True, f2) \<Rightarrow> qcow2_probe stk f2
           | (False, f2) \<Rightarrow> Done (None, f2)))"

end
