(* ===== verification/Disk.thy ===== *)
theory Disk
  imports QcowProbe VecIo
begin

text \<open>
  Disk images (\<^verbatim>\<open>disk/core.c\<close>, \<^verbatim>\<open>disk/raw.c\<close>, \<^verbatim>\<open>disk/blk.c\<close>, \<^verbatim>\<open>include/kvm/disk-image.h\<close>),
  built without \<^verbatim>\<open>CONFIG_HAS_AIO\<close>.  The tables of operations are values of \<open>disk_ops\<close> and
  \<open>ops_of\<close> gives their functions.  A read or a write ends by calling the image's callback; the
  model returns the callback's argument, and the caller runs it.  \<open>fuel\<close> bounds the loops that
  need it and \<open>jk\<close> is the memory that \<open>malloc\<close> returns.  For a QCOW image the descriptor \<open>dk_fd\<close>
  and the one in the QCOW state are the same open file.
\<close>

datatype disk_ops =
    Raw_image_regular_ops | Ro_ops | Ro_ops_nowrite | Blk_dev_ops | Qcow_disk_readonly_ops | Qcow_disk_ops

datatype disk_priv = PNull | PMap "u8 list" | PQcow qcow

record disk_image =
  dk_fd :: fdesc
  dk_size :: u64
  dk_ops :: disk_ops
  dk_priv :: disk_priv
  dk_req_cb :: bool
  dk_readonly :: bool
  dk_async :: bool
  dk_addr :: u32
  dk_irq :: u32
  dk_fd_open :: bool

subsection \<open>Raw images\<close>

definition result_of :: "nat option \<Rightarrow> int" where
  "result_of r = (case r of None \<Rightarrow> -1 | Some n \<Rightarrow> int n)"

definition sector_pos :: "u64 \<Rightarrow> int" where
  "sector_pos sector = sint (push_bit SECTOR_SHIFT sector)"

definition raw_image__read_sync ::
  "nat \<Rightarrow> disk_image \<Rightarrow> mem \<Rightarrow> u64 \<Rightarrow> iovec list \<Rightarrow> int \<Rightarrow> (int \<times> mem \<times> disk_image) run" where
  "raw_image__read_sync fuel d m sector iov iovcount =
     bind_run (preadv_in_full fuel (dk_fd d) m iov iovcount (sector_pos sector)) (\<lambda>(r, m', f).
       Done (result_of r, m', d\<lparr>dk_fd := f\<rparr>))"

definition raw_image__write_sync ::
  "nat \<Rightarrow> disk_image \<Rightarrow> mem \<Rightarrow> u64 \<Rightarrow> iovec list \<Rightarrow> int \<Rightarrow> (int \<times> disk_image) run" where
  "raw_image__write_sync fuel d m sector iov iovcount =
     bind_run (pwritev_in_full fuel (dk_fd d) m iov iovcount (sector_pos sector)) (\<lambda>(r, f).
       Done (result_of r, d\<lparr>dk_fd := f\<rparr>))"

text \<open>
  The private mapping: whole pages, zero after the end of the file.  An access beyond it faults.
\<close>

definition map_file :: "fdesc \<Rightarrow> u64 \<Rightarrow> u8 list" where
  "map_file f len =
     (let n = 4096 * ((unat len + 4095) div 4096)
      in take n (take (unat len) (fbytes f) @ replicate n 0))"

fun mmap_read :: "u8 list \<Rightarrow> mem \<Rightarrow> u64 \<Rightarrow> iovec list \<Rightarrow> int \<Rightarrow> nat \<Rightarrow> (nat \<times> mem) run" where
  "mmap_read p m offset [] iovcount tot = (if iovcount = 0 then Done (tot, m) else Wild)"
| "mmap_read p m offset (v # iov) iovcount tot =
     (if iovcount = 0 then Done (tot, m)
      else if iov_len v \<noteq> 0 \<and> length p < unat offset + iov_len v then Wild
      else mmap_read p (stn m (iov_base v) (take (iov_len v) (drop (unat offset) p)))
             (offset + of_nat (iov_len v)) iov (iovcount - 1) (tot + iov_len v))"

fun mmap_write :: "u8 list \<Rightarrow> mem \<Rightarrow> u64 \<Rightarrow> iovec list \<Rightarrow> int \<Rightarrow> nat \<Rightarrow> (nat \<times> u8 list) run" where
  "mmap_write p m offset [] iovcount tot = (if iovcount = 0 then Done (tot, p) else Wild)"
| "mmap_write p m offset (v # iov) iovcount tot =
     (if iovcount = 0 then Done (tot, p)
      else if iov_len v \<noteq> 0 \<and> length p < unat offset + iov_len v then Wild
      else mmap_write (if iov_len v = 0 then p else overlay p (unat offset) (ldn m (iov_base v) (iov_len v))) m
             (offset + of_nat (iov_len v)) iov (iovcount - 1) (tot + iov_len v))"

definition raw_image__read_mmap ::
  "disk_image \<Rightarrow> mem \<Rightarrow> u64 \<Rightarrow> iovec list \<Rightarrow> int \<Rightarrow> (int \<times> mem \<times> disk_image) run" where
  "raw_image__read_mmap d m sector iov iovcount =
     (case dk_priv d of
        PMap p \<Rightarrow> bind_run (mmap_read p m (push_bit SECTOR_SHIFT sector) iov iovcount 0) (\<lambda>(n, m').
          Done (int n, m', d))
      | _ \<Rightarrow> Wild)"

definition raw_image__write_mmap ::
  "disk_image \<Rightarrow> mem \<Rightarrow> u64 \<Rightarrow> iovec list \<Rightarrow> int \<Rightarrow> (int \<times> disk_image) run" where
  "raw_image__write_mmap d m sector iov iovcount =
     (case dk_priv d of
        PMap p \<Rightarrow> bind_run (mmap_write p m (push_bit SECTOR_SHIFT sector) iov iovcount 0) (\<lambda>(n, p').
          Done (int n, d\<lparr>dk_priv := PMap p'\<rparr>))
      | _ \<Rightarrow> Wild)"

definition raw_image__close :: "disk_image \<Rightarrow> (int \<times> disk_image) run" where
  "raw_image__close d =
     (case dk_priv d of
        PMap p \<Rightarrow> Done (0, d\<lparr>dk_priv := PNull\<rparr>)
      | _ \<Rightarrow> Wild)"

definition raw_image__wait :: "disk_image \<Rightarrow> int" where
  "raw_image__wait d = 0"

subsection \<open>The tables of operations\<close>

record disk_image_operations =
  op_read :: "(nat \<Rightarrow> disk_image \<Rightarrow> mem \<Rightarrow> u64 \<Rightarrow> iovec list \<Rightarrow> int \<Rightarrow> (int \<times> mem \<times> disk_image) run) option"
  op_write :: "(nat \<Rightarrow> u16 list \<Rightarrow> disk_image \<Rightarrow> mem \<Rightarrow> u64 \<Rightarrow> iovec list \<Rightarrow> int \<Rightarrow> (int \<times> disk_image) run) option"
  op_flush :: "(disk_image \<Rightarrow> (int \<times> disk_image) run) option"
  op_wait :: "(disk_image \<Rightarrow> int) option"
  op_close :: "(disk_image \<Rightarrow> (int \<times> disk_image) run) option"
  op_async :: bool

text \<open>The QCOW operations on the image's private state, whose descriptor is the image's.\<close>

definition with_qcow :: "disk_image \<Rightarrow> (qcow \<Rightarrow> 'a run) \<Rightarrow> 'a run" where
  "with_qcow d k = (case dk_priv d of PQcow q \<Rightarrow> k (q\<lparr>q_fd := dk_fd d\<rparr>) | _ \<Rightarrow> Wild)"

definition set_qcow :: "qcow \<Rightarrow> disk_image \<Rightarrow> disk_image" where
  "set_qcow q d = d\<lparr>dk_priv := PQcow q, dk_fd := q_fd q\<rparr>"

definition qcow_op_read ::
  "nat \<Rightarrow> disk_image \<Rightarrow> mem \<Rightarrow> u64 \<Rightarrow> iovec list \<Rightarrow> int \<Rightarrow> (int \<times> mem \<times> disk_image) run" where
  "qcow_op_read fuel d m sector iov iovcount =
     with_qcow d (\<lambda>q. bind_run (qcow_read_sector q m sector iov iovcount 0) (\<lambda>(r, m', q').
       Done (r, m', set_qcow q' d)))"

definition qcow_op_write ::
  "nat \<Rightarrow> u16 list \<Rightarrow> disk_image \<Rightarrow> mem \<Rightarrow> u64 \<Rightarrow> iovec list \<Rightarrow> int \<Rightarrow> (int \<times> disk_image) run" where
  "qcow_op_write fuel jk d m sector iov iovcount =
     with_qcow d (\<lambda>q. bind_run (qcow_write_sector fuel jk q m sector iov iovcount 0) (\<lambda>(r, q').
       Done (r, set_qcow q' d)))"

definition qcow_op_flush :: "disk_image \<Rightarrow> (int \<times> disk_image) run" where
  "qcow_op_flush d = with_qcow d (\<lambda>q. case qcow_disk_flush q of (r, q') \<Rightarrow> Done (r, set_qcow q' d))"

definition qcow_op_close :: "disk_image \<Rightarrow> (int \<times> disk_image) run" where
  "qcow_op_close d =
     with_qcow d (\<lambda>q. bind_run (qcow_disk_close q) (\<lambda>q'. Done (0, d\<lparr>dk_priv := PNull\<rparr>)))"

definition raw_image_regular_ops :: disk_image_operations where
  "raw_image_regular_ops =
     \<lparr>op_read = Some raw_image__read_sync, op_write = Some (\<lambda>fuel jk. raw_image__write_sync fuel),
      op_flush = None, op_wait = Some raw_image__wait, op_close = None, op_async = True\<rparr>"

definition ro_ops :: disk_image_operations where
  "ro_ops =
     \<lparr>op_read = Some (\<lambda>fuel. raw_image__read_mmap), op_write = Some (\<lambda>fuel jk. raw_image__write_mmap),
      op_flush = None, op_wait = None, op_close = Some raw_image__close, op_async = False\<rparr>"

definition ro_ops_nowrite :: disk_image_operations where
  "ro_ops_nowrite =
     \<lparr>op_read = Some raw_image__read_sync, op_write = None, op_flush = None,
      op_wait = Some raw_image__wait, op_close = None, op_async = True\<rparr>"

definition blk_dev_ops :: disk_image_operations where
  "blk_dev_ops =
     \<lparr>op_read = Some raw_image__read_sync, op_write = Some (\<lambda>fuel jk. raw_image__write_sync fuel),
      op_flush = None, op_wait = Some raw_image__wait, op_close = None, op_async = True\<rparr>"

definition qcow_disk_readonly_ops :: disk_image_operations where
  "qcow_disk_readonly_ops =
     \<lparr>op_read = Some qcow_op_read, op_write = None, op_flush = None, op_wait = None,
      op_close = Some qcow_op_close, op_async = False\<rparr>"

definition qcow_disk_ops :: disk_image_operations where
  "qcow_disk_ops =
     \<lparr>op_read = Some qcow_op_read, op_write = Some qcow_op_write, op_flush = Some qcow_op_flush,
      op_wait = None, op_close = Some qcow_op_close, op_async = False\<rparr>"

fun ops_of :: "disk_ops \<Rightarrow> disk_image_operations" where
  "ops_of Raw_image_regular_ops = raw_image_regular_ops"
| "ops_of Ro_ops = ro_ops"
| "ops_of Ro_ops_nowrite = ro_ops_nowrite"
| "ops_of Blk_dev_ops = blk_dev_ops"
| "ops_of Qcow_disk_readonly_ops = qcow_disk_readonly_ops"
| "ops_of Qcow_disk_ops = qcow_disk_ops"

lemmas ops_tables = raw_image_regular_ops_def ro_ops_def ro_ops_nowrite_def blk_dev_ops_def
  qcow_disk_readonly_ops_def qcow_disk_ops_def

subsection \<open>Requests\<close>

text \<open>The result, the callback's argument when it is called, and the state.\<close>

definition disk_image__read ::
  "nat \<Rightarrow> disk_image \<Rightarrow> mem \<Rightarrow> u64 \<Rightarrow> iovec list \<Rightarrow> int \<Rightarrow> (int \<times> int option \<times> mem \<times> disk_image) run" where
  "disk_image__read fuel d m sector iov iovcount =
     bind_run (case op_read (ops_of (dk_ops d)) of
                 Some rd \<Rightarrow> rd fuel d m sector iov iovcount
               | None \<Rightarrow> Done (0, m, d)) (\<lambda>(tot, m', d').
       if tot < 0 then Done (tot, None, m', d')
       else Done (tot, if \<not> dk_async d' \<and> dk_req_cb d' then Some tot else None, m', d'))"

definition disk_image__write ::
  "nat \<Rightarrow> u16 list \<Rightarrow> disk_image \<Rightarrow> mem \<Rightarrow> u64 \<Rightarrow> iovec list \<Rightarrow> int \<Rightarrow> (int \<times> int option \<times> disk_image) run" where
  "disk_image__write fuel jk d m sector iov iovcount =
     bind_run (case op_write (ops_of (dk_ops d)) of
                 Some wr \<Rightarrow> wr fuel jk d m sector iov iovcount
               | None \<Rightarrow> Done (0, d)) (\<lambda>(tot, d').
       if tot < 0 then Done (tot, None, d')
       else Done (tot, if \<not> dk_async d' \<and> dk_req_cb d' then Some tot else None, d'))"

definition disk_image__wait :: "disk_image \<Rightarrow> int" where
  "disk_image__wait d = (case op_wait (ops_of (dk_ops d)) of Some w \<Rightarrow> w d | None \<Rightarrow> 0)"

definition disk_image__flush :: "disk_image \<Rightarrow> (int \<times> disk_image) run" where
  "disk_image__flush d =
     (case op_flush (ops_of (dk_ops d)) of
        Some fl \<Rightarrow> fl d
      | None \<Rightarrow>
          (case sys_fsync (dk_fd d) of
             (Inl e, f) \<Rightarrow> Done (-1, d\<lparr>dk_fd := f\<rparr>)
           | (Inr _, f) \<Rightarrow> Done (0, d\<lparr>dk_fd := f\<rparr>)))"

text \<open>
  \<open>fstat\<close> gives the three numbers of the serial, or fails.  \<open>snprintf\<close> stores at most \<open>len - 1\<close>
  characters and a terminator, and returns the number it would have needed.  The result here is what the
  caller uses, the length as the call leaves it; when \<open>fstat\<close> fails that is the one it was given.
\<close>

fun decimal :: "nat \<Rightarrow> u8 list" where
  "decimal n = (if n < 10 then [of_nat (48 + n)] else decimal (n div 10) @ [of_nat (48 + n mod 10)])"

declare decimal.simps [simp del]

definition disk_image__get_serial ::
  "(nat \<times> nat \<times> nat) option \<Rightarrow> mem \<Rightarrow> u64 \<Rightarrow> int \<Rightarrow> int \<times> mem" where
  "disk_image__get_serial st m buffer len =
     (case st of
        None \<Rightarrow> (len, m)
      | Some (dev, rdev, ino) \<Rightarrow>
          let s = decimal dev @ decimal rdev @ decimal ino
          in (int (length s),
              if 0 < len then stn m buffer (take (nat len - 1) s @ [0]) else m))"

definition disk_image__set_callback :: "disk_image \<Rightarrow> disk_image" where
  "disk_image__set_callback d = d\<lparr>dk_req_cb := True\<rparr>"

subsection \<open>Opening and closing\<close>

datatype 'a ptr = ErrPtr | NullPtr | Ptr 'a

definition IS_ERR_OR_NULL :: "'a ptr \<Rightarrow> bool" where
  "IS_ERR_OR_NULL p = (case p of Ptr _ \<Rightarrow> False | _ \<Rightarrow> True)"

text \<open>
  What the host says about a file name: the results of the calls the code makes with it.  The table of
  mounts can be missing; \<open>stat\<close> of the device of an entry can fail.
\<close>

record mntent =
  mn_stat :: bool
  mn_isblk :: bool
  mn_rdev :: nat

record host_file =
  hf_stat :: bool
  hf_isblk :: bool
  hf_rdev :: nat
  hf_mounts :: "mntent list option"
  hf_open :: "fdesc option"
  hf_blksize :: "u64 option"
  hf_size :: u64
  hf_mmap :: bool

definition disk_image__new :: "fdesc \<Rightarrow> u64 \<Rightarrow> disk_ops \<Rightarrow> bool \<Rightarrow> bool \<Rightarrow> disk_image ptr" where
  "disk_image__new f len ops use_mmap mmap_ok =
     (let d = \<lparr>dk_fd = f, dk_size = len, dk_ops = ops, dk_priv = PNull, dk_req_cb = False,
        dk_readonly = False, dk_async = False, dk_addr = 0, dk_irq = 0, dk_fd_open = True\<rparr>
      in if use_mmap then
           (if mmap_ok \<and> len \<noteq> 0 then Ptr (d\<lparr>dk_priv := PMap (map_file f len)\<rparr>) else ErrPtr)
         else Ptr d)"

definition is_mounted :: "mntent list option \<Rightarrow> nat \<Rightarrow> bool" where
  "is_mounted mounts rdev =
     (case mounts of
        None \<Rightarrow> False
      | Some ms \<Rightarrow> list_ex (\<lambda>mnt. mn_stat mnt \<and> mn_isblk mnt \<and> rdev = mn_rdev mnt) ms)"

definition raw_image__probe :: "fdesc \<Rightarrow> host_file \<Rightarrow> bool \<Rightarrow> disk_image ptr" where
  "raw_image__probe f hf readonly =
     (if readonly then
        let d = disk_image__new f (hf_size hf) Ro_ops True (hf_mmap hf)
        in if IS_ERR_OR_NULL d then disk_image__new f (hf_size hf) Ro_ops_nowrite False (hf_mmap hf) else d
      else disk_image__new f (hf_size hf) Raw_image_regular_ops False (hf_mmap hf))"

definition blkdev__probe :: "host_file \<Rightarrow> disk_image ptr" where
  "blkdev__probe hf =
     (if \<not> hf_isblk hf then ErrPtr
      else if is_mounted (hf_mounts hf) (hf_rdev hf) then ErrPtr
      else case hf_open hf of
        None \<Rightarrow> ErrPtr
      | Some f \<Rightarrow>
          (case hf_blksize hf of
             None \<Rightarrow> ErrPtr
           | Some len \<Rightarrow> disk_image__new f len Blk_dev_ops False (hf_mmap hf)))"

definition qcow_image__probe :: "u8 list \<Rightarrow> fdesc \<Rightarrow> bool \<Rightarrow> (disk_image ptr \<times> fdesc) run" where
  "qcow_image__probe stk f readonly =
     bind_run (qcow_probe stk f) (\<lambda>(r, f').
       case r of
         None \<Rightarrow> Done (NullPtr, f')
       | Some q \<Rightarrow>
           (case disk_image__new f' (hd_size (header q))
               (if readonly then Qcow_disk_readonly_ops else Qcow_disk_ops) False False of
              Ptr d \<Rightarrow> Done (Ptr (d\<lparr>dk_priv := PQcow q\<rparr>), f')
            | p \<Rightarrow> Done (NullPtr, f')))"

definition disk_image__open :: "u8 list \<Rightarrow> host_file \<Rightarrow> bool \<Rightarrow> disk_image ptr run" where
  "disk_image__open stk hf readonly =
     (if \<not> hf_stat hf then Done ErrPtr
      else
        case blkdev__probe hf of
          Ptr d \<Rightarrow> Done (Ptr (d\<lparr>dk_readonly := readonly\<rparr>))
        | _ \<Rightarrow>
            (case hf_open hf of
               None \<Rightarrow> Done ErrPtr
             | Some f \<Rightarrow>
                 bind_run (qcow_image__probe stk f True) (\<lambda>(p, f').
                   case p of
                     Ptr d \<Rightarrow> Done (Ptr (d\<lparr>dk_readonly := True\<rparr>))
                   | _ \<Rightarrow>
                       (case raw_image__probe f' hf readonly of
                          Ptr d \<Rightarrow> Done (Ptr (d\<lparr>dk_readonly := readonly\<rparr>))
                        | _ \<Rightarrow> Done ErrPtr))))"

definition disk_image__close :: "disk_image ptr \<Rightarrow> (int \<times> disk_image ptr) run" where
  "disk_image__close p =
     (case p of
        NullPtr \<Rightarrow> Done (0, p)
      | ErrPtr \<Rightarrow> Wild
      | Ptr d \<Rightarrow>
          (case op_close (ops_of (dk_ops d)) of
             Some cl \<Rightarrow> bind_run (cl d) (\<lambda>(r, d'). Done (r, Ptr d'))
           | None \<Rightarrow> Done (0, Ptr (d\<lparr>dk_fd_open := False\<rparr>))))"

text \<open>
  The parameters of an image.  The program's configuration never sets a world wide name, so
  \<open>wwpn\<close> is null and its branch is left out.
\<close>

record disk_image_params =
  pr_file :: "host_file option"
  pr_readonly :: bool
  pr_addr :: u32
  pr_irq :: u32

definition MAX_DISK_IMAGES :: nat where [c_simps]: "MAX_DISK_IMAGES = 4"

fun close_each :: "disk_image ptr list \<Rightarrow> disk_image ptr list run" where
  "close_each [] = Done []"
| "close_each (p # ps) =
     bind_run (if IS_ERR_OR_NULL p then Done p else bind_run (disk_image__close p) (\<lambda>(r, p'). Done p')) (\<lambda>p'.
       bind_run (close_each ps) (\<lambda>ps'. Done (p' # ps')))"

text \<open>On a failure the images opened so far are closed; \<open>Inl\<close> holds them.\<close>

fun open_each ::
  "u8 list \<Rightarrow> disk_image_params list \<Rightarrow> disk_image ptr list \<Rightarrow> (disk_image ptr list + disk_image ptr list) run" where
  "open_each stk [] acc = Done (Inr acc)"
| "open_each stk (p # ps) acc =
     (case pr_file p of
        None \<Rightarrow> open_each stk ps (acc @ [NullPtr])
      | Some hf \<Rightarrow>
          bind_run (disk_image__open stk hf (pr_readonly p)) (\<lambda>d.
            case d of
              Ptr d \<Rightarrow> open_each stk ps (acc @ [Ptr (d\<lparr>dk_addr := pr_addr p, dk_irq := pr_irq p\<rparr>)])
            | _ \<Rightarrow> bind_run (close_each acc) (\<lambda>acc'. Done (Inl acc'))))"

datatype open_result = OpenErr "disk_image ptr list" | Opened "disk_image ptr list"

definition disk_image__open_all :: "u8 list \<Rightarrow> disk_image_params list \<Rightarrow> open_result run" where
  "disk_image__open_all stk params =
     (if params = [] then Done (OpenErr [])
      else if MAX_DISK_IMAGES < length params then Done (OpenErr [])
      else bind_run (open_each stk params []) (\<lambda>r.
        case r of Inl ds \<Rightarrow> Done (OpenErr ds) | Inr ds \<Rightarrow> Done (Opened ds)))"

text \<open>\<open>disk_image__close_all\<close> goes from the last to the first.\<close>

fun close_list :: "disk_image ptr list \<Rightarrow> disk_image ptr list run" where
  "close_list [] = Done []"
| "close_list (p # ps) = bind_run (disk_image__close p) (\<lambda>(r, p'). bind_run (close_list ps) (\<lambda>ps'. Done (p' # ps')))"

definition disk_image__close_all :: "disk_image ptr list \<Rightarrow> disk_image ptr list run" where
  "disk_image__close_all ds = bind_run (close_list (rev ds)) (\<lambda>ds'. Done (rev ds'))"

text \<open>\<open>None\<close>: \<open>kvm->disks\<close> keeps its value, as without images.\<close>

definition disk_image__init :: "u8 list \<Rightarrow> disk_image_params list \<Rightarrow> (int \<times> disk_image ptr list option) run" where
  "disk_image__init stk params =
     (if params = [] then Done (0, None)
      else bind_run (disk_image__open_all stk params) (\<lambda>r.
        case r of OpenErr ds \<Rightarrow> Done (-1, None) | Opened ds \<Rightarrow> Done (0, Some ds)))"

definition disk_image__exit :: "disk_image ptr list \<Rightarrow> disk_image ptr list run" where
  "disk_image__exit ds = disk_image__close_all ds"

end
