(* ===== verification/VirtioBlk.thy ===== *)
theory VirtioBlk
  imports VirtioMmio Disk
begin

text \<open>
  The block device (\<^verbatim>\<open>virtio/blk.c\<close>): a queue of requests served by an I/O thread that an event
  descriptor wakes up.  The event descriptors are counters, and the threads are program counters in
  \<open>virtio_blk_thread\<close>: at the test of \<open>io_done\<close>, in \<open>read\<close>, at the test of the loop in
  \<open>virtio_blk_do_io\<close>, or gone.  A request is one step of a thread.  Descriptors of other files (the
  0 that \<open>calloc\<close> leaves in \<open>io_efd\<close>) are \<open>None\<close>.
\<close>

subsection \<open>Constants\<close>

definition VIRTIO_BLK_T_IN :: u32 where [c_simps]: "VIRTIO_BLK_T_IN = 0"
definition VIRTIO_BLK_T_OUT :: u32 where [c_simps]: "VIRTIO_BLK_T_OUT = 1"
definition VIRTIO_BLK_T_FLUSH :: u32 where [c_simps]: "VIRTIO_BLK_T_FLUSH = 4"
definition VIRTIO_BLK_T_GET_ID :: u32 where [c_simps]: "VIRTIO_BLK_T_GET_ID = 8"
definition VIRTIO_BLK_S_OK :: u8 where [c_simps]: "VIRTIO_BLK_S_OK = 0"
definition VIRTIO_BLK_S_IOERR :: u8 where [c_simps]: "VIRTIO_BLK_S_IOERR = 1"
definition VIRTIO_BLK_ID_BYTES :: int where [c_simps]: "VIRTIO_BLK_ID_BYTES = 20"
definition VIRTIO_BLK_F_SEG_MAX :: nat where [c_simps]: "VIRTIO_BLK_F_SEG_MAX = 2"
definition VIRTIO_BLK_F_RO :: nat where [c_simps]: "VIRTIO_BLK_F_RO = 5"
definition VIRTIO_BLK_F_FLUSH :: nat where [c_simps]: "VIRTIO_BLK_F_FLUSH = 9"
definition VIRTIO_ID_BLOCK :: int where [c_simps]: "VIRTIO_ID_BLOCK = 2"
definition NUM_VIRT_QUEUES :: int where [c_simps]: "NUM_VIRT_QUEUES = 1"
definition DISK_SEG_MAX :: nat where [c_simps]: "DISK_SEG_MAX = VIRTIO_BLK_QUEUE_SIZE - 2"

subsection \<open>State\<close>

record blk_dev_req =
  rq_iov :: "seg list"
  rq_out :: u16
  rq_in :: u16
  rq_head :: u16

definition zero_req :: blk_dev_req where
  "zero_req = \<lparr>rq_iov = replicate VIRTIO_BLK_QUEUE_SIZE \<lparr>seg_base = None, seg_len = 0\<rparr>,
     rq_out = 0, rq_in = 0, rq_head = 0\<rparr>"

text \<open>A thread in \<open>read\<close> waits on the descriptor that \<open>io_efd\<close> held when it called.\<close>

datatype io_pc = TCheck | TRead "nat option" | TServe | TExit

record blk_dev =
  blk_config :: "u8 list"
  disk :: disk_image
  vqs :: "virt_queue list"
  reqs :: "blk_dev_req list"
  io_thread :: "nat option"
  io_efd :: "nat option"
  io_done :: bool
  efds :: "u64 option list"
  threads :: "io_pc list"

type_synonym blk = "blk_dev vstate"

abbreviation upd_dev :: "(blk_dev \<Rightarrow> blk_dev) \<Rightarrow> blk \<Rightarrow> blk" where
  "upd_dev f s \<equiv> s\<lparr>dev := f (dev s)\<rparr>"

definition queue :: "blk_dev \<Rightarrow> virt_queue" where
  "queue d = vqs d ! 0"

definition set_queue :: "virt_queue \<Rightarrow> blk_dev \<Rightarrow> blk_dev" where
  "set_queue vq d = d\<lparr>vqs := (vqs d)[0 := vq]\<rparr>"

subsection \<open>Completion\<close>

text \<open>Every segment of the request is unmapped, whether or not its mapping succeeded.\<close>

fun unmap_segs :: "demu_map \<Rightarrow> seg list \<Rightarrow> demu_map" where
  "unmap_segs g [] = g"
| "unmap_segs g (v # vs) =
     unmap_segs (demu_unmap_guest_range g (case seg_base v of Some b \<Rightarrow> b | None \<Rightarrow> 0) (ucast (seg_len v))) vs"

definition virtio_blk_complete :: "env \<Rightarrow> blk \<Rightarrow> nat \<Rightarrow> int \<Rightarrow> blk run" where
  "virtio_blk_complete e s rq len =
     (let r = reqs (dev s) ! rq;
          n = unat (rq_out r) + unat (rq_in r)
      in if n = 0 \<or> length (rq_iov r) < n then Wild
         else case seg_base (rq_iov r ! (n - 1)) of
           None \<Rightarrow> Wild
         | Some st \<Rightarrow>
             let m = stn (ram s) st [if len < 0 then VIRTIO_BLK_S_IOERR else VIRTIO_BLK_S_OK];
                 s1 = s\<lparr>ram := m, gmap := unmap_segs (gmap s) (take n (rq_iov r))\<rparr>
             in bind_run (virt_queue__set_used_elem (ram s1) (queue (dev s1)) (ucast (rq_head r)) (of_int len)) (\<lambda>m2.
                  bind_run (virtio_queue__should_signal (ring_abi e) m2 (queue (dev s1))) (\<lambda>(b, vq).
                    let s2 = upd_dev (set_queue vq) (s1\<lparr>ram := m2\<rparr>)
                    in Done (if b then snd (virtio_mmio_signal_vq s2 0) else s2))))"

subsection \<open>Requests\<close>

text \<open>
  The vector that is handed to the disk: the elements from the second one to the end of the array, of
  which the disk is to use \<open>n\<close>.  A null pointer among them is left to the system (\<open>Wild\<close>), unless
  the disk has no such operation and the vector is not looked at.
\<close>

definition iovec_of :: "seg \<Rightarrow> iovec" where
  "iovec_of v = \<lparr>iov_base = (case seg_base v of Some b \<Rightarrow> b | None \<Rightarrow> 0), iov_len = unat (seg_len v)\<rparr>"

definition data_iov :: "blk_dev_req \<Rightarrow> iovec list" where
  "data_iov r = map iovec_of (drop 1 (rq_iov r))"

definition null_data :: "blk_dev_req \<Rightarrow> int \<Rightarrow> bool" where
  "null_data r n \<longleftrightarrow>
     (let vs = drop 1 (rq_iov r)
      in \<exists>v\<in>set (if n < 0 then vs else take (nat n) vs). seg_base v = None \<and> seg_len v \<noteq> 0)"

definition callback :: "env \<Rightarrow> blk \<Rightarrow> nat \<Rightarrow> int option \<Rightarrow> blk run" where
  "callback e s rq cb = (case cb of None \<Rightarrow> Done s | Some len \<Rightarrow> virtio_blk_complete e s rq len)"

definition virtio_blk_do_io_request :: "env \<Rightarrow> blk \<Rightarrow> nat \<Rightarrow> blk run" where
  "virtio_blk_do_io_request e s rq =
     (let r = reqs (dev s) ! rq;
          n = int (unat (rq_in r)) + int (unat (rq_out r)) - 2
      in case seg_base (rq_iov r ! 0) of
           None \<Rightarrow> Wild
         | Some h \<Rightarrow>
             let type = ld32 (ram s) h;
                 sector = ld64 (ram s) (h + 8)
             in if type = VIRTIO_BLK_T_IN then
                  if null_data r n then Wild
                  else
                    bind_run (disk_image__read (io_fuel e) (disk (dev s)) (ram s) sector (data_iov r) n) (\<lambda>(cnt, cb, m, d).
                      callback e (upd_dev (\<lambda>b. b\<lparr>disk := d\<rparr>) (s\<lparr>ram := m\<rparr>)) rq cb)
                else if type = VIRTIO_BLK_T_OUT then
                  if op_write (ops_of (dk_ops (disk (dev s)))) \<noteq> None \<and> null_data r n then Wild
                  else
                    bind_run (disk_image__write (io_fuel e) (heap_junk e) (disk (dev s)) (ram s) sector (data_iov r) n) (\<lambda>(cnt, cb, d).
                      callback e (upd_dev (\<lambda>b. b\<lparr>disk := d\<rparr>) s) rq cb)
                else if type = VIRTIO_BLK_T_FLUSH then
                  bind_run (disk_image__flush (disk (dev s))) (\<lambda>(cnt, d).
                    virtio_blk_complete e (upd_dev (\<lambda>b. b\<lparr>disk := d\<rparr>) s) rq cnt)
                else if type = VIRTIO_BLK_T_GET_ID then
                  (case seg_base (rq_iov r ! 1) of
                     None \<Rightarrow>
                       if serial_stat e = None then virtio_blk_complete e s rq VIRTIO_BLK_ID_BYTES else Wild
                   | Some b \<Rightarrow>
                       (case disk_image__get_serial (serial_stat e) (ram s) b VIRTIO_BLK_ID_BYTES of
                          (cnt, m) \<Rightarrow> virtio_blk_complete e (s\<lparr>ram := m\<rparr>) rq cnt))
                else Done s)"

text \<open>One round of the loop in \<open>virtio_blk_do_io\<close>: \<open>None\<close> when it ends.\<close>

definition fill_req :: "seg list \<Rightarrow> u16 \<Rightarrow> u16 \<Rightarrow> u16 \<Rightarrow> blk_dev_req \<Rightarrow> blk_dev_req" where
  "fill_req iov out inn head r =
     \<lparr>rq_iov = iov @ drop (length iov) (rq_iov r), rq_out = out, rq_in = inn, rq_head = head\<rparr>"

definition do_io_round :: "env \<Rightarrow> blk \<Rightarrow> (bool \<times> blk) run" where
  "do_io_round e s =
     bind_run (virt_queue__available (ram s) (queue (dev s))) (\<lambda>(b, m).
       let s0 = s\<lparr>ram := m\<rparr>
       in if \<not> b \<or> io_done (dev s) then Done (False, s0)
          else
            bind_run (virt_queue__pop m (queue (dev s))) (\<lambda>(head, vq).
              let s1 = upd_dev (set_queue vq) s0
              in if length (reqs (dev s1)) \<le> unat head then Wild
                 else
                   bind_run (virt_queue__get_head_iov (map_ok e) VIRTIO_BLK_QUEUE_SIZE m (gmap s1) vq head) (\<lambda>(iov, out, inn, g).
                     let s2 = upd_dev (\<lambda>d. d\<lparr>reqs := (reqs d)[unat head :=
                                fill_req iov out inn head (reqs d ! unat head)]\<rparr>) (s1\<lparr>gmap := g\<rparr>)
                     in bind_run (virtio_blk_do_io_request e s2 (unat head)) (\<lambda>s3. Done (True, s3)))))"

fun virtio_blk_do_io :: "env \<Rightarrow> nat \<Rightarrow> blk \<Rightarrow> blk run" where
  "virtio_blk_do_io e n s =
     bind_run (do_io_round e s) (\<lambda>(more, s').
       if more then (case n of 0 \<Rightarrow> NoFuel | Suc n' \<Rightarrow> virtio_blk_do_io e n' s') else Done s')"

declare virtio_blk_do_io.simps [simp del]

subsection \<open>The thread\<close>

text \<open>
  One step of thread \<open>t\<close>; \<open>None\<close> when it cannot move: it is gone, or it waits for an event.  A read
  of a closed descriptor fails and the loop goes on; one of another file is not modelled.
\<close>

definition set_pc :: "nat \<Rightarrow> io_pc \<Rightarrow> blk \<Rightarrow> blk" where
  "set_pc t pc s = upd_dev (\<lambda>d. d\<lparr>threads := (threads d)[t := pc]\<rparr>) s"

definition virtio_blk_thread :: "env \<Rightarrow> nat \<Rightarrow> blk \<Rightarrow> blk run option" where
  "virtio_blk_thread e t s =
     (case threads (dev s) ! t of
        TExit \<Rightarrow> None
      | TCheck \<Rightarrow> Some (Done (set_pc t (if io_done (dev s) then TExit else TRead (io_efd (dev s))) s))
      | TRead None \<Rightarrow> Some Wild
      | TRead (Some fd) \<Rightarrow>
          (case efds (dev s) ! fd of
             None \<Rightarrow> Some (Done (set_pc t TCheck s))
           | Some c \<Rightarrow>
               if c = 0 then None
               else Some (Done (set_pc t TServe (upd_dev (\<lambda>d. d\<lparr>efds := (efds d)[fd := Some 0]\<rparr>) s))))
      | TServe \<Rightarrow>
          Some (bind_run (do_io_round e s) (\<lambda>(more, s'). Done (if more then s' else set_pc t TCheck s'))))"

text \<open>\<open>pthread_join\<close>: the thread runs until it is gone.  A thread that waits forever is \<open>NoFuel\<close>.\<close>

fun run_thread :: "env \<Rightarrow> nat \<Rightarrow> nat \<Rightarrow> blk \<Rightarrow> blk run" where
  "run_thread e t n s =
     (if threads (dev s) ! t = TExit then Done s
      else case n of
        0 \<Rightarrow> NoFuel
      | Suc n' \<Rightarrow>
          (case virtio_blk_thread e t s of
             None \<Rightarrow> NoFuel
           | Some r \<Rightarrow> bind_run r (run_thread e t n')))"

declare run_thread.simps [simp del]

subsection \<open>The operations\<close>

definition blk_get_host_features :: "blk_dev \<Rightarrow> u64" where
  "blk_get_host_features d =
     push_bit VIRTIO_BLK_F_SEG_MAX 1 OR push_bit VIRTIO_BLK_F_FLUSH 1 OR push_bit VIRTIO_RING_F_EVENT_IDX 1
       OR push_bit VIRTIO_RING_F_INDIRECT_DESC 1
       OR (if dk_readonly (disk d) then push_bit VIRTIO_BLK_F_RO 1 else 0)"

text \<open>
  The device's \<open>notify_status\<close> converts the fields of the configuration between the guest's and the
  host's byte order, which are the same.
\<close>

definition blk_notify_status :: "blk \<Rightarrow> u32 \<Rightarrow> blk" where
  "blk_notify_status s status =
     (if status AND VIRTIO__STATUS_SWAB = 0 then s
      else upd_dev (\<lambda>d. d\<lparr>blk_config := map id (blk_config d)\<rparr>) s)"

definition blk_get_vq :: "blk_dev \<Rightarrow> u32 \<Rightarrow> virt_queue option" where
  "blk_get_vq d n = (if unat n < length (vqs d) then Some (vqs d ! unat n) else None)"

definition blk_put_vq :: "blk_dev \<Rightarrow> u32 \<Rightarrow> virt_queue \<Rightarrow> blk_dev" where
  "blk_put_vq d n vq = d\<lparr>vqs := (vqs d)[unat n := vq]\<rparr>"

text \<open>
  Writing an event descriptor adds to its counter, or blocks when the counter is full; the program
  ignores the failure on a closed or foreign one.
\<close>

definition blk_notify_vq :: "env \<Rightarrow> blk \<Rightarrow> u32 \<Rightarrow> (int \<times> blk) run" where
  "blk_notify_vq e s vq =
     (case io_efd (dev s) of
        None \<Rightarrow> Done (-1, s)
      | Some fd \<Rightarrow>
          (case efds (dev s) ! fd of
             None \<Rightarrow> Done (-1, s)
           | Some c \<Rightarrow>
               if c \<ge> 0xFFFFFFFFFFFFFFFE then NoFuel
               else Done (0, upd_dev (\<lambda>d. d\<lparr>efds := (efds d)[fd := Some (c + 1)]\<rparr>) s)))"

definition blk_init_vq :: "env \<Rightarrow> blk \<Rightarrow> u32 \<Rightarrow> (int \<times> blk) run" where
  "blk_init_vq e s vq =
     (case blk_get_vq (dev s) vq of
        None \<Rightarrow> Wild
      | Some q \<Rightarrow>
          bind_run (virtio_init_device_vq e (vdev s) (gmap s) q (of_nat VIRTIO_BLK_QUEUE_SIZE)) (\<lambda>(q', g).
            let s1 = upd_dev (\<lambda>d. blk_put_vq d vq q') (s\<lparr>gmap := g\<rparr>)
            in if vq \<noteq> 0 then Done (0, s1)
               else
                 let s2 = upd_dev (\<lambda>d. d\<lparr>reqs := replicate VIRTIO_BLK_QUEUE_SIZE zero_req\<rparr>) s1
                 in if \<not> efd_ok e then Done (- sys_errno e, upd_dev (\<lambda>d. d\<lparr>io_efd := None\<rparr>) s2)
                    else
                      let s3 = upd_dev (\<lambda>d. d\<lparr>io_efd := Some (length (efds d)), efds := efds d @ [Some 0],
                                 io_done := False\<rparr>) s2
                      in if \<not> thread_ok e then Done (- sys_errno e, s3)
                         else Done (0, upd_dev (\<lambda>d. d\<lparr>io_thread := Some (length (threads d)),
                                threads := threads d @ [TCheck]\<rparr>) s3)))"

definition close_efd :: "blk_dev \<Rightarrow> blk_dev" where
  "close_efd d = (case io_efd d of None \<Rightarrow> d | Some fd \<Rightarrow> d\<lparr>efds := (efds d)[fd := None]\<rparr>)"

text \<open>\<open>disk_image__wait\<close> has no effect in this build.\<close>

definition blk_exit_vq :: "env \<Rightarrow> blk \<Rightarrow> u32 \<Rightarrow> blk run" where
  "blk_exit_vq e s vq =
     (if vq \<noteq> 0 then Done s
      else
        bind_run (blk_notify_vq e (upd_dev (\<lambda>d. d\<lparr>io_done := True\<rparr>) s) vq) (\<lambda>(r, s1).
          case io_thread (dev s1) of
            None \<Rightarrow> Wild
          | Some t \<Rightarrow>
              bind_run (run_thread e t (io_fuel e) s1) (\<lambda>s2. Done (upd_dev close_efd s2))))"

definition blk_dev_virtio_ops :: "env \<Rightarrow> blk_dev virtio_ops" where
  "blk_dev_virtio_ops e =
     \<lparr>get_config = blk_config, put_config = (\<lambda>bs d. d\<lparr>blk_config := bs\<rparr>),
      get_host_features = blk_get_host_features, get_vq_count = (\<lambda>d. NUM_VIRT_QUEUES),
      init_vq = blk_init_vq e, exit_vq = Some (blk_exit_vq e), notify_vq = blk_notify_vq e,
      get_vq = blk_get_vq, put_vq = blk_put_vq,
      get_size_vq = (\<lambda>d vq. int VIRTIO_BLK_QUEUE_SIZE), set_size_vq = (\<lambda>d vq len. (len, d)),
      notify_status = Some blk_notify_status\<rparr>"

subsection \<open>Devices\<close>

text \<open>The configuration: the capacity at byte 0, the limit on segments at byte 12, the rest zero.\<close>

definition initial_config :: "env \<Rightarrow> u64 \<Rightarrow> u8 list" where
  "initial_config e len =
     (let bs = le_of_word 8 (len div 512) @ replicate 4 0 @ le_of_word 4 (of_nat DISK_SEG_MAX :: u32)
      in bs @ replicate (config_len e - length bs) 0)"

definition new_blk_dev :: "env \<Rightarrow> disk_image \<Rightarrow> blk_dev" where
  "new_blk_dev e d =
     \<lparr>blk_config = initial_config e (dk_size d), disk = d, vqs = [zero_vq],
      reqs = replicate VIRTIO_BLK_QUEUE_SIZE zero_req, io_thread = None, io_efd = None, io_done = False,
      efds = [], threads = []\<rparr>"

text \<open>What a device keeps besides the machine it shares with the others.\<close>

record blk_slot =
  sl_vdev :: virtio_device
  sl_vmmio :: virtio_mmio
  sl_dev :: blk_dev

definition slot_of :: "blk \<Rightarrow> blk_slot" where
  "slot_of s = \<lparr>sl_vdev = vdev s, sl_vmmio = vmmio s, sl_dev = dev s\<rparr>"

definition with_slot :: "machine \<Rightarrow> blk_slot \<Rightarrow> blk" where
  "with_slot m sl = machine.extend m \<lparr>vdev = sl_vdev sl, vmmio = sl_vmmio sl, dev = sl_dev sl\<rparr>"

text \<open>
  The list \<open>bdevs\<close>, each device with the index it was registered with.
\<close>

type_synonym bdevs = "(nat \<times> blk_slot) list"

definition zero_vdev :: virtio_device where
  "zero_vdev = \<lparr>vd_legacy = False, vd_endian = 0, vd_features = 0, vd_status = 0\<rparr>"

definition virtio_blk__init_one ::
  "env \<Rightarrow> bool \<Rightarrow> machine \<Rightarrow> bdevs \<Rightarrow> disk_image ptr \<Rightarrow> (int \<times> machine \<times> bdevs) run" where
  "virtio_blk__init_one e virtio_legacy m bs p =
     (case p of
        ErrPtr \<Rightarrow> Wild
      | NullPtr \<Rightarrow> Done (-22, m, bs)
      | Ptr d \<Rightarrow>
          let k = Suc (fold max (map fst bs) 0);
              s = with_slot m \<lparr>sl_vdev = zero_vdev, sl_vmmio = \<lparr>vm_addr = 0, vm_irq = 0, hdr = zero_hdr\<rparr>,
                    sl_dev = new_blk_dev e d\<rparr>
          in case virtio_init e s k (if virtio_legacy then VIRTIO_MMIO_LEGACY else VIRTIO_MMIO)
                 VIRTIO_ID_BLOCK (dk_addr d) (dk_irq d) of
               (r, s1) \<Rightarrow>
                 if r < 0 then Done (r, machine.truncate s1, bs @ [(k, slot_of s1)])
                 else
                   let s2 = upd_dev (\<lambda>b. b\<lparr>disk := disk_image__set_callback (disk b)\<rparr>) s1
                   in Done (0, machine.truncate s2, bs @ [(k, slot_of s2)]))"

text \<open>The disk outlives its device, so taking a device down returns it.\<close>

definition virtio_blk__exit_one :: "env \<Rightarrow> machine \<Rightarrow> blk_slot \<Rightarrow> (machine \<times> disk_image) run" where
  "virtio_blk__exit_one e m sl =
     bind_run (virtio_mmio_exit e (blk_dev_virtio_ops e) (with_slot m sl)) (\<lambda>(r, s).
       Done (machine.truncate s, disk (dev s)))"

fun virtio_blk__exit :: "env \<Rightarrow> machine \<Rightarrow> bdevs \<Rightarrow> (machine \<times> disk_image list) run" where
  "virtio_blk__exit e m [] = Done (m, [])"
| "virtio_blk__exit e m ((k, sl) # bs) =
     bind_run (virtio_blk__exit_one e m sl) (\<lambda>(m1, d).
       bind_run (virtio_blk__exit e m1 bs) (\<lambda>(m2, ds). Done (m2, d # ds)))"

text \<open>On a failure the devices set up so far are taken down again, with the one that failed.\<close>

fun virtio_blk__init ::
  "env \<Rightarrow> bool \<Rightarrow> machine \<Rightarrow> bdevs \<Rightarrow> disk_image ptr list \<Rightarrow> (int \<times> machine \<times> bdevs) run" where
  "virtio_blk__init e virtio_legacy m bs [] = Done (0, m, bs)"
| "virtio_blk__init e virtio_legacy m bs (p # ps) =
     (if p = NullPtr then Wild
      else
        bind_run (virtio_blk__init_one e virtio_legacy m bs p) (\<lambda>(r, m1, bs1).
          if r < 0 then bind_run (virtio_blk__exit e m1 bs1) (\<lambda>(m2, ds). Done (r, m2, []))
          else virtio_blk__init e virtio_legacy m1 bs1 ps))"

end
