(* ===== verification/VecIoProofs.thy ===== *)
theory VecIoProofs
  imports VecIo
begin

text \<open>
  What the vector loops do.  When the file covers the request, \<open>preadv_in_full\<close> behaves as one
  uninterrupted read under every pattern of interruptions and short transfers.  When the end of the
  file falls strictly inside an element, it never returns: \<open>shift_iovec\<close> only ever counts whole
  elements, so the loop asks for the same element again and again.
\<close>

subsection \<open>Shifting\<close>

lemma shift_iovec_split:
  assumes "cur_iov c = pre @ v # post" and "nr = iov_total pre + r" and "r < iov_len v"
  shows "shift_iovec nr c = Done (c\<lparr>cur_iov := v # post, cur_cnt := cur_cnt c - int (length pre),
     cur_total := cur_total c + iov_total pre, cur_count := cur_count c - iov_total pre,
     cur_off := cur_off c + int (iov_total pre)\<rparr>)"
  using assms
proof (induction pre arbitrary: c nr)
  case Nil
  then show ?case by (simp add: shift_iovec.simps)
next
  case (Cons u us)
  let ?c = "c\<lparr>cur_total := cur_total c + iov_len u, cur_count := cur_count c - iov_len u,
     cur_off := cur_off c + int (iov_len u), cur_cnt := cur_cnt c - 1, cur_iov := us @ v # post\<rparr>"
  have "shift_iovec nr c = shift_iovec (nr - iov_len u) ?c"
    unfolding shift_iovec.simps [of nr c] using Cons.prems by simp
  also have "\<dots> = Done (?c\<lparr>cur_iov := v # post, cur_cnt := cur_cnt ?c - int (length us),
     cur_total := cur_total ?c + iov_total us, cur_count := cur_count ?c - iov_total us,
     cur_off := cur_off ?c + int (iov_total us)\<rparr>)"
    using Cons.prems by (intro Cons.IH) auto
  finally show ?case by (simp add: algebra_simps)
qed

lemma iov_split:
  assumes "nr \<le> iov_total vs" and "0 < iov_len w"
  shows "\<exists>pre vs' r. vs = pre @ vs' \<and> nr = iov_total pre + r \<and>
     r < iov_len (hd (vs' @ [w]))"
  using assms
proof (induction vs arbitrary: nr)
  case Nil
  then show ?case by simp
next
  case (Cons v vs)
  show ?case
  proof (cases "nr < iov_len v")
    case True
    then show ?thesis by (intro exI [of _ "[]"] exI [of _ "v # vs"]) simp
  next
    case False
    have "nr - iov_len v \<le> iov_total vs" using Cons.prems(1) by simp
    then obtain pre vs' r where "vs = pre @ vs'" "nr - iov_len v = iov_total pre + r"
      "r < iov_len (hd (vs' @ [w]))"
      using Cons.IH [OF _ Cons.prems(2)] by blast
    then show ?thesis using False by (intro exI [of _ "v # pre"] exI [of _ vs'] exI [of _ r]) auto
  qed
qed

subsection \<open>Scattering again from the start of an element\<close>

definition iov_sizes_ok :: "iovec list \<Rightarrow> bool" where
  "iov_sizes_ok iov \<longleftrightarrow> (\<forall>v\<in>set iov. iov_len v \<le> 2 ^ 64)"

lemma scatter_append:
  "scatter m (vs @ ws) d = scatter (scatter m vs (take (iov_total vs) d)) ws (drop (iov_total vs) d)"
proof (induction vs arbitrary: m d)
  case Nil
  then show ?case by simp
next
  case (Cons v vs)
  then show ?case by (simp add: drop_take add.commute min_def)
qed

lemma scatter_resume:
  assumes "iov_sizes_ok (pre @ vs')" and "vs' = [] \<or> r \<le> iov_len (hd vs')"
  shows "scatter (scatter m (pre @ vs') (take (iov_total pre + r) d)) vs' (drop (iov_total pre) d) =
    scatter m (pre @ vs') d"
proof -
  let ?M = "scatter m pre (take (iov_total pre) d)" and ?e = "drop (iov_total pre) d"
  have 1: "scatter m (pre @ vs') (take (iov_total pre + r) d) = scatter ?M vs' (take r ?e)"
    by (simp add: scatter_append drop_take min_def)
  have "scatter (scatter ?M vs' (take r ?e)) vs' ?e = scatter ?M vs' ?e"
  proof (cases vs')
    case Nil
    then show ?thesis by simp
  next
    case (Cons v ws)
    then have r: "r \<le> iov_len v" and len: "iov_len v \<le> 2 ^ 64"
      using assms by (simp_all add: iov_sizes_ok_def)
    have "stn (stn ?M (iov_base v) (take r ?e)) (iov_base v) (take (iov_len v) ?e) =
        stn ?M (iov_base v) (take (iov_len v) ?e)"
      using stn_prefix_absorb [of "take (iov_len v) ?e" ?M "iov_base v" r] r len
      by (simp add: min_def split: if_splits)
    moreover have "take (iov_len v) (take r ?e) = take r ?e" "drop (iov_len v) (take r ?e) = []"
      using r by simp_all
    ultimately show ?thesis by (simp only: Cons scatter.simps scatter_Nil)
  qed
  then show ?thesis unfolding 1 scatter_append [of m pre vs' d] .
qed

lemma ldn_of_memory_only: "ldn m a n = ldn m' a n" if "\<And>x. m x = m' x"
  using that by (simp add: ldn_def)

subsection \<open>One call\<close>

lemma xpreadv_benign:
  assumes "benign f" and "0 \<le> off" and "0 < iov_total iov"
  shows "\<exists>k f'. 0 < k \<and> k \<le> iov_total iov \<and>
      xpreadv f m iov off =
        (Inr (length (file_slice f k off)), scatter m iov (file_slice f k off), f') \<and>
      fbytes f' = fbytes f \<and> benign f' \<and>
      (if fscript f = [] then k = iov_total iov \<and> fscript f' = []
       else length (fscript f') < length (fscript f))"
  using assms
proof (induction "length (fscript f)" arbitrary: f rule: less_induct)
  case less
  show ?case
  proof (cases "fscript f")
    case Nil
    then show ?thesis using less.prems
      by (auto simp: xpreadv.simps [of f] sys_preadv_def sys_pread_def serve_def file_slice_def
          intro!: exI [of _ "iov_total iov"])
  next
    case (Cons r s)
    let ?f = "f\<lparr>fscript := s\<rparr>"
    have b: "benign ?f" using less.prems(1) Cons by (simp add: benign_def)
    show ?thesis
    proof (cases r)
      case (SErr e)
      have t: "transient e" using less.prems(1) Cons SErr by (simp add: benign_def)
      have x: "xpreadv f m iov off = xpreadv ?f m iov off"
        using less.prems Cons SErr t
        by (simp add: xpreadv.simps [of f] sys_preadv_def sys_pread_def serve_def)
      have "length (fscript ?f) < length (fscript f)" using Cons by simp
      from less.hyps [OF this b less.prems(2,3)] x Cons show ?thesis
        by (auto simp: file_slice_def split: if_splits)
    next
      case (SMax n)
      have "0 < n" using less.prems(1) Cons SMax by (simp add: benign_def)
      then show ?thesis using less.prems Cons SMax b
        by (auto simp: xpreadv.simps [of f] sys_preadv_def sys_pread_def serve_def file_slice_def
            intro!: exI [of _ "min n (iov_total iov)"])
    qed
  qed
qed

subsection \<open>The request inside the file\<close>

definition covers :: "fdesc \<Rightarrow> int \<Rightarrow> nat \<Rightarrow> bool" where
  "covers f off n \<longleftrightarrow> 0 \<le> off \<and> nat off + n \<le> length (fbytes f)"

lemma length_file_slice: "length (file_slice f k off) = min k (length (fbytes f) - nat off)"
  by (simp add: file_slice_def min.commute)

lemma covers_length: "covers f off n \<Longrightarrow> k \<le> n \<Longrightarrow> length (file_slice f k off) = k"
  by (auto simp: covers_def length_file_slice)

lemma file_slice_drop:
  "0 \<le> off \<Longrightarrow> j \<le> n \<Longrightarrow>
     file_slice f (n - j) (off + int j) = drop j (file_slice f n off)"
  by (simp add: file_slice_def drop_take nat_add_distrib add.commute)

lemma preadv_loop_step:
  assumes "cur_count c \<noteq> 0" and "nr \<noteq> 0"
    and "xpreadv f m (take (nat (cur_cnt c)) (cur_iov c)) (cur_off c) = (Inr nr, m', f')"
    and "shift_iovec nr c = Done c'"
  shows "preadv_loop (Suc fuel) f m c = preadv_loop fuel f' m' c'"
  using assms by (simp add: preadv_loop.simps [of "Suc fuel"])

lemma preadv_loop_covered:
  assumes "benign f" and "covers f (cur_off c) (iov_total vs)"
    and "cur_iov c = vs @ w # rest" and "cur_cnt c = int (length vs)"
    and "cur_count c = iov_total vs" and "0 < iov_len w" and "iov_sizes_ok vs"
    and "length (fscript f) < fuel"
  shows "\<exists>f'. preadv_loop fuel f m c =
       Done (Some (cur_total c + iov_total vs),
         scatter m vs (file_slice f (iov_total vs) (cur_off c)), f') \<and>
     fbytes f' = fbytes f \<and> benign f' \<and> length (fscript f') \<le> length (fscript f)"
  using assms
proof (induction fuel arbitrary: f m c vs)
  case 0
  then show ?case by simp
next
  case (Suc fuel)
  let ?n = "iov_total vs" and ?off = "cur_off c"
  have off: "0 \<le> ?off" using Suc.prems(2) by (simp add: covers_def)
  show ?case
  proof (cases "?n = 0")
    case True
    then show ?thesis using Suc.prems
      by (simp add: preadv_loop.simps file_slice_def)
  next
    case False
    then obtain k f1 where k: "0 < k" "k \<le> ?n"
      and x: "xpreadv f m vs ?off =
        (Inr (length (file_slice f k ?off)), scatter m vs (file_slice f k ?off), f1)"
      and f1: "fbytes f1 = fbytes f" "benign f1"
      and sc: "if fscript f = [] then k = ?n \<and> fscript f1 = []
        else length (fscript f1) < length (fscript f)"
      using xpreadv_benign [OF Suc.prems(1) off, of vs m] by auto
    have len: "length (file_slice f k ?off) = k" using covers_length [OF Suc.prems(2) k(2)] .
    obtain pre vs' r where sp: "vs = pre @ vs'" "k = iov_total pre + r"
      "r < iov_len (hd (vs' @ [w]))"
      using iov_split [OF k(2) Suc.prems(6)] by blast
    define c' where "c' = c\<lparr>cur_iov := vs' @ w # rest, cur_cnt := cur_cnt c - int (length pre),
      cur_total := cur_total c + iov_total pre, cur_count := cur_count c - iov_total pre,
      cur_off := ?off + int (iov_total pre)\<rparr>"
    define m' where "m' = scatter m vs (file_slice f k ?off)"
    obtain u us where u: "vs' @ w # rest = u # us" "u = hd (vs' @ [w])"
      by (cases vs') auto
    have "shift_iovec k c = Done c'"
      unfolding c'_def u(1)
      using sp u Suc.prems(3) by (intro shift_iovec_split [of _ pre u us k r]) auto
    then have step: "preadv_loop (Suc fuel) f m c = preadv_loop fuel f1 m' c'"
      using False k Suc.prems(3-5) x len by (simp add: preadv_loop.simps [of "Suc fuel"] m'_def)
    have slice: "file_slice f1 (iov_total vs') (cur_off c') = drop (iov_total pre) (file_slice f ?n ?off)"
      using file_slice_drop [OF off, of "iov_total pre" ?n f] sp(1) f1(1)
      by (simp add: c'_def file_slice_def)
    have "m' = scatter m (pre @ vs') (take (iov_total pre + r) (file_slice f ?n ?off))"
      using k(2) sp by (simp add: m'_def file_slice_def min_def)
    moreover have "vs' = [] \<or> r \<le> iov_len (hd vs')" using sp(3) by (cases vs') auto
    ultimately have mem: "scatter m' vs' (file_slice f1 (iov_total vs') (cur_off c')) =
        scatter m vs (file_slice f ?n ?off)"
      unfolding slice using Suc.prems(7) sp(1) by (simp add: scatter_resume)
    show ?thesis
    proof (cases "fscript f = []")
      case True
      then have "k = ?n" using sc by simp
      then have "iov_total vs' = r" using sp by simp
      moreover have "r = 0 \<or> vs' = []" using sp(3) \<open>iov_total vs' = r\<close> by (cases vs') auto
      ultimately have z: "iov_total vs' = 0" by auto
      then have "cur_count c' = 0" using Suc.prems(5) sp(1) by (simp add: c'_def)
      then have "preadv_loop fuel f1 m' c' = Done (Some (cur_total c'), m', f1)"
        by (simp add: preadv_loop.simps)
      moreover have "m' = scatter m vs (file_slice f ?n ?off)"
        using mem z by (simp add: file_slice_def)
      ultimately show ?thesis using step f1 sp(1) z sc True by (simp add: c'_def)
    next
      case ne: False
      have "\<exists>f'. preadv_loop fuel f1 m' c' = Done (Some (cur_total c' + iov_total vs'),
           scatter m' vs' (file_slice f1 (iov_total vs') (cur_off c')), f') \<and>
          fbytes f' = fbytes f1 \<and> benign f' \<and> length (fscript f') \<le> length (fscript f1)"
        using Suc.prems sp(1) sc ne f1 off
        by (intro Suc.IH) (auto simp: c'_def covers_def iov_sizes_ok_def)
      then show ?thesis using step mem f1 sp(1) sc ne by (fastforce simp: c'_def)
    qed
  qed
qed

lemma preadv_in_full_covered:
  assumes "benign f" and "covers f off (iov_total vs)" and "0 < iov_len w" and "iov_sizes_ok vs"
    and "length (fscript f) < fuel"
  shows "\<exists>f'. preadv_in_full fuel f m (vs @ w # rest) (int (length vs)) off =
       Done (Some (iov_total vs), scatter m vs (file_slice f (iov_total vs) off), f') \<and>
     fbytes f' = fbytes f \<and> benign f' \<and> length (fscript f') \<le> length (fscript f)"
proof -
  let ?c = "\<lparr>cur_iov = vs @ w # rest, cur_cnt = int (length vs), cur_total = 0,
    cur_count = iov_total vs, cur_off = off\<rparr>"
  have "\<exists>f'. preadv_loop fuel f m ?c =
       Done (Some (cur_total ?c + iov_total vs),
         scatter m vs (file_slice f (iov_total vs) (cur_off ?c)), f') \<and>
     fbytes f' = fbytes f \<and> benign f' \<and> length (fscript f') \<le> length (fscript f)"
    by (rule preadv_loop_covered) (use assms in auto)
  then show ?thesis by (simp add: preadv_in_full_def get_iov_size_ok)
qed

subsection \<open>The end of the file inside an element\<close>

lemma preadv_loop_stuck:
  assumes "fscript f = []" and "0 \<le> cur_off c" and "nat (cur_off c) < length (fbytes f)"
    and "cur_iov c = v # vs" and "0 < cur_cnt c" and "0 < cur_count c"
    and "length (fbytes f) < nat (cur_off c) + iov_len v"
  shows "preadv_loop fuel f m c = NoFuel"
  using assms
proof (induction fuel arbitrary: m)
  case 0
  then show ?case by (simp add: preadv_loop.simps)
next
  case (Suc fuel)
  let ?iov = "take (nat (cur_cnt c)) (cur_iov c)"
  obtain us where iov: "?iov = v # us"
    using Suc.prems(4,5) by (cases "nat (cur_cnt c)") auto
  let ?d = "file_slice f (iov_total ?iov) (cur_off c)"
  have x: "xpreadv f m ?iov (cur_off c) = (Inr (length ?d), scatter m ?iov ?d, f)"
    using Suc.prems(1,2)
    by (simp add: xpreadv.simps [of f] sys_preadv_def sys_pread_def serve_def file_slice_def)
  have d: "0 < length ?d" "length ?d < iov_len v"
    using Suc.prems(3,7) iov by (auto simp: length_file_slice)
  then have "shift_iovec (length ?d) c = Done c"
    using Suc.prems(4) by (simp add: shift_iovec.simps)
  then show ?case
    using Suc.prems Suc.IH x d by (simp add: preadv_loop.simps [of "Suc fuel"])
qed

lemma preadv_in_full_stuck:
  assumes "fscript f = []" and "0 \<le> off"
    and "nat off + iov_total pre < length (fbytes f)"
    and "length (fbytes f) < nat off + iov_total pre + iov_len v"
  shows "preadv_in_full fuel f m (pre @ v # post @ rest) (int (length (pre @ v # post))) off = NoFuel"
proof -
  let ?iov = "pre @ v # post"
  let ?c = "\<lparr>cur_iov = pre @ v # post @ rest, cur_cnt = int (length ?iov), cur_total = 0,
    cur_count = iov_total ?iov, cur_off = off\<rparr>"
  have size: "get_iov_size (pre @ v # post @ rest) (int (length ?iov)) = Done (iov_total ?iov)"
    using get_iov_size_ok [of ?iov rest] by simp
  have "preadv_loop fuel f m ?c = NoFuel"
  proof (cases fuel)
    case 0
    then show ?thesis using assms by (simp add: preadv_loop.simps)
  next
    case (Suc fuel')
    let ?d = "file_slice f (iov_total ?iov) off"
    have x: "xpreadv f m ?iov off = (Inr (length ?d), scatter m ?iov ?d, f)"
      using assms(1,2)
      by (simp add: xpreadv.simps [of f] sys_preadv_def sys_pread_def serve_def file_slice_def)
    define r where "r = length (fbytes f) - nat off - iov_total pre"
    have d: "length ?d = iov_total pre + r" "r < iov_len v" "0 < r"
      using assms(3,4) by (auto simp: length_file_slice r_def)
    define c' where "c' = ?c\<lparr>cur_iov := v # post @ rest, cur_cnt := cur_cnt ?c - int (length pre),
      cur_total := cur_total ?c + iov_total pre, cur_count := cur_count ?c - iov_total pre,
      cur_off := cur_off ?c + int (iov_total pre)\<rparr>"
    have "shift_iovec (length ?d) ?c = Done c'"
      unfolding c'_def by (rule shift_iovec_split [OF _ d(1,2)]) simp
    moreover have "take (nat (cur_cnt ?c)) (cur_iov ?c) = ?iov"
      using nat_int [of "length ?iov"] by (simp del: nat_int)
    moreover have "cur_count ?c \<noteq> 0" "length ?d \<noteq> 0" using d by simp_all
    ultimately have "preadv_loop fuel f m ?c = preadv_loop fuel' f (scatter m ?iov ?d) c'"
      unfolding Suc using x by (intro preadv_loop_step) (simp_all only: cursor.simps not_False_eq_True)
    also have "\<dots> = NoFuel"
      using assms d by (intro preadv_loop_stuck) (auto simp: c'_def nat_add_distrib)
    finally show ?thesis .
  qed
  then show ?thesis unfolding preadv_in_full_def size by simp
qed


subsection \<open>Writing\<close>

lemma nth_overlay:
  assumes "i < length (overlay xs off ys)"
  shows "overlay xs off ys ! i =
    (if i < off then if i < length xs then xs ! i else 0
     else if i < off + length ys then ys ! (i - off) else xs ! i)"
  using assms by (auto simp: overlay_def nth_append min_def)

lemma overlay_resume:
  assumes "a \<le> length bs"
  shows "overlay (overlay xs off (take (a + r) bs)) (off + a) (drop a bs) = overlay xs off bs"
proof (rule nth_equalityI)
  show "length (overlay (overlay xs off (take (a + r) bs)) (off + a) (drop a bs)) =
      length (overlay xs off bs)"
    using assms by (simp add: length_overlay)
next
  fix i assume i: "i < length (overlay (overlay xs off (take (a + r) bs)) (off + a) (drop a bs))"
  show "overlay (overlay xs off (take (a + r) bs)) (off + a) (drop a bs) ! i = overlay xs off bs ! i"
    using i assms
    by (simp add: nth_overlay length_overlay max_def min_def split: if_splits)
qed

lemma file_put_resume:
  assumes "0 \<le> off" and "a \<le> length bs"
  shows "file_put (file_put xs off (take (a + r) bs)) (off + int a) (drop a bs) = file_put xs off bs"
proof -
  have n: "nat (off + int a) = nat off + a" using assms(1) by simp
  show ?thesis
  proof (cases "a < length bs")
    case True
    have "a + r = 0 \<or> take (a + r) bs \<noteq> []" using True by auto
    then show ?thesis
      using True overlay_resume [of a bs xs "nat off" r] by (auto simp: file_put_def n)
  next
    case False
    then show ?thesis using assms by simp
  qed
qed

lemma gather_append: "gather m (vs @ ws) = gather m vs @ gather m ws"
  by (simp add: gather_def)

lemma xpwritev_eq: "xpwritev f m iov off = xpwrite f (gather m iov) off"
proof (induction f m iov off rule: xpwritev.induct)
  case (1 f m iov off)
  then show ?case
    by (auto simp: xpwritev.simps [of f] xpwrite.simps [of f] sys_pwritev_def
        split: prod.splits sum.splits)
qed

lemma pwritev_loop_step:
  assumes "cur_count c \<noteq> 0" and "nr \<noteq> 0"
    and "xpwritev f m (take (nat (cur_cnt c)) (cur_iov c)) (cur_off c) = (Inr nr, f')"
    and "shift_iovec nr c = Done c'"
  shows "pwritev_loop (Suc fuel) f m c = pwritev_loop fuel f' m c'"
  using assms by (simp add: pwritev_loop.simps [of "Suc fuel"])

lemma pwritev_loop_benign:
  assumes "benign f" and "0 \<le> cur_off c"
    and "cur_iov c = vs @ w # rest" and "cur_cnt c = int (length vs)"
    and "cur_count c = iov_total vs" and "0 < iov_len w" and "length (fscript f) < fuel"
  shows "\<exists>f'. pwritev_loop fuel f m c = Done (Some (cur_total c + iov_total vs), f') \<and> benign f' \<and>
    length (fscript f') \<le> length (fscript f)"
  using assms
proof (induction fuel arbitrary: f c vs)
  case 0
  then show ?case by simp
next
  case (Suc fuel)
  show ?case
  proof (cases "iov_total vs = 0")
    case True
    then show ?thesis using Suc.prems by (simp add: pwritev_loop.simps)
  next
    case False
    then have ne: "gather m vs \<noteq> []" using length_gather [of m vs] by fastforce
    obtain k f1 where k: "0 < k" and x: "xpwrite f (gather m vs) (cur_off c) = (Inr k, f1)"
      and sc: "if fscript f = [] then k = length (gather m vs) \<and> fscript f1 = []
        else length (fscript f1) < length (fscript f)"
      using xpwrite_benign [OF Suc.prems(1,2) ne] by auto
    have f1: "benign f1" "k \<le> iov_total vs" using xpwrite_put [OF x] Suc.prems(1) by simp_all
    obtain pre vs' r where sp: "vs = pre @ vs'" "k = iov_total pre + r"
      "r < iov_len (hd (vs' @ [w]))"
      using iov_split [OF f1(2) Suc.prems(6)] by blast
    define c' where "c' = c\<lparr>cur_iov := vs' @ w # rest, cur_cnt := cur_cnt c - int (length pre),
      cur_total := cur_total c + iov_total pre, cur_count := cur_count c - iov_total pre,
      cur_off := cur_off c + int (iov_total pre)\<rparr>"
    obtain u us where u: "vs' @ w # rest = u # us" "u = hd (vs' @ [w])" by (cases vs') auto
    have "shift_iovec k c = Done c'"
      unfolding c'_def u(1)
      using sp u Suc.prems(3) by (intro shift_iovec_split [of _ pre u us k r]) auto
    then have step: "pwritev_loop (Suc fuel) f m c = pwritev_loop fuel f1 m c'"
      using pwritev_loop_step [of c k f m f1 c' fuel] Suc.prems False x k by (simp add: xpwritev_eq)
    show ?thesis
    proof (cases "fscript f = []")
      case True
      then have "iov_total vs' = r" using sc sp by simp
      then have z: "iov_total vs' = 0" using sp(3) by (cases vs') auto
      then have "cur_count c' = 0" using Suc.prems(5) sp(1) by (simp add: c'_def)
      then have "pwritev_loop fuel f1 m c' = Done (Some (cur_total c'), f1)"
        by (simp add: pwritev_loop.simps)
      then show ?thesis using step f1 sp(1) z sc True by (simp add: c'_def)
    next
      case more: False
      have "\<exists>f'. pwritev_loop fuel f1 m c' = Done (Some (cur_total c' + iov_total vs'), f') \<and> benign f' \<and>
          length (fscript f') \<le> length (fscript f1)"
        using Suc.prems sp(1) sc more f1 by (intro Suc.IH) (auto simp: c'_def)
      then show ?thesis using step sp(1) sc more by (fastforce simp: c'_def)
    qed
  qed
qed

lemma pwritev_loop_ok:
  assumes "pwritev_loop fuel f m c = Done (Some n, f')"
    and "cur_iov c = vs @ w # rest" and "cur_cnt c = int (length vs)"
    and "cur_count c = iov_total vs" and "0 < iov_len w"
  shows "n = cur_total c + iov_total vs \<and> fbytes f' = file_put (fbytes f) (cur_off c) (gather m vs)"
  using assms
proof (induction fuel arbitrary: f c vs)
  case 0
  then show ?case using length_gather [of m vs]
    by (auto simp: pwritev_loop.simps [of 0] file_put_def simp del: length_gather split: if_splits)
next
  case (Suc fuel)
  show ?case
  proof (cases "iov_total vs = 0")
    case True
    then show ?thesis using Suc.prems length_gather [of m vs]
      by (auto simp: pwritev_loop.simps [of "Suc fuel"] file_put_def simp del: length_gather)
  next
    case False
    obtain r1 f1 where x: "xpwritev f m vs (cur_off c) = (r1, f1)" by fastforce
    have "\<exists>k. r1 = Inr k \<and> k \<noteq> 0"
      using Suc.prems False x
      by (auto simp: pwritev_loop.simps [of "Suc fuel"] split: sum.splits if_splits)
    then obtain k where k: "r1 = Inr k" "k \<noteq> 0" by blast
    have put: "fbytes f1 = file_put (fbytes f) (cur_off c) (take k (gather m vs))"
      "0 \<le> cur_off c" "k \<le> iov_total vs"
      using xpwrite_put [of f "gather m vs" "cur_off c" r1 f1] x k by (simp_all add: xpwritev_eq)
    obtain pre vs' r where sp: "vs = pre @ vs'" "k = iov_total pre + r"
      "r < iov_len (hd (vs' @ [w]))"
      using iov_split [OF put(3) Suc.prems(5)] by blast
    define c' where "c' = c\<lparr>cur_iov := vs' @ w # rest, cur_cnt := cur_cnt c - int (length pre),
      cur_total := cur_total c + iov_total pre, cur_count := cur_count c - iov_total pre,
      cur_off := cur_off c + int (iov_total pre)\<rparr>"
    obtain u us where u: "vs' @ w # rest = u # us" "u = hd (vs' @ [w])" by (cases vs') auto
    have "shift_iovec k c = Done c'"
      unfolding c'_def u(1)
      using sp u Suc.prems(2) by (intro shift_iovec_split [of _ pre u us k r]) auto
    then have "pwritev_loop fuel f1 m c' = Done (Some n, f')"
      using pwritev_loop_step [of c k f m f1 c' fuel] Suc.prems False x k by simp
    then have "n = cur_total c' + iov_total vs' \<and>
        fbytes f' = file_put (fbytes f1) (cur_off c') (gather m vs')"
      using Suc.prems sp(1) by (intro Suc.IH) (auto simp: c'_def)
    moreover have "file_put (fbytes f1) (cur_off c') (gather m vs') =
        file_put (fbytes f) (cur_off c) (gather m vs)"
      using file_put_resume [OF put(2), of "iov_total pre" "gather m vs" "fbytes f" r] put(1) sp(1,2)
      by (simp add: c'_def gather_append)
    ultimately show ?thesis using sp(1) by (simp add: c'_def)
  qed
qed

lemma pwritev_in_full_ok:
  assumes "pwritev_in_full fuel f m (vs @ w # rest) (int (length vs)) off = Done (Some n, f')"
    and "0 < iov_len w"
  shows "n = iov_total vs \<and> fbytes f' = file_put (fbytes f) off (gather m vs)"
  using pwritev_loop_ok [of fuel f m
      "\<lparr>cur_iov = vs @ w # rest, cur_cnt = int (length vs), cur_total = 0,
        cur_count = iov_total vs, cur_off = off\<rparr>" n f' vs w rest] assms
  by (simp add: pwritev_in_full_def get_iov_size_ok)

lemma pwritev_in_full_benign:
  assumes "benign f" and "0 \<le> off" and "0 < iov_len w" and "length (fscript f) < fuel"
  shows "\<exists>f'. pwritev_in_full fuel f m (vs @ w # rest) (int (length vs)) off =
      Done (Some (iov_total vs), f') \<and> benign f' \<and> length (fscript f') \<le> length (fscript f) \<and>
    fbytes f' = file_put (fbytes f) off (gather m vs)"
proof -
  let ?c = "\<lparr>cur_iov = vs @ w # rest, cur_cnt = int (length vs), cur_total = 0,
    cur_count = iov_total vs, cur_off = off\<rparr>"
  obtain f' where "pwritev_loop fuel f m ?c = Done (Some (iov_total vs), f')" "benign f'"
      "length (fscript f') \<le> length (fscript f)"
    using pwritev_loop_benign [of f ?c vs w rest fuel m] assms by auto
  then show ?thesis
    using pwritev_in_full_ok [of fuel f m vs w rest off "iov_total vs" f'] assms(3)
    by (simp add: pwritev_in_full_def get_iov_size_ok)
qed

subsection \<open>Vectors whose elements do not meet\<close>

definition iovs_apart :: "iovec list \<Rightarrow> bool" where
  "iovs_apart vs \<longleftrightarrow> sorted_wrt (\<lambda>v w. disjoint (iov_base v) (iov_len v) (iov_base w) (iov_len w)) vs"

lemma disjoint_shrink: "disjoint a n b k \<Longrightarrow> n' \<le> n \<Longrightarrow> k' \<le> k \<Longrightarrow> disjoint a n' b k'"
  by (simp add: disjoint_def)

lemma ldn_scatter_disjoint:
  assumes "\<forall>v\<in>set vs. iov_len v = 0 \<or> disjoint a n (iov_base v) (iov_len v)"
  shows "ldn (scatter m vs bs) a n = ldn m a n"
  using assms
proof (induction vs arbitrary: m bs)
  case Nil
  then show ?case by simp
next
  case (Cons v vs)
  show ?case
  proof (cases "iov_len v = 0")
    case True
    have "ldn (scatter m vs bs) a n = ldn m a n" by (rule Cons.IH) (use Cons.prems in simp)
    then show ?thesis using True by simp
  next
    case False
    then have "disjoint a n (iov_base v) (length (take (iov_len v) bs))"
      by - (rule disjoint_shrink [of _ n _ "iov_len v"], use Cons.prems in simp_all)
    then show ?thesis using Cons.prems Cons.IH by (simp add: ldn_stn_disjoint)
  qed
qed

lemma gather_cong: "(\<And>v. v \<in> set vs \<Longrightarrow> ldn m (iov_base v) (iov_len v) = ldn m' (iov_base v) (iov_len v)) \<Longrightarrow>
    gather m vs = gather m' vs"
  by (simp add: gather_def cong: map_cong)

lemma gather_scatter:
  assumes "iovs_apart vs" and "iov_sizes_ok vs" and "length bs = iov_total vs"
  shows "gather (scatter m vs bs) vs = bs"
  using assms
proof (induction vs arbitrary: m bs)
  case Nil
  then show ?case by (simp add: gather_def)
next
  case (Cons v vs)
  let ?m = "stn m (iov_base v) (take (iov_len v) bs)"
  have l: "length (take (iov_len v) bs) = iov_len v" using Cons.prems(3) by simp
  have d: "\<forall>w\<in>set vs. iov_len w = 0 \<or> disjoint (iov_base v) (iov_len v) (iov_base w) (iov_len w)"
    using Cons.prems(1) by (simp add: iovs_apart_def)
  have "ldn (scatter ?m vs (drop (iov_len v) bs)) (iov_base v) (iov_len v) = take (iov_len v) bs"
    unfolding ldn_scatter_disjoint [OF d]
    using Cons.prems(2) l by (intro ldn_stn_same) (auto simp: iov_sizes_ok_def)
  moreover have "gather (scatter ?m vs (drop (iov_len v) bs)) vs = drop (iov_len v) bs"
    using Cons.prems by (intro Cons.IH) (simp_all add: iovs_apart_def iov_sizes_ok_def)
  ultimately show ?case by (simp add: gather_def)
qed

subsection \<open>Properties\<close>

text \<open>
  C31: When the file covers the request, \<open>preadv_in_full\<close> ends and behaves as one uninterrupted
  read: the buffers hold the requested slice of the file, in order, under every pattern of
  interruptions and short transfers.  The number of iterations is at most one more than the number
  of answers the kernel's script holds.
\<close>

theorem preadv_in_full_correct:
  assumes "benign f" and "covers f off (iov_total vs)" and "0 < iov_len w" and "iov_sizes_ok vs"
    and "length (fscript f) < fuel"
  shows "\<exists>f'. preadv_in_full fuel f m (vs @ w # rest) (int (length vs)) off =
       Done (Some (iov_total vs), scatter m vs (file_slice f (iov_total vs) off), f') \<and>
     fbytes f' = fbytes f"
  using preadv_in_full_covered [OF assms] by blast

theorem preadv_in_full_correct_witness:
  "\<exists>f'. preadv_in_full 2 \<lparr>fbytes = [1, 2, 3], fpos = 0, fscript = [SMax 1]\<rparr> (\<lambda>a. 0)
      ([\<lparr>iov_base = 8, iov_len = 2\<rparr>] @ \<lparr>iov_base = 0, iov_len = 1\<rparr> # []) (int (length [\<lparr>iov_base = 8, iov_len = 2\<rparr>])) 1 =
      Done (Some (iov_total [\<lparr>iov_base = 8, iov_len = 2\<rparr>]), scatter (\<lambda>a. 0) [\<lparr>iov_base = 8, iov_len = 2\<rparr>]
        (file_slice \<lparr>fbytes = [1, 2, 3], fpos = 0, fscript = [SMax 1]\<rparr> (iov_total [\<lparr>iov_base = 8, iov_len = 2\<rparr>]) 1), f') \<and>
      fbytes f' = fbytes \<lparr>fbytes = [1, 2, 3], fpos = 0, fscript = [SMax 1]\<rparr>"
  by (rule preadv_in_full_correct) (simp_all add: benign_def covers_def iov_sizes_ok_def)

text \<open>
  C39: \<open>preadv_in_full\<close> does not return when the end of the file falls strictly inside an element
  of the vector: no number of iterations is enough.
\<close>

theorem preadv_in_full_diverges:
  assumes "fscript f = []" and "0 \<le> off"
    and "nat off + iov_total pre < length (fbytes f)"
    and "length (fbytes f) < nat off + iov_total pre + iov_len v"
  shows "\<forall>fuel. preadv_in_full fuel f m (pre @ v # post) (int (length (pre @ v # post))) off = NoFuel"
  using preadv_in_full_stuck [OF assms, of _ m post "[]"] by simp

theorem preadv_in_full_diverges_witness:
  "preadv_in_full 1000 \<lparr>fbytes = [1, 2, 3], fpos = 0, fscript = []\<rparr> (\<lambda>a. 0) [\<lparr>iov_base = 8, iov_len = 4\<rparr>] 1 0 = NoFuel"
  using preadv_in_full_diverges [of "\<lparr>fbytes = [1, 2, 3], fpos = 0, fscript = []\<rparr>" 0 "[]"
      "\<lparr>iov_base = 8, iov_len = 4\<rparr>" "\<lambda>a. 0" "[]"] by simp

text \<open>
  C32: A \<open>pwritev_in_full\<close> that reports success has written the concatenation of the buffers at
  the offset, whatever short writes and interruptions it met on the way.
\<close>

theorem pwritev_in_full_correct:
  assumes "pwritev_in_full fuel f m (vs @ w # rest) (int (length vs)) off = Done (Some n, f')"
    and "0 < iov_len w"
  shows "n = iov_total vs \<and> fbytes f' = file_put (fbytes f) off (gather m vs)"
  using assms by (rule pwritev_in_full_ok)

theorem pwritev_in_full_correct_witness:
  "fbytes (case pwritev_in_full 2 \<lparr>fbytes = [1, 2, 3], fpos = 0, fscript = []\<rparr> (\<lambda>a. 7)
      [\<lparr>iov_base = 8, iov_len = 2\<rparr>, \<lparr>iov_base = 0, iov_len = 1\<rparr>] 1 1 of Done (_, f') \<Rightarrow> f') =
   file_put [1, 2, 3] 1 (gather (\<lambda>a. 7) [\<lparr>iov_base = 8, iov_len = 2\<rparr>])"
proof -
  have e: "pwritev_in_full 2 \<lparr>fbytes = [1, 2, 3], fpos = 0, fscript = []\<rparr> (\<lambda>a. 7)
      [\<lparr>iov_base = 8, iov_len = 2\<rparr>, \<lparr>iov_base = 0, iov_len = 1\<rparr>] 1 1 =
    Done (Some 2, \<lparr>fbytes = [1, 7, 7], fpos = 0, fscript = []\<rparr>)"
    by code_simp
  show ?thesis
    using pwritev_in_full_correct [of 2 "\<lparr>fbytes = [1, 2, 3], fpos = 0, fscript = []\<rparr>" "\<lambda>a. 7"
        "[\<lparr>iov_base = 8, iov_len = 2\<rparr>]" "\<lparr>iov_base = 0, iov_len = 1\<rparr>" "[]" 1 2
        "\<lparr>fbytes = [1, 7, 7], fpos = 0, fscript = []\<rparr>"] e
    by simp
qed

end
