(* ===== verification/QcowReadProofs.thy ===== *)
theory QcowReadProofs
  imports QcowRead
begin

text \<open>
  The cache of level 2 tables is transparent and the read path delivers the contents of the virtual
  disk, which is defined directly on the bytes of the image file.
\<close>

subsection \<open>The interface of the positioned transfers\<close>

locale positioned_read =
  fixes pr :: "'f \<Rightarrow> nat \<Rightarrow> int \<Rightarrow> u8 list option \<times> 'f" and bytes :: "'f \<Rightarrow> u8 list" and good :: "'f \<Rightarrow> bool"
  assumes pr: "good f \<Longrightarrow> 0 \<le> off \<Longrightarrow>
      \<exists>f'. pr f n off =
        (if 0 < n \<and> take n (drop (nat off) (bytes f)) = [] then None
         else Some (take n (drop (nat off) (bytes f))), f') \<and>
      bytes f' = bytes f \<and> good f'"
begin

lemma inside:
  assumes "good f" and "0 \<le> off" and "nat off + n \<le> length (bytes f)" and "0 < n"
  shows "\<exists>d f'. pr f n off = (Some d, f') \<and> d = take n (drop (nat off) (bytes f)) \<and> length d = n \<and>
    bytes f' = bytes f \<and> good f'"
  using pr [OF assms(1,2), of n] assms(3,4) by auto

lemma zero_filled:
  assumes "good f" and "0 \<le> off" and "nat off < length (bytes f)" and "0 < n"
  shows "\<exists>d f'. pr f n off = (Some d, f') \<and>
    into_buffer (replicate n 0) d = take n (drop (nat off) (bytes f) @ replicate n 0) \<and>
    bytes f' = bytes f \<and> good f'"
  using pr [OF assms(1,2), of n] assms(3,4) by (auto simp: into_buffer_def drop_replicate)

end

interpretation pio: positioned_read pread_in_full fbytes benign
  by unfold_locales (rule pread_in_full_benign [unfolded file_slice_def])

subsection \<open>The cache\<close>

definition l1_cache_inv :: "qcow_l1_table \<Rightarrow> bool" where
  "l1_cache_inv l1t \<longleftrightarrow> rb_inv (l1_root l1t) \<and>
     set (inorder (l1_root l1t)) = set (map l2t_offset (l1_lru l1t)) \<and>
     distinct (map l2t_offset (l1_lru l1t)) \<and>
     l1_nr_cached l1t = int (length (l1_lru l1t)) \<and> l1_nr_cached l1t \<le> MAX_CACHE_NODES"

lemma find_l2_Some:
  "offset \<in> l2t_offset ` set ts \<Longrightarrow> \<exists>t. find_l2 offset ts = Some t \<and> t \<in> set ts \<and> l2t_offset t = offset"
  by (induction ts) (auto simp: find_l2_def)

lemma map_offset_filter:
  "map l2t_offset (filter (\<lambda>u. l2t_offset u \<noteq> k) ts) = filter (\<lambda>j. j \<noteq> k) (map l2t_offset ts)"
  by (induction ts) auto

lemma length_filter_key:
  "distinct (map l2t_offset ts) \<Longrightarrow> t \<in> set ts \<Longrightarrow>
     length (filter (\<lambda>u. l2t_offset u \<noteq> l2t_offset t) ts) = length ts - 1"
proof (induction ts)
  case (Cons a ts)
  show ?case
  proof (cases "a = t")
    case True
    then have "filter (\<lambda>u. l2t_offset u \<noteq> l2t_offset t) ts = ts"
      using Cons.prems(1) by (auto simp: filter_id_conv) (metis imageI)
    then show ?thesis using True by simp
  next
    case False
    then have "t \<in> set ts" "l2t_offset a \<noteq> l2t_offset t"
      using Cons.prems by (auto simp: image_iff)
    moreover from this(1) have "ts \<noteq> []" by auto
    ultimately show ?thesis using Cons by (cases ts) auto
  qed
qed simp

lemma search_spec:
  assumes "l1_cache_inv l1t"
  shows "\<exists>r l1t'. l2_table_search l1t off = Done (r, l1t') \<and> l1_cache_inv l1t' \<and>
    table_size l1t' = table_size l1t \<and> l1_table l1t' = l1_table l1t \<and>
    set (l1_lru l1t') = set (l1_lru l1t) \<and>
    (case r of None \<Rightarrow> off \<notin> l2t_offset ` set (l1_lru l1t) \<and> l1t' = l1t
     | Some t \<Rightarrow> t \<in> set (l1_lru l1t) \<and> l2t_offset t = off)"
proof (cases "off \<in> l2t_offset ` set (l1_lru l1t)")
  case False
  then show ?thesis
    using assms rbi.lookup [of "l1_root l1t" off]
    by (auto simp: l2_table_search_def l2_table_lookup_def l1_cache_inv_def)
next
  case True
  then obtain t where t: "find_l2 off (l1_lru l1t) = Some t" "t \<in> set (l1_lru l1t)" "l2t_offset t = off"
    using find_l2_Some by blast
  let ?lru = "filter (\<lambda>u. l2t_offset u \<noteq> off) (l1_lru l1t) @ [t]"
  have inv: "rb_inv (l1_root l1t)" "set (inorder (l1_root l1t)) = set (map l2t_offset (l1_lru l1t))"
    "distinct (map l2t_offset (l1_lru l1t))" using assms by (auto simp: l1_cache_inv_def)
  have "set ?lru = set (l1_lru l1t)"
    using t inv(3) by (auto simp: distinct_map dest: inj_onD)
  moreover have "set (inorder (l1_root l1t)) = set (map l2t_offset ?lru)" "distinct (map l2t_offset ?lru)"
    using rbi.touch [OF inv(2,3), of off] True by (simp_all add: map_offset_filter t(3))
  moreover have "length ?lru = length (l1_lru l1t)"
    using length_filter_key [OF inv(3) t(2)] t(2,3) by (cases "l1_lru l1t") auto
  moreover have "rb_lookup off (l1_root l1t)" using rbi.lookup [OF inv(1), of off] inv(2) True by auto
  ultimately show ?thesis
    using assms t by (simp add: l2_table_search_def l2_table_lookup_def l1_cache_inv_def)
qed

lemma cache_table_spec:
  assumes "l1_cache_inv l1t" and "l2t_offset c \<notin> l2t_offset ` set (l1_lru l1t)"
  shows "\<exists>l1t'. cache_table l1t c = Done l1t' \<and> l1_cache_inv l1t' \<and>
    table_size l1t' = table_size l1t \<and> l1_table l1t' = l1_table l1t \<and>
    c \<in> set (l1_lru l1t') \<and> set (l1_lru l1t') \<subseteq> insert c (set (l1_lru l1t))"
proof -
  have inv: "rb_inv (l1_root l1t)" "set (inorder (l1_root l1t)) = set (map l2t_offset (l1_lru l1t))"
    "distinct (map l2t_offset (l1_lru l1t))" using assms by (auto simp: l1_cache_inv_def)
  show ?thesis
  proof (cases "l1_nr_cached l1t = MAX_CACHE_NODES")
    case False
    obtain u where u: "rb_insert (l2t_offset c) (l1_root l1t) = Done u" "rb_inv u"
        "set (inorder u) = set (map l2t_offset (l1_lru l1t) @ [l2t_offset c])"
        "distinct (map l2t_offset (l1_lru l1t) @ [l2t_offset c])"
      using rbi.admit [OF inv, of "l2t_offset c"] assms(2) by auto
    have "\<not> rb_lookup (l2t_offset c) (l1_root l1t)"
      using rbi.lookup [OF inv(1)] inv(2) assms(2) by auto
    then show ?thesis
      using False u assms(1) by (auto simp: cache_table_def l2_table_insert_def l1_cache_inv_def)
  next
    case True
    then obtain a ts where lru: "l1_lru l1t = a # ts"
      using assms(1) by (cases "l1_lru l1t") (auto simp: l1_cache_inv_def c_simps)
    obtain u v where u: "rb_remove (l2t_offset a) (l1_root l1t) = Done u"
        "\<not> rb_lookup (l2t_offset c) u" "rb_insert (l2t_offset c) u = Done v" "rb_inv v"
        "set (inorder v) = set (map l2t_offset ts @ [l2t_offset c])"
        "distinct (map l2t_offset ts @ [l2t_offset c])"
      using rbi.replace_oldest [OF inv(1), of "l2t_offset a" "map l2t_offset ts" "l2t_offset c"] inv(2,3)
        assms(2) lru by auto
    then show ?thesis
      using True u lru assms(1)
      by (auto simp: cache_table_def l1_evict_def l2_table_insert_def l1_cache_inv_def)
  qed
qed

subsection \<open>The virtual disk\<close>

text \<open>A table of level 2 as it is on disk, with zeros where the file ends.\<close>

definition disk_l2 :: "qcow \<Rightarrow> u64 \<Rightarrow> u64 list" where
  "disk_l2 q pos =
     (let n = 8 * unat (l2_entries q)
      in words64 (take n (drop (nat (sint pos)) (fbytes (q_fd q)) @ replicate n 0)))"

definition l2_pos :: "qcow \<Rightarrow> u64 \<Rightarrow> u64" where
  "l2_pos q offset =
     (let e = be64_to_cpu (l1_table (table q) ! unat (get_l1_index q offset))
      in if version q = QCOW1_VERSION then e else e AND NOT QCOW2_OFLAG_COPIED)"

definition l2_entry :: "qcow \<Rightarrow> u64 \<Rightarrow> u64" where
  "l2_entry q offset = be64_to_cpu (disk_l2 q (l2_pos q offset) ! unat (get_l2_index q offset))"

definition compressed :: "qcow \<Rightarrow> u64 \<Rightarrow> bool" where
  "compressed q offset \<longleftrightarrow>
     l2_entry q offset AND
       (if version q = QCOW1_VERSION then QCOW1_OFLAG_COMPRESSED else QCOW2_OFLAG_COMPRESSED) \<noteq> 0"

definition cluster_pos :: "qcow \<Rightarrow> u64 \<Rightarrow> u64" where
  "cluster_pos q offset =
     (if version q = QCOW1_VERSION then l2_entry q offset else l2_entry q offset AND QCOW2_OFFSET_MASK)"

text \<open>The byte that the guest should see at an offset: zero where nothing is allocated.\<close>

definition qcow_byte :: "qcow \<Rightarrow> u64 \<Rightarrow> u8" where
  "qcow_byte q offset =
     (if l2_pos q offset = 0 \<or> cluster_pos q offset = 0 then 0
      else fbytes (q_fd q) ! unat (cluster_pos q offset + get_cluster_offset q offset))"

definition qcow_content :: "qcow \<Rightarrow> u64 \<Rightarrow> nat \<Rightarrow> u8 list" where
  "qcow_content q offset n = map (\<lambda>i. qcow_byte q (offset + of_nat i)) [0..<n]"

text \<open>
  The offsets whose cluster the image really stores: the level 1 index is in range, the table
  begins inside the file, the cluster is not compressed and lies inside the file.
\<close>

definition plain :: "qcow \<Rightarrow> u64 \<Rightarrow> bool" where
  "plain q offset \<longleftrightarrow>
     get_l1_index q offset < ucast (table_size (table q)) \<and>
     (l2_pos q offset = 0 \<or>
       0 \<le> sint (l2_pos q offset) \<and> nat (sint (l2_pos q offset)) < length (fbytes (q_fd q)) \<and>
       \<not> compressed q offset \<and>
       (cluster_pos q offset = 0 \<or>
         unat (cluster_pos q offset) + unat (cluster_size q) \<le> length (fbytes (q_fd q)) \<and>
         unat (cluster_pos q offset) + unat (cluster_size q) < 2 ^ 63))"

text \<open>The exponents that the probing functions have let through, and the invariants of the caches.\<close>

definition geometry_ok :: "qcow \<Rightarrow> bool" where
  "geometry_ok q \<longleftrightarrow> 9 \<le> cbits q \<and> cbits q \<le> 30 \<and> unat (l2_bits (header q)) \<le> 30 \<and>
     cluster_size q = push_bit (cbits q) 1 \<and>
     length (l1_table (table q)) = unat (table_size (table q))"

definition coherent :: "qcow \<Rightarrow> bool" where
  "coherent q \<longleftrightarrow> (\<forall>t\<in>set (l1_lru (table q)). l2t_table t = disk_l2 q (l2t_offset t))"

definition image_ok :: "qcow \<Rightarrow> bool" where
  "image_ok q \<longleftrightarrow> geometry_ok q \<and> l1_cache_inv (table q) \<and> coherent q \<and> benign (q_fd q)"

text \<open>What a read may change: the cache and the kernel's script.\<close>

definition same_image :: "qcow \<Rightarrow> qcow \<Rightarrow> bool" where
  "same_image q q' \<longleftrightarrow>
     header q' = header q \<and> version q' = version q \<and> cluster_size q' = cluster_size q \<and>
     table_size (table q') = table_size (table q) \<and> l1_table (table q') = l1_table (table q) \<and>
     fbytes (q_fd q') = fbytes (q_fd q)"

lemma same_image_refl [simp]: "same_image q q"
  by (simp add: same_image_def)

lemma same_image_trans: "same_image q r \<Longrightarrow> same_image r s \<Longrightarrow> same_image q s"
  by (simp add: same_image_def)

lemma same_image_simps:
  assumes "same_image q q'"
  shows "cbits q' = cbits q" "l2_entries q' = l2_entries q" "disk_l2 q' = disk_l2 q"
    "get_l1_index q' = get_l1_index q" "get_l2_index q' = get_l2_index q"
    "get_cluster_offset q' = get_cluster_offset q" "l2_pos q' = l2_pos q" "l2_entry q' = l2_entry q"
    "cluster_pos q' = cluster_pos q" "qcow_byte q' = qcow_byte q" "compressed q' = compressed q"
    "plain q' = plain q" "qcow_content q' = qcow_content q" "geometry_ok q' = geometry_ok q"
proof -
  have [simp]: "cbits q' = cbits q" "l2_entries q' = l2_entries q"
    using assms by (simp_all add: same_image_def cbits_def l2_entries_def)
  then show "cbits q' = cbits q" "l2_entries q' = l2_entries q" .
  show d [simp]: "disk_l2 q' = disk_l2 q" by (intro ext) (use assms in \<open>simp add: same_image_def disk_l2_def\<close>)
  show i [simp]: "get_l1_index q' = get_l1_index q" "get_l2_index q' = get_l2_index q"
    "get_cluster_offset q' = get_cluster_offset q"
    by (intro ext; use assms in \<open>simp add: same_image_def get_l1_index_def get_l2_index_def get_cluster_offset_def\<close>)+
  show p [simp]: "l2_pos q' = l2_pos q" by (intro ext) (use assms in \<open>simp add: same_image_def l2_pos_def\<close>)
  show e [simp]: "l2_entry q' = l2_entry q" by (intro ext) (simp add: l2_entry_def)
  show c [simp]: "cluster_pos q' = cluster_pos q"
    by (intro ext) (use assms in \<open>simp add: same_image_def cluster_pos_def\<close>)
  show b [simp]: "qcow_byte q' = qcow_byte q"
    by (intro ext) (use assms in \<open>simp add: same_image_def qcow_byte_def\<close>)
  show z [simp]: "compressed q' = compressed q"
    by (intro ext) (use assms in \<open>simp add: same_image_def compressed_def\<close>)
  show "plain q' = plain q" by (intro ext) (use assms in \<open>simp add: same_image_def plain_def\<close>)
  show "qcow_content q' = qcow_content q" by (intro ext) (simp add: qcow_content_def)
  show "geometry_ok q' = geometry_ok q" using assms by (simp add: same_image_def geometry_ok_def)
qed

text \<open>Reading a table through the cache gives the table on disk.\<close>

lemma read_l2_spec:
  assumes "image_ok q" and "0 \<le> sint off" and "nat (sint off) < length (fbytes (q_fd q))"
  shows "\<exists>t q'. qcow_read_l2_table q off = Done (Some t, q') \<and> l2t_table t = disk_l2 q off \<and>
    image_ok q' \<and> same_image q q'"
proof -
  have inv: "l1_cache_inv (table q)" and coh: "coherent q" and ben: "benign (q_fd q)"
    and geo: "geometry_ok q" using assms(1) by (auto simp: image_ok_def)
  let ?n = "8 * unat (l2_entries q)"
  have le: "unat (l2_bits (header q)) \<le> 30" using geo by (simp add: geometry_ok_def)
  have n0: "0 < ?n"
  proof -
    have "unat (l2_entries q) = 2 ^ unat (l2_bits (header q))"
      unfolding l2_entries_def using le by (intro unat_shift1) simp
    then show ?thesis by simp
  qed
  obtain r l1t where s: "l2_table_search (table q) off = Done (r, l1t)" "l1_cache_inv l1t"
      "table_size l1t = table_size (table q)" "l1_table l1t = l1_table (table q)"
      "set (l1_lru l1t) = set (l1_lru (table q))"
      "case r of None \<Rightarrow> off \<notin> l2t_offset ` set (l1_lru (table q)) \<and> l1t = table q
       | Some t \<Rightarrow> t \<in> set (l1_lru (table q)) \<and> l2t_offset t = off"
    using search_spec [OF inv, of off] by blast
  show ?thesis
  proof (cases r)
    case (Some t)
    let ?q' = "q\<lparr>table := l1t\<rparr>"
    have i: "same_image q ?q'" using s by (simp add: same_image_def)
    moreover have "image_ok ?q'"
      using s geo ben coh same_image_simps(3,14) [OF i] by (simp add: image_ok_def coherent_def)
    moreover have "l2t_table t = disk_l2 q off" using Some s(6) coh by (auto simp: coherent_def)
    ultimately show ?thesis using Some s(1) by (simp add: qcow_read_l2_table_def)
  next
    case None
    then have l1t: "l1t = table q" "off \<notin> l2t_offset ` set (l1_lru (table q))" using s(6) by auto
    obtain d f where rd: "pread_in_full (q_fd q) ?n (sint off) = (Some d, f)"
        "into_buffer (replicate ?n 0) d = take ?n (drop (nat (sint off)) (fbytes (q_fd q)) @ replicate ?n 0)"
        "fbytes f = fbytes (q_fd q)" "benign f"
      using pio.zero_filled [OF ben assms(2,3) n0] by blast
    have z: "bytes64 (replicate k 0) = replicate (8 * k) 0" for k
      by (induction k) (simp_all add: bytes64_def numeral_eq_Suc)
    let ?c = "(new_cache_table q off)\<lparr>l2t_table := words64 (into_buffer (replicate ?n 0) d)\<rparr>"
    have c: "l2t_table ?c = disk_l2 q off" "l2t_offset ?c = off"
      by (simp_all add: rd(2) disk_l2_def Let_def new_cache_table_def)
    obtain l1t' where ct: "cache_table (table q) ?c = Done l1t'" "l1_cache_inv l1t'"
        "table_size l1t' = table_size (table q)" "l1_table l1t' = l1_table (table q)"
        "set (l1_lru l1t') \<subseteq> insert ?c (set (l1_lru (table q)))"
      using cache_table_spec [OF inv, of ?c] l1t(2) c(2) by auto
    let ?q' = "q\<lparr>table := l1t', q_fd := f\<rparr>"
    have i: "same_image q ?q'" using ct rd by (simp add: same_image_def)
    moreover have "image_ok ?q'"
    proof -
      have "l2t_table t = disk_l2 q (l2t_offset t)" if "t \<in> set (l1_lru l1t')" for t
        using that ct(5) c coh by (auto simp: coherent_def)
      then show ?thesis
        using ct geo rd same_image_simps(3,14) [OF i] by (simp add: image_ok_def coherent_def)
    qed
    moreover have "qcow_read_l2_table q off = Done (Some ?c, ?q')"
      using s(1) None l1t(1) rd(1) ct(1)
      by (simp add: qcow_read_l2_table_def z new_cache_table_def Let_def)
    ultimately show ?thesis using c(1) by blast
  qed
qed

subsection \<open>One cluster\<close>

lemma cluster_size_nat: "geometry_ok q \<Longrightarrow> unat (cluster_size q) = 2 ^ cbits q"
  using unat_shift1 [of "cbits q"] by (simp add: geometry_ok_def del: push_bit_of_1)

lemma cluster_offset_nat: "unat (get_cluster_offset q off) = unat off mod 2 ^ cbits q"
  unfolding get_cluster_offset_def and_low_mask by (rule unat_take_bit64)

lemma inside_cluster:
  assumes "geometry_ok q" and "unat (get_cluster_offset q off) + i < unat (cluster_size q)"
  shows "get_l1_index q (off + of_nat i) = get_l1_index q off"
    and "get_l2_index q (off + of_nat i) = get_l2_index q off"
    and "get_cluster_offset q (off + of_nat i) = get_cluster_offset q off + of_nat i"
    and "unat (off + of_nat i) = unat off + i"
proof -
  have k: "cbits q \<le> 64" using assms(1) by (simp add: geometry_ok_def)
  have b: "unat off mod 2 ^ cbits q + i < 2 ^ cbits q"
    using assms by (simp add: cluster_size_nat cluster_offset_nat)
  note d = inside_block [OF b k]
  show "get_l1_index q (off + of_nat i) = get_l1_index q off"
    unfolding get_l1_index_def drop_bit_drop_bit [symmetric] d(1) ..
  show "get_l2_index q (off + of_nat i) = get_l2_index q off"
    unfolding get_l2_index_def d(1) ..
  show "get_cluster_offset q (off + of_nat i) = get_cluster_offset q off + of_nat i"
    unfolding get_cluster_offset_def and_low_mask d(2) ..
  show "unat (off + of_nat i) = unat off + i" by (rule unat_inside_block [OF b k])
qed

lemma qcow_byte_inside:
  assumes "geometry_ok q" and "unat (get_cluster_offset q off) + i < unat (cluster_size q)"
  shows "qcow_byte q (off + of_nat i) =
    (if l2_pos q off = 0 \<or> cluster_pos q off = 0 then 0
     else fbytes (q_fd q) ! unat (cluster_pos q off + get_cluster_offset q off + of_nat i))"
  using inside_cluster [OF assms]
  by (simp add: qcow_byte_def l2_pos_def cluster_pos_def l2_entry_def add.assoc)

lemma content_inside:
  assumes "geometry_ok q" and "plain q off" and "unat (get_cluster_offset q off) + n \<le> unat (cluster_size q)"
  shows "qcow_content q off n =
    (if l2_pos q off = 0 \<or> cluster_pos q off = 0 then replicate n 0
     else take n (drop (unat (cluster_pos q off + get_cluster_offset q off)) (fbytes (q_fd q))))"
proof (cases "l2_pos q off = 0 \<or> cluster_pos q off = 0")
  case True
  have "map (\<lambda>i. qcow_byte q (off + of_nat i)) [0..<n] = map (\<lambda>i. 0) [0..<n]"
  proof (intro map_cong refl)
    fix i assume "i \<in> set [0..<n]"
    then have "unat (get_cluster_offset q off) + i < unat (cluster_size q)" using assms(3) by simp
    from qcow_byte_inside [OF assms(1) this] show "qcow_byte q (off + of_nat i) = 0"
      using True by simp
  qed
  also have "\<dots> = replicate n 0" by (simp add: map_replicate_const)
  finally show ?thesis using True by (simp add: qcow_content_def)
next
  case False
  let ?p = "cluster_pos q off" and ?o = "get_cluster_offset q off"
  have fit: "unat ?p + unat (cluster_size q) \<le> length (fbytes (q_fd q))"
    "unat ?p + unat (cluster_size q) < 2 ^ 63" using assms(2) False by (auto simp: plain_def)
  have "map (\<lambda>i. qcow_byte q (off + of_nat i)) [0..<n] =
      map (\<lambda>i. fbytes (q_fd q) ! (unat (?p + ?o) + i)) [0..<n]"
  proof (intro map_cong refl)
    fix i assume "i \<in> set [0..<n]"
    then have i: "unat ?o + i < unat (cluster_size q)" using assms(3) by simp
    have o: "unat (?p + ?o) = unat ?p + unat ?o" using fit i by (intro unat_add64) simp
    moreover have "unat (?p + ?o + of_nat i) = unat ?p + unat ?o + i"
      using fit i o unat_add_of_nat [of "?p + ?o" i] by simp
    ultimately show "qcow_byte q (off + of_nat i) = fbytes (q_fd q) ! (unat (?p + ?o) + i)"
      using qcow_byte_inside [OF assms(1) i] False by simp
  qed
  also have "\<dots> = take n (drop (unat (?p + ?o)) (fbytes (q_fd q)))"
  proof (cases "n = 0")
    case ne: False
    have "unat (?p + ?o) = unat ?p + unat ?o" using fit assms(3) ne by (intro unat_add64) simp
    then have "unat (?p + ?o) + n \<le> length (fbytes (q_fd q))" using fit assms(3) by simp
    then show ?thesis by (intro nth_equalityI) simp_all
  qed simp
  finally show ?thesis using False by (simp add: qcow_content_def)
qed

lemma read_piece_spec:
  assumes "benign (q_fd q)" and "unat pos + unat len \<le> length (fbytes (q_fd q))"
    and "unat pos < 2 ^ 63" and "0 < unat len"
  shows "\<exists>f. read_piece q m dst len pos =
      (int (unat len), stn m dst (take (unat len) (drop (unat pos) (fbytes (q_fd q)))), q\<lparr>q_fd := f\<rparr>) \<and>
    fbytes f = fbytes (q_fd q) \<and> benign f"
  using pio.inside [OF assms(1), of "int (unat pos)" "unat len"] assms(2-4)
  by (auto simp: read_piece_def sint_small)

lemma coff_less: "geometry_ok q \<Longrightarrow> unat (get_cluster_offset q off) < unat (cluster_size q)"
  by (simp add: cluster_size_nat cluster_offset_nat)

definition piece :: "qcow \<Rightarrow> u64 \<Rightarrow> u32 \<Rightarrow> nat" where
  "piece q off n = min (unat (cluster_size q) - unat (get_cluster_offset q off)) (unat n)"

lemma unat_ucast_u32 [simp]: "unat (ucast (x :: u32) :: u64) = unat x"
proof -
  have "unat x < 2 ^ 64" by (rule order.strict_trans2 [OF unsigned_less]) simp
  then show ?thesis by (simp add: unsigned_ucast_eq take_bit_nat_eq_self)
qed

lemma piece_length_nat:
  assumes "geometry_ok q"
  shows "unat (piece_length q (get_cluster_offset q off) n) = piece q off n"
proof -
  have "unat (cluster_size q - get_cluster_offset q off) =
      unat (cluster_size q) - unat (get_cluster_offset q off)"
    using coff_less [OF assms, of off] by (intro unat_sub) (simp add: word_le_nat_alt)
  then show ?thesis by (simp add: piece_length_def piece_def Let_def word_less_nat_alt min_def)
qed

lemma piece_bounds:
  assumes "geometry_ok q" and "0 < n"
  shows "0 < piece q off n" and "piece q off n \<le> unat n"
    and "unat (get_cluster_offset q off) + piece q off n \<le> unat (cluster_size q)"
  using coff_less [OF assms(1), of off] assms(2) by (auto simp: piece_def unat_gt_0 word_gt_0_no)

lemma l2_index_less: "get_l2_index q off < l2_entries q \<or> 64 \<le> unat (l2_bits (header q))"
proof (cases "unat (l2_bits (header q)) < 64")
  case True
  have "unat (get_l2_index q off) < 2 ^ unat (l2_bits (header q))"
    unfolding get_l2_index_def l2_entries_def and_low_mask unat_take_bit64 by simp
  then show ?thesis
    using unat_shift1 [OF True] by (simp add: word_less_nat_alt l2_entries_def del: push_bit_of_1)
qed simp

lemma same_image_upd_fd: "same_image q q' \<Longrightarrow> fbytes f = fbytes (q_fd q') \<Longrightarrow> same_image q (q'\<lparr>q_fd := f\<rparr>)"
  by (simp add: same_image_def)

lemma image_ok_upd_fd:
  assumes "image_ok q" and "fbytes f = fbytes (q_fd q)" and "benign f"
  shows "image_ok (q\<lparr>q_fd := f\<rparr>)"
proof -
  have i: "same_image q (q\<lparr>q_fd := f\<rparr>)" using assms(2) by (simp add: same_image_def)
  show ?thesis
    using assms same_image_simps(3,14) [OF i] by (simp add: image_ok_def coherent_def)
qed

lemma deliver_piece:
  assumes ok: "image_ok q" and same: "same_image q0 q" and pl: "plain q0 off" and n: "0 < dst_len"
    and l2: "l2_pos q0 off \<noteq> 0"
  shows "\<exists>q'. (if cluster_pos q0 off = 0
      then (int (piece q0 off dst_len),
        zero_piece m dst (piece_length q0 (get_cluster_offset q0 off) dst_len), q)
      else read_piece q m dst (piece_length q0 (get_cluster_offset q0 off) dst_len)
        (cluster_pos q0 off + get_cluster_offset q0 off)) =
      (int (piece q0 off dst_len), stn m dst (qcow_content q0 off (piece q0 off dst_len)), q') \<and>
    image_ok q' \<and> same_image q0 q'"
proof -
  have geo: "geometry_ok q0" using ok same_image_simps(14) [OF same] by (simp add: image_ok_def)
  note len = piece_length_nat [OF geo, of off dst_len] and b = piece_bounds [OF geo n, of off]
  note c = content_inside [OF geo pl b(3)]
  show ?thesis
  proof (cases "cluster_pos q0 off = 0")
    case True
    then show ?thesis using ok same c by (simp add: zero_piece_def len)
  next
    case False
    let ?pos = "cluster_pos q0 off + get_cluster_offset q0 off"
    have fit: "unat (cluster_pos q0 off) + unat (cluster_size q0) \<le> length (fbytes (q_fd q0))"
      "unat (cluster_pos q0 off) + unat (cluster_size q0) < 2 ^ 63"
      using pl False l2 by (auto simp: plain_def)
    have p: "unat ?pos = unat (cluster_pos q0 off) + unat (get_cluster_offset q0 off)"
      using fit b(1,3) by (intro unat_add64) simp
    have fb: "fbytes (q_fd q) = fbytes (q_fd q0)" using same by (simp add: same_image_def)
    have "\<exists>f. read_piece q m dst (piece_length q0 (get_cluster_offset q0 off) dst_len) ?pos =
        (int (piece q0 off dst_len),
         stn m dst (take (piece q0 off dst_len) (drop (unat ?pos) (fbytes (q_fd q)))), q\<lparr>q_fd := f\<rparr>) \<and>
      fbytes f = fbytes (q_fd q) \<and> benign f"
      using read_piece_spec [of q ?pos "piece_length q0 (get_cluster_offset q0 off) dst_len" m dst]
        ok fit p b fb by (simp add: len image_ok_def)
    then obtain f where f: "read_piece q m dst (piece_length q0 (get_cluster_offset q0 off) dst_len) ?pos =
        (int (piece q0 off dst_len),
         stn m dst (take (piece q0 off dst_len) (drop (unat ?pos) (fbytes (q_fd q)))), q\<lparr>q_fd := f\<rparr>)"
      "fbytes f = fbytes (q_fd q)" "benign f" by blast
    show ?thesis
      using False l2 f(1) c fb image_ok_upd_fd [OF ok f(2,3)] same_image_upd_fd [OF same f(2)]
      by (intro exI [of _ "q\<lparr>q_fd := f\<rparr>"]) simp
  qed
qed

lemma read_cluster_spec:
  assumes ok: "image_ok q" and pl: "plain q off" and n: "0 < dst_len"
  shows "\<exists>q'. qcow_read_cluster q m off dst dst_len =
      Done (int (piece q off dst_len), stn m dst (qcow_content q off (piece q off dst_len)), q') \<and>
    image_ok q' \<and> same_image q q'"
proof -
  have geo: "geometry_ok q" using ok by (simp add: image_ok_def)
  have i1: "\<not> get_l1_index q off \<ge> ucast (table_size (table q))" using pl by (auto simp: plain_def not_le)
  have co: "\<not> get_cluster_offset q off \<ge> cluster_size q"
    using coff_less [OF geo, of off] by (simp add: word_le_nat_alt)
  have i2: "\<not> get_l2_index q off \<ge> l2_entries q"
    using l2_index_less [of q off] geo by (auto simp: geometry_ok_def not_le)
  note len = piece_length_nat [OF geo, of off dst_len] and b = piece_bounds [OF geo n, of off]
  show ?thesis
  proof (cases "l2_pos q off = 0")
    case True
    then have "qcow_content q off (piece q off dst_len) = replicate (piece q off dst_len) 0"
      using content_inside [OF geo pl b(3)] by simp
    then show ?thesis
      using True i1 co ok
      by (cases "version q = QCOW1_VERSION")
        (simp_all add: qcow_read_cluster_def qcow1_read_cluster_def qcow2_read_cluster_def qcow1_read_cluster_z_def qcow2_read_cluster_z_def
          l2_pos_def Let_def zero_piece_def len)
  next
    case False
    then have pos: "0 \<le> sint (l2_pos q off)" "nat (sint (l2_pos q off)) < length (fbytes (q_fd q))"
      and nc: "\<not> compressed q off" using pl by (auto simp: plain_def)
    obtain t q' where t: "qcow_read_l2_table q (l2_pos q off) = Done (Some t, q')"
        "l2t_table t = disk_l2 q (l2_pos q off)" "image_ok q'" "same_image q q'"
      using read_l2_spec [OF ok pos] by blast
    then have e: "be64_to_cpu (l2t_table t ! unat (get_l2_index q off)) = l2_entry q off"
      by (simp add: l2_entry_def)
    obtain q'' where q'': "(if cluster_pos q off = 0
      then (int (piece q off dst_len),
        zero_piece m dst (piece_length q (get_cluster_offset q off) dst_len), q')
      else read_piece q' m dst (piece_length q (get_cluster_offset q off) dst_len)
        (cluster_pos q off + get_cluster_offset q off)) =
      (int (piece q off dst_len), stn m dst (qcow_content q off (piece q off dst_len)), q'')"
      "image_ok q''" "same_image q q''"
      using deliver_piece [OF t(3,4) pl n False, of m dst] by blast
    show ?thesis
    proof (cases "version q = QCOW1_VERSION")
      case True
      then have "be64_to_cpu (l1_table (table q) ! unat (get_l1_index q off)) = l2_pos q off"
        "cluster_pos q off = l2_entry q off" "l2_entry q off AND QCOW1_OFLAG_COMPRESSED = 0"
        using nc by (simp_all add: l2_pos_def cluster_pos_def compressed_def Let_def)
      then show ?thesis
        using True False i1 i2 co t(1) e q''
        by (simp add: qcow_read_cluster_def qcow1_read_cluster_def qcow1_read_cluster_z_def Let_def len split: if_splits)
    next
      case v2: False
      then have "be64_to_cpu (l1_table (table q) ! unat (get_l1_index q off)) AND NOT QCOW2_OFLAG_COPIED =
          l2_pos q off"
        "cluster_pos q off = l2_entry q off AND QCOW2_OFFSET_MASK"
        "l2_entry q off AND QCOW2_OFLAG_COMPRESSED = 0"
        using nc by (simp_all add: l2_pos_def cluster_pos_def compressed_def Let_def)
      then show ?thesis
        using v2 False i1 i2 co t(1) e q''
        by (simp add: qcow_read_cluster_def qcow2_read_cluster_def qcow2_read_cluster_z_def Let_def len split: if_splits)
    qed
  qed
qed

subsection \<open>A buffer, and a vector of buffers\<close>

lemma length_content [simp]: "length (qcow_content q off n) = n"
  by (simp add: qcow_content_def)

lemma content_add: "qcow_content q off (a + b) = qcow_content q off a @ qcow_content q (off + of_nat a) b"
proof -
  have u: "[0..<a + b] = [0..<a] @ map (\<lambda>i. i + a) [0..<b]"
    using upt_add_eq_append [of 0 a b] by (simp only: map_add_upt) (simp add: add.commute)
  show ?thesis unfolding qcow_content_def u map_append map_map
    by (simp add: o_def ac_simps)
qed

lemma sector_offset_nat:
  assumes "unat sector < 2 ^ 55"
  shows "unat (push_bit SECTOR_SHIFT sector :: u64) = 512 * unat sector"
proof -
  have "push_bit SECTOR_SHIFT sector = 512 * sector"
    by (simp add: SECTOR_SHIFT_def push_bit_eq_mult mult.commute)
  moreover have "unat (512 * sector :: u64) = unat (512 :: u64) * unat sector"
    using assms by (intro unat_mult_lem [THEN iffD1]) simp
  ultimately show ?thesis by simp
qed

text \<open>All the bytes of a request are stored by the image and below its size.\<close>

definition readable :: "qcow \<Rightarrow> u64 \<Rightarrow> nat \<Rightarrow> bool" where
  "readable q sector n \<longleftrightarrow>
     512 * unat sector + n \<le> unat (hd_size (header q)) \<and> unat sector < 2 ^ 55 \<and>
     (\<forall>i<n. plain q (push_bit SECTOR_SHIFT sector + of_nat i))"

lemma same_image_readable:
  assumes "same_image q q'"
  shows "readable q' = readable q"
proof -
  have "header q' = header q" using assms by (simp add: same_image_def)
  then show ?thesis
    by (intro ext) (simp only: readable_def same_image_simps(12) [OF assms])
qed

lemma piece_sectors:
  assumes geo: "geometry_ok q" and off: "unat off mod 512 = 0" and n: "piece q off n < unat n"
  shows "piece q off n mod 512 = 0"
proof -
  have "9 \<le> cbits q" using geo by (simp add: geometry_ok_def)
  then have d: "512 dvd (2 :: nat) ^ cbits q" using le_imp_power_dvd [of 9 "cbits q" "2 :: nat"] by simp
  have "piece q off n = 2 ^ cbits q - unat off mod 2 ^ cbits q"
    using n by (simp add: piece_def cluster_size_nat [OF geo] cluster_offset_nat)
  moreover have "512 dvd unat off mod 2 ^ cbits q" using off d by (simp add: dvd_mod mod_0_imp_dvd)
  ultimately show ?thesis using d by (simp add: dvd_diff_nat)
qed

lemma unat_u32_less: "unat (x :: u32) < 2 ^ 32"
  by (rule order.strict_trans2 [OF unsigned_less]) simp

text \<open>Where the loop goes on when a piece was a whole number of sectors.\<close>

lemma next_sector:
  assumes rd: "readable q sector n" and k: "512 * k < n"
  shows "push_bit SECTOR_SHIFT (sector + of_nat k) = push_bit SECTOR_SHIFT sector + (of_nat (512 * k) :: u64)"
    and "readable q (sector + of_nat k) (n - 512 * k)"
proof -
  let ?off = "push_bit SECTOR_SHIFT sector :: u64"
  have s55: "unat sector < 2 ^ 55" and size: "512 * unat sector + n \<le> unat (hd_size (header q))"
    using rd by (simp_all add: readable_def)
  then have total: "512 * unat sector + n < 2 ^ 64" using unat64_less [of "hd_size (header q)"] by simp
  have us: "unat (sector + of_nat k) = unat sector + k" using total k by (intro unat_add_of_nat) simp
  then have s55': "unat (sector + of_nat k) < 2 ^ 55" using total k by simp
  have "unat (?off + of_nat (512 * k)) = 512 * unat sector + 512 * k"
    using unat_add_of_nat [of ?off "512 * k"] sector_offset_nat [OF s55] total k by simp
  then show off: "push_bit SECTOR_SHIFT (sector + of_nat k) = ?off + of_nat (512 * k)"
    unfolding word_unat_eq_iff sector_offset_nat [OF s55'] us by simp
  have "plain q (?off + of_nat (512 * k) + of_nat i)" if "i < n - 512 * k" for i
  proof -
    have "512 * k + i < n" using that by simp
    then have "plain q (?off + of_nat (512 * k + i))" using rd unfolding readable_def by blast
    then show ?thesis by (simp only: of_nat_add add.assoc)
  qed
  then show "readable q (sector + of_nat k) (n - 512 * k)"
    using size us k s55' off by (simp add: readable_def)
qed

lemma sectors_of_count: "p < 2 ^ 32 \<Longrightarrow> (ucast (drop_bit SECTOR_SHIFT (of_nat p :: u32)) :: u64) = of_nat (p div 512)"
proof -
  assume p: "p < 2 ^ 32"
  then have u: "unat (of_nat p :: u32) = p" by (simp add: unat_of_nat)
  have "unat (drop_bit SECTOR_SHIFT (of_nat p :: u32)) = p div 2 ^ SECTOR_SHIFT"
    by (rule trans [OF unat_drop_bit_eq]) (simp only: u drop_bit_eq_div)
  then have "unat (drop_bit SECTOR_SHIFT (of_nat p :: u32)) = p div 512" by (simp add: SECTOR_SHIFT_def)
  moreover have "p div 512 < 2 ^ 64" using p by simp
  ultimately show ?thesis by (simp only: word_unat_eq_iff unat_ucast_u32) (simp add: unat_of_nat)
qed

lemma count_up:
  fixes nr dst_len :: u32
  assumes "unat nr + p \<le> unat dst_len"
  shows "unat (nr + of_nat p) = unat nr + p" and "(ucast (nr + of_nat p) :: u64) = ucast nr + of_nat p"
    and "(ucast (of_nat p :: u32) :: u64) = of_nat p"
proof -
  have p: "unat nr + p < 2 ^ 32" using assms unat_u32_less [of dst_len] by simp
  then show u: "unat (nr + of_nat p) = unat nr + p" by (simp add: unat_word_ariths unat_of_nat)
  show "(ucast (nr + of_nat p) :: u64) = ucast nr + of_nat p"
    using u p by (simp add: word_unat_eq_iff unat_word_ariths unat_of_nat)
  show "(ucast (of_nat p :: u32) :: u64) = of_nat p"
    using p by (simp only: word_unat_eq_iff unat_ucast_u32) (simp add: unat_of_nat)
qed

text \<open>One round reads a piece.\<close>

lemma read_single_step:
  assumes ok: "image_ok q" and rd: "readable q sector (unat dst_len - unat nr)" and lt: "unat nr < unat dst_len"
    and buf: "buf = dst + ucast nr"
  obtains p q1 where "0 < p" "unat nr + p \<le> unat dst_len" "unat nr + p = unat dst_len \<or> p mod 512 = 0"
    "image_ok q1" "same_image q q1"
    "read_single_loop (Suc fuel) q m sector dst dst_len nr buf =
       read_single_loop fuel q1 (stn m buf (qcow_content q (push_bit SECTOR_SHIFT sector) p))
         (sector + of_nat (p div 512)) dst dst_len (nr + of_nat p) (buf + of_nat p)"
proof -
  let ?n = "dst_len - nr" and ?off = "push_bit SECTOR_SHIFT sector :: u64"
  have n: "unat ?n = unat dst_len - unat nr" using lt by (intro unat_sub) (simp add: word_le_nat_alt)
  have n0: "0 < ?n" using n lt by (simp add: word_less_nat_alt)
  have geo: "geometry_ok q" using ok by (simp add: image_ok_def)
  note off = sector_offset_nat [of sector]
  have s: "unat sector < 2 ^ 55" "512 * unat sector + (unat dst_len - unat nr) \<le> unat (hd_size (header q))"
    using rd by (simp_all add: readable_def)
  have "plain q (?off + of_nat 0)" using rd lt unfolding readable_def by (metis zero_less_diff)
  then have pl: "plain q ?off" by simp
  define p where "p = piece q ?off ?n"
  have p: "0 < p" "p \<le> unat dst_len - unat nr" using piece_bounds [OF geo n0, of ?off] n by (simp_all add: p_def)
  then have le: "unat nr + p \<le> unat dst_len" using lt by simp
  have p32: "p < 2 ^ 32" using le unat_u32_less [of dst_len] by simp
  obtain q1 where q1: "qcow_read_cluster q m ?off buf ?n = Done (int p, stn m buf (qcow_content q ?off p), q1)"
      "image_ok q1" "same_image q q1"
    using read_cluster_spec [OF ok pl n0] unfolding p_def by blast
  have nz: "(of_nat p :: u32) \<noteq> 0" using p(1) p32 by (simp add: word_unat_eq_iff unat_of_nat)
  have size: "\<not> ?off \<ge> hd_size (header q)"
    using off [OF s(1)] s(2) p unfolding word_le_nat_alt by linarith
  have round: "read_single_loop (Suc fuel) q m sector dst dst_len nr buf =
      read_single_loop fuel q1 (stn m buf (qcow_content q ?off p)) (sector + of_nat (p div 512)) dst dst_len
        (nr + of_nat p) (buf + of_nat p)"
    using lt size q1(1) nz buf count_up(3) [OF le] sectors_of_count [OF p32]
    by (simp add: read_single_loop.simps [of "Suc fuel"] Let_def word_less_nat_alt)
  have "p mod 512 = 0" if "p < unat ?n"
    using piece_sectors [OF geo, of ?off ?n] off [OF s(1)] that by (simp add: p_def)
  then have "unat nr + p = unat dst_len \<or> p mod 512 = 0"
    using p le n by (cases "p < unat ?n") auto
  then show thesis by (rule that [OF p(1) le _ q1(2,3) round])
qed

lemma read_single_loop_spec:
  assumes "image_ok q" and "readable q sector (unat dst_len - unat nr)" and "unat nr \<le> unat dst_len"
    and "unat dst_len - unat nr \<le> fuel" and "buf = dst + ucast nr"
  shows "\<exists>q'. read_single_loop fuel q m sector dst dst_len nr buf =
      Done (int (unat dst_len),
        stn m buf (qcow_content q (push_bit SECTOR_SHIFT sector) (unat dst_len - unat nr)), q') \<and>
    image_ok q' \<and> same_image q q'"
  using assms
proof (induction fuel arbitrary: q m sector nr buf)
  case 0
  then have "unat dst_len - unat nr = 0" "\<not> nr < dst_len" by (simp_all add: word_less_nat_alt)
  then show ?case using 0 by (simp add: read_single_loop.simps qcow_content_def)
next
  case (Suc fuel)
  let ?off = "push_bit SECTOR_SHIFT sector :: u64" and ?n = "unat dst_len - unat nr"
  show ?case
  proof (cases "unat nr = unat dst_len")
    case True
    then have "\<not> nr < dst_len" by (simp add: word_less_nat_alt)
    then show ?thesis using True Suc.prems(1) by (simp add: read_single_loop.simps qcow_content_def)
  next
    case False
    then have lt: "unat nr < unat dst_len" using Suc.prems(3) by simp
    obtain p q1 where p: "0 < p" "unat nr + p \<le> unat dst_len" "unat nr + p = unat dst_len \<or> p mod 512 = 0"
        and q1: "image_ok q1" "same_image q q1"
        and step: "read_single_loop (Suc fuel) q m sector dst dst_len nr buf =
          read_single_loop fuel q1 (stn m buf (qcow_content q ?off p)) (sector + of_nat (p div 512)) dst dst_len
            (nr + of_nat p) (buf + of_nat p)"
      by (rule read_single_step [OF Suc.prems(1,2) lt Suc.prems(5), where m = m and fuel = fuel])
    note c = count_up [OF p(2)]
    have left: "unat dst_len - unat (nr + of_nat p) = ?n - p" unfolding c(1) by simp
    have mem: "stn m buf (qcow_content q ?off ?n) =
        stn (stn m buf (qcow_content q ?off p)) (buf + of_nat p) (qcow_content q (?off + of_nat p) (?n - p))"
    proof -
      have "p + (?n - p) = ?n" using p(2) by simp
      then have "qcow_content q ?off ?n = qcow_content q ?off p @ qcow_content q (?off + of_nat p) (?n - p)"
        using content_add [of q ?off p "?n - p"] by simp
      then show ?thesis by (simp add: stn_append)
    qed
    show ?thesis
    proof (cases "unat nr + p = unat dst_len")
      case True
      then have "\<not> nr + of_nat p < dst_len" "p = ?n" using c(1) by (simp_all add: word_less_nat_alt)
      then show ?thesis using step q1 by (simp add: read_single_loop.simps [of fuel])
    next
      case more: False
      then obtain k where k: "p = 512 * k" using p(3) by auto
      then have "512 * k < ?n" using more p(2) by simp
      note nx = next_sector [OF Suc.prems(2) this, folded k]
      have buf': "buf + of_nat p = dst + ucast (nr + of_nat p)" unfolding c(2) Suc.prems(5) by (simp only: add.assoc)
      have rd': "readable q1 (sector + of_nat k) (unat dst_len - unat (nr + of_nat p))"
        unfolding left same_image_readable [OF q1(2)] by (rule nx(2))
      have pre: "unat (nr + of_nat p) \<le> unat dst_len" "unat dst_len - unat (nr + of_nat p) \<le> fuel"
        using c(1) p(1,2) Suc.prems(4) lt by linarith+
      obtain q' where q': "read_single_loop fuel q1 (stn m buf (qcow_content q ?off p)) (sector + of_nat k) dst dst_len
            (nr + of_nat p) (buf + of_nat p) =
          Done (int (unat dst_len), stn (stn m buf (qcow_content q ?off p)) (buf + of_nat p)
            (qcow_content q1 (push_bit SECTOR_SHIFT (sector + of_nat k)) (unat dst_len - unat (nr + of_nat p))), q')"
          "image_ok q'" "same_image q1 q'"
        using Suc.IH [OF q1(1) rd' pre buf'] by blast
      have pk: "p div 512 = k" using k by simp
      show ?thesis
        unfolding step mem pk
        using q'(1) [unfolded left nx(1) same_image_simps(13) [OF q1(2)]] q'(2) same_image_trans [OF q1(2) q'(3)] by blast
    qed
  qed
qed

lemma read_single_spec:
  assumes "image_ok q" and "readable q sector (unat dst_len)"
  shows "\<exists>q'. qcow_read_sector_single q m sector dst dst_len =
      Done (int (unat dst_len), stn m dst (qcow_content q (push_bit SECTOR_SHIFT sector) (unat dst_len)), q') \<and>
    image_ok q' \<and> same_image q q'"
  using read_single_loop_spec [of q sector dst_len 0 "2 * unat dst_len + 2" dst dst m] assms
  by (simp add: qcow_read_sector_single_def)

lemma readable_split:
  assumes "readable q sector (512 * k + n)"
  shows "readable q sector (512 * k)" and "readable q (sector + of_nat k) n"
    and "push_bit SECTOR_SHIFT (sector + of_nat k) = push_bit SECTOR_SHIFT sector + of_nat (512 * k)"
proof -
  have s: "unat sector < 2 ^ 55" "512 * unat sector + (512 * k + n) \<le> unat (hd_size (header q))"
    and pl: "\<forall>i<512 * k + n. plain q (push_bit SECTOR_SHIFT sector + of_nat i)"
    using assms by (simp_all add: readable_def)
  show "readable q sector (512 * k)" using s pl by (simp add: readable_def)
  have b: "512 * unat sector + 512 * k + n < 2 ^ 64"
    using s(2) unat64_less [of "hd_size (header q)"] by linarith
  have us: "unat (sector + of_nat k) = unat sector + k"
    using b by (intro unat_add_of_nat) simp
  then have s55: "unat (sector + of_nat k) < 2 ^ 55" using b by simp
  show o: "push_bit SECTOR_SHIFT (sector + of_nat k) = push_bit SECTOR_SHIFT sector + of_nat (512 * k)"
  proof -
    have "unat (push_bit SECTOR_SHIFT sector + of_nat (512 * k)) = 512 * unat sector + 512 * k"
      using unat_add_of_nat [of "push_bit SECTOR_SHIFT sector" "512 * k"] sector_offset_nat [OF s(1)] b
      by simp
    moreover have "unat (push_bit SECTOR_SHIFT (sector + of_nat k)) = 512 * unat sector + 512 * k"
      unfolding sector_offset_nat [OF s55] us by simp
    ultimately show ?thesis by (simp only: word_unat_eq_iff)
  qed
  have "plain q (push_bit SECTOR_SHIFT sector + of_nat (512 * k) + of_nat i)" if "i < n" for i
  proof -
    have "plain q (push_bit SECTOR_SHIFT sector + of_nat (512 * k + i))"
      by (rule pl [rule_format]) (use that in simp)
    then show ?thesis unfolding of_nat_add [of "512 * k" i] add.assoc .
  qed
  then show "readable q (sector + of_nat k) n"
    using s s55 us unfolding readable_def o by simp
qed

text \<open>Buffers of whole sectors, as a request for blocks has.\<close>

definition whole_sectors :: "iovec list \<Rightarrow> bool" where
  "whole_sectors vs \<longleftrightarrow> (\<forall>v\<in>set vs. iov_len v mod 512 = 0 \<and> iov_len v < 2 ^ 32)"

lemma qcow_read_sector_spec:
  assumes "image_ok q" and "readable q sector (iov_total vs)" and "whole_sectors vs"
  shows "\<exists>q'. qcow_read_sector q m sector (vs @ rest) (int (length vs)) tot =
      Done (tot + int (iov_total vs),
        scatter m vs (qcow_content q (push_bit SECTOR_SHIFT sector) (iov_total vs)), q') \<and>
    image_ok q' \<and> same_image q q'"
  using assms
proof (induction vs arbitrary: q m sector tot)
  case Nil
  then show ?case by (cases rest) simp_all
next
  case (Cons v vs)
  obtain k where k: "iov_len v = 512 * k" using Cons.prems(3) by (auto simp: whole_sectors_def)
  have l32: "iov_len v < 2 ^ 32" and ws: "whole_sectors vs" using Cons.prems(3) by (simp_all add: whole_sectors_def)
  have un: "unat (of_nat (iov_len v) :: u32) = iov_len v" using l32 by (simp add: unat_of_nat)
  have rd: "readable q sector (512 * k + iov_total vs)" using Cons.prems(2) k by simp
  note split = readable_split [OF rd]
  let ?d = "qcow_content q (push_bit SECTOR_SHIFT sector) (iov_len v)"
  obtain q1 where q1: "qcow_read_sector_single q m sector (iov_base v) (of_nat (iov_len v)) =
      Done (int (iov_len v), stn m (iov_base v) ?d, q1)" "image_ok q1" "same_image q q1"
    using read_single_spec [OF Cons.prems(1), of sector "of_nat (iov_len v)" m "iov_base v"] split(1)
    unfolding un k [symmetric] by blast
  have step: "qcow_read_sector q m sector ((v # vs) @ rest) (int (length (v # vs))) tot =
      qcow_read_sector q1 (stn m (iov_base v) ?d) (sector + of_nat k) (vs @ rest) (int (length vs))
        (tot + int (iov_len v))"
    using q1(1) by (simp add: k)
  have rd1: "readable q1 (sector + of_nat k) (iov_total vs)"
    using split(2) unfolding same_image_readable [OF q1(3)] .
  obtain q' where q': "qcow_read_sector q1 (stn m (iov_base v) ?d) (sector + of_nat k) (vs @ rest) (int (length vs))
        (tot + int (iov_len v)) =
      Done (tot + int (iov_len v) + int (iov_total vs), scatter (stn m (iov_base v) ?d) vs
        (qcow_content q1 (push_bit SECTOR_SHIFT (sector + of_nat k)) (iov_total vs)), q')"
      "image_ok q'" "same_image q1 q'"
    using Cons.IH [OF q1(2) rd1 ws] by blast
  have "qcow_content q (push_bit SECTOR_SHIFT sector) (iov_len v + iov_total vs) =
      ?d @ qcow_content q1 (push_bit SECTOR_SHIFT (sector + of_nat k)) (iov_total vs)"
    unfolding content_add split(3) same_image_simps(13) [OF q1(3)] k ..
  then have "scatter m (v # vs) (qcow_content q (push_bit SECTOR_SHIFT sector) (iov_total (v # vs))) =
      scatter (stn m (iov_base v) ?d) vs
        (qcow_content q1 (push_bit SECTOR_SHIFT (sector + of_nat k)) (iov_total vs))"
    by simp
  then show ?case
    unfolding step using q' same_image_trans [OF q1(3) q'(3)] by (simp add: add.assoc)
qed

subsection \<open>Errors of the cluster reader\<close>

lemma read_single_error:
  assumes "push_bit SECTOR_SHIFT sector < hd_size (header q)" and "0 < dst_len" and "dst_len \<noteq> -1"
    and "qcow_read_cluster q m (push_bit SECTOR_SHIFT sector) dst dst_len = Done (-1, m', q')"
  shows "qcow_read_sector_single q m sector dst dst_len = Done (int (unat dst_len), m', q')"
proof -
  have "\<not> (- 1 :: u32) < dst_len" using word_order.extremum [of dst_len] by (simp add: not_less)
  moreover have "(hd_size (header q) \<le> push_bit SECTOR_SHIFT sector) = False"
    using assms(1) by (simp add: not_le [symmetric])
  ultimately show ?thesis
    using assms(2-4) 
    by (simp add: qcow_read_sector_single_def read_single_loop.simps Let_def)
qed

subsection \<open>Properties\<close>

lemma plain_inside:
  assumes "geometry_ok q" and "unat (get_cluster_offset q off) + i < unat (cluster_size q)"
  shows "plain q (off + of_nat i) = plain q off"
  using inside_cluster [OF assms]
  by (simp add: plain_def l2_pos_def cluster_pos_def compressed_def l2_entry_def)

text \<open>A small image: one table at byte 8, whose first entry is the cluster at byte 24.\<close>

definition sample_image :: qcow where
  "sample_image =
     \<lparr>header = \<lparr>hd_size = 1024, l1_table_offset = 0, l1_size = 1, cluster_bits = 9, l2_bits = 1,
        refcount_table_offset = 0, refcount_table_size = 0\<rparr>,
      table = \<lparr>table_size = 1, l1_table = [0x0800000000000000], l1_root = Leaf, l1_lru = [], l1_nr_cached = 0\<rparr>,
      refcount_table = \<lparr>rf_size = 0, rf_table = [], rf_root = Leaf, rf_lru = [], rf_nr_cached = 0\<rparr>,
      q_fd = \<lparr>fbytes = replicate 15 0 @ [24] @ replicate 8 0 @ replicate 512 7, fpos = 0, fscript = [SErr EINTR]\<rparr>,
      csize_shift = 61, csize_mask = 1, version = 2, cluster_size = 512, cluster_offset_mask = 0,
      free_clust_idx = 0\<rparr>"

lemma sample_image_ok: "image_ok sample_image"
  by (simp add: image_ok_def geometry_ok_def l1_cache_inv_def coherent_def benign_def transient_def
      sample_image_def cbits_def c_simps)

lemma sample_image_plain: "plain sample_image 0"
proof -
  have b: "be64_to_cpu 0x0800000000000000 = 8" "be64_to_cpu 0x1800000000000000 = 24" by code_simp+
  have i: "get_l1_index sample_image 0 = 0" "get_l2_index sample_image 0 = 0" "l2_entries sample_image = 2"
    by (simp_all add: get_l1_index_def get_l2_index_def l2_entries_def sample_image_def)
  have p: "l2_pos sample_image 0 = 8"
    by (simp add: l2_pos_def i) (simp add: sample_image_def b c_simps)
  have "take 16 (drop 8 (fbytes (q_fd sample_image)) @ replicate 16 0) = replicate 7 0 @ [24] @ replicate 8 0"
    by (simp add: sample_image_def numeral_eq_Suc)
  then have "disk_l2 sample_image 8 = words64 (replicate 7 0 @ [24] @ replicate 8 0)"
    by (simp add: disk_l2_def i)
  also have "\<dots> = [0x1800000000000000, 0]" by code_simp
  finally have e: "l2_entry sample_image 0 = 24" by (simp add: l2_entry_def p i b)
  have "cluster_pos sample_image 0 = 24" "\<not> compressed sample_image 0"
    unfolding cluster_pos_def compressed_def e by (simp_all add: sample_image_def c_simps)
  then show ?thesis
    unfolding plain_def i p by (simp add: sample_image_def)
qed

lemma sample_image_readable: "readable sample_image 0 512"
proof -
  have g: "geometry_ok sample_image" using sample_image_ok by (simp add: image_ok_def)
  have z: "unat (get_cluster_offset sample_image 0) = 0" "unat (cluster_size sample_image) = 512"
    by (simp_all add: get_cluster_offset_def sample_image_def)
  have "plain sample_image (0 + of_nat i)" if "i < 512" for i
    using plain_inside [OF g, of 0 i] z that sample_image_plain by simp
  then show ?thesis by (simp add: readable_def sample_image_def)
qed

text \<open>
  C12: Reading whole sectors from a QCOW image of either version delivers the contents of the
  virtual disk, as the image file's tables define it, into the guest's buffers in order, whatever is
  cached and however the kernel interrupts the reads.  The sectors are \<open>readable\<close>: below the size of the disk, and each
  of their bytes in a cluster that is unallocated or stored uncompressed, with its tables, inside the file
  (\<open>plain\<close>); compressed clusters are the matter of C13.  The cache keeps its invariant: the tree and
  the LRU list hold the same tables, at most 32, each equal to the table on disk.
\<close>

theorem qcow_read_correct:
  assumes "image_ok q" and "readable q sector (iov_total vs)" and "whole_sectors vs"
  shows "\<exists>q'. qcow_read_sector q m sector (vs @ rest) (int (length vs)) 0 =
      Done (int (iov_total vs),
        scatter m vs (qcow_content q (push_bit SECTOR_SHIFT sector) (iov_total vs)), q') \<and>
    image_ok q' \<and> same_image q q'"
  using qcow_read_sector_spec [OF assms, of m rest 0] by simp

theorem qcow_read_correct_witness:
  "\<exists>q'. qcow_read_sector sample_image (\<lambda>a. 0) 0 ([\<lparr>iov_base = 0x1000, iov_len = 512\<rparr>] @ []) 1 0 =
      Done (512, scatter (\<lambda>a. 0) [\<lparr>iov_base = 0x1000, iov_len = 512\<rparr>]
        (qcow_content sample_image 0 512), q') \<and> image_ok q'"
  using qcow_read_correct [OF sample_image_ok, of 0 "[\<lparr>iov_base = 0x1000, iov_len = 512\<rparr>]" "\<lambda>a. 0" "[]"]
    sample_image_readable
  by (auto simp: whole_sectors_def)

text \<open>
  When the first cluster of a buffer cannot be read, \<open>qcow_read_sector_single\<close> reports the
  whole buffer as read: the error -1 passes the unsigned test \<open>nr <= 0\<close>, and the buffer keeps
  what it held.
\<close>

theorem qcow_read_error_hidden:
  assumes "push_bit SECTOR_SHIFT sector < hd_size (header q)" and "0 < dst_len" and "dst_len \<noteq> -1"
    and "qcow_read_cluster q m (push_bit SECTOR_SHIFT sector) dst dst_len = Done (-1, m', q')"
  shows "qcow_read_sector_single q m sector dst dst_len = Done (int (unat dst_len), m', q')"
  using assms by (rule read_single_error)

theorem qcow_read_error_hidden_witness:
  "qcow_read_sector_single (sample_image\<lparr>table := (table sample_image)\<lparr>table_size := 0\<rparr>\<rparr>) (\<lambda>a. 9) 0 0x1000 512 =
    Done (512, (\<lambda>a. 9), sample_image\<lparr>table := (table sample_image)\<lparr>table_size := 0\<rparr>\<rparr>)"
proof -
  have "qcow_read_cluster (sample_image\<lparr>table := (table sample_image)\<lparr>table_size := 0\<rparr>\<rparr>) (\<lambda>a. 9)
      (push_bit SECTOR_SHIFT 0) 0x1000 512 =
    Done (-1, (\<lambda>a. 9), sample_image\<lparr>table := (table sample_image)\<lparr>table_size := 0\<rparr>\<rparr>)"
    by (simp add: qcow_read_cluster_def qcow2_read_cluster_def qcow2_read_cluster_z_def sample_image_def c_simps)
  then show ?thesis
    using qcow_read_error_hidden [of 0 "sample_image\<lparr>table := (table sample_image)\<lparr>table_size := 0\<rparr>\<rparr>" 512
        "\<lambda>a. 9" "0x1000"]
    by (simp add: sample_image_def)
qed

end
