(* ===== verification/QcowProofs.thy ===== *)
theory QcowProofs
  imports QcowProbe QcowReadProofs
begin

text \<open>
  What opening takes from the file and establishes, and what becomes of a write that has to allocate a cluster.
\<close>

subsection \<open>The header\<close>

text \<open>Numbers as the format has them, most significant byte first.\<close>

definition be_number :: "u8 list \<Rightarrow> nat" where
  "be_number bs = foldl (\<lambda>n b. 256 * n + unat b) 0 bs"

definition be_at :: "u8 list \<Rightarrow> nat \<Rightarrow> nat \<Rightarrow> nat" where
  "be_at bs off n = be_number (take n (drop off bs))"

lemma be_number_snoc [simp]: "be_number (bs @ [b]) = 256 * be_number bs + unat b" "be_number [] = 0"
  by (simp_all add: be_number_def)

lemma word_of_le_number: "(word_of_le bs :: 'a::len word) = of_nat (be_number (rev bs))"
proof (induction bs)
  case (Cons b bs)
  have "(ucast b :: 'a word) AND push_bit 8 w = 0" for w :: "'a word"
    by (rule bit_word_eqI) (auto simp: bit_simps dest: bit_imp_le_length)
  then have "(word_of_le (b # bs) :: 'a word) = ucast b + push_bit 8 (word_of_le bs)"
    by (simp add: disjunctive_add_eq_or)
  also have "\<dots> = of_nat (unat b) + 256 * of_nat (be_number (rev bs))"
    by (simp add: Cons push_bit_eq_mult unsigned_ucast_eq of_nat_unat)
  finally show ?case by (simp add: algebra_simps)
qed simp

lemma be_field:
  assumes "off + n \<le> length bs"
  shows "n = 4 \<Longrightarrow> be32_to_cpu (field bs off n) = of_nat (be_at bs off n)"
    and "n = 8 \<Longrightarrow> be64_to_cpu (field bs off n) = of_nat (be_at bs off n)"
    and "n = 1 \<Longrightarrow> (field bs off n :: u8) = of_nat (be_at bs off n)"
proof -
  have l: "length (take n (drop off bs)) = n" using assms by simp
  show "n = 4 \<Longrightarrow> be32_to_cpu (field bs off n) = of_nat (be_at bs off n)"
    using l le_of_word_of_le [of "take n (drop off bs)", where ?'a = 32]
    by (simp add: be32_to_cpu_def field_def be_at_def word_of_le_number [of "rev _"])
  show "n = 8 \<Longrightarrow> be64_to_cpu (field bs off n) = of_nat (be_at bs off n)"
    using l le_of_word_of_le [of "take n (drop off bs)", where ?'a = 64]
    by (simp add: be64_to_cpu_def field_def be_at_def word_of_le_number [of "rev _"])
  show "n = 1 \<Longrightarrow> (field bs off n :: u8) = of_nat (be_at bs off n)"
  proof -
    assume n: "n = 1"
    then obtain x where "take n (drop off bs) = [x]" using l by (metis One_nat_def length_0_conv length_Suc_conv)
    then show ?thesis by (simp add: field_def be_at_def word_of_le_number)
  qed
qed

lemma be_number_less: "be_number bs < 256 ^ length bs"
proof (induction bs rule: rev_induct)
  case (snoc b bs)
  have "unat b < 256" using unsigned_less [of b, where ?'a = nat] by simp
  then show ?case using snoc by (simp add: algebra_simps)
qed simp

lemma be_at_less: "be_at bs off n < 256 ^ n"
proof -
  have "be_at bs off n < 256 ^ length (take n (drop off bs))" unfolding be_at_def by (rule be_number_less)
  also have "\<dots> \<le> 256 ^ n" by (rule power_increasing) simp_all
  finally show ?thesis .
qed

lemma be32_iff:
  assumes "k < 2 ^ 32" shows "(of_nat (be_at bs off 4) :: u32) = of_nat k \<longleftrightarrow> be_at bs off 4 = k"
proof
  assume "(of_nat (be_at bs off 4) :: u32) = of_nat k"
  then have "unat (of_nat (be_at bs off 4) :: u32) = unat (of_nat k :: u32)" by simp
  then show "be_at bs off 4 = k"
    using assms be_at_less [of bs off 4] by (simp add: unsigned_of_nat take_bit_nat_eq_self)
qed simp

text \<open>What the format says of the header, in decimal offsets; version 2 has no exponent for the tables of level 2.\<close>

definition announces :: "u8 list \<Rightarrow> nat \<Rightarrow> bool" where
  "announces hs v \<longleftrightarrow> be_at hs 0 4 = 0x514649FB \<and> be_at hs 4 4 = v"

definition header_of :: "u8 list \<Rightarrow> nat \<Rightarrow> qcow_header" where
  "header_of hs v =
     (if v = 1 then
        \<lparr>hd_size = of_nat (be_at hs 24 8), l1_table_offset = of_nat (be_at hs 40 8),
         l1_size = of_nat (be_at hs 24 8 div 2 ^ (be_at hs 32 1 + be_at hs 33 1)),
         cluster_bits = of_nat (be_at hs 32 1), l2_bits = of_nat (be_at hs 33 1),
         refcount_table_offset = 0, refcount_table_size = 0\<rparr>
      else
        \<lparr>hd_size = of_nat (be_at hs 24 8), l1_table_offset = of_nat (be_at hs 40 8),
         l1_size = of_nat (be_at hs 36 4),
         cluster_bits = of_nat (be_at hs 20 4), l2_bits = of_nat (be_at hs 20 4) - 3,
         refcount_table_offset = of_nat (be_at hs 48 8), refcount_table_size = of_nat (be_at hs 56 4)\<rparr>)"

definition header_bytes :: "u8 list \<Rightarrow> fdesc \<Rightarrow> u8 list" where
  "header_bytes stk f = into_buffer stk (take 72 (fbytes f))"

lemma read_struct_spec:
  assumes "benign f" and "0 < n"
  shows "\<exists>f'. read_struct stk f n = (if fbytes f = [] then None else Some (into_buffer stk (take n (fbytes f))), f') \<and>
    fbytes f' = fbytes f \<and> benign f'"
proof -
  obtain f' where "pread_in_full f n 0 = (if 0 < n \<and> file_slice f n 0 = [] then None else Some (file_slice f n 0), f')"
      "fbytes f' = fbytes f" "benign f'"
    using pread_in_full_benign [OF assms(1), of 0 n] by auto
  then show ?thesis using assms(2) by (intro exI [of _ f']) (auto simp: read_struct_def file_slice_def)
qed

text \<open>A shorter structure has the same first bytes.\<close>

lemma be_at_short:
  assumes "off + k \<le> n" and "n \<le> 72"
  shows "be_at (into_buffer stk (take n (fbytes f))) off k = be_at (header_bytes stk f) off k"
proof -
  have "take n (into_buffer stk (take n (fbytes f))) = take n (header_bytes stk f)"
    using assms(2) by (cases "n \<le> length (fbytes f)") (simp_all add: header_bytes_def into_buffer_def min_def)
  moreover have "take k (drop off xs) = take k (drop off (take n xs))" for xs :: "u8 list"
    using assms(1) by (simp add: drop_take min_def)
  ultimately show ?thesis unfolding be_at_def by metis
qed

text \<open>The fields that a structure read from the file has.\<close>

lemma struct_fields:
  assumes "n \<le> 72" and "72 \<le> length stk" and "off + k \<le> n" and "bs = into_buffer stk (take n (fbytes f))"
  shows "k = 4 \<Longrightarrow> be32_to_cpu (field bs off k) = of_nat (be_at (header_bytes stk f) off k)"
    and "k = 8 \<Longrightarrow> be64_to_cpu (field bs off k) = of_nat (be_at (header_bytes stk f) off k)"
    and "k = 1 \<Longrightarrow> (field bs off k :: u8) = of_nat (be_at (header_bytes stk f) off k)"
proof -
  have "off + k \<le> length bs" using assms by (simp add: into_buffer_def)
  note fl = be_field [OF this] and s = be_at_short [OF assms(3,1), of stk f]
  show "k = 4 \<Longrightarrow> be32_to_cpu (field bs off k) = of_nat (be_at (header_bytes stk f) off k)"
    "k = 8 \<Longrightarrow> be64_to_cpu (field bs off k) = of_nat (be_at (header_bytes stk f) off k)"
    "k = 1 \<Longrightarrow> (field bs off k :: u8) = of_nat (be_at (header_bytes stk f) off k)"
    using fl s assms(4) by simp_all
qed

lemma check_image_spec:
  assumes "benign f" and "72 \<le> length stk"
  shows "\<exists>f'. qcow1_check_image stk f = (fbytes f \<noteq> [] \<and> announces (header_bytes stk f) 1, f') \<and> fbytes f' = fbytes f \<and> benign f'"
    and "\<exists>f'. qcow2_check_image stk f = (fbytes f \<noteq> [] \<and> announces (header_bytes stk f) 2, f') \<and> fbytes f' = fbytes f \<and> benign f'"
proof -
  have m: "of_nat (be_at hs 0 4) = QCOW_MAGIC \<longleftrightarrow> be_at hs 0 4 = 0x514649FB"
    "of_nat (be_at hs 4 4) = QCOW1_VERSION \<longleftrightarrow> be_at hs 4 4 = 1" "of_nat (be_at hs 4 4) = QCOW2_VERSION \<longleftrightarrow> be_at hs 4 4 = 2" for hs
    using be32_iff [of "0x514649FB" hs 0] be32_iff [of 1 hs 4] be32_iff [of 2 hs 4] by (simp_all add: c_simps)
  show "\<exists>f'. qcow1_check_image stk f = (fbytes f \<noteq> [] \<and> announces (header_bytes stk f) 1, f') \<and> fbytes f' = fbytes f \<and> benign f'"
    using read_struct_spec [OF assms(1), of 48 stk] struct_fields(1) [OF _ assms(2), of 48 _ 4 _ f] m
    by (auto simp: qcow1_check_image_def header1_of_bytes_def announces_def)
  show "\<exists>f'. qcow2_check_image stk f = (fbytes f \<noteq> [] \<and> announces (header_bytes stk f) 2, f') \<and> fbytes f' = fbytes f \<and> benign f'"
    using read_struct_spec [OF assms(1), of 72 stk] struct_fields(1) [OF _ assms(2), of 72 _ 4 _ f] m
    by (auto simp: qcow2_check_image_def header2_of_bytes_def announces_def)
qed

lemma unat_be_at1: "unat (of_nat (be_at bs off 1) :: u8) = be_at bs off 1"
  using be_at_less [of bs off 1] by (simp add: unsigned_of_nat take_bit_nat_eq_self)

lemma l1_entries:
  assumes "k \<le> 30"
  shows "(ucast ((of_nat (be_at bs off 8) :: u64) div push_bit k 1) :: u32) = of_nat (be_at bs off 8 div 2 ^ k)"
proof -
  have a: "unat (of_nat (be_at bs off 8) :: u64) = be_at bs off 8"
    using be_at_less [of bs off 8] by (simp add: unsigned_of_nat take_bit_nat_eq_self)
  have "unat (push_bit k 1 :: u64) = 2 ^ k" using unat_shift1 [of k] assms by simp
  then have "unat ((of_nat (be_at bs off 8) :: u64) div push_bit k 1) = be_at bs off 8 div 2 ^ k"
    using a by (simp only: unat_div)
  then show ?thesis by (metis of_nat_unat)
qed

lemma qcow1_read_header_spec:
  assumes "benign f" and "72 \<le> length stk" and "fbytes f \<noteq> []" and "hs = header_bytes stk f"
  shows "\<exists>f'. qcow1_read_header stk f =
      (if 30 < be_at hs 32 1 + be_at hs 33 1 then Wild else Done (Some (header_of hs 1), f')) \<and> fbytes f' = fbytes f \<and> benign f'"
proof -
  let ?bs = "into_buffer stk (take 48 (fbytes f))"
  note fs = struct_fields [OF _ assms(2), of 48 _ _ ?bs f]
  obtain f' where "read_struct stk f 48 = (Some ?bs, f')" "fbytes f' = fbytes f" "benign f'"
    using read_struct_spec [OF assms(1), of 48 stk] assms(3) by auto
  then show ?thesis
    using l1_entries [of "be_at hs 33 1 + be_at hs 32 1" hs 24]
    by (intro exI [of _ f'])
      (simp add: qcow1_read_header_def header1_of_bytes_def header_of_def fs assms(4) unat_be_at1 [unfolded One_nat_def] Let_def add.commute)
qed

lemma qcow2_read_header_spec:
  assumes "benign f" and "72 \<le> length stk" and "fbytes f \<noteq> []" and "hs = header_bytes stk f"
  shows "\<exists>f'. qcow2_read_header stk f = (Some (header_of hs 2), f') \<and> fbytes f' = fbytes f \<and> benign f'"
proof -
  let ?bs = "into_buffer stk (take 72 (fbytes f))"
  note fs = struct_fields [OF _ assms(2), of 72 _ _ ?bs f]
  have w: "(ucast (of_nat x :: u32) :: u8) = of_nat x" "(ucast (y - 3 :: u32) :: u8) = ucast y - 3" for x y
    by (simp_all add: word_uint_eq_iff unsigned_ucast_eq take_bit_eq_mod uint_word_ariths mod_mod_cancel
        mod_simps unsigned_of_nat zmod_int)
  obtain f' where "read_struct stk f 72 = (Some ?bs, f')" "fbytes f' = fbytes f" "benign f'"
    using read_struct_spec [OF assms(1), of 72 stk] assms(3) by auto
  then show ?thesis
    by (intro exI [of _ f']) (simp add: qcow2_read_header_def header2_of_bytes_def header_of_def fs assms(4) w Let_def)
qed

subsection \<open>Opening\<close>

lemma length_words64 [simp]: "length (words64 bs) = length bs div 8"
  by (simp add: words64_def chunks_def)

lemma words64_Nil [simp]: "words64 [] = []"
  by (simp add: words64_def chunks_def)

lemma pread_negative: "off < 0 \<Longrightarrow> 0 < n \<Longrightarrow> fst (pread_in_full f n off) = None"
  by (simp add: pread_in_full_def pread_loop.simps xpread.simps sys_pread_def transient_def)

lemma pread_zero [simp]: "pread_in_full f 0 off = (Some [], f)"
  by (simp add: pread_in_full_def pread_loop.simps)

text \<open>A table of a file, zero where the file ends; the code takes one that begins in the file, or is empty.\<close>

definition table_at :: "fdesc \<Rightarrow> u64 \<Rightarrow> nat \<Rightarrow> u64 list" where
  "table_at f pos n = words64 (take (8 * n) (drop (nat (sint pos)) (fbytes f) @ replicate (8 * n) 0))"

definition table_stored :: "fdesc \<Rightarrow> u64 \<Rightarrow> nat \<Rightarrow> bool" where
  "table_stored f pos n \<longleftrightarrow> n = 0 \<or> 0 \<le> sint pos \<and> nat (sint pos) < length (fbytes f) \<and> 8 * n < 2 ^ 31"

lemma count_not_negative: "k < 2 ^ 31 \<Longrightarrow> \<not> sint (of_nat k :: u32) < 0"
  by (simp add: signed_of_nat signed_take_bit_int_eq_self)

lemma read_words_stored:
  assumes "benign f" and "table_stored f pos n"
  shows "\<exists>f'. read_words f n (sint pos) = (Some (table_at f pos n), f')"
proof (cases "n = 0")
  case False
  then obtain d f' where d: "pread_in_full f (8 * n) (sint pos) = (Some d, f')"
      "into_buffer (replicate (8 * n) 0) d = take (8 * n) (drop (nat (sint pos)) (fbytes f) @ replicate (8 * n) 0)"
    using pio.zero_filled [OF assms(1), of "sint pos" "8 * n"] assms(2) by (auto simp: table_stored_def)
  have "length d \<le> 8 * n" using arg_cong [OF d(2), of length] by (simp add: into_buffer_def)
  moreover have "table_at f pos n = words64 (into_buffer (replicate (8 * n) 0) d)" by (simp only: table_at_def d(2))
  ultimately show ?thesis using d(1) False assms(2) count_not_negative [of "length d"] by (simp add: read_words_def table_stored_def)
qed (simp add: read_words_def table_at_def into_buffer_def)

lemma read_words_table:
  assumes "benign f" and "read_words f n (sint pos) = (Some ws, f')"
  shows "ws = table_at f pos n \<and> fbytes f' = fbytes f \<and> benign f'"
proof (cases "n = 0")
  case True
  then show ?thesis using assms by (auto simp: read_words_def table_at_def into_buffer_def)
next
  case False
  have "fst (pread_in_full f (8 * n) (sint pos)) \<noteq> None"
    using assms(2) by (auto simp: read_words_def split: prod.splits option.splits)
  then have pos: "0 \<le> sint pos" using pread_negative [of "sint pos" "8 * n" f] False by fastforce
  obtain g where g: "pread_in_full f (8 * n) (sint pos) =
      (if 0 < 8 * n \<and> file_slice f (8 * n) (sint pos) = [] then None else Some (file_slice f (8 * n) (sint pos)), g)"
      "fbytes g = fbytes f" "benign g"
    using pread_in_full_benign [OF assms(1) pos, of "8 * n"] by blast
  have "into_buffer (replicate (8 * n) 0) (file_slice f (8 * n) (sint pos)) =
      take (8 * n) (drop (nat (sint pos)) (fbytes f) @ replicate (8 * n) 0)"
    by (simp add: into_buffer_def file_slice_def drop_replicate)
  then show ?thesis using assms(2) g by (auto simp: read_words_def table_at_def split: if_splits)
qed

text \<open>The state of a QCOW image that has just been opened.\<close>

definition fresh_qcow :: "fdesc \<Rightarrow> qcow_header \<Rightarrow> nat \<Rightarrow> qcow \<Rightarrow> bool" where
  "fresh_qcow f h v q \<longleftrightarrow> header q = h \<and> version q = of_nat v \<and> unat (cluster_size q) = 2 ^ unat (cluster_bits h) \<and>
     table_size (table q) = l1_size h \<and> l1_table (table q) = table_at f (l1_table_offset h) (unat (l1_size h)) \<and>
     l1_root (table q) = Leaf \<and> l1_lru (table q) = [] \<and> l1_nr_cached (table q) = 0 \<and>
     rf_table (refcount_table q) =
       (if v = 1 then [] else table_at f (refcount_table_offset h) (unat (rf_size (refcount_table q)))) \<and>
     rf_root (refcount_table q) = Leaf \<and> rf_lru (refcount_table q) = [] \<and> rf_nr_cached (refcount_table q) = 0 \<and>
     fbytes (q_fd q) = fbytes f \<and> benign (q_fd q)"

text \<open>The exponents are in range and the tables are in the file.\<close>

definition refcount_words :: "qcow_header \<Rightarrow> nat" where
  "refcount_words h = unat (refcount_table_size h) * 2 ^ unat (cluster_bits h) div 8 mod 2 ^ 32"

definition openable :: "fdesc \<Rightarrow> qcow_header \<Rightarrow> nat \<Rightarrow> bool" where
  "openable f h v \<longleftrightarrow> table_stored f (l1_table_offset h) (unat (l1_size h)) \<and>
     (if v = 1 then cluster_bits h \<noteq> 0 \<and> unat (cluster_bits h) + unat (l2_bits h) \<le> 30
      else 8 \<le> cluster_bits h \<and> cluster_bits h \<le> 30 \<and> table_stored f (refcount_table_offset h) (refcount_words h))"

lemma length_table_at [simp]: "length (table_at f pos n) = n"
  by (simp add: table_at_def)

lemma zero_image_ok:
  assumes "header q' = h" and "cluster_size q' = push_bit (unat (cluster_bits h)) 1"
    and "length (l1_table (table q')) = unat (table_size (table q'))" and "benign (q_fd q')"
    and "l1_root (table q') = Leaf" and "l1_lru (table q') = []" and "l1_nr_cached (table q') = 0"
    and "unat (cluster_bits h) \<le> 30" and "unat (l2_bits h) \<le> 30" and "9 \<le> cbits q'"
  shows "image_ok q'"
  using assms
  by (simp add: image_ok_def geometry_ok_def cbits_def l1_cache_inv_def coherent_def c_simps)

lemma fresh_image_ok:
  assumes "fresh_qcow f h v q" and "9 \<le> cbits q" and "unat (cluster_bits h) \<le> 30" and "unat (l2_bits h) \<le> 30"
  shows "image_ok q"
proof -
  have "unat (push_bit (unat (cluster_bits h)) 1 :: u64) = 2 ^ unat (cluster_bits h)" using unat_shift1 assms(3) by simp
  then have "cluster_size q = push_bit (unat (cluster_bits h)) 1"
    using assms(1) by (simp add: fresh_qcow_def flip: word_unat_eq_iff [THEN iffD2])
  then show ?thesis using assms
    by (intro zero_image_ok [where h = h]) (simp_all add: fresh_qcow_def del: push_bit_of_1)
qed

lemma table_cong:
  "fbytes f' = fbytes f \<Longrightarrow> table_at f' pos n = table_at f pos n"
  "fbytes f' = fbytes f \<Longrightarrow> table_stored f' pos n = table_stored f pos n"
  "fbytes f' = fbytes f \<Longrightarrow> header_bytes stk f' = header_bytes stk f"
  "fbytes f' = fbytes f \<Longrightarrow> openable f' h v = openable f h v"
  "fbytes f' = fbytes f \<Longrightarrow> fresh_qcow f' h v q = fresh_qcow f h v q"
  by (simp_all add: table_at_def table_stored_def header_bytes_def openable_def fresh_qcow_def)

lemma read_l1_spec:
  assumes "benign (q_fd q)" and "fbytes (q_fd q) = fbytes f" and "h = header q"
  shows "qcow_read_l1_table q = (True, q') \<Longrightarrow> \<exists>f'. q' = q\<lparr>table := (table q)\<lparr>table_size := l1_size h,
      l1_table := table_at f (l1_table_offset h) (unat (l1_size h))\<rparr>, q_fd := f'\<rparr> \<and> fbytes f' = fbytes f \<and> benign f'"
    and "table_stored f (l1_table_offset h) (unat (l1_size h)) \<Longrightarrow> \<exists>q'. qcow_read_l1_table q = (True, q')"
proof -
  show "\<exists>f'. q' = q\<lparr>table := (table q)\<lparr>table_size := l1_size h,
      l1_table := table_at f (l1_table_offset h) (unat (l1_size h))\<rparr>, q_fd := f'\<rparr> \<and> fbytes f' = fbytes f \<and> benign f'"
    if r: "qcow_read_l1_table q = (True, q')"
  proof -
    obtain ws f' where w: "read_words (q_fd q) (unat (l1_size h)) (sint (l1_table_offset h)) = (Some ws, f')"
        and q': "q' = q\<lparr>table := (table q)\<lparr>table_size := l1_size h, l1_table := ws\<rparr>, q_fd := f'\<rparr>"
      using r by (auto simp: qcow_read_l1_table_def Let_def assms(3) split: prod.splits option.splits)
    show ?thesis using read_words_table [OF assms(1) w] assms(2) unfolding q' table_cong(1) [OF assms(2)] by auto
  qed
  show "\<exists>q'. qcow_read_l1_table q = (True, q')" if "table_stored f (l1_table_offset h) (unat (l1_size h))"
    using read_words_stored [OF assms(1)] that
    by (force simp: qcow_read_l1_table_def Let_def assms(3) table_cong(2) [OF assms(2)])
qed

lemma read_refcount_spec:
  assumes "benign (q_fd q)" and "fbytes (q_fd q) = fbytes f" and "h = header q"
  shows "qcow_read_refcount_table q = (True, q') \<Longrightarrow> \<exists>f' n. q' = q\<lparr>refcount_table := (refcount_table q)\<lparr>rf_size := n,
      rf_table := table_at f (refcount_table_offset h) (unat n), rf_root := Leaf, rf_lru := []\<rparr>, q_fd := f'\<rparr> \<and>
      fbytes f' = fbytes f \<and> benign f'"
    and "table_stored f (refcount_table_offset h) (unat (ucast ((ucast (refcount_table_size h) * cluster_size q) div 8) :: u32)) \<Longrightarrow>
      \<exists>q'. qcow_read_refcount_table q = (True, q')"
proof -
  let ?n = "ucast ((ucast (refcount_table_size h) * cluster_size q) div 8) :: u32"
  show "\<exists>f' n. q' = q\<lparr>refcount_table := (refcount_table q)\<lparr>rf_size := n,
      rf_table := table_at f (refcount_table_offset h) (unat n), rf_root := Leaf, rf_lru := []\<rparr>, q_fd := f'\<rparr> \<and>
      fbytes f' = fbytes f \<and> benign f'"
    if r: "qcow_read_refcount_table q = (True, q')"
  proof -
    obtain ws f' where w: "read_words (q_fd q) (unat ?n) (sint (refcount_table_offset h)) = (Some ws, f')"
        and q': "q' = q\<lparr>refcount_table := (refcount_table q)\<lparr>rf_size := ?n, rf_table := ws, rf_root := Leaf, rf_lru := []\<rparr>,
          q_fd := f'\<rparr>"
      using r by (auto simp: qcow_read_refcount_table_def Let_def assms(3) split: prod.splits option.splits)
    show ?thesis using read_words_table [OF assms(1) w] assms(2) unfolding q' table_cong(1) [OF assms(2)] by auto
  qed
  show "\<exists>q'. qcow_read_refcount_table q = (True, q')" if "table_stored f (refcount_table_offset h) (unat ?n)"
    using read_words_stored [OF assms(1)] that
    by (force simp: qcow_read_refcount_table_def Let_def assms(3) table_cong(2) [OF assms(2)])
qed

lemma qcow1_probe_spec:
  assumes "benign f" and "72 \<le> length stk" and "fbytes f \<noteq> []" and "h = header_of (header_bytes stk f) 1"
  shows "qcow1_probe stk f = Done (Some q, f') \<Longrightarrow> fresh_qcow f h 1 q \<and> (9 \<le> cbits q \<longrightarrow> image_ok q)"
    and "openable f h 1 \<Longrightarrow> \<exists>q f'. qcow1_probe stk f = Done (Some q, f')"
proof -
  let ?hs = "header_bytes stk f"
  obtain f1 where r: "qcow1_read_header stk f = (if 30 < be_at ?hs 32 1 + be_at ?hs 33 1 then Wild else Done (Some h, f1))"
      and f1: "fbytes f1 = fbytes f" "benign f1"
    using qcow1_read_header_spec [OF assms(1-3) refl] assms(4) by blast
  let ?cb = "unat (cluster_bits h)"
  let ?q = "(zero_qcow f1 h)\<lparr>version := QCOW1_VERSION, cluster_size := push_bit ?cb 1,
        cluster_offset_mask := push_bit (63 - ?cb) 1 - 1\<rparr>"
  have bits: "?cb = be_at ?hs 32 1" "unat (l2_bits h) = be_at ?hs 33 1"
    unfolding assms(4) using unat_be_at1 [of ?hs] by (simp_all add: header_of_def)
  have q: "benign (q_fd ?q)" "fbytes (q_fd ?q) = fbytes f" "h = header ?q" using f1 by (simp_all add: zero_qcow_def)
  note l1 = read_l1_spec [OF q]
  show "fresh_qcow f h 1 q \<and> (9 \<le> cbits q \<longrightarrow> image_ok q)" if p: "qcow1_probe stk f = Done (Some q, f')"
  proof -
    have "?cb + unat (l2_bits h) \<le> 30" and "qcow_read_l1_table ?q = (True, q)"
      using p r by (auto simp: qcow1_probe_def bits Let_def split: prod.splits bool.splits if_splits)
    moreover from l1(1) [OF this(2)] this(1) have "fresh_qcow f h 1 q"
      by (auto simp: fresh_qcow_def zero_qcow_def c_simps unat_shift1 simp del: push_bit_of_1)
    ultimately show ?thesis using fresh_image_ok by auto
  qed
  show "\<exists>q f'. qcow1_probe stk f = Done (Some q, f')" if o: "openable f h 1"
  proof -
    obtain q' where "qcow_read_l1_table ?q = (True, q')" using l1(2) o by (auto simp: openable_def)
    moreover have "?cb \<noteq> 0" "\<not> 30 < be_at ?hs 32 1 + be_at ?hs 33 1" using o bits unfolding openable_def by (simp_all flip: unat_eq_0)
    ultimately show ?thesis using r by (simp add: qcow1_probe_def Let_def)
  qed
qed

lemma qcow2_probe_spec:
  assumes "benign f" and "72 \<le> length stk" and "fbytes f \<noteq> []" and "h = header_of (header_bytes stk f) 2"
  shows "qcow2_probe stk f = Done (Some q, f') \<Longrightarrow> fresh_qcow f h 2 q \<and> (9 \<le> cbits q \<longrightarrow> image_ok q)"
    and "openable f h 2 \<Longrightarrow> \<exists>q f'. qcow2_probe stk f = Done (Some q, f')"
proof -
  obtain f1 where r: "qcow2_read_header stk f = (Some h, f1)" and f1: "fbytes f1 = fbytes f" "benign f1"
    using qcow2_read_header_spec [OF assms(1-3) refl] assms(4) by blast
  let ?cb = "unat (cluster_bits h)"
  let ?q = "(zero_qcow f1 h)\<lparr>version := QCOW2_VERSION, csize_shift := 70 - ?cb,
        csize_mask := push_bit (?cb - 8) 1 - 1,
        cluster_offset_mask := push_bit (70 - ?cb) 1 - 1, cluster_size := push_bit ?cb 1\<rparr>"
  have l2: "l2_bits h = cluster_bits h - 3" unfolding assms(4) by (simp add: header_of_def)
  have q: "benign (q_fd ?q)" "fbytes (q_fd ?q) = fbytes f" "h = header ?q" using f1 by (simp_all add: zero_qcow_def)
  note l1 = read_l1_spec [OF q]
  show "fresh_qcow f h 2 q \<and> (9 \<le> cbits q \<longrightarrow> image_ok q)" if p: "qcow2_probe stk f = Done (Some q, f')"
  proof -
    obtain q1 where cb: "8 \<le> ?cb" "?cb \<le> 30" and t: "qcow_read_l1_table ?q = (True, q1)" "qcow_read_refcount_table q1 = (True, q)"
      using p r by (auto simp: qcow2_probe_def Let_def split: prod.splits bool.splits if_splits)
    obtain g1 where g1: "q1 = ?q\<lparr>table := (table ?q)\<lparr>table_size := l1_size h,
        l1_table := table_at f (l1_table_offset h) (unat (l1_size h))\<rparr>, q_fd := g1\<rparr>" "fbytes g1 = fbytes f" "benign g1"
      using l1(1) [OF t(1)] by blast
    have "benign (q_fd q1)" "fbytes (q_fd q1) = fbytes f" "h = header q1" using g1 q(3) by simp_all
    from read_refcount_spec(1) [OF this t(2)] have "fresh_qcow f h 2 q"
      using g1 cb by (auto simp: fresh_qcow_def zero_qcow_def c_simps unat_shift1 simp del: push_bit_of_1)
    moreover have "unat (l2_bits h) \<le> 30" using cb by (simp add: l2 unat_sub_if_size)
    ultimately show ?thesis using fresh_image_ok cb by blast
  qed
  show "\<exists>q f'. qcow2_probe stk f = Done (Some q, f')" if o: "openable f h 2"
  proof -
    have cb: "8 \<le> ?cb" "?cb \<le> 30" using o by (auto simp: openable_def word_le_nat_alt)
    obtain q1 where t: "qcow_read_l1_table ?q = (True, q1)" using l1(2) o by (auto simp: openable_def)
    obtain g1 where g1: "q1 = ?q\<lparr>table := (table ?q)\<lparr>table_size := l1_size h,
        l1_table := table_at f (l1_table_offset h) (unat (l1_size h))\<rparr>, q_fd := g1\<rparr>" "fbytes g1 = fbytes f" "benign g1"
      using l1(1) [OF t] by blast
    have q1: "benign (q_fd q1)" "fbytes (q_fd q1) = fbytes f" "h = header q1" using g1 q(3) by simp_all
    have "unat (ucast ((ucast (refcount_table_size h) * cluster_size q1) div 8) :: u32) = refcount_words h"
    proof -
      have s: "unat (cluster_size q1) = 2 ^ ?cb" using g1(1) cb(2) unat_shift1 [of ?cb] by (simp del: push_bit_of_1)
      have "(2 :: nat) ^ ?cb \<le> 2 ^ 30" using cb(2) by (rule power_increasing) simp
      then have "unat (refcount_table_size h) * 2 ^ ?cb < 2 ^ 64"
        using mult_le_mono [of "unat (refcount_table_size h)" "2 ^ 32" "2 ^ ?cb" "2 ^ 30"]
          unsigned_less [of "refcount_table_size h", where ?'a = nat] by simp
      then have "unat ((ucast (refcount_table_size h) * cluster_size q1) div 8) = unat (refcount_table_size h) * 2 ^ ?cb div 8"
        by (simp add: unat_div unat_word_ariths s)
      then show ?thesis by (simp add: unsigned_ucast_eq take_bit_eq_mod refcount_words_def)
    qed
    then obtain q' where "qcow_read_refcount_table q1 = (True, q')"
      using read_refcount_spec(2) [OF q1] o by (auto simp: openable_def)
    then show ?thesis using r t cb by (simp add: qcow2_probe_def Let_def)
  qed
qed

subsection \<open>Writes that allocate\<close>

lemma pwrite_negative: "off < 0 \<Longrightarrow> bs \<noteq> [] \<Longrightarrow> fst (pwrite_in_full f bs off) = None"
  by (simp add: pwrite_in_full_def pwrite_loop.simps xpwrite.simps sys_pwrite_def transient_def)

lemma write_new_cluster_negative:
  assumes "write_new_cluster fuel jk q t i (-1) cb len = Done (r, q')" and "cb \<noteq> []"
  shows "r = -1"
proof -
  have "fst (pwrite_in_full (q_fd q) cb (sint (-1 :: u64))) = None"
    by (rule pwrite_negative [OF _ assms(2)]) simp
  then show ?thesis
    using assms(1)
    by (cases "pwrite_in_full (q_fd q) cb (sint (-1 :: u64))")
      (auto simp: write_new_cluster_def Let_def bind_run_Done_iff)
qed

lemma write_needs_alloc:
  assumes "qcow_write_cluster fuel jk q offset src = Done (r, q')"
    and "get_cluster_table fuel jk q offset = Done (Some (t, i), q1)"
    and "be64_to_cpu (l2t_table t ! unat i) AND QCOW2_OFLAG_COPIED = 0"
    and "src \<noteq> []"
  shows "r = -1"
proof (cases "get_cluster_offset q offset \<ge> cluster_size q")
  case True
  then show ?thesis using assms(1) by (simp add: qcow_write_cluster_def)
next
  case False
  let ?c = "get_cluster_offset q offset"
  let ?buf = "take (min (unat (cluster_size q - ?c)) (length src)) src"
  have f: "be64_to_cpu (l2t_table t ! unat i) AND QCOW2_OFLAGS_MASK AND QCOW2_OFLAG_COPIED = 0"
    using assms(3) by (simp add: and.left_commute)
  have "cluster_size q - ?c \<noteq> 0" using False by auto
  then have "?buf \<noteq> []" using assms(4) by (simp add: unat_gt_0)
  then have ne: "overlay cb n ?buf \<noteq> []" for cb n
    by (auto simp: overlay_def)
  show ?thesis
    using assms(1,2) False f
      write_new_cluster_negative [of fuel jk _ t i "overlay _ (unat ?c) ?buf", OF _ ne]
    by (auto simp: qcow_write_cluster_def Let_def bind_run_Done_iff and.assoc
        split: if_splits option.splits)
qed

subsection \<open>Properties\<close>

text \<open>
  C30: \<open>qcow_probe\<close> follows the format.  A file that does not begin with the magic number and the version 1 or 2
  is refused.  One that does, with exponents in range and tables that begin in the file, is opened; and the state of
  any image that is opened holds what the header says at the offsets of the format: the size of the disk, the
  exponents, the place and the length of the level 1 table (of version 2 those of the refcount table), with the
  entries of these tables as they are in the file, and both caches empty.  With clusters of at least a sector it meets
  the invariant that reading relies on.  The interruptions of the reads are arbitrary, and so is what a file shorter
  than the header leaves of the stack.
\<close>

theorem qcow_probe_establishes:
  assumes "benign f" and "72 \<le> length stk"
  shows "let hs = header_bytes stk f in
    (\<forall>q f'. qcow_probe stk f = Done (Some q, f') \<longrightarrow>
      (\<exists>v\<in>{1, 2}. announces hs v \<and> fresh_qcow f (header_of hs v) v q \<and> (9 \<le> cbits q \<longrightarrow> image_ok q))) \<and>
    (\<forall>v\<in>{1, 2}. fbytes f \<noteq> [] \<and> announces hs v \<and> openable f (header_of hs v) v \<longrightarrow>
      (\<exists>q f'. qcow_probe stk f = Done (Some q, f'))) \<and>
    (fbytes f = [] \<or> \<not> announces hs 1 \<and> \<not> announces hs 2 \<longrightarrow> (\<exists>f'. qcow_probe stk f = Done (None, f')))"
proof -
  let ?hs = "header_bytes stk f"
  obtain f1 where c1: "qcow1_check_image stk f = (fbytes f \<noteq> [] \<and> announces ?hs 1, f1)" "fbytes f1 = fbytes f" "benign f1"
    using check_image_spec(1) [OF assms] by blast
  obtain f2 where c2: "qcow2_check_image stk f1 = (fbytes f \<noteq> [] \<and> announces ?hs 2, f2)" "fbytes f2 = fbytes f" "benign f2"
    using check_image_spec(2) [OF c1(3) assms(2)] c1(2) by (auto simp: table_cong [OF c1(2)])
  have p: "qcow_probe stk f = (if fbytes f \<noteq> [] \<and> announces ?hs 1 then qcow1_probe stk f1
      else if fbytes f \<noteq> [] \<and> announces ?hs 2 then qcow2_probe stk f2 else Done (None, f2))"
    using c1(1) c2(1) by (simp add: qcow_probe_def)
  have excl: "announces ?hs 1 \<Longrightarrow> \<not> announces ?hs 2" by (simp add: announces_def)
  have s1: "qcow1_probe stk f1 = Done (Some q, f') \<Longrightarrow> fresh_qcow f (header_of ?hs 1) 1 q \<and> (9 \<le> cbits q \<longrightarrow> image_ok q)"
    "openable f (header_of ?hs 1) 1 \<Longrightarrow> \<exists>q f'. qcow1_probe stk f1 = Done (Some q, f')" if "fbytes f \<noteq> []" for q f'
    using qcow1_probe_spec [OF c1(3) assms(2)] c1(2) that by (simp_all add: table_cong [OF c1(2)])
  have s2: "qcow2_probe stk f2 = Done (Some q, f') \<Longrightarrow> fresh_qcow f (header_of ?hs 2) 2 q \<and> (9 \<le> cbits q \<longrightarrow> image_ok q)"
    "openable f (header_of ?hs 2) 2 \<Longrightarrow> \<exists>q f'. qcow2_probe stk f2 = Done (Some q, f')" if "fbytes f \<noteq> []" for q f'
    using qcow2_probe_spec [OF c2(3) assms(2)] c2(2) that by (simp_all add: table_cong [OF c2(2)])
  show ?thesis unfolding Let_def
  proof (intro conjI)
    show "\<forall>q f'. qcow_probe stk f = Done (Some q, f') \<longrightarrow>
      (\<exists>v\<in>{1, 2}. announces ?hs v \<and> fresh_qcow f (header_of ?hs v) v q \<and> (9 \<le> cbits q \<longrightarrow> image_ok q))"
      using s1(1) s2(1) by (auto simp: p split: if_split_asm)
    show "\<forall>v\<in>{1, 2}. fbytes f \<noteq> [] \<and> announces ?hs v \<and> openable f (header_of ?hs v) v \<longrightarrow>
      (\<exists>q f'. qcow_probe stk f = Done (Some q, f'))"
      using s1(2) s2(2) excl by (auto simp: p)
  qed (auto simp: p)
qed

definition sample_file :: fdesc where
  "sample_file =
     \<lparr>fbytes = [0x51, 0x46, 0x49, 0xFB, 0, 0, 0, 1] @ replicate 22 0 @ [4, 0, 9, 1] @ replicate 13 0 @
        [48, 0, 0, 0, 0, 0, 0, 0, 56],
      fpos = 0, fscript = [SMax 5, SErr EAGAIN]\<rparr>"

lemma sample_header_bytes:
  "header_bytes (replicate 104 0) sample_file =
     [0x51, 0x46, 0x49, 0xFB, 0, 0, 0, 1, 0, 0, 0, 0, 0, 0, 0, 0, 0, 0, 0, 0, 0, 0, 0, 0, 0, 0, 0, 0, 0, 0, 4, 0, 9, 1,
      0, 0, 0, 0, 0, 0, 0, 0, 0, 0, 0, 0, 0, 48, 0, 0, 0, 0, 0, 0, 0, 56] @ replicate 48 0"
  by code_simp

lemma image_header:
  "announces (header_bytes (replicate 104 0) sample_file) 1" "\<not> announces (header_bytes (replicate 104 0) sample_file) 2"
  "header_of (header_bytes (replicate 104 0) sample_file) 1 =
     \<lparr>hd_size = 1024, l1_table_offset = 48, l1_size = 1, cluster_bits = 9, l2_bits = 1,
      refcount_table_offset = 0, refcount_table_size = 0\<rparr>"
  unfolding sample_header_bytes by (simp_all add: announces_def header_of_def be_at_def be_number_def)

theorem qcow_probe_establishes_witness:
  "\<exists>q f'. qcow_probe (replicate 104 0) sample_file = Done (Some q, f') \<and> image_ok q \<and> hd_size (header q) = 1024"
proof -
  let ?hs = "header_bytes (replicate 104 0) sample_file"
  have b: "benign sample_file" "72 \<le> length (replicate 104 (0 :: u8))" by (simp_all add: benign_def sample_file_def transient_def)
  note p = qcow_probe_establishes [OF b, unfolded Let_def]
  have "fbytes sample_file \<noteq> []" by (simp add: sample_file_def)
  moreover have "openable sample_file (header_of ?hs 1) 1"
    unfolding image_header(3) by (simp add: openable_def table_stored_def sample_file_def)
  ultimately obtain q f' where q: "qcow_probe (replicate 104 0) sample_file = Done (Some q, f')"
    using p image_header(1) by blast
  then have "fresh_qcow sample_file (header_of ?hs 1) 1 q \<and> (9 \<le> cbits q \<longrightarrow> image_ok q)"
    using p image_header(2) by blast
  then show ?thesis using q image_header(3) by (auto simp: fresh_qcow_def cbits_def)
qed

text \<open>
  A write to a cluster that is not marked as copied, so that a new cluster is needed, never
  succeeds: the allocator's result is tested the wrong way round, so a cluster that was allocated is
  taken for a failure, and a failed allocation is written at offset -1.
\<close>

theorem qcow_write_unallocated_fails:
  assumes "qcow_write_cluster fuel jk q offset src = Done (r, q')"
    and "get_cluster_table fuel jk q offset = Done (Some (t, i), q1)"
    and "be64_to_cpu (l2t_table t ! unat i) AND QCOW2_OFLAG_COPIED = 0"
    and "src \<noteq> []"
  shows "r = -1"
  using assms by (rule write_needs_alloc)

definition sample_shared :: qcow where
  "sample_shared = sample_image
     \<lparr>table := (table sample_image)\<lparr>l1_table := [0x0800000000000080]\<rparr>,
      q_fd := \<lparr>fbytes = replicate 15 0 @ [24] @ replicate 8 0, fpos = 0, fscript = []\<rparr>\<rparr>"

theorem qcow_write_unallocated_fails_witness:
  "\<exists>q'. qcow_write_cluster 9 [] sample_shared 0 [1, 2] = Done (-1, q')"
proof -
  have w: "case qcow_write_cluster 9 [] sample_shared 0 [1, 2] of Done _ \<Rightarrow> True | _ \<Rightarrow> False"
    by code_simp
  have t: "case get_cluster_table 9 [] sample_shared 0 of
      Done (Some (t, i), q1) \<Rightarrow> be64_to_cpu (l2t_table t ! unat i) AND QCOW2_OFLAG_COPIED = 0 | _ \<Rightarrow> False"
    by code_simp
  obtain r q' where r: "qcow_write_cluster 9 [] sample_shared 0 [1, 2] = Done (r, q')"
    using w by (cases "qcow_write_cluster 9 [] sample_shared 0 [1, 2]") auto
  obtain u i q1 where g: "get_cluster_table 9 [] sample_shared 0 = Done (Some (u, i), q1)"
      "be64_to_cpu (l2t_table u ! unat i) AND QCOW2_OFLAG_COPIED = 0"
    using t by (cases "get_cluster_table 9 [] sample_shared 0") (auto split: option.splits)
  have "r = -1" using qcow_write_unallocated_fails [OF r g(1) g(2)] by simp
  then show ?thesis using r by blast
qed

end
