(* ===== verification/DiskProofs.thy ===== *)
theory DiskProofs
  imports Disk VecIoProofs QcowProofs
begin

text \<open>
  The contract of a disk backend, as a locale: a read of a range it is ready for fills the buffers
  with the disk's contents, in order, and changes neither the contents nor what it is ready for.  A
  writable backend is in addition an array of bytes.  The raw, the mapped and the QCOW operations
  are interpretations, and the properties of the layer above follow for all of them.
\<close>

subsection \<open>The contract\<close>

type_synonym 's reader = "nat \<Rightarrow> 's \<Rightarrow> mem \<Rightarrow> u64 \<Rightarrow> iovec list \<Rightarrow> int \<Rightarrow> (int \<times> mem \<times> 's) run"
type_synonym 's writer = "nat \<Rightarrow> 's \<Rightarrow> mem \<Rightarrow> u64 \<Rightarrow> iovec list \<Rightarrow> int \<Rightarrow> (int \<times> 's) run"

locale block_backend =
  fixes read_op :: "'s reader"
    and content :: "'s \<Rightarrow> u64 \<Rightarrow> nat \<Rightarrow> u8 list"
    and ready :: "nat \<Rightarrow> 's \<Rightarrow> u64 \<Rightarrow> nat \<Rightarrow> bool"
  assumes read_law: "ready fuel d sector (iov_total vs) \<Longrightarrow> whole_sectors vs \<Longrightarrow> 0 < iov_len w \<Longrightarrow>
    \<exists>d'. read_op fuel d m sector (vs @ w # rest) (int (length vs)) =
        Done (int (iov_total vs), scatter m vs (content d sector (iov_total vs)), d') \<and>
      (\<forall>s n. content d' s n = content d s n) \<and> (\<forall>s n. ready fuel d s n \<longrightarrow> ready fuel d' s n)"
begin

text \<open>A series of reads sees one disk: each returns what the first state held.\<close>

primrec read_series :: "nat \<Rightarrow> 's \<Rightarrow> mem \<Rightarrow> iovec \<Rightarrow> (u64 \<times> iovec list) list \<Rightarrow> (mem \<times> 's) run" where
  "read_series fuel d m w [] = Done (m, d)"
| "read_series fuel d m w (r # rs) =
     bind_run (read_op fuel d m (fst r) (snd r @ [w]) (int (length (snd r)))) (\<lambda>(n, m', d').
       read_series fuel d' m' w rs)"

lemma read_series_static:
  assumes "\<forall>(s, vs)\<in>set rs. ready fuel d s (iov_total vs) \<and> whole_sectors vs" and "0 < iov_len w"
  shows "\<exists>d'. read_series fuel d m w rs =
      Done (fold (\<lambda>(s, vs) m. scatter m vs (content d s (iov_total vs))) rs m, d') \<and>
    (\<forall>s n. content d' s n = content d s n)"
  using assms
proof (induction rs arbitrary: d m)
  case Nil
  then show ?case by simp
next
  case (Cons r rs)
  obtain s vs where r: "r = (s, vs)" by (cases r)
  obtain d1 where d1: "read_op fuel d m s (vs @ [w]) (int (length vs)) =
        Done (int (iov_total vs), scatter m vs (content d s (iov_total vs)), d1)"
      and c1: "\<forall>s n. content d1 s n = content d s n" "\<forall>s n. ready fuel d s n \<longrightarrow> ready fuel d1 s n"
    using read_law [of fuel d s vs w m "[]"] Cons.prems r by auto
  have "\<forall>(s, vs)\<in>set rs. ready fuel d1 s (iov_total vs) \<and> whole_sectors vs"
    using Cons.prems(1) c1(2) by auto
  from Cons.IH [OF this Cons.prems(2), of "scatter m vs (content d s (iov_total vs))"] show ?case
    using d1 c1(1) r by auto
qed

end

lemma take_overlay_before: "a + k \<le> b \<Longrightarrow> a + k \<le> length xs \<Longrightarrow> take k (drop a (overlay xs b ys)) = take k (drop a xs)"
  by (rule nth_equalityI) (auto simp: length_overlay nth_overlay)

lemma take_overlay_after:
  "b + length ys \<le> a \<Longrightarrow> a + k \<le> length xs \<Longrightarrow> take k (drop a (overlay xs b ys)) = take k (drop a xs)"
  by (rule nth_equalityI) (auto simp: length_overlay nth_overlay)

locale writable_backend = block_backend read_op content ready
  for read_op :: "'s reader" and content :: "'s \<Rightarrow> u64 \<Rightarrow> nat \<Rightarrow> u8 list"
    and ready :: "nat \<Rightarrow> 's \<Rightarrow> u64 \<Rightarrow> nat \<Rightarrow> bool" +
  fixes write_op :: "'s writer"
    and contents :: "'s \<Rightarrow> u8 list"
  assumes content_slice: "ready fuel d s n \<Longrightarrow>
      content d s n = take n (drop (512 * unat s) (contents d)) \<and> 512 * unat s + n \<le> length (contents d)"
    and write_law: "ready fuel d sector (iov_total vs) \<Longrightarrow> whole_sectors vs \<Longrightarrow> 0 < iov_len w \<Longrightarrow>
    \<exists>d'. write_op fuel d m sector (vs @ w # rest) (int (length vs)) = Done (int (iov_total vs), d') \<and>
      contents d' = overlay (contents d) (512 * unat sector) (gather m vs) \<and>
      (\<forall>s n. ready fuel d s n \<longrightarrow> ready fuel d' s n)"
begin

lemma write_read:
  assumes "ready fuel d sector (iov_total vs)" and "whole_sectors vs" and "0 < iov_len w"
    and "whole_sectors us" and "iov_total us = iov_total vs"
  shows "\<exists>d' d''. write_op fuel d m sector (vs @ w # rest) (int (length vs)) = Done (int (iov_total vs), d') \<and>
    read_op fuel d' m' sector (us @ w # rest) (int (length us)) =
      Done (int (iov_total vs), scatter m' us (gather m vs), d'')"
proof -
  obtain d' where d': "write_op fuel d m sector (vs @ w # rest) (int (length vs)) = Done (int (iov_total vs), d')"
      "contents d' = overlay (contents d) (512 * unat sector) (gather m vs)"
      "ready fuel d' sector (iov_total us)"
    using write_law [OF assms(1-3), of m rest] assms(1,5) by auto
  have "content d' sector (iov_total us) = gather m vs"
    using content_slice [OF d'(3)] d'(2) assms(5) slice_overlay [of "gather m vs" "512 * unat sector" "contents d"]
    by simp
  then show ?thesis
    using d' read_law [OF d'(3) assms(4,3), of m' rest] assms(5) by auto
qed

lemma write_content:
  assumes "ready fuel d sector (iov_total vs)" and "whole_sectors vs" and "0 < iov_len w"
  shows "\<exists>d'. write_op fuel d m sector (vs @ w # rest) (int (length vs)) = Done (int (iov_total vs), d') \<and>
    content d' sector (iov_total vs) = gather m vs \<and> ready fuel d' sector (iov_total vs)"
proof -
  obtain d' where d': "write_op fuel d m sector (vs @ w # rest) (int (length vs)) = Done (int (iov_total vs), d')"
      "contents d' = overlay (contents d) (512 * unat sector) (gather m vs)" "ready fuel d' sector (iov_total vs)"
    using write_law [OF assms, of m rest] assms(1) by auto
  then show ?thesis
    using content_slice [OF d'(3)] slice_overlay [of "gather m vs" "512 * unat sector" "contents d"] by simp
qed

lemma write_elsewhere:
  assumes "ready fuel d sector (iov_total vs)" and "whole_sectors vs" and "0 < iov_len w"
    and "ready fuel d s n"
    and "512 * unat s + n \<le> 512 * unat sector \<or> 512 * unat sector + iov_total vs \<le> 512 * unat s"
    and "write_op fuel d m sector (vs @ w # rest) (int (length vs)) = Done (r, d')"
  shows "content d' s n = content d s n"
proof -
  have d': "contents d' = overlay (contents d) (512 * unat sector) (gather m vs)" "ready fuel d' s n"
    using write_law [OF assms(1-3), of m rest] assms(4,6) by auto
  show ?thesis
    using content_slice [OF d'(2)] content_slice [OF assms(4)] d'(1) assms(5)
      take_overlay_before [of "512 * unat s" n "512 * unat sector" "contents d" "gather m vs"]
      take_overlay_after [of "512 * unat sector" "gather m vs" "512 * unat s" n "contents d"]
    by auto
qed

end

subsection \<open>Raw images through the file descriptor\<close>

definition raw_ready :: "nat \<Rightarrow> disk_image \<Rightarrow> u64 \<Rightarrow> nat \<Rightarrow> bool" where
  "raw_ready fuel d s n \<longleftrightarrow>
     benign (dk_fd d) \<and> length (fscript (dk_fd d)) < fuel \<and> unat s < 2 ^ 54 \<and>
     512 * unat s + n \<le> length (fbytes (dk_fd d))"

definition raw_content :: "disk_image \<Rightarrow> u64 \<Rightarrow> nat \<Rightarrow> u8 list" where
  "raw_content d s n = file_slice (dk_fd d) n (sector_pos s)"

abbreviation raw_bytes :: "disk_image \<Rightarrow> u8 list" where
  "raw_bytes d \<equiv> fbytes (dk_fd d)"

lemma sector_offset_unat: "unat (s :: u64) < 2 ^ 54 \<Longrightarrow> unat (push_bit SECTOR_SHIFT s) = 512 * unat s"
  using sector_offset_nat [of s] by simp

lemma sector_pos_nat:
  assumes "unat s < 2 ^ 54"
  shows "sector_pos s = int (512 * unat s)"
proof -
  have "unat (push_bit SECTOR_SHIFT s) < 2 ^ 63" using assms by (simp add: sector_offset_unat)
  then show ?thesis using assms unfolding sector_pos_def by (simp add: sint_small sector_offset_unat)
qed

lemma nat_sector_pos: "unat s < 2 ^ 54 \<Longrightarrow> nat (sector_pos s) = 512 * unat s \<and> 0 \<le> sector_pos s"
  by (simp only: sector_pos_nat nat_int) simp

lemma whole_sectors_sizes: "whole_sectors vs \<Longrightarrow> iov_sizes_ok vs"
  by (fastforce simp: whole_sectors_def iov_sizes_ok_def)

lemma raw_read_law:
  assumes "raw_ready fuel d s (iov_total vs)" and "whole_sectors vs" and "0 < iov_len w"
  shows "\<exists>d'. raw_image__read_sync fuel d m s (vs @ w # rest) (int (length vs)) =
        Done (int (iov_total vs), scatter m vs (raw_content d s (iov_total vs)), d') \<and>
      (\<forall>s n. raw_content d' s n = raw_content d s n) \<and> (\<forall>s n. raw_ready fuel d s n \<longrightarrow> raw_ready fuel d' s n)"
proof -
  have c: "benign (dk_fd d)" "covers (dk_fd d) (sector_pos s) (iov_total vs)" "length (fscript (dk_fd d)) < fuel"
    using assms(1) by (simp_all add: raw_ready_def covers_def nat_sector_pos)
  from preadv_in_full_covered [OF c(1,2) assms(3) whole_sectors_sizes [OF assms(2)] c(3), of m rest]
  obtain f' where f': "preadv_in_full fuel (dk_fd d) m (vs @ w # rest) (int (length vs)) (sector_pos s) =
        Done (Some (iov_total vs), scatter m vs (raw_content d s (iov_total vs)), f')"
      "fbytes f' = fbytes (dk_fd d)" "benign f'" "length (fscript f') \<le> length (fscript (dk_fd d))"
    unfolding raw_content_def by blast
  then show ?thesis
    by (auto simp: raw_image__read_sync_def result_of_def raw_content_def raw_ready_def file_slice_def)
qed

lemma file_put_overlay: "off = int b \<Longrightarrow> b \<le> length xs \<Longrightarrow> file_put xs off ys = overlay xs b ys"
  by (auto simp: file_put_def overlay_Nil)

lemma raw_write_law:
  assumes "raw_ready fuel d s (iov_total vs)" and "0 < iov_len w"
  shows "\<exists>d'. raw_image__write_sync fuel d m s (vs @ w # rest) (int (length vs)) = Done (int (iov_total vs), d') \<and>
      raw_bytes d' = overlay (raw_bytes d) (512 * unat s) (gather m vs) \<and>
      (\<forall>s n. raw_ready fuel d s n \<longrightarrow> raw_ready fuel d' s n)"
proof -
  have c: "benign (dk_fd d)" "0 \<le> sector_pos s" "length (fscript (dk_fd d)) < fuel"
    using assms(1) by (simp_all add: raw_ready_def nat_sector_pos)
  from pwritev_in_full_benign [OF c(1,2) assms(2) c(3), of m vs rest] obtain f' where
    f': "pwritev_in_full fuel (dk_fd d) m (vs @ w # rest) (int (length vs)) (sector_pos s) =
        Done (Some (iov_total vs), f')" "benign f'" "length (fscript f') \<le> length (fscript (dk_fd d))"
      "fbytes f' = file_put (fbytes (dk_fd d)) (sector_pos s) (gather m vs)"
    by blast
  have "fbytes f' = overlay (raw_bytes d) (512 * unat s) (gather m vs)"
    unfolding f'(4) using assms(1) by (intro file_put_overlay) (simp_all add: raw_ready_def sector_pos_nat)
  then show ?thesis using f'(1-3)
    by (auto simp: raw_image__write_sync_def result_of_def raw_ready_def length_overlay)
qed

interpretation raw: writable_backend raw_image__read_sync raw_content raw_ready raw_image__write_sync raw_bytes
  by unfold_locales
    (use raw_read_law raw_write_law in \<open>auto simp: raw_content_def raw_ready_def file_slice_def nat_sector_pos\<close>)

subsection \<open>Raw images through a private mapping\<close>

fun map_bytes :: "disk_priv \<Rightarrow> u8 list" where
  "map_bytes (PMap p) = p"
| "map_bytes _ = []"

definition map_ready :: "nat \<Rightarrow> disk_image \<Rightarrow> u64 \<Rightarrow> nat \<Rightarrow> bool" where
  "map_ready fuel d s n \<longleftrightarrow> (\<exists>p. dk_priv d = PMap p) \<and> unat s < 2 ^ 54 \<and>
     length (map_bytes (dk_priv d)) < 2 ^ 64 \<and> 512 * unat s + n \<le> length (map_bytes (dk_priv d))"

definition map_content :: "disk_image \<Rightarrow> u64 \<Rightarrow> nat \<Rightarrow> u8 list" where
  "map_content d s n = take n (drop (512 * unat s) (map_bytes (dk_priv d)))"

lemma mmap_read_ok:
  assumes "unat offset + iov_total vs \<le> length p" and "length p < 2 ^ 64"
  shows "mmap_read p m offset (vs @ w # rest) (int (length vs)) tot =
    Done (tot + iov_total vs, scatter m vs (take (iov_total vs) (drop (unat offset) p)))"
  using assms
proof (induction vs arbitrary: m offset tot)
  case Nil
  then show ?case by simp
next
  case (Cons v vs)
  have u: "unat (offset + of_nat (iov_len v)) = unat offset + iov_len v"
    using Cons.prems by (intro unat_add_of_nat) simp
  have "take (iov_len v) (take (iov_total (v # vs)) (drop (unat offset) p)) = take (iov_len v) (drop (unat offset) p)"
    by simp
  moreover have "drop (iov_len v) (take (iov_total (v # vs)) (drop (unat offset) p)) =
      take (iov_total vs) (drop (unat (offset + of_nat (iov_len v))) p)"
    by (simp add: u drop_take add.commute)
  ultimately show ?case
    using Cons.prems Cons.IH [of "offset + of_nat (iov_len v)" "stn m (iov_base v) (take (iov_len v) (drop (unat offset) p))"
        "tot + iov_len v"] u
    by (simp add: add.assoc)
qed

lemma overlay_length_same: "b + length ys \<le> length xs \<Longrightarrow> length (overlay xs b ys) = length xs"
  by (simp add: length_overlay)

lemma mmap_write_ok:
  assumes "unat offset + iov_total vs \<le> length p" and "length p < 2 ^ 64"
  shows "mmap_write p m offset (vs @ w # rest) (int (length vs)) tot =
    Done (tot + iov_total vs, overlay p (unat offset) (gather m vs))"
  using assms
proof (induction vs arbitrary: p offset tot)
  case Nil
  then show ?case by (simp add: gather_def overlay_Nil)
next
  case (Cons v vs)
  let ?bs = "ldn m (iov_base v) (iov_len v)"
  have u: "unat (offset + of_nat (iov_len v)) = unat offset + iov_len v"
    using Cons.prems by (intro unat_add_of_nat) simp
  have p: "(if iov_len v = 0 then p else overlay p (unat offset) ?bs) = overlay p (unat offset) ?bs"
  proof (cases "iov_len v = 0")
    case True
    then have "?bs = []" using length_ldn [of m "iov_base v" 0] by (simp add: ldn_def)
    then show ?thesis using True Cons.prems by (simp add: overlay_Nil)
  qed simp
  have g: "gather m (v # vs) = ?bs @ gather m vs" by (simp add: gather_def)
  have "overlay (overlay p (unat offset) ?bs) (unat offset + iov_len v) (gather m vs) =
      overlay p (unat offset) (gather m (v # vs))"
    unfolding g using overlay_append [of p "unat offset" ?bs "gather m vs"] by simp
  then show ?case
    using Cons.prems Cons.IH [of "offset + of_nat (iov_len v)" "overlay p (unat offset) ?bs" "tot + iov_len v"] u p
    by (simp add: overlay_length_same)
qed

lemma map_read_law:
  assumes "map_ready fuel d s (iov_total vs)"
  shows "\<exists>d'. raw_image__read_mmap d m s (vs @ w # rest) (int (length vs)) =
        Done (int (iov_total vs), scatter m vs (map_content d s (iov_total vs)), d') \<and>
      (\<forall>s n. map_content d' s n = map_content d s n) \<and> (\<forall>s n. map_ready fuel d s n \<longrightarrow> map_ready fuel d' s n)"
  using assms mmap_read_ok [of "push_bit SECTOR_SHIFT s" vs "map_bytes (dk_priv d)" m w rest 0]
  by (auto simp: raw_image__read_mmap_def map_ready_def map_content_def sector_offset_unat)

lemma map_write_law:
  assumes "map_ready fuel d s (iov_total vs)"
  shows "\<exists>d'. raw_image__write_mmap d m s (vs @ w # rest) (int (length vs)) = Done (int (iov_total vs), d') \<and>
      map_bytes (dk_priv d') = overlay (map_bytes (dk_priv d)) (512 * unat s) (gather m vs) \<and>
      (\<forall>s n. map_ready fuel d s n \<longrightarrow> map_ready fuel d' s n)"
  using assms mmap_write_ok [of "push_bit SECTOR_SHIFT s" vs "map_bytes (dk_priv d)" m w rest 0]
  by (auto simp: raw_image__write_mmap_def map_ready_def sector_offset_unat overlay_length_same)

interpretation mapped: writable_backend "\<lambda>fuel. raw_image__read_mmap" map_content map_ready
  "\<lambda>fuel. raw_image__write_mmap" "\<lambda>d. map_bytes (dk_priv d)"
  by unfold_locales (use map_read_law map_write_law in \<open>auto simp: map_content_def map_ready_def\<close>)

subsection \<open>QCOW images\<close>

definition image_qcow :: "disk_image \<Rightarrow> qcow" where
  "image_qcow d = (case dk_priv d of PQcow q \<Rightarrow> q\<lparr>q_fd := dk_fd d\<rparr> | _ \<Rightarrow> undefined)"

definition qcow_ready :: "nat \<Rightarrow> disk_image \<Rightarrow> u64 \<Rightarrow> nat \<Rightarrow> bool" where
  "qcow_ready fuel d s n \<longleftrightarrow> (\<exists>q. dk_priv d = PQcow q) \<and> image_ok (image_qcow d) \<and> readable (image_qcow d) s n"

definition qcow_disk_content :: "disk_image \<Rightarrow> u64 \<Rightarrow> nat \<Rightarrow> u8 list" where
  "qcow_disk_content d s n = qcow_content (image_qcow d) (push_bit SECTOR_SHIFT s) n"

lemma image_qcow_set: "image_qcow (set_qcow q d) = q"
  by (simp add: image_qcow_def set_qcow_def)

lemma qcow_read_law:
  assumes "qcow_ready fuel d s (iov_total vs)" and "whole_sectors vs"
  shows "\<exists>d'. qcow_op_read fuel d m s (vs @ w # rest) (int (length vs)) =
        Done (int (iov_total vs), scatter m vs (qcow_disk_content d s (iov_total vs)), d') \<and>
      (\<forall>s n. qcow_disk_content d' s n = qcow_disk_content d s n) \<and>
      (\<forall>s n. qcow_ready fuel d s n \<longrightarrow> qcow_ready fuel d' s n)"
proof -
  obtain q where q: "dk_priv d = PQcow q" using assms(1) by (auto simp: qcow_ready_def)
  obtain q' where q': "qcow_read_sector (image_qcow d) m s (vs @ w # rest) (int (length vs)) 0 =
      Done (int (iov_total vs), scatter m vs (qcow_disk_content d s (iov_total vs)), q')"
      "image_ok q'" "same_image (image_qcow d) q'"
    using qcow_read_sector_spec [of "image_qcow d" s vs m "w # rest" 0] assms
    by (auto simp: qcow_ready_def qcow_disk_content_def)
  have "qcow_op_read fuel d m s (vs @ w # rest) (int (length vs)) =
      Done (int (iov_total vs), scatter m vs (qcow_disk_content d s (iov_total vs)), set_qcow q' d)"
    using q q'(1) by (simp add: qcow_op_read_def with_qcow_def image_qcow_def)
  moreover have "dk_priv (set_qcow q' d) = PQcow q'" by (simp add: set_qcow_def)
  ultimately show ?thesis
    using q'(2) same_image_simps(13) [OF q'(3)] same_image_readable [OF q'(3)]
    by (auto simp: qcow_ready_def qcow_disk_content_def image_qcow_set)
qed

interpretation qcow_be: block_backend qcow_op_read qcow_disk_content qcow_ready
  by unfold_locales (use qcow_read_law in auto)

subsection \<open>The layer above\<close>

definition disk_ready :: "nat \<Rightarrow> disk_image \<Rightarrow> u64 \<Rightarrow> nat \<Rightarrow> bool" where
  "disk_ready fuel d s n =
     (case dk_ops d of
        Ro_ops \<Rightarrow> map_ready fuel d s n
      | Qcow_disk_ops \<Rightarrow> qcow_ready fuel d s n
      | Qcow_disk_readonly_ops \<Rightarrow> qcow_ready fuel d s n
      | _ \<Rightarrow> raw_ready fuel d s n)"

definition disk_content :: "disk_image \<Rightarrow> u64 \<Rightarrow> nat \<Rightarrow> u8 list" where
  "disk_content d s n =
     (case dk_ops d of
        Ro_ops \<Rightarrow> map_content d s n
      | Qcow_disk_ops \<Rightarrow> qcow_disk_content d s n
      | Qcow_disk_readonly_ops \<Rightarrow> qcow_disk_content d s n
      | _ \<Rightarrow> raw_content d s n)"

definition acknowledged :: "disk_image \<Rightarrow> int \<Rightarrow> int option" where
  "acknowledged d r = (if \<not> dk_async d \<and> dk_req_cb d then Some r else None)"

lemma read_keeps:
  "raw_image__read_sync fuel d m s iov n = Done (r, m', d') \<Longrightarrow>
     dk_ops d' = dk_ops d \<and> dk_async d' = dk_async d \<and> dk_req_cb d' = dk_req_cb d"
  "raw_image__read_mmap d m s iov n = Done (r, m', d') \<Longrightarrow>
     dk_ops d' = dk_ops d \<and> dk_async d' = dk_async d \<and> dk_req_cb d' = dk_req_cb d"
  "qcow_op_read fuel d m s iov n = Done (r, m', d') \<Longrightarrow>
     dk_ops d' = dk_ops d \<and> dk_async d' = dk_async d \<and> dk_req_cb d' = dk_req_cb d"
  by (auto simp: raw_image__read_sync_def raw_image__read_mmap_def qcow_op_read_def with_qcow_def set_qcow_def
      bind_run_Done_iff split: disk_priv.splits)

lemma write_keeps:
  "raw_image__write_sync fuel d m s iov n = Done (r, d') \<Longrightarrow>
     dk_ops d' = dk_ops d \<and> dk_async d' = dk_async d \<and> dk_req_cb d' = dk_req_cb d"
  "raw_image__write_mmap d m s iov n = Done (r, d') \<Longrightarrow>
     dk_ops d' = dk_ops d \<and> dk_async d' = dk_async d \<and> dk_req_cb d' = dk_req_cb d"
  by (auto simp: raw_image__write_sync_def raw_image__write_mmap_def bind_run_Done_iff split: disk_priv.splits)

locale disk_backend = block_backend read_op content ready
  for read_op :: "disk_image reader" and content :: "disk_image \<Rightarrow> u64 \<Rightarrow> nat \<Rightarrow> u8 list"
    and ready :: "nat \<Rightarrow> disk_image \<Rightarrow> u64 \<Rightarrow> nat \<Rightarrow> bool" +
  assumes keeps: "read_op fuel d m s iov n = Done (r, m', d') \<Longrightarrow>
     dk_ops d' = dk_ops d \<and> dk_async d' = dk_async d \<and> dk_req_cb d' = dk_req_cb d"
begin

lemma disk_read:
  assumes "op_read (ops_of (dk_ops d)) = Some read_op" and "ready fuel d s (iov_total vs)"
    and "whole_sectors vs" and "0 < iov_len w"
  shows "\<exists>d'. disk_image__read fuel d m s (vs @ w # rest) (int (length vs)) =
      Done (int (iov_total vs), acknowledged d (int (iov_total vs)),
        scatter m vs (content d s (iov_total vs)), d') \<and>
    dk_ops d' = dk_ops d \<and> dk_async d' = dk_async d \<and> dk_req_cb d' = dk_req_cb d \<and>
    (\<forall>s n. content d' s n = content d s n) \<and> (\<forall>s n. ready fuel d s n \<longrightarrow> ready fuel d' s n)"
proof -
  obtain d' where d': "read_op fuel d m s (vs @ w # rest) (int (length vs)) =
        Done (int (iov_total vs), scatter m vs (content d s (iov_total vs)), d')"
      "\<forall>s n. content d' s n = content d s n" "\<forall>s n. ready fuel d s n \<longrightarrow> ready fuel d' s n"
    using read_law [OF assms(2-4), of m rest] by blast
  then show ?thesis using assms(1) keeps [OF d'(1)]
    by (auto simp: disk_image__read_def acknowledged_def)
qed

end

interpretation raw_disk: disk_backend raw_image__read_sync raw_content raw_ready
  by unfold_locales (rule read_keeps)

interpretation map_disk: disk_backend "\<lambda>fuel. raw_image__read_mmap" map_content map_ready
  by unfold_locales (rule read_keeps)

interpretation qcow_disk: disk_backend qcow_op_read qcow_disk_content qcow_ready
  by unfold_locales (rule read_keeps)

lemma disk_read_ok:
  assumes "disk_ready fuel d s (iov_total vs)" and "whole_sectors vs" and "0 < iov_len w"
  shows "\<exists>d'. disk_image__read fuel d m s (vs @ w # rest) (int (length vs)) =
      Done (int (iov_total vs), acknowledged d (int (iov_total vs)),
        scatter m vs (disk_content d s (iov_total vs)), d') \<and>
    dk_ops d' = dk_ops d \<and> dk_async d' = dk_async d \<and> dk_req_cb d' = dk_req_cb d \<and>
    (\<forall>s n. disk_content d' s n = disk_content d s n) \<and> (\<forall>s n. disk_ready fuel d s n \<longrightarrow> disk_ready fuel d' s n)"
proof (cases "dk_ops d = Ro_ops")
  case True
  then have "op_read (ops_of (dk_ops d)) = Some (\<lambda>fuel. raw_image__read_mmap)" "map_ready fuel d s (iov_total vs)"
    using assms(1) by (simp_all add: disk_ready_def ops_tables)
  from map_disk.disk_read [OF this assms(2,3), of m rest] True show ?thesis
    by (auto simp: disk_ready_def disk_content_def)
next
  case nro: False
  show ?thesis
  proof (cases "dk_ops d = Qcow_disk_ops \<or> dk_ops d = Qcow_disk_readonly_ops")
    case True
    then have "op_read (ops_of (dk_ops d)) = Some qcow_op_read" "qcow_ready fuel d s (iov_total vs)"
      using assms(1) by (auto simp: disk_ready_def ops_tables)
    from qcow_disk.disk_read [OF this assms(2,3), of m rest] True show ?thesis
      by (auto simp: disk_ready_def disk_content_def)
  next
    case False
    then have "op_read (ops_of (dk_ops d)) = Some raw_image__read_sync" "raw_ready fuel d s (iov_total vs)"
      using assms(1) nro by (cases "dk_ops d"; simp add: disk_ready_def ops_tables)+
    from raw_disk.disk_read [OF this assms(2,3), of m rest] False nro show ?thesis
      by (cases "dk_ops d") (auto simp: disk_ready_def disk_content_def)
  qed
qed

lemma disk_write_ok:
  assumes "dk_ops d \<in> {Raw_image_regular_ops, Blk_dev_ops, Ro_ops}"
    and "disk_ready fuel d s (iov_total vs)" and "whole_sectors vs" and "0 < iov_len w"
  shows "\<exists>d'. disk_image__write fuel jk d m s (vs @ w # rest) (int (length vs)) =
      Done (int (iov_total vs), acknowledged d (int (iov_total vs)), d') \<and>
    disk_content d' s (iov_total vs) = gather m vs \<and> disk_ready fuel d' s (iov_total vs)"
proof (cases "dk_ops d = Ro_ops")
  case True
  then have "map_ready fuel d s (iov_total vs)" using assms(2) by (simp add: disk_ready_def)
  from mapped.write_content [OF this assms(3,4), of m rest] obtain d' where d':
    "raw_image__write_mmap d m s (vs @ w # rest) (int (length vs)) = Done (int (iov_total vs), d')"
    "map_content d' s (iov_total vs) = gather m vs" "map_ready fuel d' s (iov_total vs)" by blast
  then show ?thesis using True write_keeps(2) [OF d'(1)]
    by (auto simp: disk_image__write_def ops_tables acknowledged_def disk_content_def disk_ready_def)
next
  case False
  then have "raw_ready fuel d s (iov_total vs)" using assms(1,2) by (auto simp: disk_ready_def)
  from raw.write_content [OF this assms(3,4), of m rest] obtain d' where d':
    "raw_image__write_sync fuel d m s (vs @ w # rest) (int (length vs)) = Done (int (iov_total vs), d')"
    "raw_content d' s (iov_total vs) = gather m vs" "raw_ready fuel d' s (iov_total vs)" by blast
  then show ?thesis using assms(1) False write_keeps(1) [OF d'(1)]
    by (auto simp: disk_image__write_def ops_tables acknowledged_def disk_content_def disk_ready_def)
qed

subsection \<open>Opening\<close>

lemma ptr_known: "p \<noteq> ErrPtr \<Longrightarrow> p \<noteq> NullPtr \<Longrightarrow> \<exists>x. p = Ptr x"
  by (cases p) auto

lemma right_known: "\<forall>x. r \<noteq> Inl x \<Longrightarrow> \<exists>y. r = Inr y"
  by (cases r) auto

lemma probe_readonly:
  assumes "qcow_image__probe stk f True = Done (Ptr d, f')"
  shows "dk_ops d = Qcow_disk_readonly_ops"
  using assms by (auto simp: qcow_image__probe_def disk_image__new_def bind_run_Done_iff split: option.splits)

lemma raw_probe_priv:
  assumes "raw_image__probe f hf ro = Ptr d"
  shows "dk_priv d \<noteq> PQcow q"
  using assms by (auto simp: raw_image__probe_def disk_image__new_def Let_def split: if_splits)

lemma blkdev_probe_priv:
  assumes "blkdev__probe hf = Ptr d"
  shows "dk_priv d \<noteq> PQcow q"
  using assms by (auto simp: blkdev__probe_def disk_image__new_def split: if_splits option.splits)

lemma open_qcow:
  assumes "disk_image__open stk hf ro = Done (Ptr d)" and "dk_priv d = PQcow q"
  shows "dk_ops d = Qcow_disk_readonly_ops \<and> dk_readonly d"
  using assms
  by (auto simp: disk_image__open_def bind_run_Done_iff dest!: ptr_known dest:
      blkdev_probe_priv [of _ _ q] raw_probe_priv [of _ _ _ _ q] split: if_splits option.splits ptr.split_asm)
    (erule probe_readonly)+

definition params_match :: "disk_image_params \<Rightarrow> disk_image ptr \<Rightarrow> bool" where
  "params_match p d \<longleftrightarrow>
     (case pr_file p of
        None \<Rightarrow> d = NullPtr
      | Some hf \<Rightarrow> (\<exists>d'. d = Ptr d' \<and> dk_addr d' = pr_addr p \<and> dk_irq d' = pr_irq p))"

lemma open_each_ok:
  "open_each stk ps acc = Done (Inr ds) \<Longrightarrow> \<exists>es. ds = acc @ es \<and> list_all2 params_match ps es"
proof (induction ps arbitrary: acc)
  case Nil
  then show ?case by simp
next
  case (Cons p ps)
  show ?case
  proof (cases "pr_file p")
    case None
    then show ?thesis using Cons.prems Cons.IH [of "acc @ [NullPtr]"]
      by (auto simp: params_match_def intro!: list_all2_Cons [THEN iffD2])
  next
    case (Some hf)
    then obtain d where d: "disk_image__open stk hf (pr_readonly p) = Done (Ptr d)"
        "open_each stk ps (acc @ [Ptr (d\<lparr>dk_addr := pr_addr p, dk_irq := pr_irq p\<rparr>)]) = Done (Inr ds)"
      using Cons.prems by (auto simp: bind_run_Done_iff dest!: ptr_known split: ptr.split_asm)
    from Cons.IH [OF d(2)] Some show ?thesis by (auto simp: params_match_def)
  qed
qed

subsection \<open>Properties\<close>

text \<open>
  C25: For every kind of image, a read of a range the image is ready for succeeds, fills the buffers
  with the disk's contents in order, calls the callback exactly once with the number of bytes, and
  leaves the disk's contents as they were.
\<close>

theorem disk_read_correct:
  assumes "disk_ready fuel d s (iov_total vs)" and "whole_sectors vs" and "0 < iov_len w"
    and "\<not> dk_async d" and "dk_req_cb d"
  shows "\<exists>d'. disk_image__read fuel d m s (vs @ w # rest) (int (length vs)) =
      Done (int (iov_total vs), Some (int (iov_total vs)), scatter m vs (disk_content d s (iov_total vs)), d') \<and>
    (\<forall>s n. disk_content d' s n = disk_content d s n) \<and> (\<forall>s n. disk_ready fuel d s n \<longrightarrow> disk_ready fuel d' s n)"
  using disk_read_ok [OF assms(1-3), of m rest] assms(4,5) by (auto simp: acknowledged_def)

definition sample_disk :: disk_image where
  "sample_disk =
     \<lparr>dk_fd = \<lparr>fbytes = replicate 1024 3, fpos = 0, fscript = [SErr EINTR, SMax 7]\<rparr>, dk_size = 1024,
      dk_ops = Raw_image_regular_ops, dk_priv = PNull, dk_req_cb = True, dk_readonly = False,
      dk_async = False, dk_addr = 0, dk_irq = 0, dk_fd_open = True\<rparr>"

lemma sample_disk_ready: "disk_ready 3 sample_disk 1 512"
  by (simp add: disk_ready_def raw_ready_def sample_disk_def benign_def transient_def)

theorem disk_read_correct_witness:
  "\<exists>d'. disk_image__read 3 sample_disk (\<lambda>a. 0) 1
      ([\<lparr>iov_base = 0x1000, iov_len = 512\<rparr>] @ \<lparr>iov_base = 0, iov_len = 1\<rparr> # []) 1 =
    Done (512, Some 512, scatter (\<lambda>a. 0) [\<lparr>iov_base = 0x1000, iov_len = 512\<rparr>] (disk_content sample_disk 1 512), d')"
  using disk_read_correct [of 3 sample_disk 1 "[\<lparr>iov_base = 0x1000, iov_len = 512\<rparr>]"
      "\<lparr>iov_base = 0, iov_len = 1\<rparr>" "\<lambda>a. 0" "[]"] sample_disk_ready
  by (auto simp: whole_sectors_def sample_disk_def)

text \<open>
  C14: On a raw image, a block device or a private mapping, data written by \<open>disk_image__write\<close> is
  what \<open>disk_image__read\<close> of the same sectors delivers, even into buffers of other sizes, and with
  any interruptions and short transfers on the way.
\<close>

theorem disk_write_read_roundtrip:
  assumes "dk_ops d \<in> {Raw_image_regular_ops, Blk_dev_ops, Ro_ops}"
    and "disk_ready fuel d s (iov_total vs)" and "whole_sectors vs" and "0 < iov_len w"
    and "whole_sectors us" and "iov_total us = iov_total vs"
  shows "\<exists>d' d''. disk_image__write fuel jk d m s (vs @ w # rest) (int (length vs)) =
      Done (int (iov_total vs), acknowledged d (int (iov_total vs)), d') \<and>
    disk_image__read fuel d' m' s (us @ w # rest) (int (length us)) =
      Done (int (iov_total vs), acknowledged d (int (iov_total vs)), scatter m' us (gather m vs), d'')"
proof (cases "dk_ops d = Ro_ops")
  case True
  then have "map_ready fuel d s (iov_total vs)" using assms(2) by (simp add: disk_ready_def)
  from mapped.write_read [OF this assms(3-6), of m rest m'] obtain d' d'' where d':
    "raw_image__write_mmap d m s (vs @ w # rest) (int (length vs)) = Done (int (iov_total vs), d')"
    "raw_image__read_mmap d' m' s (us @ w # rest) (int (length us)) =
      Done (int (iov_total vs), scatter m' us (gather m vs), d'')" by blast
  then show ?thesis using True write_keeps(2) [OF d'(1)] read_keeps(2) [OF d'(2)]
    by (auto simp: disk_image__write_def disk_image__read_def ops_tables acknowledged_def)
next
  case False
  then have "raw_ready fuel d s (iov_total vs)" using assms(1,2) by (auto simp: disk_ready_def)
  from raw.write_read [OF this assms(3-6), of m rest m'] obtain d' d'' where d':
    "raw_image__write_sync fuel d m s (vs @ w # rest) (int (length vs)) = Done (int (iov_total vs), d')"
    "raw_image__read_sync fuel d' m' s (us @ w # rest) (int (length us)) =
      Done (int (iov_total vs), scatter m' us (gather m vs), d'')" by blast
  then show ?thesis using assms(1) False write_keeps(1) [OF d'(1)] read_keeps(1) [OF d'(2)]
    by (auto simp: disk_image__write_def disk_image__read_def ops_tables acknowledged_def)
qed

theorem disk_write_read_roundtrip_witness:
  "\<exists>d' d''. disk_image__write 3 [] sample_disk (\<lambda>a. 8) 1
      ([\<lparr>iov_base = 0x1000, iov_len = 512\<rparr>] @ \<lparr>iov_base = 0, iov_len = 1\<rparr> # []) 1 = Done (512, Some 512, d') \<and>
    disk_image__read 3 d' (\<lambda>a. 0) 1
      ([\<lparr>iov_base = 0x1000, iov_len = 512\<rparr>] @ \<lparr>iov_base = 0, iov_len = 1\<rparr> # []) 1 =
    Done (512, Some 512, scatter (\<lambda>a. 0) [\<lparr>iov_base = 0x1000, iov_len = 512\<rparr>]
      (gather (\<lambda>a. 8) [\<lparr>iov_base = 0x1000, iov_len = 512\<rparr>]), d'')"
  using disk_write_read_roundtrip [of sample_disk 3 1 "[\<lparr>iov_base = 0x1000, iov_len = 512\<rparr>]"
      "\<lparr>iov_base = 0, iov_len = 1\<rparr>" "[\<lparr>iov_base = 0x1000, iov_len = 512\<rparr>]" "[]" "\<lambda>a. 8" "[]" "\<lambda>a. 0"]
    sample_disk_ready
  by (auto simp: whole_sectors_def sample_disk_def acknowledged_def)

text \<open>
  A file recognised as a QCOW image is opened read-only even when it was asked for writable, and
  a write to it is then dropped: the callback reports it complete with length 0, which is not an
  error, and the image keeps its state.
\<close>

theorem disk_qcow_writes_dropped:
  assumes "disk_image__open stk hf readonly = Done (Ptr d)" and "dk_priv d = PQcow q"
    and "dk_async d = False"
  shows "dk_readonly d \<and> disk_image__write fuel jk (disk_image__set_callback d) m sector iov iovcount =
      Done (0, Some 0, disk_image__set_callback d)"
  using open_qcow [OF assms(1,2)] assms(3)
  by (simp add: disk_image__write_def disk_image__set_callback_def ops_tables)

definition sample_host :: "fdesc \<Rightarrow> host_file" where
  "sample_host f = \<lparr>hf_stat = True, hf_isblk = False, hf_rdev = 0, hf_mounts = None, hf_open = Some f,
     hf_blksize = None, hf_size = 65, hf_mmap = True\<rparr>"

theorem disk_qcow_writes_dropped_witness:
  "\<exists>d. disk_image__open (replicate 104 0) (sample_host sample_file) False = Done (Ptr d) \<and>
    disk_image__write 0 [] (disk_image__set_callback d) (\<lambda>a. 0) 0 [] 0 = Done (0, Some 0, disk_image__set_callback d)"
proof -
  let ?r = "disk_image__open (replicate 104 0) (sample_host sample_file) False"
  have "case ?r of Done (Ptr d) \<Rightarrow> (case dk_priv d of PQcow q \<Rightarrow> \<not> dk_async d | _ \<Rightarrow> False) | _ \<Rightarrow> False"
    by code_simp
  then obtain d q where d: "?r = Done (Ptr d)" "dk_priv d = PQcow q" "dk_async d = False"
    by (cases ?r) (auto split: ptr.splits disk_priv.splits)
  show ?thesis using disk_qcow_writes_dropped [OF d, of 0 "[]" "\<lambda>a. 0" 0 "[]" 0] d(1) by blast
qed

text \<open>
  \<open>blkdev__probe\<close> refuses a block device that is mounted, to protect the data on it, but the
  refusal has no effect: \<open>disk_image__open\<close> goes on to the other probes and opens the device as a
  writable raw image.
\<close>

theorem disk_open_mounted_device:
  assumes "hf_stat hf" and "hf_isblk hf" and "is_mounted (hf_mounts hf) (hf_rdev hf)" and "hf_open hf = Some f"
    and "qcow_image__probe stk f True = Done (NullPtr, f')"
  shows "blkdev__probe hf = ErrPtr \<and>
    (\<exists>d. disk_image__open stk hf False = Done (Ptr d) \<and> dk_ops d = Raw_image_regular_ops \<and> \<not> dk_readonly d)"
  using assms by (simp add: blkdev__probe_def disk_image__open_def raw_image__probe_def disk_image__new_def)

definition mounted_host :: host_file where
  "mounted_host = \<lparr>hf_stat = True, hf_isblk = True, hf_rdev = 0x801,
     hf_mounts = Some [\<lparr>mn_stat = False, mn_isblk = False, mn_rdev = 0\<rparr>, \<lparr>mn_stat = True, mn_isblk = True, mn_rdev = 0x801\<rparr>],
     hf_open = Some \<lparr>fbytes = replicate 80 1, fpos = 0, fscript = []\<rparr>,
     hf_blksize = Some 80, hf_size = 0, hf_mmap = True\<rparr>"

theorem disk_open_mounted_device_witness:
  "\<exists>d. disk_image__open (replicate 104 0) mounted_host False = Done (Ptr d) \<and> \<not> dk_readonly d"
proof -
  let ?r = "qcow_image__probe (replicate 104 0) \<lparr>fbytes = replicate 80 1, fpos = 0, fscript = []\<rparr> True"
  have "case ?r of Done (NullPtr, f') \<Rightarrow> True | _ \<Rightarrow> False" by code_simp
  then obtain f' where "?r = Done (NullPtr, f')" by (cases ?r) (auto split: ptr.splits)
  then show ?thesis
    using disk_open_mounted_device [of mounted_host "\<lparr>fbytes = replicate 80 1, fpos = 0, fscript = []\<rparr>"]
    by (auto simp: mounted_host_def is_mounted_def)
qed

text \<open>
  When \<open>disk_image__open_all\<close> succeeds there is one disk for each of the parameters, in order,
  null where no file was named, and each disk carries its parameters' address and interrupt.
\<close>

theorem disk_open_all_matches:
  assumes "disk_image__open_all stk params = Done (Opened ds)"
  shows "list_all2 params_match params ds \<and> length ds \<le> MAX_DISK_IMAGES"
proof -
  have o: "open_each stk params [] = Done (Inr ds)" "length params \<le> MAX_DISK_IMAGES"
    using assms by (auto simp: disk_image__open_all_def bind_run_Done_iff not_less
        dest!: right_known split: if_splits sum.splits)
  then have "list_all2 params_match params ds" using open_each_ok [OF o(1)] by simp
  then show ?thesis using o(2) by (auto dest: list_all2_lengthD)
qed

theorem disk_open_all_matches_witness:
  "\<exists>ds. disk_image__open_all (replicate 104 0)
      [\<lparr>pr_file = Some mounted_host, pr_readonly = False, pr_addr = 0x2000000, pr_irq = 33\<rparr>] = Done (Opened ds) \<and>
    list_all2 params_match [\<lparr>pr_file = Some mounted_host, pr_readonly = False, pr_addr = 0x2000000, pr_irq = 33\<rparr>] ds"
proof -
  let ?r = "disk_image__open_all (replicate 104 0)
      [\<lparr>pr_file = Some mounted_host, pr_readonly = False, pr_addr = 0x2000000, pr_irq = 33\<rparr>]"
  have "case ?r of Done (Opened ds) \<Rightarrow> True | _ \<Rightarrow> False" by code_simp
  then obtain ds where "?r = Done (Opened ds)" by (cases ?r) (auto split: open_result.splits)
  then show ?thesis using disk_open_all_matches by blast
qed

end
