(* ===== verification/VirtqueueProofs.thy ===== *)
theory VirtqueueProofs
  imports Virtqueue "HOL-Library.Multiset"
begin

text \<open>
  The virtqueue as the driver and the device see it: the available ring is a first-in first-out
  list of chain heads, the used ring a sequence of completions, and a descriptor chain a finite
  path through the table.
\<close>

subsection \<open>The available ring is a queue\<close>

text \<open>The heads the driver has published and the device has not yet taken, in order.\<close>

definition avail_entry :: "mem \<Rightarrow> u64 \<Rightarrow> u32 \<Rightarrow> u16 \<Rightarrow> u16" where
  "avail_entry m a n i = ld16 m (avail_ring_at a (ucast i mod n))"

definition pending :: "mem \<Rightarrow> virt_queue \<Rightarrow> u16 list" where
  "pending m vq =
     (case vr_avail vq of
        None \<Rightarrow> []
      | Some a \<Rightarrow>
          map (\<lambda>k. avail_entry m a (vr_num vq) (last_avail_idx vq + of_nat k))
            [0..<unat (ld16 m (a + 2) - last_avail_idx vq)])"

lemma unat_Suc_step16:
  fixes x y :: u16
  assumes "unat (x - y) = Suc n"
  shows "unat (x - (y + 1)) = n"
proof -
  have "x - y \<noteq> 0" using assms by auto
  from unat_minus_one [OF this] have "unat (x - y - 1) = n" using assms by simp
  moreover have "x - y - 1 = x - (y + 1)" by simp
  ultimately show ?thesis by simp
qed

lemma pending_Cons:
  assumes "pending m vq = h # hs" and "vr_num vq \<noteq> 0"
  shows "virt_queue__pop m vq = Done (h, vq\<lparr>last_avail_idx := last_avail_idx vq + 1\<rparr>) \<and>
    pending m (vq\<lparr>last_avail_idx := last_avail_idx vq + 1\<rparr>) = hs"
proof -
  from assms(1) obtain a where a: "vr_avail vq = Some a" by (auto simp: pending_def split: option.splits)
  let ?l = "last_avail_idx vq" and ?e = "\<lambda>k. avail_entry m a (vr_num vq) (last_avail_idx vq + of_nat k)"
  have p: "map ?e [0..<unat (ld16 m (a + 2) - ?l)] = h # hs" using assms(1) a by (simp add: pending_def)
  then obtain n where n: "unat (ld16 m (a + 2) - ?l) = Suc n"
    by (cases "unat (ld16 m (a + 2) - ?l)") auto
  have "map ?e [0..<Suc n] = ?e 0 # map (\<lambda>k. ?e (Suc k)) [0..<n]"
    by (subst map_upt_Suc) simp
  then have h: "h = ?e 0" "hs = map (\<lambda>k. ?e (Suc k)) [0..<n]" using p n by simp_all
  have "pending m (vq\<lparr>last_avail_idx := ?l + 1\<rparr>) = hs"
    using a unat_Suc_step16 [OF n] by (simp add: pending_def h(2) add.assoc)
  moreover have "virt_queue__pop m vq = Done (h, vq\<lparr>last_avail_idx := ?l + 1\<rparr>)"
    using a assms(2) by (simp add: virt_queue__pop_def h(1) avail_entry_def)
  ultimately show ?thesis by simp
qed

lemma pending_empty_iff:
  assumes "vr_avail vq = Some a"
  shows "pending m vq = [] \<longleftrightarrow> ld16 m (a + 2) = last_avail_idx vq"
  using assms by (auto simp: pending_def unat_0_iff)

lemma available_no_event:
  assumes "\<not> use_event_idx vq"
  shows "virt_queue__available m vq = Done (pending m vq \<noteq> [], m)"
proof (cases "vr_avail vq")
  case None
  then show ?thesis by (simp add: virt_queue__available_def pending_def)
next
  case (Some a)
  then show ?thesis using assms pending_empty_iff [OF Some, of m]
    by (simp add: virt_queue__available_def)
qed

text \<open>Bytes of the two rings, the trailing event fields included.\<close>

definition avail_bytes :: "u32 \<Rightarrow> nat" where
  "avail_bytes n = 6 + 2 * unat n"

definition used_bytes :: "u32 \<Rightarrow> nat" where
  "used_bytes n = 6 + 8 * unat n"

definition rings_apart :: "virt_queue \<Rightarrow> bool" where
  "rings_apart vq \<longleftrightarrow>
     (case (vr_avail vq, vr_used vq) of
        (Some a, Some u) \<Rightarrow> disjoint a (avail_bytes (vr_num vq)) u (used_bytes (vr_num vq))
      | _ \<Rightarrow> False)"

text \<open>Field addresses as byte offsets from the ring's base.\<close>

lemma avail_ring_off: "avail_ring_at a i = a + of_nat (4 + 2 * unat i)"
  by (simp add: avail_ring_at_def add.assoc)

lemma used_elem_off: "used_elem_at u i = u + of_nat (4 + 8 * unat i)"
  by (simp add: used_elem_at_def add.assoc)

lemma unat_mod_less: "n \<noteq> 0 \<Longrightarrow> unat (x mod n :: u32) < unat n"
  by (simp add: unat_mod unat_gt_0)

text \<open>The device writes the used ring only; the driver's side of the queue does not change.\<close>

lemma avail_idx_apart:
  assumes "disjoint a (avail_bytes n) u (used_bytes n)" and "j + k \<le> used_bytes n" and "0 < k"
    and "length bs = k"
  shows "ld16 (stn m (u + of_nat j) bs) (a + 2) = ld16 m (a + 2)"
  using disjoint_sub [OF assms(1), of 2 2 j k] assms
  by (simp add: mem_simps avail_bytes_def)

lemma avail_entry_apart:
  assumes "disjoint a (avail_bytes n) u (used_bytes n)" and "j + k \<le> used_bytes n" and "0 < k"
    and "length bs = k" and "n \<noteq> 0"
  shows "avail_entry (stn m (u + of_nat j) bs) a n i = avail_entry m a n i"
proof -
  have "unat (ucast i mod n) < unat n" using assms(5) by (rule unat_mod_less)
  then show ?thesis
    using disjoint_sub [OF assms(1), of "4 + 2 * unat (ucast i mod n)" 2 j k] assms
    by (simp add: avail_entry_def avail_ring_off mem_simps avail_bytes_def del: of_nat_add of_nat_mult)
qed

lemma pending_apart:
  assumes "vr_avail vq = Some a" and "vr_num vq = n"
    and "disjoint a (avail_bytes n) u (used_bytes n)" and "j + length bs \<le> used_bytes n"
    and "bs \<noteq> []" and "n \<noteq> 0"
  shows "pending (stn m (u + of_nat j) bs) vq = pending m vq"
  using assms avail_idx_apart [OF assms(3,4) _ refl] avail_entry_apart [OF assms(3,4) _ refl assms(6)]
  by (simp add: pending_def)

lemma available_event:
  assumes "use_event_idx vq" and "rings_apart vq" and "vr_num vq \<noteq> 0"
  shows "\<exists>m'. virt_queue__available m vq = Done (pending m vq \<noteq> [], m') \<and> pending m' vq = pending m vq"
proof -
  obtain a u where au: "vr_avail vq = Some a" "vr_used vq = Some u"
    and d: "disjoint a (avail_bytes (vr_num vq)) u (used_bytes (vr_num vq))"
    using assms(2) by (auto simp: rings_apart_def split: option.splits)
  let ?m = "st16 m (used_elem_at u (vr_num vq)) (last_avail_idx vq)"
  have p: "pending ?m vq = pending m vq"
    unfolding st16_def used_elem_off
    using au d assms(3) by (intro pending_apart [where n = "vr_num vq"]) (auto simp: used_bytes_def)
  moreover have "virt_queue__available m vq = Done (pending m vq \<noteq> [], ?m)"
    using assms(1) au p pending_empty_iff [OF au(1), of ?m]
    by (simp add: virt_queue__available_def Let_def)
  ultimately show ?thesis by blast
qed

subsection \<open>The used ring records completions\<close>

definition used_idx :: "mem \<Rightarrow> u64 \<Rightarrow> u16" where
  "used_idx m u = ld16 m (u + 2)"

definition used_entry :: "mem \<Rightarrow> u64 \<Rightarrow> u32 \<Rightarrow> u16 \<Rightarrow> u32 \<times> u32" where
  "used_entry m u n i =
     (let e = used_elem_at u (ucast i mod n) in (ld32 m e, ld32 m (e + 4)))"

lemma set_used_elem_Done:
  assumes "vr_used vq = Some u" and "vr_num vq \<noteq> 0"
  shows "virt_queue__set_used_elem m vq head len =
    (let e = used_elem_at u (ucast (used_idx m u) mod vr_num vq);
         m1 = st32 (st32 m e head) (e + 4) len
     in Done (st16 m1 (u + 2) (used_idx m1 u + 1)))"
  using assms by (simp add: virt_queue__set_used_elem_def virt_queue__set_used_elem_no_update_def
      virt_queue__used_idx_advance_def used_idx_def Let_def)

lemma set_used_elem_entry:
  assumes u: "vr_used vq = Some u" and n: "vr_num vq \<noteq> 0"
    and "virt_queue__set_used_elem m vq head len = Done m'"
  shows "used_idx m' u = used_idx m u + 1 \<and> used_entry m' u (vr_num vq) (used_idx m u) = (head, len) \<and>
    (\<forall>i. ucast i mod vr_num vq \<noteq> ucast (used_idx m u) mod vr_num vq \<longrightarrow>
       used_entry m' u (vr_num vq) i = used_entry m u (vr_num vq) i)"
proof -
  let ?n = "vr_num vq"
  define s where "s = unat (ucast (used_idx m u) mod ?n)"
  define e where "e = u + of_nat (4 + 8 * s)"
  define e' where "e' = u + of_nat (8 + 8 * s)"
  define m1 where "m1 = st32 (st32 m e head) e' len"
  have s: "s < 2 ^ 32" using unsigned_less [of "ucast (used_idx m u) mod ?n"] by (simp add: s_def)
  have e4: "e + 4 = e'" by (simp add: e_def e'_def)
  have m': "m' = st16 m1 (u + 2) (used_idx m1 u + 1)"
    using assms(3) unfolding set_used_elem_Done [OF u n] Let_def used_elem_off m1_def e4 [symmetric]
    by (simp add: e_def s_def)
  have "disjoint (u + of_nat 2) 2 e 4" and "disjoint (u + of_nat 2) 2 e' 4" and d3: "disjoint e 4 e' 4"
    unfolding e_def e'_def by (rule disjoint_same_base; use s in simp)+
  then have d1: "disjoint (u + 2) 2 e 4" and d2: "disjoint (u + 2) 2 e' 4" by simp_all
  have idx: "used_idx m1 u = used_idx m u"
    using d1 d2 by (simp add: used_idx_def m1_def mem_simps)
  have here: "ld32 m' e = head" "ld32 m' e' = len"
    using d1 d2 d3 by (simp_all add: m' m1_def mem_simps disjoint_sym)
  have frame: "ld32 m' (u + of_nat (b + 8 * t)) = ld32 m (u + of_nat (b + 8 * t))"
    if t: "t \<noteq> s" "t < 2 ^ 32" and b: "b = 4 \<or> b = 8" for t b
  proof -
    let ?x = "u + of_nat (b + 8 * t)"
    have f: "disjoint ?x 4 (u + of_nat (c + 8 * s)) 4" if c: "c = 4 \<or> c = 8" for c
    proof (cases "t < s")
      case True
      then show ?thesis using s b c by (intro disjoint_same_base) auto
    next
      case False
      then show ?thesis using t b c by (intro disjoint_sym [OF disjoint_same_base]) auto
    qed
    have "disjoint ?x 4 (u + of_nat 2) 2"
      using t b by (intro disjoint_sym [OF disjoint_same_base]) auto
    then show ?thesis
      using f [of 4] f [of 8] by (simp add: m' m1_def e_def e'_def mem_simps del: of_nat_add of_nat_mult)
  qed
  have "used_entry m' u ?n i = used_entry m u ?n i"
    if "ucast i mod ?n \<noteq> ucast (used_idx m u) mod ?n" for i
  proof -
    let ?t = "unat (ucast i mod ?n)"
    have t: "?t \<noteq> s" "?t < 2 ^ 32"
      using that unsigned_less [of "ucast i mod ?n"] by (simp_all add: s_def word_unat_eq_iff)
    have nx: "u + of_nat (4 + 8 * ?t) + 4 = u + of_nat (8 + 8 * ?t)" by simp
    show ?thesis
      unfolding used_entry_def Let_def used_elem_off
      by (simp only: nx frame [OF t] simp_thms)
  qed
  moreover have "used_entry m' u ?n (used_idx m u) = (head, len)"
    using here e4 unfolding used_entry_def Let_def used_elem_off s_def [symmetric] e_def [symmetric]
    by simp
  moreover have "used_idx m' u = used_idx m u + 1"
    using idx by (simp add: m' used_idx_def mem_simps)
  ultimately show ?thesis by blast
qed

subsection \<open>When the guest is interrupted\<close>

lemma unat16_less: "unat (x :: u16) < 65536"
  by (rule order.strict_trans2 [OF unsigned_less]) simp

lemma sub_wrap16: "(x - y - 1 < x) = (y < (x :: u16))"
proof (cases "y < x")
  case True
  then have "unat (x - y - 1) = unat x - unat y - 1"
    by (simp add: unat_sub_if_size word_less_nat_alt)
  then show ?thesis using True by (simp add: word_less_nat_alt)
next
  case False
  have e: "x - y - 1 = x - (y + 1)" by simp
  have l: "unat y < 65536" by (rule unat16_less)
  show ?thesis
  proof (cases "unat y = 65535")
    case True
    then have "y + 1 = 0" by (simp add: word_unat_eq_iff unat_word_ariths)
    then show ?thesis using False unfolding e by (simp add: True)
  next
    case ne: False
    then have "unat (y + 1) = unat y + 1" using l by (simp add: unat_word_ariths)
    then have "unat (x - (y + 1)) = 65536 + unat x - (unat y + 1)"
      using False by (simp add: unat_sub_if_size word_less_nat_alt word_size)
    then show ?thesis using False l unfolding e by (simp add: word_less_nat_alt)
  qed
qed

lemma event_window:
  fixes event new old :: u16
  shows "new - event - 1 < new - old \<longleftrightarrow> (\<exists>k < unat (new - old). event = old + of_nat k)"
proof -
  have "new - event - 1 = (new - old) - (event - old) - 1" by simp
  then have "new - event - 1 < new - old \<longleftrightarrow> event - old < new - old"
    using sub_wrap16 [of "new - old" "event - old"] by simp
  also have "\<dots> \<longleftrightarrow> (\<exists>k < unat (new - old). event = old + of_nat k)"
  proof
    assume l: "event - old < new - old"
    have "event = old + of_nat (unat (event - old))" by simp
    then show "\<exists>k < unat (new - old). event = old + of_nat k"
      using l unfolding word_less_nat_alt by blast
  next
    assume "\<exists>k < unat (new - old). event = old + of_nat k"
    then obtain k where k: "k < unat (new - old)" "event = old + of_nat k" by blast
    then have "k < 65536" using unat16_less [of "new - old"] by simp
    then show "event - old < new - old"
      using k by (simp add: word_less_nat_alt unat_of_nat)
  qed
  finally show ?thesis .
qed

subsection \<open>Descriptor chains\<close>

definition next_idx :: "mem \<Rightarrow> u64 \<Rightarrow> u16 \<Rightarrow> u16 \<Rightarrow> u16" where
  "next_idx m d maxd i = ucast (next_desc m d i (ucast maxd))"

text \<open>The walk from index \<open>i\<close> ends after the indices in the list.\<close>

inductive chain :: "mem \<Rightarrow> u64 \<Rightarrow> u16 \<Rightarrow> u16 \<Rightarrow> u16 list \<Rightarrow> bool" for m d maxd where
  chain_last: "next_idx m d maxd i = maxd \<Longrightarrow> chain m d maxd i [i]"
| chain_link: "next_idx m d maxd i = j \<Longrightarrow> j \<noteq> maxd \<Longrightarrow> chain m d maxd j p \<Longrightarrow> chain m d maxd i (i # p)"

inductive_cases chain_NilE: "chain m d maxd i []"
inductive_cases chain_ConsE: "chain m d maxd i (k # p)"
inductive_simps chain_Cons_simp: "chain m d maxd i (k # p)"

lemma chain_nonempty: "chain m d maxd i p \<Longrightarrow> \<exists>q. p = i # q"
  by (cases rule: chain.cases) auto

lemma chain_det: "chain m d maxd i p \<Longrightarrow> chain m d maxd i q \<Longrightarrow> p = q"
proof (induction arbitrary: q rule: chain.induct)
  case (chain_last i)
  from chain_last.prems show ?case by (cases rule: chain.cases) (use chain_last.hyps in simp_all)
next
  case (chain_link i j p)
  from chain_link.prems show ?case
  proof (cases rule: chain.cases)
    case chain_last
    then show ?thesis using chain_link.hyps by simp
  next
    case (chain_link k r)
    then show ?thesis using \<open>next_idx m d maxd i = j\<close> \<open>\<And>q. chain m d maxd j q \<Longrightarrow> p = q\<close> by simp
  qed
qed

lemma chain_suffix: "chain m d maxd i p \<Longrightarrow> k \<in> set p \<Longrightarrow> \<exists>q. chain m d maxd k q \<and> length q \<le> length p"
proof (induction rule: chain.induct)
  case (chain_last i)
  then show ?case by (auto intro: chain.chain_last)
next
  case (chain_link i j p)
  show ?case
  proof (cases "k = i")
    case True
    then show ?thesis using chain_link.hyps by (auto intro!: exI [of _ "i # p"] chain.chain_link)
  next
    case False
    then show ?thesis using chain_link.prems chain_link.IH by fastforce
  qed
qed

lemma chain_distinct: "chain m d maxd i p \<Longrightarrow> distinct p"
proof (induction rule: chain.induct)
  case (chain_last i)
  then show ?case by simp
next
  case (chain_link i j p)
  have "i \<notin> set p"
  proof
    assume "i \<in> set p"
    then obtain q where q: "chain m d maxd i q" "length q \<le> length p"
      using chain_suffix chain_link.hyps(3) by blast
    have "chain m d maxd i (i # p)" using chain_link.hyps by (auto intro: chain.chain_link)
    from chain_det [OF this q(1)] q(2) show False by auto
  qed
  then show ?case using chain_link.IH by simp
qed

lemma next_idx_le: "next_idx m d maxd i \<le> maxd"
proof -
  have c: "unat (ucast x :: u32) = unat x" for x :: u16
    by (simp add: unsigned_ucast_eq take_bit_nat_eq_self unat16_less [THEN less_trans])
  have "unat (min (ucast n) (ucast maxd) :: u32) \<le> unat maxd" for n :: u16
    by (simp add: min_def word_le_nat_alt c)
  then have "unat (next_desc m d i (ucast maxd)) \<le> unat maxd"
    by (simp add: next_desc_def c)
  then show ?thesis
    using unat16_less [of maxd]
    by (simp add: next_idx_def word_le_nat_alt unsigned_ucast_eq take_bit_nat_eq_self)
qed

lemma chain_bounded: "chain m d maxd i p \<Longrightarrow> i < maxd \<Longrightarrow> k \<in> set p \<Longrightarrow> k < maxd"
proof (induction rule: chain.induct)
  case (chain_link i j p)
  have "j < maxd" using chain_link.hyps(1,2) next_idx_le [of m d maxd i] by simp
  then show ?case using chain_link by auto
qed auto

lemma chain_length:
  assumes "chain m d maxd i p" and "i < maxd"
  shows "length p \<le> unat maxd"
proof -
  have "distinct (map unat p)"
    using chain_distinct [OF assms(1)] by (simp add: distinct_map inj_on_def word_unat_eq_iff)
  then have "length p = card (set (map unat p))" using distinct_card [of "map unat p"] by simp
  also have "\<dots> \<le> card {..<unat maxd}"
    using chain_bounded [OF assms] by (intro card_mono) (auto simp: word_less_nat_alt)
  finally show ?thesis by simp
qed

text \<open>
  A mapping request that the library grants in the mode already detected.
\<close>

definition can_map :: "(bool \<Rightarrow> u64 \<Rightarrow> u32 \<Rightarrow> bool) \<Rightarrow> demu_map \<Rightarrow> u64 \<Rightarrow> u64 \<Rightarrow> bool" where
  "can_map ok g addr n \<longleftrightarrow> 0 \<le> use_gnttab g \<and>
     (if 0 < use_gnttab g
      then addr AND XEN_GRANT_ADDR_OFF \<noteq> 0 \<and> ok True (ucast (grant_of addr)) (npages addr n)
      else addr AND XEN_GRANT_ADDR_OFF = 0 \<and> ok False (drop_bit TARGET_PAGE_SHIFT addr) (npages addr n))"

definition page_entry :: "u64 \<Rightarrow> u64 \<Rightarrow> u64 \<times> u32" where
  "page_entry addr n = (addr AND TARGET_PAGE_MASK, npages addr n)"

lemma can_map_Done:
  assumes "can_map ok g addr n"
  shows "demu_map_guest_range ok g addr n =
    Done (Some addr, g\<lparr>mappings := page_entry addr n # mappings g\<rparr>)"
  using assms
  by (auto simp: can_map_def demu_map_guest_range_def demu_detect_mappings_model_def Let_def
      page_entry_def page_split)

lemma can_map_mappings [simp]: "can_map ok (g\<lparr>mappings := x\<rparr>) = can_map ok g"
  by (intro ext) (simp add: can_map_def)

definition seg_of :: "mem \<Rightarrow> u64 \<Rightarrow> u16 \<Rightarrow> seg" where
  "seg_of m d i = \<lparr>seg_base = Some (desc_addr m d i), seg_len = desc_len m d i\<rparr>"

definition desc_page :: "mem \<Rightarrow> u64 \<Rightarrow> u16 \<Rightarrow> u64 \<times> u32" where
  "desc_page m d i = page_entry (desc_addr m d i) (ucast (desc_len m d i))"

definition is_write_desc :: "mem \<Rightarrow> u64 \<Rightarrow> u16 \<Rightarrow> bool" where
  "is_write_desc m d i \<longleftrightarrow> virt_desc__test_flag m d i VRING_DESC_F_WRITE"

lemma head_iov_loop_step:
  assumes "length acc < cap" and "can_map ok g (desc_addr m d i) (ucast (desc_len m d i))"
  shows "head_iov_loop ok cap m d maxd i g acc out inn =
    (let acc' = acc @ [seg_of m d i];
         out' = (if is_write_desc m d i then out else out + 1);
         inn' = (if is_write_desc m d i then inn + 1 else inn);
         g' = g\<lparr>mappings := desc_page m d i # mappings g\<rparr>
     in if next_idx m d maxd i = maxd then Done (acc', out', inn', g')
        else head_iov_loop ok cap m d maxd (next_idx m d maxd i) g' acc' out' inn')"
  using assms(1)
  by (subst head_iov_loop.simps)
    (simp add: can_map_Done [OF assms(2)] seg_of_def desc_page_def is_write_desc_def next_idx_def Let_def)

lemma head_iov_loop_chain:
  assumes "chain m d maxd i p"
    and "\<forall>k\<in>set p. can_map ok g (desc_addr m d k) (ucast (desc_len m d k))"
    and "length acc + length p \<le> cap"
  shows "head_iov_loop ok cap m d maxd i g acc out inn =
    Done (acc @ map (seg_of m d) p,
      out + of_nat (length (filter (\<lambda>k. \<not> is_write_desc m d k) p)),
      inn + of_nat (length (filter (is_write_desc m d) p)),
      g\<lparr>mappings := rev (map (desc_page m d) p) @ mappings g\<rparr>)"
  using assms
proof (induction arbitrary: g acc out inn rule: chain.induct)
  case (chain_last i)
  then show ?case by (simp add: head_iov_loop_step Let_def)
next
  case (chain_link i j p)
  then show ?case by (simp add: head_iov_loop_step Let_def add.assoc)
qed

lemma head_iov_loop_endless:
  assumes "\<nexists>p. chain m d maxd i p"
    and "\<forall>k. can_map ok g (desc_addr m d k) (ucast (desc_len m d k))"
  shows "head_iov_loop ok cap m d maxd i g acc out inn = Wild"
  using assms
proof (induction "cap - length acc" arbitrary: i g acc out inn)
  case 0
  then show ?case by (simp add: head_iov_loop.simps [of ok cap])
next
  case (Suc n)
  have l: "length acc < cap" using Suc.hyps(2) by simp
  let ?j = "next_idx m d maxd i"
  have j: "?j \<noteq> maxd" using Suc.prems(1) chain_last by blast
  have "\<nexists>p. chain m d maxd ?j p" using Suc.prems(1) j chain_link by blast
  moreover have "n = cap - length (acc @ [seg_of m d i])" using Suc.hyps(2) by simp
  ultimately show ?case
    using j Suc.prems(2) l by (simp add: head_iov_loop_step Let_def Suc.hyps(1))
qed

lemma get_head_iov_direct_chain:
  assumes "vr_desc vq = Some d" and "\<not> virt_desc__test_flag m d head VRING_DESC_F_INDIRECT"
    and "chain m d (ucast (vr_num vq)) head p" and "head < ucast (vr_num vq)"
    and "\<forall>k\<in>set p. can_map ok g (desc_addr m d k) (ucast (desc_len m d k))"
    and "unat (ucast (vr_num vq) :: u16) \<le> cap"
  shows "virt_queue__get_head_iov ok cap m g vq head =
    Done (map (seg_of m d) p,
      of_nat (length (filter (\<lambda>k. \<not> is_write_desc m d k) p)),
      of_nat (length (filter (is_write_desc m d) p)),
      g\<lparr>mappings := rev (map (desc_page m d) p) @ mappings g\<rparr>)"
  using assms chain_length [OF assms(3,4)]
  by (simp add: virt_queue__get_head_iov_def head_iov_loop_chain)

lemma get_head_iov_indirect_chain:
  fixes maxd :: u16
  assumes maxd_def: "maxd = ucast (desc_len m d head div 16)"
    and "vr_desc vq = Some d" and "virt_desc__test_flag m d head VRING_DESC_F_INDIRECT"
    and "desc_addr m d head = t" and "can_map ok g t (ucast (desc_len m d head))"
    and "chain m t maxd 0 p" and "0 < maxd"
    and "\<forall>k\<in>set p. can_map ok g (desc_addr m t k) (ucast (desc_len m t k))"
    and "unat maxd \<le> cap"
  shows "\<exists>g'. virt_queue__get_head_iov ok cap m g vq head =
    Done (map (seg_of m t) p,
      of_nat (length (filter (\<lambda>k. \<not> is_write_desc m t k) p)),
      of_nat (length (filter (is_write_desc m t) p)), g') \<and>
    mset (mappings g') = mset (map (desc_page m t) p) + mset (mappings g)"
proof -
  let ?n = "desc_len m d head"
  have n: "?n \<noteq> 0" using assms(7) by (auto simp: maxd_def)
  let ?g1 = "g\<lparr>mappings := page_entry t (ucast ?n) # mappings g\<rparr>"
  have "head_iov_loop ok cap m t maxd 0 ?g1 [] 0 0 =
    Done ([] @ map (seg_of m t) p,
      0 + of_nat (length (filter (\<lambda>k. \<not> is_write_desc m t k) p)),
      0 + of_nat (length (filter (is_write_desc m t) p)),
      ?g1\<lparr>mappings := rev (map (desc_page m t) p) @ mappings ?g1\<rparr>)"
    by (rule head_iov_loop_chain) (use assms chain_length [OF assms(6,7)] in simp_all)
  then show ?thesis
    using assms(2-5) n
    by (simp add: virt_queue__get_head_iov_def can_map_Done maxd_def Let_def
        demu_unmap_guest_range_def page_entry_def mset_remove1 del: mset_map)
qed

subsection \<open>Properties\<close>

text \<open>
  C15: The available ring is a first-in first-out queue: \<open>virt_queue__available\<close> answers whether a
  head is pending and does not disturb the pending heads (even when it publishes the event index in
  the used ring), and \<open>virt_queue__pop\<close> takes the oldest one and leaves the others in order, for
  all values of the wrapping 16-bit indices.
\<close>

theorem avail_ring_fifo:
  assumes "rings_apart vq" and "vr_num vq \<noteq> 0"
  shows "\<exists>m'. virt_queue__available m vq = Done (pending m vq \<noteq> [], m') \<and>
    pending m' vq = pending m vq \<and>
    (pending m vq \<noteq> [] \<longrightarrow>
      (\<exists>vq'. virt_queue__pop m' vq = Done (hd (pending m vq), vq') \<and> pending m' vq' = tl (pending m vq)))"
proof -
  obtain m' where "virt_queue__available m vq = Done (pending m vq \<noteq> [], m')"
    and p: "pending m' vq = pending m vq"
    using available_event [OF _ assms] available_no_event [of vq m] by (cases "use_event_idx vq") blast+
  moreover have "\<exists>vq'. virt_queue__pop m' vq = Done (hd (pending m vq), vq') \<and>
      pending m' vq' = tl (pending m vq)" if "pending m vq \<noteq> []"
    using pending_Cons [OF _ assms(2), of m' "hd (pending m vq)" "tl (pending m vq)"] p that by auto
  ultimately show ?thesis by blast
qed

theorem avail_ring_fifo_witness:
  "\<exists>m'. virt_queue__available (st16 (st16 (\<lambda>a. 0) 0x1002 1) 0x1004 5)
       (zero_vq\<lparr>vr_num := 4, vr_avail := Some 0x1000, vr_used := Some 0x2000\<rparr>) = Done (True, m')"
proof -
  let ?m = "st16 (st16 (\<lambda>a. 0) 0x1002 1) 0x1004 5"
    and ?q = "zero_vq\<lparr>vr_num := 4, vr_avail := Some 0x1000, vr_used := Some 0x2000\<rparr>"
  have p: "pending ?m ?q \<noteq> []" by code_simp
  have "disjoint 0x1000 14 0x2000 38" using disjoint_same_base [of 0 14 "0x1000" 38 "0x1000"] by simp
  then show ?thesis
    using avail_ring_fifo [of ?q ?m] p by (auto simp: rings_apart_def avail_bytes_def used_bytes_def zero_vq_def)
qed

text \<open>
  C21: \<open>virt_queue__set_used_elem\<close> appends one completion: the entry at the used index becomes the
  head and length given, the index advances by one (wrapping), and every entry in another slot
  keeps its contents.
\<close>

theorem set_used_elem_appends:
  assumes "vr_used vq = Some u" and "vr_num vq \<noteq> 0"
  shows "\<exists>m'. virt_queue__set_used_elem m vq head len = Done m' \<and>
    used_idx m' u = used_idx m u + 1 \<and> used_entry m' u (vr_num vq) (used_idx m u) = (head, len) \<and>
    (\<forall>i. ucast i mod vr_num vq \<noteq> ucast (used_idx m u) mod vr_num vq \<longrightarrow>
       used_entry m' u (vr_num vq) i = used_entry m u (vr_num vq) i)"
  using set_used_elem_entry [OF assms] set_used_elem_Done [OF assms] by (metis (no_types, lifting))

theorem set_used_elem_appends_witness:
  "\<exists>m'. virt_queue__set_used_elem (\<lambda>a. 0) (zero_vq\<lparr>vr_num := 4, vr_used := Some 0x2000\<rparr>) 3 512 = Done m' \<and>
     used_idx m' 0x2000 = used_idx (\<lambda>a. 0) 0x2000 + 1"
  using set_used_elem_appends [of "zero_vq\<lparr>vr_num := 4, vr_used := Some 0x2000\<rparr>" "0x2000" "\<lambda>a. 0" 3 512]
  by auto

text \<open>
  C36: With event indices, and \<open>vring_need_event\<close> as the specification has it, the guest is
  interrupted exactly when the index it asked for is one of those completed since the last
  interrupt, for every wrap-around of the 16-bit indices; the mark moves only when it is.
\<close>

theorem should_signal_window:
  assumes "need_event_spec abi" and "vr_avail vq = Some a" and "vr_used vq = Some u" and "use_event_idx vq"
  shows "\<exists>b vq'. virtio_queue__should_signal abi m vq = Done (b, vq') \<and>
    b = (\<exists>k < unat (used_idx m u - last_used_signalled vq).
          ld16 m (avail_ring_at a (vr_num vq)) = last_used_signalled vq + of_nat k) \<and>
    vq' = (if b then vq\<lparr>last_used_signalled := used_idx m u\<rparr> else vq)"
  using assms event_window
  by (auto simp: virtio_queue__should_signal_def need_event_spec_def used_idx_def Let_def)

theorem should_signal_window_witness:
  "\<exists>b vq'. virtio_queue__should_signal
      \<lparr>vring_need_event = (\<lambda>event new old. new - event - 1 < new - old), vring_size = (\<lambda>n al. 0),
        vring_avail_off = (\<lambda>n. 0), vring_used_off = (\<lambda>n b al. 0)\<rparr> (\<lambda>a. 0)
      (zero_vq\<lparr>vr_num := 4, vr_avail := Some 0x1000, vr_used := Some 0x2000, use_event_idx := True\<rparr>) =
    Done (b, vq')"
  using should_signal_window [of "\<lparr>vring_need_event = (\<lambda>event new old. new - event - 1 < new - old),
        vring_size = (\<lambda>n al. 0), vring_avail_off = (\<lambda>n. 0), vring_used_off = (\<lambda>n b al. 0)\<rparr>"
      "zero_vq\<lparr>vr_num := 4, vr_avail := Some 0x1000, vr_used := Some 0x2000, use_event_idx := True\<rparr>"
      "0x1000" "0x2000" "\<lambda>a. 0"]
  by (auto simp: need_event_spec_def)

text \<open>
  C16: For a chain of direct descriptors that ends, \<open>virt_queue__get_head_iov\<close> returns the chain's
  buffers in order with the counts of readable and writable ones, and maps exactly their pages; a
  chain that ends has at most as many descriptors as the queue, so it fits the caller's array.
\<close>

theorem get_head_iov_direct:
  assumes "vr_desc vq = Some d" and "\<not> virt_desc__test_flag m d head VRING_DESC_F_INDIRECT"
    and "chain m d (ucast (vr_num vq)) head p" and "head < ucast (vr_num vq)"
    and "\<forall>k\<in>set p. can_map ok g (desc_addr m d k) (ucast (desc_len m d k))"
    and "unat (ucast (vr_num vq) :: u16) \<le> cap"
  shows "virt_queue__get_head_iov ok cap m g vq head =
      Done (map (seg_of m d) p,
        of_nat (length (filter (\<lambda>k. \<not> is_write_desc m d k) p)),
        of_nat (length (filter (is_write_desc m d) p)),
        g\<lparr>mappings := rev (map (desc_page m d) p) @ mappings g\<rparr>) \<and>
    distinct p \<and> length p \<le> unat (ucast (vr_num vq) :: u16)"
  using get_head_iov_direct_chain [OF assms] chain_distinct [OF assms(3)] chain_length [OF assms(3,4)]
  by blast

theorem get_head_iov_direct_witness:
  "\<exists>iov g'. virt_queue__get_head_iov (\<lambda>k f n. True) 256 (st16 (st16 (\<lambda>a. 0) 0x100C 1) 0x100E 2)
      \<lparr>use_gnttab = 0, mappings = []\<rparr> (zero_vq\<lparr>vr_num := 4, vr_desc := Some 0x1000\<rparr>) 0 = Done (iov, 2, 0, g')"
proof -
  let ?m = "st16 (st16 (\<lambda>a. 0) 0x100C 1) 0x100E 2"
  have n: "next_idx ?m 0x1000 4 0 = 2" "next_idx ?m 0x1000 4 2 = 4" by code_simp+
  have c: "chain ?m 0x1000 4 0 [0, 2]"
    by (rule chain_link [OF n(1)]) (simp, rule chain_last [OF n(2)])
  have k: "\<forall>k\<in>set [0, 2]. can_map (\<lambda>k f n. True) \<lparr>use_gnttab = 0, mappings = []\<rparr>
      (desc_addr ?m 0x1000 k) (ucast (desc_len ?m 0x1000 k))" by code_simp
  have w: "filter (\<lambda>k. \<not> is_write_desc ?m 0x1000 k) [0, 2] = [0, 2]"
    "filter (is_write_desc ?m 0x1000) [0, 2] = []" by code_simp+
  have f: "\<not> virt_desc__test_flag ?m 0x1000 0 VRING_DESC_F_INDIRECT" by code_simp
  show ?thesis
    using get_head_iov_direct [of "zero_vq\<lparr>vr_num := 4, vr_desc := Some 0x1000\<rparr>" "0x1000" ?m 0 "[0, 2]"
        "\<lambda>k f n. True" "\<lparr>use_gnttab = 0, mappings = []\<rparr>" 256] c k w f
    by simp
qed

text \<open>
  C23: For a chain in an indirect table, the buffers are those of the table's chain, and the mapping
  of the table itself is released: the ledger gains exactly the pages of the buffers.
\<close>

theorem get_head_iov_indirect:
  assumes "vr_desc vq = Some d" and "virt_desc__test_flag m d head VRING_DESC_F_INDIRECT"
    and "desc_addr m d head = t" and "can_map ok g t (ucast (desc_len m d head))"
    and "chain m t (ucast (desc_len m d head div 16)) 0 p"
    and "0 < (ucast (desc_len m d head div 16) :: u16)"
    and "\<forall>k\<in>set p. can_map ok g (desc_addr m t k) (ucast (desc_len m t k))"
    and "unat (ucast (desc_len m d head div 16) :: u16) \<le> cap"
  shows "\<exists>g'. virt_queue__get_head_iov ok cap m g vq head =
    Done (map (seg_of m t) p,
      of_nat (length (filter (\<lambda>k. \<not> is_write_desc m t k) p)),
      of_nat (length (filter (is_write_desc m t) p)), g') \<and>
    mset (mappings g') = mset (map (desc_page m t) p) + mset (mappings g)"
  using get_head_iov_indirect_chain [OF refl assms] .

theorem get_head_iov_indirect_witness:
  "\<exists>g'. virt_queue__get_head_iov (\<lambda>k f n. True) 256 (st64 (st32 (st16 (\<lambda>a. 0) 0x100C 4) 0x1008 16) 0x1000 0x2000)
      \<lparr>use_gnttab = 0, mappings = []\<rparr> (zero_vq\<lparr>vr_num := 4, vr_desc := Some 0x1000\<rparr>) 0 =
    Done ([\<lparr>seg_base = Some 0, seg_len = 0\<rparr>], 1, 0, g')"
proof -
  let ?m = "st64 (st32 (st16 (\<lambda>a. 0) 0x100C 4) 0x1008 16) 0x1000 0x2000"
  let ?g = "\<lparr>use_gnttab = 0, mappings = []\<rparr> :: demu_map"
  have v: "desc_addr ?m 0x1000 0 = 0x2000" "desc_len ?m 0x1000 0 = 16"
    "virt_desc__test_flag ?m 0x1000 0 VRING_DESC_F_INDIRECT" by code_simp+
  have c: "chain ?m 0x2000 1 0 [0]" by (rule chain_last) code_simp
  have k: "can_map (\<lambda>k f n. True) ?g 0x2000 16"
    "can_map (\<lambda>k f n. True) ?g (desc_addr ?m 0x2000 0) (ucast (desc_len ?m 0x2000 0))" by code_simp+
  have w: "\<not> is_write_desc ?m 0x2000 0" "seg_of ?m 0x2000 0 = \<lparr>seg_base = Some 0, seg_len = 0\<rparr>" by code_simp+
  show ?thesis
    using get_head_iov_indirect [of "zero_vq\<lparr>vr_num := 4, vr_desc := Some 0x1000\<rparr>" "0x1000" ?m 0 "0x2000"
        "\<lambda>k f n. True" ?g "[0]" 256] v c k w
    by auto
qed

text \<open>
  Nothing but the size of the caller's array bounds the walk: when the descriptors form a chain
  that never ends, \<open>virt_queue__get_head_iov\<close> writes past the array, for every array whose index
  fits the 16-bit counters.
\<close>

theorem get_head_iov_endless:
  assumes "vr_desc vq = Some d" and "\<not> virt_desc__test_flag m d head VRING_DESC_F_INDIRECT"
    and "\<nexists>p. chain m d (ucast (vr_num vq)) head p"
    and "\<forall>k. can_map ok g (desc_addr m d k) (ucast (desc_len m d k))"
    and "cap \<le> 2 ^ 16"
  shows "virt_queue__get_head_iov ok cap m g vq head = Wild"
  using assms by (simp add: virt_queue__get_head_iov_def head_iov_loop_endless)

theorem get_head_iov_endless_witness:
  "virt_queue__get_head_iov (\<lambda>k f n. True) 256 (\<lambda>a. if a = 0x100C then 1 else 0)
     \<lparr>use_gnttab = 0, mappings = []\<rparr> (zero_vq\<lparr>vr_num := 4, vr_desc := Some 0x1000\<rparr>) 0 = Wild"
proof -
  let ?m = "\<lambda>a. if a = 0x100C then 1 else 0 :: u8"
  have n: "next_idx ?m 0x1000 4 0 = 0" by code_simp
  have "\<not> chain ?m 0x1000 4 0 p" for p
  proof (induction p)
    case Nil
    then show ?case using chain_nonempty by blast
  next
    case (Cons k p)
    then show ?case using n by (simp add: chain_Cons_simp)
  qed
  moreover have "can_map (\<lambda>k f n. True) \<lparr>use_gnttab = 0, mappings = []\<rparr> (desc_addr ?m 0x1000 k)
      (ucast (desc_len ?m 0x1000 k))" for k
  proof -
    have "desc_at 0x1000 k + of_nat i \<noteq> 0x100C" if "i < 8" for i
    proof
      assume e: "desc_at 0x1000 k + of_nat i = 0x100C"
      have "16 * (ucast k :: u64) + of_nat i = 0xC" using e by (simp add: desc_at_def algebra_simps)
      then have "unat (16 * (ucast k :: u64) + of_nat i) = 12" by simp
      moreover have "unat (16 * (ucast k :: u64) + of_nat i) = 16 * unat k + i"
        using unat16_less [of k] that
        by (simp add: unat_word_ariths unsigned_ucast_eq take_bit_nat_eq_self unat_of_nat)
      ultimately show False using that by presburger
    qed
    then have "ldn ?m (desc_at 0x1000 k) 8 = replicate 8 0"
      by (intro nth_equalityI) simp_all
    then have "desc_addr ?m 0x1000 k = 0" by (simp add: desc_addr_def ld64_def eval_nat_numeral)
    then show ?thesis by (simp add: can_map_def)
  qed
  moreover have "\<not> virt_desc__test_flag ?m 0x1000 0 VRING_DESC_F_INDIRECT" by code_simp
  ultimately show ?thesis
    using get_head_iov_endless [of "zero_vq\<lparr>vr_num := 4, vr_desc := Some 0x1000\<rparr>" "0x1000" ?m 0
        "\<lambda>k f n. True" "\<lparr>use_gnttab = 0, mappings = []\<rparr>" 256]
    by simp
qed

end
