(* ===== verification/VirtioBlkProofs.thy ===== *)
theory VirtioBlkProofs
  imports VirtioBlk DiskProofs VirtqueueProofs
begin

text \<open>
  A request from the available ring to the used ring: the mappings a request takes and gives back,
  what completing a request writes, and the requests that are never completed.
\<close>

subsection \<open>The mappings of a request\<close>

definition seg_page :: "seg \<Rightarrow> u64 \<times> u32" where
  "seg_page v = page_entry (case seg_base v of Some b \<Rightarrow> b | None \<Rightarrow> 0) (ucast (seg_len v))"

definition mapped :: "seg \<Rightarrow> bool" where
  "mapped v \<longleftrightarrow> seg_base v \<noteq> None"

lemma map_range_result:
  assumes "demu_map_guest_range ok g addr n = Done (b, g')"
  shows "(b = Some addr \<and> mappings g' = page_entry addr n # mappings g) \<or> (b = None \<and> mappings g' = mappings g)"
  using assms
  by (auto simp: demu_map_guest_range_def Let_def page_entry_def page_split demu_detect_mappings_model_def
      split: if_splits)

lemma head_iov_loop_result:
  assumes "head_iov_loop ok cap m d maxd i g acc out inn = Done (iov, out', inn', g')"
    and "cap < 65536" and "unat out + unat inn = length acc"
  shows "\<exists>vs. iov = acc @ vs \<and> vs \<noteq> [] \<and> unat out' + unat inn' = length iov \<and> length iov \<le> cap \<and>
    mset (mappings g') = mset (map seg_page (filter mapped vs)) + mset (mappings g)"
  using assms
proof (induction ok cap m d maxd i g acc out inn rule: head_iov_loop.induct)
  case (1 ok cap m d maxd i g acc out inn)
  have cap: "length acc < cap" using "1.prems" by (auto simp: head_iov_loop.simps [of ok cap] split: if_splits)
  obtain b g1 where mp: "demu_map_guest_range ok g (desc_addr m d i) (ucast (desc_len m d i)) = Done (b, g1)"
    using "1.prems" cap by (auto simp: head_iov_loop.simps [of ok cap] bind_run_Done_iff)
  let ?v = "\<lparr>seg_base = b, seg_len = desc_len m d i\<rparr>" and ?w = "virt_desc__test_flag m d i VRING_DESC_F_WRITE"
  let ?out = "if ?w then out else out + 1" and ?inn = "if ?w then inn + 1 else inn"
  let ?next = "ucast (next_desc m d i (ucast maxd)) :: u16"
  have g1: "mset (mappings g1) = mset (map seg_page (filter mapped [?v])) + mset (mappings g)"
    using map_range_result [OF mp] by (auto simp: seg_page_def mapped_def)
  have cnt: "unat ?out + unat ?inn = length (acc @ [?v])"
    using "1.prems"(2,3) cap by (auto simp: unat_word_ariths)
  have step: "head_iov_loop ok cap m d maxd i g acc out inn =
      (if ?next = maxd then Done (acc @ [?v], ?out, ?inn, g1)
       else head_iov_loop ok cap m d maxd ?next g1 (acc @ [?v]) ?out ?inn)"
    using cap mp by (simp add: head_iov_loop.simps [of ok cap m d maxd i] Let_def)
  show ?case
  proof (cases "?next = maxd")
    case True
    then show ?thesis using "1.prems"(1) step g1 cap cnt by auto
  next
    case False
    then have "head_iov_loop ok cap m d maxd ?next g1 (acc @ [?v]) ?out ?inn = Done (iov, out', inn', g')"
      using "1.prems"(1) step by simp
    from "1.IH" [OF _ _ refl refl refl refl refl refl False this "1.prems"(2) cnt] cap mp
    obtain vs where "iov = (acc @ [?v]) @ vs" "vs \<noteq> []" "unat out' + unat inn' = length iov"
        "length iov \<le> cap" "mset (mappings g') = mset (map seg_page (filter mapped vs)) + mset (mappings g1)"
      by auto
    then show ?thesis using g1 by (intro exI [of _ "?v # vs"]) auto
  qed
qed

text \<open>An indirect table of length 0 is mapped and not unmapped; any other one is balanced.\<close>

definition empty_table :: "mem \<Rightarrow> virt_queue \<Rightarrow> u16 \<Rightarrow> bool" where
  "empty_table m vq head \<longleftrightarrow>
     (case vr_desc vq of
        None \<Rightarrow> False
      | Some d \<Rightarrow> virt_desc__test_flag m d head VRING_DESC_F_INDIRECT \<and> desc_len m d head = 0)"

lemma mset_remove_cons: "mset xs = A + mset (x # ys) \<Longrightarrow> mset (remove1 x xs) = A + mset ys"
  by simp

lemma get_head_iov_result:
  assumes "virt_queue__get_head_iov ok cap m g vq head = Done (iov, out, inn, g')" and "\<not> empty_table m vq head"
    and cap: "cap < 65536"
  shows "iov \<noteq> [] \<and> unat out + unat inn = length iov \<and> length iov \<le> cap \<and>
    mset (mappings g') = mset (map seg_page (filter mapped iov)) + mset (mappings g)"
proof -
  obtain d where d: "vr_desc vq = Some d" using assms(1) by (auto simp: virt_queue__get_head_iov_def split: option.splits)
  show ?thesis
  proof (cases "virt_desc__test_flag m d head VRING_DESC_F_INDIRECT")
    case False
    then show ?thesis
      using assms(1) d head_iov_loop_result [of ok cap m d "ucast (vr_num vq)" head g "[]" 0 0 iov out inn g'] cap
      by (auto simp: virt_queue__get_head_iov_def)
  next
    case True
    let ?l = "desc_len m d head"
    have nz: "?l \<noteq> 0" using assms(2) True d by (simp add: empty_table_def)
    obtain b g1 where mp: "demu_map_guest_range ok g (desc_addr m d head) (ucast ?l) = Done (b, g1)"
      using assms(1) d True by (auto simp: virt_queue__get_head_iov_def Let_def bind_run_Done_iff)
    then obtain t where t: "b = Some t"
      using assms(1) d True by (auto simp: virt_queue__get_head_iov_def Let_def split: option.splits)
    obtain g2 where g2: "head_iov_loop ok cap m t (ucast (?l div 16)) 0 g1 [] 0 0 = Done (iov, out, inn, g2)"
        "g' = demu_unmap_guest_range g2 t (ucast ?l)"
      using assms(1) d True mp t nz by (auto simp: virt_queue__get_head_iov_def Let_def bind_run_Done_iff)
    have g1: "mappings g1 = page_entry t (ucast ?l) # mappings g"
      using map_range_result [OF mp] t by auto
    note r = head_iov_loop_result [OF g2(1) cap, simplified]
    have "mset (mappings g2) = mset (map seg_page (filter mapped iov)) + mset (page_entry t (ucast ?l) # mappings g)"
      using r g1 by auto
    then have "mset (mappings g') = mset (map seg_page (filter mapped iov)) + mset (mappings g)"
      unfolding g2(2) demu_unmap_guest_range_def page_entry_def by (simp add: mset_remove_cons)
    then show ?thesis using r by auto
  qed
qed

lemma unmap_segs_mset:
  "mset (mappings (unmap_segs g vs)) = mset (mappings g) - mset (map seg_page vs)"
  by (induction vs arbitrary: g) (simp_all add: demu_unmap_guest_range_def seg_page_def page_entry_def)

lemma unmap_segs_balanced:
  assumes "mset (mappings g') = mset (map seg_page vs) + mset (mappings g)"
  shows "mset (mappings (unmap_segs g' vs)) = mset (mappings g)"
  using assms by (simp add: unmap_segs_mset)

subsection \<open>Completion\<close>

lemma set_used_elem_frame:
  assumes "virt_queue__set_used_elem m vq h l = Done m'" and "vr_used vq = Some u"
    and "disjoint x k u (used_bytes (vr_num vq))" and "0 < k"
  shows "ldn m' x k = ldn m x k"
proof -
  have n: "vr_num vq \<noteq> 0"
    using assms(1,2)
    by (auto simp: virt_queue__set_used_elem_def virt_queue__set_used_elem_no_update_def split: if_splits)
  let ?s = "unat (ucast (used_idx m u) mod vr_num vq)"
  have s: "?s < unat (vr_num vq)" using n by (rule unat_mod_less)
  have sub: "disjoint x k (u + of_nat j) c" if "j + c \<le> used_bytes (vr_num vq)" "0 < c" for j c
    using disjoint_sub [OF assms(3), of 0 k j c] that assms(4) by simp
  have d: "disjoint x k (u + of_nat (4 + 8 * ?s)) 4" "disjoint x k (u + of_nat (8 + 8 * ?s)) 4"
      "disjoint x k (u + of_nat 2) 2"
    by (rule sub; use s in \<open>simp add: used_bytes_def\<close>)+
  have e: "u + of_nat (4 + 8 * ?s) + 4 = u + of_nat (8 + 8 * ?s)" by simp
  have "m' = st16 (st32 (st32 m (u + of_nat (4 + 8 * ?s)) h) (u + of_nat (8 + 8 * ?s)) l) (u + of_nat 2)
      (used_idx (st32 (st32 m (u + of_nat (4 + 8 * ?s)) h) (u + of_nat (8 + 8 * ?s)) l) u + 1)"
    using assms(1) unfolding set_used_elem_Done [OF assms(2) n] Let_def used_elem_off e by simp
  then show ?thesis using d by (simp add: st16_def st32_def ldn_stn_disjoint del: of_nat_add of_nat_mult)
qed

definition queue_live :: "virt_queue \<Rightarrow> bool" where
  "queue_live vq \<longleftrightarrow> vr_avail vq \<noteq> None \<and> vr_used vq \<noteq> None \<and> vr_num vq \<noteq> 0"

lemma should_signal_Done:
  assumes "queue_live vq"
  shows "\<exists>b vq'. virtio_queue__should_signal abi m vq = Done (b, vq')"
  using assms by (cases "vring_need_event abi (ld16 m (avail_ring_at (the (vr_avail vq)) (vr_num vq)))
      (ld16 m (the (vr_used vq) + 2)) (last_used_signalled vq)")
    (auto simp: queue_live_def virtio_queue__should_signal_def Let_def)

text \<open>
  What completing request \<open>rq\<close> with result \<open>len\<close> does: the state \<open>s'\<close> after it.
\<close>

definition completed :: "env \<Rightarrow> blk \<Rightarrow> nat \<Rightarrow> int \<Rightarrow> blk \<Rightarrow> bool" where
  "completed e s rq len s' \<longleftrightarrow>
     (let r = reqs (dev s) ! rq; n = unat (rq_out r) + unat (rq_in r);
          st = the (seg_base (rq_iov r ! (n - 1)));
          m = stn (ram s) st [if len < 0 then VIRTIO_BLK_S_IOERR else VIRTIO_BLK_S_OK]
      in virt_queue__set_used_elem m (queue (dev s)) (ucast (rq_head r)) (of_int len) = Done (ram s') \<and>
         gmap s' = unmap_segs (gmap s) (take n (rq_iov r)) \<and> disk (dev s') = disk (dev s) \<and>
         (\<exists>b vq. virtio_queue__should_signal (ring_abi e) (ram s') (queue (dev s)) = Done (b, vq) \<and>
            dev s' = set_queue vq (dev s) \<and>
            irq_levels s' = (if b then (vm_irq (vmmio s), VIRTIO_IRQ_HIGH) # irq_levels s else irq_levels s)))"

lemma complete_Done:
  assumes "r = reqs (dev s) ! rq" and "n = unat (rq_out r) + unat (rq_in r)"
    and "0 < n" and "n \<le> length (rq_iov r)" and "mapped (rq_iov r ! (n - 1))" and "queue_live (queue (dev s))"
  shows "\<exists>s'. virtio_blk_complete e s rq len = Done s' \<and> completed e s rq len s'"
proof -
  obtain st where st: "seg_base (rq_iov r ! (n - 1)) = Some st" using assms(5) by (auto simp: mapped_def)
  let ?m = "stn (ram s) st [if len < 0 then VIRTIO_BLK_S_IOERR else VIRTIO_BLK_S_OK]"
  obtain m2 where m2: "virt_queue__set_used_elem ?m (queue (dev s)) (ucast (rq_head r)) (of_int len) = Done m2"
    using assms(6) by (auto simp: queue_live_def set_used_elem_Done Let_def)
  obtain b vq where b: "virtio_queue__should_signal (ring_abi e) m2 (queue (dev s)) = Done (b, vq)"
    using should_signal_Done [OF assms(6)] by blast
  have n: "n \<noteq> 0" "\<not> length (rq_iov r) < n" using assms(3,4) by simp_all
  show ?thesis
    using st m2 b n assms(1,2)
    by (auto simp: virtio_blk_complete_def completed_def Let_def virtio_mmio_signal_vq_def kvm__irq_trigger_def
        demu_set_irq_def hdr_set_def set_queue_def)
qed

subsection \<open>Fetching a request\<close>

text \<open>
  A round that finds a request: the queue's memory is \<open>m\<close> once the availability is tested, the ring
  gives \<open>head\<close>, and the chain's segments are \<open>iov\<close>, all mapped.
\<close>

definition fetches :: "env \<Rightarrow> blk \<Rightarrow> mem \<Rightarrow> virt_queue \<Rightarrow> u16 \<Rightarrow> seg list \<Rightarrow> u16 \<Rightarrow> u16 \<Rightarrow> demu_map \<Rightarrow> bool" where
  "fetches e s m q head iov out inn g \<longleftrightarrow>
     virt_queue__available (ram s) (queue (dev s)) = Done (True, m) \<and> \<not> io_done (dev s) \<and>
     virt_queue__pop m (queue (dev s)) = Done (head, q) \<and> unat head < length (reqs (dev s)) \<and>
     virt_queue__get_head_iov (map_ok e) VIRTIO_BLK_QUEUE_SIZE m (gmap s) q head = Done (iov, out, inn, g) \<and>
     \<not> empty_table m q head \<and> list_all mapped iov \<and> 2 \<le> length iov \<and> vqs (dev s) \<noteq> []"

text \<open>The state in which the request is carried out.\<close>

definition fetched :: "blk \<Rightarrow> mem \<Rightarrow> virt_queue \<Rightarrow> u16 \<Rightarrow> seg list \<Rightarrow> u16 \<Rightarrow> u16 \<Rightarrow> demu_map \<Rightarrow> blk" where
  "fetched s m q head iov out inn g =
     upd_dev (\<lambda>d. d\<lparr>reqs := (reqs d)[unat head := fill_req iov out inn head (reqs d ! unat head)]\<rparr>)
       ((upd_dev (set_queue q) (s\<lparr>ram := m\<rparr>))\<lparr>gmap := g\<rparr>)"

lemma round_fetched:
  assumes "fetches e s m q head iov out inn g"
  shows "do_io_round e s =
    bind_run (virtio_blk_do_io_request e (fetched s m q head iov out inn g) (unat head)) (\<lambda>s'. Done (True, s'))"
  using assms by (simp add: do_io_round_def fetches_def fetched_def Let_def set_queue_def)

lemma fetched_simps [simp]:
  "ram (fetched s m q head iov out inn g) = m"
  "gmap (fetched s m q head iov out inn g) = g"
  "irq_levels (fetched s m q head iov out inn g) = irq_levels s"
  "vmmio (fetched s m q head iov out inn g) = vmmio s"
  "disk (dev (fetched s m q head iov out inn g)) = disk (dev s)"
  by (simp_all add: fetched_def set_queue_def)

lemma fetched_request:
  assumes "fetches e s m q head iov out inn g"
  shows "reqs (dev (fetched s m q head iov out inn g)) ! unat head = fill_req iov out inn head (reqs (dev s) ! unat head)"
    and "queue (dev (fetched s m q head iov out inn g)) = q"
    and "unat out + unat inn = length iov"
    and "mset (mappings g) = mset (map seg_page iov) + mset (mappings (gmap s))"
proof -
  have "VIRTIO_BLK_QUEUE_SIZE < 65536" by (simp add: c_simps)
  then have r: "unat out + unat inn = length iov"
      "mset (mappings g) = mset (map seg_page (filter mapped iov)) + mset (mappings (gmap s))"
    using assms get_head_iov_result [of "map_ok e" VIRTIO_BLK_QUEUE_SIZE m "gmap s" q head iov out inn g]
    by (simp_all add: fetches_def)
  have "filter mapped iov = iov" using assms by (simp add: fetches_def list_all_iff)
  then show "mset (mappings g) = mset (map seg_page iov) + mset (mappings (gmap s))" using r by simp
  show "unat out + unat inn = length iov" by (rule r)
  show "reqs (dev (fetched s m q head iov out inn g)) ! unat head = fill_req iov out inn head (reqs (dev s) ! unat head)"
    using assms by (simp add: fetched_def fetches_def set_queue_def)
  show "queue (dev (fetched s m q head iov out inn g)) = q"
    using assms by (cases "vqs (dev s)") (simp_all add: fetched_def fetches_def set_queue_def queue_def)
qed

text \<open>The parts of a request: its header, its data and its status byte.\<close>

definition parts :: "seg list \<Rightarrow> u64 \<Rightarrow> iovec list \<Rightarrow> u64 \<Rightarrow> bool" where
  "parts iov h vs st \<longleftrightarrow>
     (\<exists>ds t. iov = hd iov # ds @ [t] \<and> seg_base (hd iov) = Some h \<and> vs = map iovec_of ds \<and>
        seg_base t = Some st \<and> seg_len t \<noteq> 0)"

lemma parts_vector:
  assumes "parts iov h vs st" and "list_all mapped iov" and "unat out + unat inn = length iov"
  shows "\<exists>w rest. data_iov (fill_req iov out inn head r) = vs @ w # rest \<and> 0 < iov_len w"
    and "int (unat inn) + int (unat out) - 2 = int (length vs)"
    and "\<not> null_data (fill_req iov out inn head r) (int (length vs))"
    and "seg_base (rq_iov (fill_req iov out inn head r) ! 0) = Some h"
    and "seg_base (rq_iov (fill_req iov out inn head r) ! (length iov - 1)) = Some st"
    and "take (length iov) (rq_iov (fill_req iov out inn head r)) = iov"
proof -
  obtain ds t where p: "iov = hd iov # ds @ [t]" "seg_base (hd iov) = Some h" "vs = map iovec_of ds"
      "seg_base t = Some st" "seg_len t \<noteq> 0"
    using assms(1) by (auto simp: parts_def)
  obtain x where x: "iov = x # ds @ [t]" "seg_base x = Some h" using p(1,2) by (metis)
  have l: "length iov = length ds + 2" using x by simp
  show "\<exists>w rest. data_iov (fill_req iov out inn head r) = vs @ w # rest \<and> 0 < iov_len w"
    using x p(3,5)
    by (auto simp: data_iov_def fill_req_def iovec_of_def unat_gt_0
        intro!: exI [of _ "iovec_of t"])
  show "int (unat inn) + int (unat out) - 2 = int (length vs)"
  proof -
    have "length vs = length ds" using p(3) by simp
    then show ?thesis using assms(3) l by linarith
  qed
  show "\<not> null_data (fill_req iov out inn head r) (int (length vs))"
    using x p(3) assms(2) by (auto simp: null_data_def fill_req_def list_all_iff mapped_def Let_def)
  show "seg_base (rq_iov (fill_req iov out inn head r) ! 0) = Some h" using x by (simp add: fill_req_def)
  show "seg_base (rq_iov (fill_req iov out inn head r) ! (length iov - 1)) = Some st"
    using x p(4) by (simp add: fill_req_def nth_append)
  show "take (length iov) (rq_iov (fill_req iov out inn head r)) = iov" by (simp add: fill_req_def)
qed

subsection \<open>Carrying out a request\<close>

text \<open>The state after the disk's part of a request: memory, disk, and the rest as fetched.\<close>

definition after_disk :: "blk \<Rightarrow> mem \<Rightarrow> disk_image \<Rightarrow> blk" where
  "after_disk s m d = upd_dev (\<lambda>b. b\<lparr>disk := d\<rparr>) (s\<lparr>ram := m\<rparr>)"

lemma after_disk_simps [simp]:
  "ram (after_disk s m d) = m" "gmap (after_disk s m d) = gmap s"
  "irq_levels (after_disk s m d) = irq_levels s" "vmmio (after_disk s m d) = vmmio s"
  "disk (dev (after_disk s m d)) = d" "reqs (dev (after_disk s m d)) = reqs (dev s)"
  "queue (dev (after_disk s m d)) = queue (dev s)"
  by (simp_all add: after_disk_def queue_def)

lemma disk_upd_id: "upd_dev (\<lambda>b. b\<lparr>disk := d\<rparr>) s = after_disk s (ram s) d"
  by (simp add: after_disk_def)

lemma fetched_complete:
  assumes f: "fetches e s m q head iov out inn g" and p: "parts iov h vs st" and "queue_live q"
  shows "\<exists>s'. virtio_blk_complete e (after_disk (fetched s m q head iov out inn g) m' d) (unat head) len = Done s' \<and>
    completed e (after_disk (fetched s m q head iov out inn g) m' d) (unat head) len s'"
proof -
  let ?s = "after_disk (fetched s m q head iov out inn g) m' d"
  let ?r = "fill_req iov out inn head (reqs (dev s) ! unat head)"
  note fr = fetched_request [OF f]
  have mp: "list_all mapped iov" "2 \<le> length iov" using f by (simp_all add: fetches_def)
  have r: "?r = reqs (dev ?s) ! unat head" using fr(1) by simp
  have n: "unat (rq_out ?r) + unat (rq_in ?r) = length iov" using fr(3) by (simp add: fill_req_def)
  have st: "mapped (rq_iov ?r ! (length iov - 1))"
    using parts_vector(5) [OF p mp(1) fr(3), of head "reqs (dev s) ! unat head"] by (simp add: mapped_def)
  show ?thesis
    by (rule complete_Done [OF r n [symmetric] _ _ st])
      (use mp fr(2) assms(3) in \<open>auto simp: fill_req_def\<close>)
qed

lemma read_carried_out:
  assumes f: "fetches e s m q head iov out inn g" and p: "parts iov h vs st" and "queue_live q"
    and "ld32 m h = VIRTIO_BLK_T_IN" and "sector = ld64 m (h + 8)"
    and rd: "\<And>w rest. 0 < iov_len w \<Longrightarrow> \<exists>d'. disk_image__read (io_fuel e) (disk (dev s)) m sector (vs @ w # rest) (int (length vs)) =
      Done (len, Some len, m', d') \<and> P d'"
  shows "\<exists>s' d'. do_io_round e s = Done (True, s') \<and>
    completed e (after_disk (fetched s m q head iov out inn g) m' d') (unat head) len s' \<and> P d'"
proof -
  let ?s = "fetched s m q head iov out inn g" and ?r = "fill_req iov out inn head (reqs (dev s) ! unat head)"
  note fr = fetched_request [OF f]
  have mp: "list_all mapped iov" using f by (simp add: fetches_def)
  note v = parts_vector [OF p mp fr(3)]
  obtain w rest where w: "data_iov ?r = vs @ w # rest" "0 < iov_len w" using v(1) [of head "reqs (dev s) ! unat head"] by blast
  obtain d' where d': "disk_image__read (io_fuel e) (disk (dev s)) m sector (vs @ w # rest) (int (length vs)) =
      Done (len, Some len, m', d')" "P d'"
    using rd [OF w(2)] by blast
  obtain s' where s': "virtio_blk_complete e (after_disk ?s m' d') (unat head) len = Done s'"
      "completed e (after_disk ?s m' d') (unat head) len s'"
    using fetched_complete [OF f p assms(3)] by blast
  have "virtio_blk_do_io_request e ?s (unat head) = Done s'"
    using v(2-4) w(1) d'(1) s'(1) assms(4,5) fr(1)
    by (simp add: virtio_blk_do_io_request_def Let_def callback_def fill_req_def after_disk_def c_simps)
  then show ?thesis using round_fetched [OF f] s'(2) d'(2) by auto
qed

lemma write_carried_out:
  assumes f: "fetches e s m q head iov out inn g" and p: "parts iov h vs st" and "queue_live q"
    and "ld32 m h = VIRTIO_BLK_T_OUT" and "sector = ld64 m (h + 8)"
    and wr: "\<And>w rest. 0 < iov_len w \<Longrightarrow> \<exists>d'. disk_image__write (io_fuel e) (heap_junk e) (disk (dev s)) m sector (vs @ w # rest)
      (int (length vs)) = Done (len, Some len, d') \<and> P d'"
  shows "\<exists>s' d'. do_io_round e s = Done (True, s') \<and>
    completed e (after_disk (fetched s m q head iov out inn g) m d') (unat head) len s' \<and> P d'"
proof -
  let ?s = "fetched s m q head iov out inn g" and ?r = "fill_req iov out inn head (reqs (dev s) ! unat head)"
  note fr = fetched_request [OF f]
  have mp: "list_all mapped iov" using f by (simp add: fetches_def)
  note v = parts_vector [OF p mp fr(3)]
  obtain w rest where w: "data_iov ?r = vs @ w # rest" "0 < iov_len w" using v(1) [of head "reqs (dev s) ! unat head"] by blast
  obtain d' where d': "disk_image__write (io_fuel e) (heap_junk e) (disk (dev s)) m sector (vs @ w # rest) (int (length vs)) =
      Done (len, Some len, d')" "P d'"
    using wr [OF w(2)] by blast
  obtain s' where s': "virtio_blk_complete e (after_disk ?s m d') (unat head) len = Done s'"
      "completed e (after_disk ?s m d') (unat head) len s'"
    using fetched_complete [OF f p assms(3)] by blast
  have "virtio_blk_do_io_request e ?s (unat head) = Done s'"
    using v(2-4) w(1) d'(1) s'(1) assms(4,5) fr(1)
    by (simp add: virtio_blk_do_io_request_def Let_def callback_def fill_req_def disk_upd_id c_simps)
  then show ?thesis using round_fetched [OF f] s'(2) d'(2) by auto
qed

lemma read_round:
  assumes f: "fetches e s m q head iov out inn g" and p: "parts iov h vs st" and "queue_live q"
    and "ld32 m h = VIRTIO_BLK_T_IN" and "sector = ld64 m (h + 8)"
    and "disk_ready (io_fuel e) (disk (dev s)) sector (iov_total vs)" and "whole_sectors vs"
    and "\<not> dk_async (disk (dev s))" and "dk_req_cb (disk (dev s))"
  shows "\<exists>s' d'. do_io_round e s = Done (True, s') \<and>
    completed e (after_disk (fetched s m q head iov out inn g)
      (scatter m vs (disk_content (disk (dev s)) sector (iov_total vs))) d') (unat head) (int (iov_total vs)) s' \<and>
    (\<forall>x n. disk_content d' x n = disk_content (disk (dev s)) x n)"
proof -
  have a: "acknowledged (disk (dev s)) r = Some r" for r using assms(8,9) by (simp add: acknowledged_def)
  show ?thesis
    by (rule read_carried_out [OF f p assms(3-5)]) (use disk_read_ok [OF assms(6,7), unfolded a] in blast)
qed

lemma write_round:
  assumes f: "fetches e s m q head iov out inn g" and p: "parts iov h vs st" and "queue_live q"
    and "ld32 m h = VIRTIO_BLK_T_OUT" and "sector = ld64 m (h + 8)"
    and "disk_ready (io_fuel e) (disk (dev s)) sector (iov_total vs)" and "whole_sectors vs"
    and "\<not> dk_async (disk (dev s))" and "dk_req_cb (disk (dev s))"
    and "dk_ops (disk (dev s)) \<in> {Raw_image_regular_ops, Blk_dev_ops, Ro_ops}"
  shows "\<exists>s' d'. do_io_round e s = Done (True, s') \<and>
    completed e (after_disk (fetched s m q head iov out inn g) m d') (unat head) (int (iov_total vs)) s' \<and>
    disk_content d' sector (iov_total vs) = gather m vs"
proof -
  have a: "acknowledged (disk (dev s)) r = Some r" for r using assms(8,9) by (simp add: acknowledged_def)
  show ?thesis
    by (rule write_carried_out [OF f p assms(3-5)]) (use disk_write_ok [OF assms(10,6,7), unfolded a] in blast)
qed

subsection \<open>What the guest sees\<close>

text \<open>The buffers, the status byte and the used ring do not meet.\<close>

definition layout_ok :: "virt_queue \<Rightarrow> u64 \<Rightarrow> iovec list \<Rightarrow> u64 \<Rightarrow> bool" where
  "layout_ok q u vs st \<longleftrightarrow> iovs_apart vs \<and> disjoint st 1 u (used_bytes (vr_num q)) \<and>
     (\<forall>v\<in>set vs. disjoint (iov_base v) (iov_len v) st 1 \<and>
        disjoint (iov_base v) (iov_len v) u (used_bytes (vr_num q)))"

text \<open>
  The guest's view of a served request: the result in the used ring under the next index, the status
  byte, no mapping left, and the interrupt exactly when the ring asks for it.
\<close>

definition served :: "env \<Rightarrow> blk \<Rightarrow> mem \<Rightarrow> virt_queue \<Rightarrow> u64 \<Rightarrow> u16 \<Rightarrow> u64 \<Rightarrow> nat \<Rightarrow> blk \<Rightarrow> bool" where
  "served e s m q u head st len s' \<longleftrightarrow>
     ram s' st = VIRTIO_BLK_S_OK \<and> used_idx (ram s') u = used_idx m u + 1 \<and>
     used_entry (ram s') u (vr_num q) (used_idx m u) = (ucast head, of_nat len) \<and>
     mset (mappings (gmap s')) = mset (mappings (gmap s)) \<and>
     (\<exists>b q'. virtio_queue__should_signal (ring_abi e) (ram s') q = Done (b, q') \<and>
        irq_levels s' = (if b then (vm_irq (vmmio s), VIRTIO_IRQ_HIGH) # irq_levels s else irq_levels s))"

lemma ldn_1: "ldn m a (Suc 0) = [m a]"
  by (simp add: ldn_def)

lemma completed_memory:
  assumes "virt_queue__set_used_elem (stn m1 st [b]) q h l = Done m'" and "vr_used q = Some u" and "vr_num q \<noteq> 0"
    and "layout_ok q u vs st"
  shows "m' st = b" and "gather m' vs = gather m1 vs" and "used_idx m' u = used_idx m1 u + 1"
    and "used_entry m' u (vr_num q) (used_idx m1 u) = (h, l)"
proof -
  have st: "disjoint st 1 u (used_bytes (vr_num q))" using assms(4) by (simp add: layout_ok_def)
  have "ldn m' st 1 = ldn (stn m1 st [b]) st 1"
    by (rule set_used_elem_frame [OF assms(1,2) st]) simp
  also have "\<dots> = [b]" by (rule ldn_stn_same) simp_all
  finally show "m' st = b" by (simp add: ldn_1)
  show "gather m' vs = gather m1 vs"
  proof (rule gather_cong)
    fix v assume v: "v \<in> set vs"
    then have d: "disjoint (iov_base v) (iov_len v) st (length [b])"
        "disjoint (iov_base v) (iov_len v) u (used_bytes (vr_num q))"
      using assms(4) by (simp_all add: layout_ok_def)
    show "ldn m' (iov_base v) (iov_len v) = ldn m1 (iov_base v) (iov_len v)"
    proof (cases "iov_len v = 0")
      case True
      then show ?thesis by (simp add: ldn_def)
    next
      case False
      then show ?thesis
        using set_used_elem_frame [OF assms(1,2) d(2)] ldn_stn_disjoint [OF d(1), of m1] by simp
    qed
  qed
  have "disjoint (u + of_nat 2) 2 (st + of_nat 0) 1"
    by (rule disjoint_sub [OF disjoint_sym [OF st]]) (simp_all add: used_bytes_def)
  then have d: "disjoint (u + 2) 2 st (length [b])" by simp
  have i: "used_idx (stn m1 st [b]) u = used_idx m1 u"
    unfolding used_idx_def by (rule ld16_stn_disjoint [OF d])
  show "used_idx m' u = used_idx m1 u + 1" "used_entry m' u (vr_num q) (used_idx m1 u) = (h, l)"
    using set_used_elem_entry [OF assms(2,3,1)] i by simp_all
qed

lemma completed_served:
  assumes f: "fetches e s m q head iov out inn g" and p: "parts iov h vs st" and "vr_used q = Some u" and "vr_num q \<noteq> 0"
    and "layout_ok q u vs st"
    and c: "completed e (after_disk (fetched s m q head iov out inn g) m1 d) (unat head) (int len) s'"
    and "used_idx m1 u = used_idx m u"
  shows "served e s m q u head st len s' \<and> gather (ram s') vs = gather m1 vs \<and> disk (dev s') = d"
proof -
  let ?s = "after_disk (fetched s m q head iov out inn g) m1 d"
  let ?r = "fill_req iov out inn head (reqs (dev s) ! unat head)"
  note fr = fetched_request [OF f]
  have mp: "list_all mapped iov" using f by (simp add: fetches_def)
  note v = parts_vector [OF p mp fr(3)]
  have n: "unat (rq_out ?r) + unat (rq_in ?r) = length iov" using fr(3) by (simp add: fill_req_def)
  have hd: "rq_head ?r = head" by (simp add: fill_req_def)
  have used: "virt_queue__set_used_elem (stn m1 st [VIRTIO_BLK_S_OK]) q (ucast head) (of_int (int len)) = Done (ram s')"
    and gm: "gmap s' = unmap_segs g iov" and dk: "disk (dev s') = d"
    and sg: "\<exists>b q'. virtio_queue__should_signal (ring_abi e) (ram s') q = Done (b, q') \<and>
        irq_levels s' = (if b then (vm_irq (vmmio s), VIRTIO_IRQ_HIGH) # irq_levels s else irq_levels s)"
    using c fr(1,2) n v(5,6) hd by (auto simp: completed_def Let_def)
  note mem = completed_memory [OF used assms(3,4,5)]
  have "mset (mappings (gmap s')) = mset (mappings (gmap s))"
    unfolding gm using fr(4) by (rule unmap_segs_balanced)
  then show ?thesis using mem assms(7) sg dk by (simp add: served_def)
qed

lemma used_idx_scatter:
  assumes "layout_ok q u vs st"
  shows "used_idx (scatter m vs bs) u = used_idx m u"
proof -
  have "\<forall>v\<in>set vs. iov_len v = 0 \<or> disjoint (u + of_nat 2) 2 (iov_base v) (iov_len v)"
  proof
    fix v assume "v \<in> set vs"
    then have d: "disjoint u (used_bytes (vr_num q)) (iov_base v) (iov_len v)"
      using assms by (auto simp: layout_ok_def disjoint_sym)
    show "iov_len v = 0 \<or> disjoint (u + of_nat 2) 2 (iov_base v) (iov_len v)"
      using disjoint_sub [OF d, of 2 2 0 "iov_len v"] by (auto simp: used_bytes_def)
  qed
  from ldn_scatter_disjoint [OF this] show ?thesis by (simp add: used_idx_def ld16_def)
qed

lemma length_disk_content: "disk_ready fuel d s n \<Longrightarrow> length (disk_content d s n) = n"
  by (cases "dk_ops d")
    (auto simp: disk_ready_def disk_content_def raw_ready_def raw_content_def map_ready_def map_content_def
      qcow_disk_content_def qcow_content_def file_slice_def nat_sector_pos)

text \<open>Requests that end without being completed leave the rings as they are.\<close>

lemma error_round:
  assumes f: "fetches e s m q head iov out inn g" and p: "parts iov h vs st"
    and "ld32 m h = VIRTIO_BLK_T_IN"
    and rd: "disk_image__read (io_fuel e) (disk (dev s)) m (ld64 m (h + 8))
      (data_iov (fill_req iov out inn head (reqs (dev s) ! unat head))) (int (length vs)) = Done (r, cb, m', d')"
    and "r < 0"
  shows "do_io_round e s = Done (True, after_disk (fetched s m q head iov out inn g) m' d')"
proof -
  note fr = fetched_request [OF f]
  have mp: "list_all mapped iov" using f by (simp add: fetches_def)
  note v = parts_vector [OF p mp fr(3)]
  have "cb = None" using rd assms(5)
    by (auto simp: disk_image__read_def bind_run_Done_iff split: if_splits)
  then have "virtio_blk_do_io_request e (fetched s m q head iov out inn g) (unat head) =
      Done (after_disk (fetched s m q head iov out inn g) m' d')"
    using v(2-4) rd assms(3) fr(1)
    by (simp add: virtio_blk_do_io_request_def Let_def callback_def fill_req_def after_disk_def c_simps)
  then show ?thesis using round_fetched [OF f] by simp
qed

lemma unknown_round:
  assumes f: "fetches e s m q head iov out inn g" and p: "parts iov h vs st"
    and "ld32 m h \<notin> {VIRTIO_BLK_T_IN, VIRTIO_BLK_T_OUT, VIRTIO_BLK_T_FLUSH, VIRTIO_BLK_T_GET_ID}"
  shows "do_io_round e s = Done (True, fetched s m q head iov out inn g)"
proof -
  note fr = fetched_request [OF f]
  have mp: "list_all mapped iov" using f by (simp add: fetches_def)
  note v = parts_vector [OF p mp fr(3)]
  have "virtio_blk_do_io_request e (fetched s m q head iov out inn g) (unat head) =
      Done (fetched s m q head iov out inn g)"
    using v(4) assms(3) fr(1) by (simp add: virtio_blk_do_io_request_def Let_def)
  then show ?thesis using round_fetched [OF f] by simp
qed

subsection \<open>Properties\<close>

text \<open>
  C6: One round of \<open>virtio_blk_do_io\<close> serves a read request, from the available ring to the used
  ring: the guest's buffers hold the disk's contents, the status byte says OK, the next used entry
  holds the chain's head and the length, the mappings made for the request are released, and the
  guest is interrupted exactly when its ring asks for it.  Direct and indirect chains, all kinds of
  images and any interruptions of the host's reads are covered.
\<close>

theorem blk_read_served:
  assumes "fetches e s m q head iov out inn g" and "parts iov h vs st" and "queue_live q"
    and "vr_used q = Some u" and "layout_ok q u vs st"
    and "ld32 m h = VIRTIO_BLK_T_IN" and "sector = ld64 m (h + 8)"
    and "disk_ready (io_fuel e) (disk (dev s)) sector (iov_total vs)" and "whole_sectors vs"
    and "\<not> dk_async (disk (dev s))" and "dk_req_cb (disk (dev s))"
  shows "\<exists>s'. do_io_round e s = Done (True, s') \<and> served e s m q u head st (iov_total vs) s' \<and>
    gather (ram s') vs = disk_content (disk (dev s)) sector (iov_total vs) \<and>
    (\<forall>x n. disk_content (disk (dev s')) x n = disk_content (disk (dev s)) x n)"
proof -
  let ?d = "disk_content (disk (dev s)) sector (iov_total vs)"
  obtain s' d' where s': "do_io_round e s = Done (True, s')"
      "completed e (after_disk (fetched s m q head iov out inn g) (scatter m vs ?d) d') (unat head) (int (iov_total vs)) s'"
      "\<forall>x n. disk_content d' x n = disk_content (disk (dev s)) x n"
    using read_round [OF assms(1,2,3,6-11)] by blast
  have "vr_num q \<noteq> 0" using assms(3) by (simp add: queue_live_def)
  from completed_served [OF assms(1,2,4) this assms(5) s'(2) used_idx_scatter [OF assms(5)]]
  have "served e s m q u head st (iov_total vs) s' \<and> gather (ram s') vs = gather (scatter m vs ?d) vs \<and>
      disk (dev s') = d'" .
  moreover have "gather (scatter m vs ?d) vs = ?d"
    using assms(5,8,9) by (intro gather_scatter)
      (simp_all add: layout_ok_def whole_sectors_sizes length_disk_content)
  ultimately show ?thesis using s' by auto
qed

text \<open>A queue of one request: header at 0x4000, data at 0x5000, status at 0x6000.\<close>

definition sample_env :: env where
  "sample_env = \<lparr>map_ok = (\<lambda>k f n. True), map_io = (\<lambda>a b. 0),
     ring_abi = \<lparr>vring_need_event = (\<lambda>event new old. new - event - 1 < new - old),
       vring_size = (\<lambda>n a. 0x3000), vring_avail_off = (\<lambda>n. 0x1000), vring_used_off = (\<lambda>n p a. 0x2000)\<rparr>,
     host_page = 4096, efd_ok = True, thread_ok = True, sys_errno = 24, serial_stat = Some (1, 2, 3),
     io_fuel = 6, heap_junk = [], config_len = 60\<rparr>"

definition sample_descs :: "u8 list" where
  "sample_descs =
     [0, 0x40, 0, 0, 0, 0, 0, 0, 16, 0, 0, 0, 1, 0, 1, 0,
      0, 0x50, 0, 0, 0, 0, 0, 0, 0, 2, 0, 0, 3, 0, 2, 0,
      0, 0x60, 0, 0, 0, 0, 0, 0, 1, 0, 0, 0, 2, 0, 0, 0]"

definition sample_ram :: "u8 \<Rightarrow> mem" where
  "sample_ram type a =
     (if a AND 0xFFFFFFFFFFFFFFC0 = 0x1000 then (sample_descs @ replicate 16 0) ! unat (a AND 0x3F)
      else if a = 0x2002 then 1
      else if a = 0x4000 then type
      else if a = 0x4008 then 1
      else 0)"

definition sample_queue :: virt_queue where
  "sample_queue = zero_vq\<lparr>vr_num := 256, vr_desc := Some 0x1000, vr_avail := Some 0x2000,
     vr_used := Some 0x3000, vq_enabled := True\<rparr>"

definition sample_blk :: "u8 \<Rightarrow> disk_image \<Rightarrow> blk" where
  "sample_blk type d =
     \<lparr>ram = sample_ram type, gmap = \<lparr>use_gnttab = 0, mappings = []\<rparr>, irq_levels = [], spaces = [], io_ranges = [],
      vdev = zero_vdev, vmmio = \<lparr>vm_addr = 0x2000000, vm_irq = 33, hdr = zero_hdr\<rparr>,
      dev = \<lparr>blk_config = [], disk = d, vqs = [sample_queue], reqs = [zero_req\<lparr>rq_iov := []\<rparr>], io_thread = Some 0,
        io_efd = Some 0, io_done = False, efds = [Some 0], threads = [TServe]\<rparr>\<rparr>"

definition sample_iov :: "seg list" where
  "sample_iov = [\<lparr>seg_base = Some 0x4000, seg_len = 16\<rparr>, \<lparr>seg_base = Some 0x5000, seg_len = 512\<rparr>,
     \<lparr>seg_base = Some 0x6000, seg_len = 1\<rparr>]"

definition sample_maps :: demu_map where
  "sample_maps = \<lparr>use_gnttab = 0, mappings = [(0x6000, 1), (0x5000, 1), (0x4000, 1)]\<rparr>"

abbreviation sample_popped :: virt_queue where
  "sample_popped \<equiv> sample_queue\<lparr>last_avail_idx := 1\<rparr>"

definition sample_head_iov :: "u8 \<Rightarrow> (seg list \<times> u16 \<times> u16 \<times> demu_map) run" where
  "sample_head_iov type = virt_queue__get_head_iov (map_ok sample_env) VIRTIO_BLK_QUEUE_SIZE (sample_ram type)
     \<lparr>use_gnttab = 0, mappings = []\<rparr> sample_popped 0"

lemma sample_fetches:
  "fetches sample_env (sample_blk type d) (sample_ram type) sample_popped 0 sample_iov 1 2 sample_maps"
proof -
  have h: "sample_head_iov type = Done (sample_iov, 1, 2, sample_maps)" by code_simp
  have a: "ld16 (sample_ram type) 0x2002 \<noteq> 0" by code_simp
  have p: "virt_queue__pop (sample_ram type) sample_queue = Done (0, sample_popped)" by code_simp
  have t: "\<not> empty_table (sample_ram type) sample_popped 0" by code_simp
  have "virt_queue__available (sample_ram type) sample_queue = Done (True, sample_ram type)"
    using a by (simp add: virt_queue__available_def sample_queue_def zero_vq_def)
  then show ?thesis
    using h p t
    by (auto simp: fetches_def sample_blk_def queue_def sample_head_iov_def sample_iov_def mapped_def)
qed

lemma sample_header:
  "ld32 (sample_ram type) 0x4000 = ucast type" "ld64 (sample_ram type) 0x4008 = 1"
proof -
  have "ldn (sample_ram type) 0x4000 4 = [type, 0, 0, 0]" by code_simp
  then show "ld32 (sample_ram type) 0x4000 = ucast type" by (simp add: ld32_def)
  show "ld64 (sample_ram type) 0x4008 = 1" by code_simp
qed

lemma sample_parts: "parts sample_iov 0x4000 [\<lparr>iov_base = 0x5000, iov_len = 512\<rparr>] 0x6000"
  by (auto simp: parts_def sample_iov_def iovec_of_def)

lemma sample_layout: "layout_ok sample_popped 0x3000 [\<lparr>iov_base = 0x5000, iov_len = 512\<rparr>] 0x6000"
  by (simp add: layout_ok_def iovs_apart_def disjoint_def used_bytes_def sample_queue_def)

theorem blk_read_served_witness:
  "\<exists>s'. do_io_round sample_env (sample_blk 0 sample_disk) = Done (True, s') \<and>
    gather (ram s') [\<lparr>iov_base = 0x5000, iov_len = 512\<rparr>] = disk_content sample_disk 1 512 \<and>
    ram s' 0x6000 = VIRTIO_BLK_S_OK"
proof -
  have d: "disk_ready (io_fuel sample_env) sample_disk 1 512"
    by (simp add: disk_ready_def raw_ready_def sample_disk_def benign_def transient_def sample_env_def)
  show ?thesis
    using blk_read_served [OF sample_fetches [of 0 sample_disk] sample_parts _ _ sample_layout, of 1] d
    by (auto simp: sample_blk_def queue_live_def sample_queue_def whole_sectors_def sample_disk_def served_def
        sample_header VIRTIO_BLK_T_IN_def)
qed

text \<open>
  C7: One round serves a write request to a raw image, a block device or a private mapping: the disk's
  sectors then hold the guest's buffers, and the guest sees a completed request.
\<close>

theorem blk_write_served:
  assumes "fetches e s m q head iov out inn g" and "parts iov h vs st" and "queue_live q"
    and "vr_used q = Some u" and "layout_ok q u vs st"
    and "ld32 m h = VIRTIO_BLK_T_OUT" and "sector = ld64 m (h + 8)"
    and "disk_ready (io_fuel e) (disk (dev s)) sector (iov_total vs)" and "whole_sectors vs"
    and "\<not> dk_async (disk (dev s))" and "dk_req_cb (disk (dev s))"
    and "dk_ops (disk (dev s)) \<in> {Raw_image_regular_ops, Blk_dev_ops, Ro_ops}"
  shows "\<exists>s'. do_io_round e s = Done (True, s') \<and> served e s m q u head st (iov_total vs) s' \<and>
    disk_content (disk (dev s')) sector (iov_total vs) = gather m vs \<and> gather (ram s') vs = gather m vs"
proof -
  obtain s' d' where s': "do_io_round e s = Done (True, s')"
      "completed e (after_disk (fetched s m q head iov out inn g) m d') (unat head) (int (iov_total vs)) s'"
      "disk_content d' sector (iov_total vs) = gather m vs"
    using write_round [OF assms(1,2,3,6-12)] by blast
  have "vr_num q \<noteq> 0" using assms(3) by (simp add: queue_live_def)
  from completed_served [OF assms(1,2,4) this assms(5) s'(2) refl]
  show ?thesis using s' by auto
qed

theorem blk_write_served_witness:
  "\<exists>s'. do_io_round sample_env (sample_blk 1 sample_disk) = Done (True, s') \<and>
    disk_content (disk (dev s')) 1 512 = gather (sample_ram 1) [\<lparr>iov_base = 0x5000, iov_len = 512\<rparr>] \<and>
    ram s' 0x6000 = VIRTIO_BLK_S_OK"
proof -
  have d: "disk_ready (io_fuel sample_env) sample_disk 1 512"
    by (simp add: disk_ready_def raw_ready_def sample_disk_def benign_def transient_def sample_env_def)
  show ?thesis
    using blk_write_served [OF sample_fetches [of 1 sample_disk] sample_parts _ _ sample_layout, of 1] d
    by (auto simp: sample_blk_def queue_live_def sample_queue_def whole_sectors_def sample_disk_def served_def
        sample_header VIRTIO_BLK_T_OUT_def)
qed

text \<open>
  C38: A read that the disk fails is never completed, although \<open>virtio_blk_complete\<close> has a status
  for it: the request is gone from the available ring, memory is as the disk left it, so the used ring
  and the status byte say nothing, no interrupt is raised, and the request's pages stay mapped.
\<close>

theorem blk_read_error_lost:
  assumes "fetches e s m q head iov out inn g" and "parts iov h vs st"
    and "ld32 m h = VIRTIO_BLK_T_IN"
    and "disk_image__read (io_fuel e) (disk (dev s)) m (ld64 m (h + 8))
      (data_iov (fill_req iov out inn head (reqs (dev s) ! unat head))) (int (length vs)) = Done (r, cb, m', d')"
    and "r < 0"
  shows "\<exists>s'. do_io_round e s = Done (True, s') \<and> ram s' = m' \<and> queue (dev s') = q \<and>
    irq_levels s' = irq_levels s \<and>
    mset (mappings (gmap s')) = mset (map seg_page iov) + mset (mappings (gmap s))"
  using error_round [OF assms] fetched_request [OF assms(1)] by auto

definition failing_disk :: disk_image where
  "failing_disk = sample_disk\<lparr>dk_fd := \<lparr>fbytes = [], fpos = 0, fscript = [SErr EIO]\<rparr>\<rparr>"

theorem blk_read_error_lost_witness:
  "\<exists>s'. do_io_round sample_env (sample_blk 0 failing_disk) = Done (True, s') \<and> irq_levels s' = []"
proof -
  let ?iov = "data_iov (fill_req sample_iov 1 2 0 (zero_req\<lparr>rq_iov := []\<rparr>))"
  have iov: "?iov = [\<lparr>iov_base = 0x5000, iov_len = 512\<rparr>, \<lparr>iov_base = 0x6000, iov_len = 1\<rparr>]"
    by (simp add: data_iov_def fill_req_def sample_iov_def iovec_of_def)
  have x: "xpreadv (dk_fd failing_disk) m [\<lparr>iov_base = 0x5000, iov_len = 512\<rparr>] 512 =
      (Inl EIO, m, \<lparr>fbytes = [], fpos = 0, fscript = []\<rparr>)" for m
    by (simp add: failing_disk_def xpreadv.simps sys_preadv_def sys_pread_def serve_def transient_def)
  have "preadv_in_full 6 (dk_fd failing_disk) m ?iov 1 512 = Done (None, m, \<lparr>fbytes = [], fpos = 0, fscript = []\<rparr>)" for m
    unfolding iov using x by (simp add: preadv_in_full_def get_iov_size.simps preadv_loop.simps)
  moreover have "sector_pos 1 = 512" by (simp add: sector_pos_def c_simps)
  ultimately have r: "\<exists>d'. disk_image__read 6 failing_disk m 1 ?iov 1 = Done (-1, None, m, d')" for m
    by (simp add: disk_image__read_def ops_tables raw_image__read_sync_def result_of_def
        failing_disk_def [THEN arg_cong [where f = dk_ops]] sample_disk_def)
  have "\<exists>s'. do_io_round sample_env (sample_blk 0 failing_disk) = Done (True, s') \<and>
      irq_levels s' = irq_levels (sample_blk 0 failing_disk)"
    using blk_read_error_lost [OF sample_fetches [of 0 failing_disk] sample_parts] r [of "sample_ram 0"]
    by (fastforce simp: sample_header VIRTIO_BLK_T_IN_def sample_blk_def sample_env_def)
  then show ?thesis by (simp add: sample_blk_def)
qed

text \<open>
  A request of a type the device does not know, such as a discard, is dropped in the same way: it is
  taken from the available ring, never completed, and its pages stay mapped.
\<close>

theorem blk_unknown_request_lost:
  assumes "fetches e s m q head iov out inn g" and "parts iov h vs st"
    and "ld32 m h \<notin> {VIRTIO_BLK_T_IN, VIRTIO_BLK_T_OUT, VIRTIO_BLK_T_FLUSH, VIRTIO_BLK_T_GET_ID}"
  shows "\<exists>s'. do_io_round e s = Done (True, s') \<and> ram s' = m \<and> queue (dev s') = q \<and>
    irq_levels s' = irq_levels s \<and>
    mset (mappings (gmap s')) = mset (map seg_page iov) + mset (mappings (gmap s))"
  using unknown_round [OF assms] fetched_request [OF assms(1)] by auto

theorem blk_unknown_request_lost_witness:
  "\<exists>s'. do_io_round sample_env (sample_blk 5 sample_disk) = Done (True, s') \<and> ram s' = sample_ram 5 \<and>
    irq_levels s' = irq_levels (sample_blk 5 sample_disk)"
  using blk_unknown_request_lost [OF sample_fetches [of 5 sample_disk] sample_parts]
  by (auto simp: sample_header c_simps)

end
