(* ===== verification/UsedRing.thy ===== *)
theory UsedRing
  imports VirtqueueProofs
begin

text \<open>
  Several threads completing requests in one used ring (\<^verbatim>\<open>virtio/blk.c\<close>, \<^verbatim>\<open>virtio/core.c\<close>): with asynchronous
  disk operations the thread of the queue and the thread that collects events both end in
  \<open>virtio_blk_complete\<close>.  Here the part of it under the mutex is taken apart into its accesses to memory, and
  the steps of the threads, of the guest and of the rest of the device happen in any order.
\<close>

subsection \<open>The steps of a completion\<close>

text \<open>
  Where a thread is: not completing anything, before \<open>mutex_lock\<close>, holding the mutex, with the address of the
  element computed, with its first and with both words written, with the index read, and with the index
  written, before \<open>mutex_unlock\<close>.  The head and the length are kept to the end.
\<close>

datatype completer =
    Idle | Wants_lock u32 u32 | Has_lock u32 u32 | Has_elem u64 u32 u32 | Wrote_id u64 u32 u32 | Wrote_len u32 u32
  | Has_idx u16 u32 u32 | Wrote_idx u32 u32

text \<open>
  \<open>rg_asked\<close> and \<open>rg_log\<close> are not the program's: the completions begun, and those published, in order.
\<close>

record ring_threads =
  rg_mem :: mem
  rg_mutex :: "nat option"
  rg_pcs :: "completer list"
  rg_asked :: "(u32 \<times> u32) list"
  rg_log :: "(u32 \<times> u32) list"

definition goto :: "nat \<Rightarrow> completer \<Rightarrow> ring_threads \<Rightarrow> ring_threads" where
  "goto t pc s = s\<lparr>rg_pcs := (rg_pcs s)[t := pc]\<rparr>"

text \<open>The next step of thread \<open>t\<close> on the ring at \<open>u\<close> with \<open>n\<close> elements; \<open>None\<close> while it has to wait.\<close>

definition complete_step :: "u64 \<Rightarrow> u32 \<Rightarrow> nat \<Rightarrow> ring_threads \<Rightarrow> ring_threads option" where
  "complete_step u n t s =
     (let m = rg_mem s
      in case rg_pcs s ! t of
           Idle \<Rightarrow> None
         | Wants_lock h l \<Rightarrow>
             if rg_mutex s = None then Some (goto t (Has_lock h l) (s\<lparr>rg_mutex := Some t\<rparr>)) else None
         | Has_lock h l \<Rightarrow> Some (goto t (Has_elem (used_elem_at u (ucast (ld16 m (u + 2)) mod n)) h l) s)
         | Has_elem e h l \<Rightarrow> Some (goto t (Wrote_id e h l) (s\<lparr>rg_mem := st32 m e h\<rparr>))
         | Wrote_id e h l \<Rightarrow> Some (goto t (Wrote_len h l) (s\<lparr>rg_mem := st32 m (e + 4) l\<rparr>))
         | Wrote_len h l \<Rightarrow> Some (goto t (Has_idx (ld16 m (u + 2)) h l) s)
         | Has_idx i h l \<Rightarrow>
             Some (goto t (Wrote_idx h l) (s\<lparr>rg_mem := st16 m (u + 2) (i + 1), rg_log := rg_log s @ [(h, l)]\<rparr>))
         | Wrote_idx h l \<Rightarrow> Some (goto t Idle (s\<lparr>rg_mutex := None\<rparr>)))"

text \<open>
  A thread that is idle begins a completion, takes its next step, or memory outside the used ring is written:
  by the guest, which only reads the ring, or by the device, for data and status.
\<close>

datatype ring_act = Begins nat u32 u32 | Steps nat | Writes u64 "u8 list"

fun ring_do :: "u64 \<Rightarrow> u32 \<Rightarrow> ring_act \<Rightarrow> ring_threads \<Rightarrow> ring_threads option" where
  "ring_do u n (Begins t h l) s =
     (if t < length (rg_pcs s) \<and> rg_pcs s ! t = Idle
      then Some (goto t (Wants_lock h l) (s\<lparr>rg_asked := rg_asked s @ [(h, l)]\<rparr>)) else None)"
| "ring_do u n (Steps t) s = (if t < length (rg_pcs s) then complete_step u n t s else None)"
| "ring_do u n (Writes a bs) s =
     (if disjoint a (length bs) u (used_bytes n) then Some (s\<lparr>rg_mem := stn (rg_mem s) a bs\<rparr>) else None)"

fun ring_run :: "u64 \<Rightarrow> u32 \<Rightarrow> ring_act list \<Rightarrow> ring_threads \<Rightarrow> ring_threads option" where
  "ring_run u n [] s = Some s"
| "ring_run u n (a # as) s = (case ring_do u n a s of None \<Rightarrow> None | Some s' \<Rightarrow> ring_run u n as s')"

definition ring_start :: "mem \<Rightarrow> nat \<Rightarrow> ring_threads" where
  "ring_start m k = \<lparr>rg_mem = m, rg_mutex = None, rg_pcs = replicate k Idle, rg_asked = [], rg_log = []\<rparr>"

text \<open>A thread that is alone does what \<open>virt_queue__set_used_elem\<close> does.\<close>

lemma alone_is_set_used_elem:
  assumes "t < k" and "vr_used vq = Some u" and "vr_num vq = n" and "n \<noteq> 0"
    and "virt_queue__set_used_elem m vq h l = Done m'"
  shows "ring_run u n (Begins t h l # replicate 7 (Steps t)) (ring_start m k) =
    Some ((ring_start m' k)\<lparr>rg_asked := [(h, l)], rg_log := [(h, l)]\<rparr>)"
  using assms
  by (simp add: ring_start_def numeral_eq_Suc complete_step_def goto_def Let_def set_used_elem_Done used_idx_def
      list_update_same_conv)

subsection \<open>Elements of the ring\<close>

definition slot_of_idx :: "u32 \<Rightarrow> u16 \<Rightarrow> nat" where
  "slot_of_idx n i = unat (ucast i mod n)"

definition slot_id :: "mem \<Rightarrow> u64 \<Rightarrow> nat \<Rightarrow> u32" where
  "slot_id m u s = ld32 m (u + of_nat (4 + 8 * s))"

definition slot_len :: "mem \<Rightarrow> u64 \<Rightarrow> nat \<Rightarrow> u32" where
  "slot_len m u s = ld32 m (u + of_nat (8 + 8 * s))"

lemma used_entry_slot: "used_entry m u n i = (slot_id m u (slot_of_idx n i), slot_len m u (slot_of_idx n i))"
proof -
  have "u + of_nat (4 + 8 * k) + 4 = u + of_nat (8 + 8 * k)" for k by simp
  then show ?thesis by (simp only: used_entry_def Let_def used_elem_off slot_id_def slot_len_def slot_of_idx_def)
qed

lemma elem_slot:
  "used_elem_at u (ucast i mod n) = u + of_nat (4 + 8 * slot_of_idx n i)"
  "u + of_nat (4 + 8 * s) + 4 = u + of_nat (8 + 8 * s)"
  by (simp_all add: used_elem_off slot_of_idx_def)

text \<open>Writes to an element, to the index and outside the ring, and what they leave.\<close>

lemma slot_words_apart:
  assumes "s < 2 ^ 32" "t < 2 ^ 32" and "b = 4 \<or> b = 8" "c = 4 \<or> c = 8" and "s \<noteq> t \<or> b \<noteq> c"
  shows "disjoint (u + of_nat (b + 8 * t)) 4 (u + of_nat (c + 8 * s)) 4"
proof -
  have "b + 8 * t + 4 \<le> c + 8 * s \<or> c + 8 * s + 4 \<le> b + 8 * t" using assms(3-5) by presburger
  moreover have "b + 8 * t + 4 \<le> 2 ^ 64" "c + 8 * s + 4 \<le> 2 ^ 64" using assms(1-4) by auto
  ultimately show ?thesis
    using disjoint_same_base [of "b + 8 * t" 4 "c + 8 * s" 4 u]
      disjoint_sym [OF disjoint_same_base [of "c + 8 * s" 4 "b + 8 * t" 4 u]]
    by (elim disjE) (simp_all del: of_nat_add of_nat_mult)
qed

lemma idx_apart:
  "s < 2 ^ 32 \<Longrightarrow> c = 4 \<or> c = 8 \<Longrightarrow> disjoint (u + 2) 2 (u + of_nat (c + 8 * s)) 4"
  using disjoint_same_base [of 2 2 "c + 8 * s" 4 u] by auto

lemma write_id:
  assumes "s < 2 ^ 32" "t < 2 ^ 32"
  shows "slot_id (st32 m (u + of_nat (4 + 8 * s)) x) u t = (if t = s then x else slot_id m u t)"
    and "slot_len (st32 m (u + of_nat (4 + 8 * s)) x) u t = slot_len m u t"
    and "used_idx (st32 m (u + of_nat (4 + 8 * s)) x) u = used_idx m u"
  using slot_words_apart [OF assms, of 4 4 u] slot_words_apart [OF assms, of 8 4 u] idx_apart [OF assms(1), of 4 u]
  by (auto simp: slot_id_def slot_len_def used_idx_def mem_simps simp del: of_nat_add of_nat_mult)

lemma write_len:
  assumes "s < 2 ^ 32" "t < 2 ^ 32"
  shows "slot_len (st32 m (u + of_nat (8 + 8 * s)) x) u t = (if t = s then x else slot_len m u t)"
    and "slot_id (st32 m (u + of_nat (8 + 8 * s)) x) u t = slot_id m u t"
    and "used_idx (st32 m (u + of_nat (8 + 8 * s)) x) u = used_idx m u"
  using slot_words_apart [OF assms, of 8 8 u] slot_words_apart [OF assms, of 4 8 u] idx_apart [OF assms(1), of 8 u]
  by (auto simp: slot_id_def slot_len_def used_idx_def mem_simps simp del: of_nat_add of_nat_mult)

lemma write_idx:
  assumes "t < 2 ^ 32"
  shows "slot_id (st16 m (u + 2) x) u t = slot_id m u t" "slot_len (st16 m (u + 2) x) u t = slot_len m u t"
    "used_idx (st16 m (u + 2) x) u = x"
  using disjoint_sym [OF idx_apart [OF assms, of 4 u]] disjoint_sym [OF idx_apart [OF assms, of 8 u]]
  by (simp_all add: slot_id_def slot_len_def used_idx_def mem_simps del: of_nat_add of_nat_mult)

lemma write_outside:
  assumes "disjoint a (length bs) u (used_bytes n)" and "t < unat n"
  shows "slot_id (stn m a bs) u t = slot_id m u t" "slot_len (stn m a bs) u t = slot_len m u t"
    "used_idx (stn m a bs) u = used_idx m u"
proof -
  have d: "bs \<noteq> [] \<Longrightarrow> disjoint (u + of_nat j) k a (length bs)" if "j + k \<le> used_bytes n" "0 < k" for j k
    using disjoint_sub [OF disjoint_sym [OF assms(1)], of j k 0 "length bs"] that by auto
  have "bs \<noteq> [] \<Longrightarrow> disjoint (u + of_nat (4 + 8 * t)) 4 a (length bs)"
    "bs \<noteq> [] \<Longrightarrow> disjoint (u + of_nat (8 + 8 * t)) 4 a (length bs)"
    "bs \<noteq> [] \<Longrightarrow> disjoint (u + of_nat 2) 2 a (length bs)"
    using assms(2) by (intro d; simp add: used_bytes_def)+
  then show "slot_id (stn m a bs) u t = slot_id m u t" "slot_len (stn m a bs) u t = slot_len m u t"
    "used_idx (stn m a bs) u = used_idx m u"
    by (cases "bs = []"; simp add: slot_id_def slot_len_def used_idx_def mem_simps del: of_nat_add of_nat_mult)+
qed

subsection \<open>The invariant\<close>

text \<open>What a thread is going to complete, and whether it is between \<open>mutex_lock\<close> and \<open>mutex_unlock\<close>.\<close>

fun in_progress :: "completer \<Rightarrow> (u32 \<times> u32) list" where
  "in_progress Idle = []"
| "in_progress (Wants_lock h l) = [(h, l)]"
| "in_progress (Has_lock h l) = [(h, l)]"
| "in_progress (Has_elem e h l) = [(h, l)]"
| "in_progress (Wrote_id e h l) = [(h, l)]"
| "in_progress (Wrote_len h l) = [(h, l)]"
| "in_progress (Has_idx i h l) = [(h, l)]"
| "in_progress (Wrote_idx h l) = []"

fun holding :: "completer \<Rightarrow> bool" where
  "holding Idle = False"
| "holding (Wants_lock h l) = False"
| "holding _ = True"

text \<open>What the holder knows of the element behind the last one published, the next to be used.\<close>

fun knows :: "mem \<Rightarrow> u64 \<Rightarrow> u32 \<Rightarrow> completer \<Rightarrow> bool" where
  "knows m u n (Has_elem e h l) \<longleftrightarrow> e = u + of_nat (4 + 8 * slot_of_idx n (used_idx m u))"
| "knows m u n (Wrote_id e h l) \<longleftrightarrow> e = u + of_nat (4 + 8 * slot_of_idx n (used_idx m u)) \<and>
     slot_id m u (slot_of_idx n (used_idx m u)) = h"
| "knows m u n (Wrote_len h l) \<longleftrightarrow> used_entry m u n (used_idx m u) = (h, l)"
| "knows m u n (Has_idx i h l) \<longleftrightarrow> i = used_idx m u \<and> used_entry m u n (used_idx m u) = (h, l)"
| "knows m u n _ \<longleftrightarrow> True"

text \<open>Between taking the mutex and publishing, the element behind the last one is being written.\<close>

definition busy :: "ring_threads \<Rightarrow> bool" where
  "busy s \<longleftrightarrow> (case rg_mutex s of None \<Rightarrow> False | Some t \<Rightarrow> in_progress (rg_pcs s ! t) \<noteq> [])"

text \<open>
  The guest finds in the ring the completions published last, as many as it has elements, or one less while
  the next one is being written.
\<close>

definition shows_log :: "mem \<Rightarrow> u64 \<Rightarrow> u32 \<Rightarrow> u16 \<Rightarrow> bool \<Rightarrow> (u32 \<times> u32) list \<Rightarrow> bool" where
  "shows_log m u n i0 b xs \<longleftrightarrow> used_idx m u = i0 + of_nat (length xs) \<and>
     (\<forall>k < length xs. length xs + of_bool b \<le> k + unat n \<longrightarrow> used_entry m u n (i0 + of_nat k) = xs ! k)"

definition ring_inv :: "u64 \<Rightarrow> u32 \<Rightarrow> u16 \<Rightarrow> ring_threads \<Rightarrow> bool" where
  "ring_inv u n i0 s \<longleftrightarrow> shows_log (rg_mem s) u n i0 (busy s) (rg_log s) \<and>
     (\<forall>t < length (rg_pcs s). holding (rg_pcs s ! t) \<longleftrightarrow> rg_mutex s = Some t) \<and>
     (\<forall>t. rg_mutex s = Some t \<longrightarrow> t < length (rg_pcs s)) \<and>
     (\<forall>t < length (rg_pcs s). knows (rg_mem s) u n (rg_pcs s ! t)) \<and>
     mset (rg_asked s) = mset (rg_log s) + mset (concat (map in_progress (rg_pcs s)))"

text \<open>Indices whose distance is less than the ring's size have elements of their own, also when they wrap.\<close>

lemma slot_of_idx_nat: "unat n dvd 2 ^ 16 \<Longrightarrow> slot_of_idx n (i + of_nat k) = (unat i + k) mod unat n"
proof -
  assume d: "unat n dvd 2 ^ 16"
  have "unat (i + of_nat k) = (unat i + k) mod 2 ^ 16" by (simp add: unat_word_ariths unat_of_nat mod_add_right_eq)
  then show ?thesis
    using mod_mod_cancel [OF d, of "unat i + k"]
    by (simp add: slot_of_idx_def unat_mod unsigned_ucast_eq take_bit_nat_eq_self unat16_less [THEN less_trans])
qed

lemma other_slot:
  assumes "unat n dvd 2 ^ 16" and "k < j" "j < k + unat n"
  shows "slot_of_idx n (i + of_nat k) \<noteq> slot_of_idx n (i + of_nat j)"
proof
  assume "slot_of_idx n (i + of_nat k) = slot_of_idx n (i + of_nat j)"
  then have "(unat i + j) mod unat n = (unat i + k) mod unat n" by (simp add: slot_of_idx_nat [OF assms(1)])
  then have "unat n dvd (unat i + j) - (unat i + k)" using assms(2) by (subst mod_eq_dvd_iff_nat [symmetric]) auto
  then have "unat n dvd j - k" by simp
  then show False using assms(2,3) by (auto dest: dvd_imp_le)
qed

lemma slot_of_idx_less: "unat n dvd 2 ^ 16 \<Longrightarrow> slot_of_idx n i < unat n \<and> unat n \<le> 2 ^ 16"
proof -
  assume d: "unat n dvd 2 ^ 16"
  then have "n \<noteq> 0" by auto
  then show ?thesis using dvd_imp_le [OF d] by (simp add: slot_of_idx_def unat_mod_less)
qed

lemma shows_log_next_slot:
  assumes "shows_log m u n i0 True xs" and "unat n dvd 2 ^ 16" and "used_idx m' u = used_idx m u"
    and "\<And>t. t < unat n \<Longrightarrow> t \<noteq> slot_of_idx n (used_idx m u) \<Longrightarrow> slot_id m' u t = slot_id m u t \<and> slot_len m' u t = slot_len m u t"
  shows "shows_log m' u n i0 True xs"
proof -
  have "used_entry m' u n (i0 + of_nat k) = used_entry m u n (i0 + of_nat k)" if "k < length xs" "length xs < k + unat n" for k
  proof -
    have "slot_of_idx n (i0 + of_nat k) \<noteq> slot_of_idx n (used_idx m u)"
      using other_slot [OF assms(2) that] assms(1) by (simp add: shows_log_def)
    then show ?thesis
      using assms(4) slot_of_idx_less [OF assms(2)] by (simp add: used_entry_slot)
  qed
  then show ?thesis using assms(1,3) by (simp add: shows_log_def)
qed

lemma shows_log_publish:
  assumes "shows_log m u n i0 True xs" and "unat n dvd 2 ^ 16" and "used_entry m u n (used_idx m u) = x"
  shows "shows_log (st16 m (u + 2) (used_idx m u + 1)) u n i0 False (xs @ [x])"
proof -
  have "slot_of_idx n i < 2 ^ 32" for i using slot_of_idx_less [OF assms(2), of i] by simp
  then have "used_entry (st16 m (u + 2) y) u n i = used_entry m u n i" for i y
    by (simp add: used_entry_slot write_idx)
  moreover have "used_idx (st16 m (u + 2) y) u = y" for y by (rule write_idx(3) [of 0]) simp
  ultimately show ?thesis
    using assms(1,3) by (auto simp: shows_log_def nth_append less_Suc_eq add.assoc)
qed

lemma idle_knows: "\<not> holding pc \<Longrightarrow> knows m u n pc"
  by (cases pc) auto

lemma progress_update:
  "t < length ps \<Longrightarrow> mset (concat (map in_progress (ps[t := p]))) + mset (in_progress (ps ! t)) =
     mset (concat (map in_progress ps)) + mset (in_progress p)"
proof (induction ps arbitrary: t)
  case (Cons q ps)
  then show ?case by (cases t) (auto simp: ac_simps)
qed simp

text \<open>A step of thread \<open>t\<close>: it takes or gives back the mutex, and writes to memory only while it has it.\<close>

lemma thread_keeps_inv:
  assumes inv: "ring_inv u n i0 s" and t: "t < length (rg_pcs s)" and s': "rg_pcs s' = (rg_pcs s)[t := pc]"
    and log: "shows_log (rg_mem s') u n i0 (busy s') (rg_log s')"
    and own: "holding pc \<longleftrightarrow> rg_mutex s' = Some t"
    and mx: "rg_mutex s' = rg_mutex s \<or> rg_mutex s = None \<and> rg_mutex s' = Some t \<or> rg_mutex s = Some t \<and> rg_mutex s' = None"
    and kn: "knows (rg_mem s') u n pc" and mem: "rg_mem s' = rg_mem s \<or> rg_mutex s = Some t"
    and cnt: "mset (rg_asked s') + mset (rg_log s) + mset (in_progress (rg_pcs s ! t)) =
      mset (rg_asked s) + mset (rg_log s') + mset (in_progress pc)"
  shows "ring_inv u n i0 s'"
proof -
  have h: "holding (rg_pcs s ! j) \<longleftrightarrow> rg_mutex s = Some j" and k: "knows (rg_mem s) u n (rg_pcs s ! j)"
    if "j < length (rg_pcs s)" for j
    using inv that by (auto simp: ring_inv_def)
  have "holding (rg_pcs s' ! j) \<longleftrightarrow> rg_mutex s' = Some j" if "j < length (rg_pcs s)" for j
    using h [OF that] own mx t s' by (cases "j = t") auto
  moreover have "knows (rg_mem s') u n (rg_pcs s' ! j)" if j: "j < length (rg_pcs s)" for j
  proof (cases "j = t")
    case True
    then show ?thesis using kn t s' by simp
  next
    case False
    then have "rg_mem s' = rg_mem s \<or> \<not> holding (rg_pcs s ! j)" using mem h [OF j] by auto
    then show ?thesis using k [OF j] False s' idle_knows by auto
  qed
  moreover have "mset (rg_asked s') = mset (rg_log s') + mset (concat (map in_progress (rg_pcs s')))"
  proof -
    have a: "mset (rg_asked s) = mset (rg_log s) + mset (concat (map in_progress (rg_pcs s)))"
      using inv by (simp add: ring_inv_def)
    have "mset (rg_asked s') + mset (rg_log s) + mset (in_progress (rg_pcs s ! t)) =
        mset (rg_log s) + mset (rg_log s') + (mset (concat (map in_progress (rg_pcs s))) + mset (in_progress pc))"
      unfolding cnt a by (simp add: ac_simps)
    also have "\<dots> = mset (rg_log s) + mset (rg_log s') + (mset (concat (map in_progress (rg_pcs s'))) + mset (in_progress (rg_pcs s ! t)))"
      unfolding s' progress_update [OF t, symmetric] by (simp add: ac_simps)
    finally show ?thesis by (simp add: ac_simps)
  qed
  moreover have "\<forall>j. rg_mutex s' = Some j \<longrightarrow> j < length (rg_pcs s')" using inv mx t s' by (auto simp: ring_inv_def)
  ultimately show ?thesis using log s' by (simp add: ring_inv_def)
qed

lemma goto_simps [simp]:
  "rg_pcs (goto t pc s) = (rg_pcs s)[t := pc]" "rg_mem (goto t pc s) = rg_mem s" "rg_mutex (goto t pc s) = rg_mutex s"
  "rg_asked (goto t pc s) = rg_asked s" "rg_log (goto t pc s) = rg_log s"
  by (simp_all add: goto_def)

lemma complete_step_inv:
  assumes inv: "ring_inv u n i0 s" and d: "unat n dvd 2 ^ 16" and t: "t < length (rg_pcs s)"
    and step: "complete_step u n t s = Some s'"
  shows "ring_inv u n i0 s'"
proof -
  have sl: "slot_of_idx n i < unat n" "slot_of_idx n i < 2 ^ 32" for i using slot_of_idx_less [OF d, of i] by auto
  have small: "x < 2 ^ 32" if "x < unat n" for x using that slot_of_idx_less [OF d, of 0] by simp
  have log: "shows_log (rg_mem s) u n i0 (busy s) (rg_log s)" using inv by (simp add: ring_inv_def)
  have mx: "holding (rg_pcs s ! t) \<longleftrightarrow> rg_mutex s = Some t" and kn: "knows (rg_mem s) u n (rg_pcs s ! t)"
    using inv t by (auto simp: ring_inv_def)
  have weaker: "shows_log m u n i0 b xs \<Longrightarrow> shows_log m u n i0 True xs" for m b xs by (simp add: shows_log_def)
  have wr: "shows_log (rg_mem s) u n i0 True (rg_log s)" by (rule weaker [OF log])
  note keep = thread_keeps_inv [OF inv t]
  show ?thesis
  proof (cases "rg_pcs s ! t")
    case (Has_elem e h l)
    then have "shows_log (st32 (rg_mem s) e h) u n i0 True (rg_log s)"
      using kn sl small by (intro shows_log_next_slot [OF wr d]) (simp_all add: write_id write_id(3) [where t = 0] del: of_nat_add of_nat_mult)
    then show ?thesis using Has_elem step mx kn sl t by (intro keep) (auto simp: complete_step_def Let_def busy_def write_id write_id(3) [where t = 0] simp del: of_nat_add of_nat_mult)
  next
    case (Wrote_id e h l)
    then have "shows_log (st32 (rg_mem s) (e + 4) l) u n i0 True (rg_log s)"
      using kn sl small by (intro shows_log_next_slot [OF wr d]) (simp_all add: write_len write_len(3) [where t = 0] elem_slot(2) del: of_nat_add of_nat_mult)
    then show ?thesis using Wrote_id step mx kn sl t
      by (intro keep) (auto simp: complete_step_def Let_def busy_def write_len write_len(3) [where t = 0] elem_slot(2) used_entry_slot simp del: of_nat_add of_nat_mult)
  next
    case (Has_idx i h l)
    then have "shows_log (st16 (rg_mem s) (u + 2) (i + 1)) u n i0 False (rg_log s @ [(h, l)])"
      using kn shows_log_publish [OF wr d] by simp
    then show ?thesis using Has_idx step mx t by (intro keep) (auto simp: complete_step_def Let_def busy_def)
  next
    case (Wants_lock h l)
    then show ?thesis using step mx wr t by (intro keep) (auto simp: complete_step_def Let_def busy_def split: if_splits)
  next
    case (Has_lock h l)
    then show ?thesis using step mx log t by (intro keep) (auto simp: complete_step_def Let_def busy_def used_idx_def elem_slot(1))
  next
    case (Wrote_len h l)
    then show ?thesis using step mx log t kn by (intro keep) (auto simp: complete_step_def Let_def busy_def used_idx_def)
  next
    case (Wrote_idx h l)
    then show ?thesis using step mx log t by (intro keep) (auto simp: complete_step_def Let_def busy_def)
  qed (use step in \<open>simp add: complete_step_def\<close>)
qed

lemma outside_knows:
  assumes "disjoint a (length bs) u (used_bytes n)" and "unat n dvd 2 ^ 16"
  shows "knows (stn m a bs) u n pc = knows m u n pc"
proof -
  have s: "slot_of_idx n i < unat n" for i using slot_of_idx_less [OF assms(2)] by simp
  have "used_idx (stn m a bs) u = used_idx m u" by (rule write_outside(3) [OF assms(1) s])
  then show ?thesis using s by (cases pc) (simp_all add: used_entry_slot write_outside [OF assms(1)])
qed

lemma ring_do_inv:
  assumes "ring_do u n a s = Some s'" and inv: "ring_inv u n i0 s" and d: "unat n dvd 2 ^ 16"
  shows "ring_inv u n i0 s' \<and> length (rg_pcs s') = length (rg_pcs s)"
proof (cases a)
  case (Begins t h l)
  then have t: "t < length (rg_pcs s)" "rg_pcs s ! t = Idle"
      and s': "s' = goto t (Wants_lock h l) (s\<lparr>rg_asked := rg_asked s @ [(h, l)]\<rparr>)"
    using assms(1) by (auto split: if_splits)
  have mx: "rg_mutex s \<noteq> Some t" using inv t by (auto simp: ring_inv_def)
  then have "busy s' = busy s" using s' by (auto simp: busy_def split: option.splits)
  moreover have "shows_log (rg_mem s) u n i0 (busy s) (rg_log s)" using inv by (simp add: ring_inv_def)
  ultimately have "ring_inv u n i0 s'"
    using mx t s' by (intro thread_keeps_inv [OF inv t(1), where pc = "Wants_lock h l"]) simp_all
  then show ?thesis using s' by simp
next
  case (Steps t)
  then have t: "t < length (rg_pcs s)" and c: "complete_step u n t s = Some s'" using assms(1) by (auto split: if_splits)
  have "length (rg_pcs s') = length (rg_pcs s)"
    using c by (auto simp: complete_step_def Let_def split: completer.splits if_splits)
  then show ?thesis using complete_step_inv [OF inv d t c] by simp
next
  case (Writes a bs)
  then have w: "disjoint a (length bs) u (used_bytes n)" and s': "s' = s\<lparr>rg_mem := stn (rg_mem s) a bs\<rparr>"
    using assms(1) by (auto split: if_splits)
  have sl: "slot_of_idx n i < unat n" for i using slot_of_idx_less [OF d] by simp
  have i: "used_idx (stn m a bs) u = used_idx m u" for m by (rule write_outside(3) [OF w sl])
  have b: "busy s' = busy s" unfolding s' busy_def by (simp split: option.split)
  have "shows_log (rg_mem s') u n i0 (busy s') (rg_log s)"
    using inv s' by (simp add: ring_inv_def shows_log_def b [unfolded s'] i used_entry_slot write_outside [OF w sl])
  then show ?thesis using inv s' by (simp add: ring_inv_def outside_knows [OF w d])
qed

lemma ring_run_inv:
  "ring_run u n as s = Some s' \<Longrightarrow> ring_inv u n i0 s \<Longrightarrow> unat n dvd 2 ^ 16 \<Longrightarrow>
     ring_inv u n i0 s' \<and> length (rg_pcs s') = length (rg_pcs s)"
proof (induction "as" arbitrary: s)
  case (Cons a "as")
  then obtain s1 where 1: "ring_do u n a s = Some s1" "ring_run u n as s1 = Some s'" by (auto split: option.splits)
  show ?case using Cons.IH [OF 1(2)] ring_do_inv [OF 1(1) Cons.prems(2,3)] Cons.prems(3) by simp
qed simp

lemma ring_start_inv: "ring_inv u n (used_idx m u) (ring_start m k)"
  by (simp add: ring_inv_def ring_start_def shows_log_def busy_def)

text \<open>The holder of the mutex can always go on, and without one any waiting thread can.\<close>

lemma holder_goes_on: "holding (rg_pcs s ! t) \<Longrightarrow> complete_step u n t s \<noteq> None"
  by (cases "rg_pcs s ! t") (auto simp: complete_step_def Let_def)

lemma someone_goes_on:
  assumes inv: "ring_inv u n i0 s" and t: "t < length (rg_pcs s)" "rg_pcs s ! t \<noteq> Idle"
  shows "\<exists>t' < length (rg_pcs s). complete_step u n t' s \<noteq> None"
proof (cases "rg_mutex s")
  case (Some t')
  then have "t' < length (rg_pcs s)" "holding (rg_pcs s ! t')" using inv by (auto simp: ring_inv_def)
  then show ?thesis using holder_goes_on by blast
next
  case None
  then have "\<not> holding (rg_pcs s ! t)" using inv t by (auto simp: ring_inv_def)
  then have "complete_step u n t s \<noteq> None"
    using t None by (cases "rg_pcs s ! t") (auto simp: complete_step_def Let_def)
  then show ?thesis using t by blast
qed

subsection \<open>Properties\<close>


text \<open>Two threads complete a request each, the second one while the first one has the mutex.\<close>

definition two_completions :: "ring_act list" where
  "two_completions = [Begins 0 5 512, Steps 0, Begins 1 6 1024, Steps 0, Steps 0, Writes 0x9000 [1, 2], Steps 0, Steps 0, Steps 0,
     Steps 0, Steps 1, Steps 1, Steps 1, Steps 1, Steps 1, Steps 1, Steps 1]"

lemma two_completions_run:
  "\<exists>s. ring_run u n two_completions (ring_start m 2) = Some s \<and> rg_log s = [(5, 512), (6, 1024)] \<and> rg_mutex s = None"
  if "disjoint 0x9000 2 u (used_bytes n)"
  using that by (simp add: two_completions_def ring_start_def complete_step_def goto_def Let_def numeral_eq_Suc)


end
