(* ===== verification/Footprint.thy ===== *)
theory Footprint
  imports VirtioBlkProofs UsedRing
begin

text \<open>
  Which bytes of the memory of the guest a request is read from and which ones serving it writes: the frame
  conditions that let requests be served one after the other.
\<close>

subsection \<open>Sets of bytes\<close>

definition bytes_at :: "u64 \<Rightarrow> nat \<Rightarrow> u64 set" where
  "bytes_at a n = (\<lambda>i. a + of_nat i) ` {..<n}"

definition agree :: "u64 set \<Rightarrow> mem \<Rightarrow> mem \<Rightarrow> bool" where
  "agree A m m' \<longleftrightarrow> (\<forall>a\<in>A. m' a = m a)"

definition iov_bytes :: "iovec list \<Rightarrow> u64 set" where
  "iov_bytes vs = (\<Union>v\<in>set vs. bytes_at (iov_base v) (iov_len v))"

lemma bytes_at_1 [simp]: "bytes_at a (Suc 0) = {a}"
  by (simp add: bytes_at_def lessThan_Suc)

lemma agree_subset: "agree A m m' \<Longrightarrow> B \<subseteq> A \<Longrightarrow> agree B m m'"
  by (auto simp: agree_def)

lemma agree_refl [simp]: "agree A m m"
  by (simp add: agree_def)

lemma agree_trans: "agree A m m1 \<Longrightarrow> agree A m1 m2 \<Longrightarrow> agree A m m2"
  by (simp add: agree_def)

lemma agree_Un: "agree (A \<union> B) m m' \<longleftrightarrow> agree A m m' \<and> agree B m m'"
  by (auto simp: agree_def)

lemma bytes_at_sub: "i + k \<le> n \<Longrightarrow> bytes_at (a + of_nat i) k \<subseteq> bytes_at a n"
proof
  fix x assume "i + k \<le> n" "x \<in> bytes_at (a + of_nat i) k"
  then obtain j where "j < k" "x = a + of_nat (i + j)" "i + j < n" by (auto simp: bytes_at_def add.assoc)
  then show "x \<in> bytes_at a n" by (auto simp: bytes_at_def simp del: of_nat_add)
qed

lemma ldn_agree: "agree (bytes_at a n) m m' \<Longrightarrow> ldn m' a n = ldn m a n"
  by (simp add: ldn_def agree_def bytes_at_def)

lemma ldn_part_agree: "agree (bytes_at a n) m m' \<Longrightarrow> i + k \<le> n \<Longrightarrow> ldn m' (a + of_nat i) k = ldn m (a + of_nat i) k"
  by (intro ldn_agree) (rule agree_subset [OF _ bytes_at_sub])

lemma stn_outside: "x \<notin> bytes_at a (length bs) \<Longrightarrow> stn m a bs x = m x"
proof (induction bs arbitrary: m a)
  case (Cons b bs)
  have "bytes_at (a + of_nat 1) (length bs) \<subseteq> bytes_at a (length (b # bs))" by (rule bytes_at_sub) simp
  moreover have "a \<in> bytes_at a (length (b # bs))" unfolding bytes_at_def by (rule image_eqI [where x = 0]) simp_all
  ultimately have "x \<notin> bytes_at (a + 1) (length bs)" "x \<noteq> a" using Cons.prems by auto
  then show ?case by (simp add: Cons.IH)
qed simp

lemma scatter_outside: "x \<notin> iov_bytes vs \<Longrightarrow> scatter m vs bs x = m x"
proof (induction vs arbitrary: m bs)
  case (Cons v vs)
  have "take (iov_len v) bs = [] \<or> length (take (iov_len v) bs) \<le> iov_len v" by simp
  then have "bytes_at (iov_base v) (length (take (iov_len v) bs)) \<subseteq> bytes_at (iov_base v) (iov_len v)"
    by (auto simp: bytes_at_def)
  then have "x \<notin> bytes_at (iov_base v) (length (take (iov_len v) bs))" "x \<notin> iov_bytes vs"
    using Cons.prems by (auto simp: iov_bytes_def)
  then show ?case using Cons.IH by (simp add: stn_outside)
qed simp

lemma outside_disjoint: "x \<notin> bytes_at a n \<Longrightarrow> 0 < n \<Longrightarrow> disjoint x 1 a n"
proof -
  assume x: "x \<notin> bytes_at a n" "0 < n"
  have "x = a + of_nat (unat (x - a))" by simp
  then have n: "n \<le> unat (x - a)" using x(1) unfolding bytes_at_def by (metis imageI lessThan_iff not_le)
  then have "x \<noteq> a" using x(2) by auto
  then have "a - x \<noteq> 0" by simp
  then have "0 < unat (a - x)" by (simp add: unat_gt_0)
  then show ?thesis using n by (simp add: disjoint_def)
qed

lemma unat_of_nat_le: "unat (of_nat j :: u64) \<le> j"
  by (simp add: unat_of_nat)

lemma disjoint_bytes: "disjoint a n b k \<Longrightarrow> bytes_at a n \<inter> bytes_at b k = {}"
proof -
  assume d: "disjoint a n b k"
  have "a + of_nat i \<noteq> b + of_nat j" if "i < n" "j < k" for i j
  proof
    assume "a + of_nat i = b + of_nat j"
    then have "k \<le> unat (of_nat j :: u64)" using disjoint_offset [OF d that(1)] by simp
    then show False using that(2) unat_of_nat_le [of j] by simp
  qed
  then show ?thesis by (auto simp: bytes_at_def)
qed

lemma set_used_elem_outside:
  assumes "virt_queue__set_used_elem m vq h l = Done m'" and "vr_used vq = Some u"
    and "x \<notin> bytes_at u (used_bytes (vr_num vq))"
  shows "m' x = m x"
proof -
  have "ldn m' x 1 = ldn m x 1"
    by (rule set_used_elem_frame [OF assms(1,2) outside_disjoint [OF assms(3)]]) (simp_all add: used_bytes_def)
  then show ?thesis by (simp add: ldn_1)
qed

lemma gather_agree: "agree (iov_bytes vs) m m' \<Longrightarrow> gather m' vs = gather m vs"
  by (intro gather_cong ldn_agree) (auto simp: iov_bytes_def agree_def)

subsection \<open>What the rings show\<close>

lemma ld_agree:
  "agree (bytes_at a n) m m' \<Longrightarrow> i + 2 \<le> n \<Longrightarrow> ld16 m' (a + of_nat i) = ld16 m (a + of_nat i)"
  "agree (bytes_at a n) m m' \<Longrightarrow> i + 4 \<le> n \<Longrightarrow> ld32 m' (a + of_nat i) = ld32 m (a + of_nat i)"
  "agree (bytes_at a n) m m' \<Longrightarrow> i + 8 \<le> n \<Longrightarrow> ld64 m' (a + of_nat i) = ld64 m (a + of_nat i)"
  unfolding ld16_def ld32_def ld64_def by (simp_all add: ldn_part_agree)

text \<open>The available ring, and the used ring without the event field behind it.\<close>

lemma pending_agree:
  assumes "vr_avail q = Some a" and "agree (bytes_at a (avail_bytes (vr_num q))) m m'" and "vr_num q \<noteq> 0"
  shows "pending m' q = pending m q"
proof -
  have "ld16 m' (a + of_nat 2) = ld16 m (a + of_nat 2)"
    by (rule ld_agree [OF assms(2)]) (simp add: avail_bytes_def)
  moreover have "avail_entry m' a (vr_num q) i = avail_entry m a (vr_num q) i" for i
    using unat_mod_less [OF assms(3), of "ucast i"] ld_agree(1) [OF assms(2), of "4 + 2 * unat (ucast i mod vr_num q)"]
    unfolding avail_entry_def avail_ring_off by (simp add: avail_bytes_def del: of_nat_add of_nat_mult)
  ultimately show ?thesis using assms(1) by (simp add: pending_def)
qed

lemma shows_log_agree:
  assumes "agree (bytes_at u (4 + 8 * unat n)) m m'" and "n \<noteq> 0"
  shows "shows_log m' u n i0 b xs = shows_log m u n i0 b xs"
proof -
  have "0 < unat n" using assms(2) by (simp add: unat_gt_0)
  then have "used_idx m' u = used_idx m u"
    using ld_agree(1) [OF assms(1), of 2] by (simp add: used_idx_def)
  moreover have "used_entry m' u n i = used_entry m u n i" for i
  proof -
    have s: "slot_of_idx n i < unat n" using assms(2) by (simp add: slot_of_idx_def unat_mod_less)
    have "slot_id m' u (slot_of_idx n i) = slot_id m u (slot_of_idx n i)"
      "slot_len m' u (slot_of_idx n i) = slot_len m u (slot_of_idx n i)"
      unfolding slot_id_def slot_len_def by (rule ld_agree(2) [OF assms(1)]; use s in simp)+
    then show ?thesis by (simp add: used_entry_slot)
  qed
  ultimately show ?thesis by (simp add: shows_log_def)
qed

lemma set_used_elem_log:
  assumes "shows_log m u n i0 False xs" and "virt_queue__set_used_elem m q h l = Done m'"
    and "vr_used q = Some u" and "vr_num q = n" and "unat n dvd 2 ^ 16"
  shows "shows_log m' u n i0 False (xs @ [(h, l)])"
proof -
  have n: "vr_num q \<noteq> 0" using assms(4,5) by auto
  note e = set_used_elem_entry [OF assms(3) n assms(2), unfolded assms(4)]
  have i: "used_idx m u = i0 + of_nat (length xs)" using assms(1) by (simp add: shows_log_def)
  have "used_entry m' u n (i0 + of_nat k) = (xs @ [(h, l)]) ! k"
    if k: "k < length (xs @ [(h, l)])" "length (xs @ [(h, l)]) \<le> k + unat n" for k
  proof (cases "k = length xs")
    case True
    then show ?thesis using e i by simp
  next
    case False
    then have k': "k < length xs" "length xs < k + unat n" using k by auto
    have "ucast (i0 + of_nat k :: u16) mod n \<noteq> ucast (used_idx m u) mod n"
      using other_slot [OF assms(5) k', of i0] unfolding i slot_of_idx_def by auto
    then show ?thesis using e k' assms(1) by (simp add: shows_log_def nth_append)
  qed
  then show ?thesis using e i by (simp add: shows_log_def add.assoc)
qed

subsection \<open>Requests in memory\<close>

text \<open>
  A request as the driver has put it in memory: the head of its chain, the descriptors it goes through and the
  table they are in (that of the queue, or an indirect one), the header with what it asks for, and its buffers.
\<close>

record io_request =
  ir_head :: u16
  ir_table :: u64
  ir_path :: "u16 list"
  ir_header :: u64
  ir_write :: bool
  ir_sector :: u64
  ir_data :: "iovec list"
  ir_status :: u64

definition descs_at :: "u64 \<Rightarrow> u16 list \<Rightarrow> u64 set" where
  "descs_at d ks = (\<Union>k\<in>set ks. bytes_at (desc_at d k) 16)"

text \<open>What is read of it, apart from the data, and what belongs to it alone.\<close>

definition request_reads :: "u64 \<Rightarrow> io_request \<Rightarrow> u64 set" where
  "request_reads d r = descs_at d [ir_head r] \<union> descs_at (ir_table r) (ir_path r) \<union> bytes_at (ir_header r) 16"

definition request_own :: "io_request \<Rightarrow> u64 set" where
  "request_own r = bytes_at (ir_status r) 1 \<union> iov_bytes (ir_data r)"

definition chain_of :: "(bool \<Rightarrow> u64 \<Rightarrow> u32 \<Rightarrow> bool) \<Rightarrow> demu_map \<Rightarrow> virt_queue \<Rightarrow> u64 \<Rightarrow> mem \<Rightarrow> io_request \<Rightarrow> bool" where
  "chain_of ok g q d m r \<longleftrightarrow>
     (if virt_desc__test_flag m d (ir_head r) VRING_DESC_F_INDIRECT then
        let n = desc_len m d (ir_head r); maxd = ucast (n div 16) :: u16
        in desc_addr m d (ir_head r) = ir_table r \<and> can_map ok g (ir_table r) (ucast n) \<and>
           chain m (ir_table r) maxd 0 (ir_path r) \<and> 0 < maxd \<and> unat maxd \<le> VIRTIO_BLK_QUEUE_SIZE
      else ir_table r = d \<and> chain m d (ucast (vr_num q)) (ir_head r) (ir_path r) \<and> ir_head r < ucast (vr_num q) \<and>
        unat (ucast (vr_num q) :: u16) \<le> VIRTIO_BLK_QUEUE_SIZE) \<and>
     (\<forall>k\<in>set (ir_path r). can_map ok g (desc_addr m (ir_table r) k) (ucast (desc_len m (ir_table r) k)))"

definition posted :: "(bool \<Rightarrow> u64 \<Rightarrow> u32 \<Rightarrow> bool) \<Rightarrow> demu_map \<Rightarrow> virt_queue \<Rightarrow> u64 \<Rightarrow> mem \<Rightarrow> io_request \<Rightarrow> bool" where
  "posted ok g q d m r \<longleftrightarrow> chain_of ok g q d m r \<and> unat (ir_head r) < VIRTIO_BLK_QUEUE_SIZE \<and>
     parts (map (seg_of m (ir_table r)) (ir_path r)) (ir_header r) (ir_data r) (ir_status r) \<and>
     ld32 m (ir_header r) = (if ir_write r then VIRTIO_BLK_T_OUT else VIRTIO_BLK_T_IN) \<and>
     ld64 m (ir_header r + 8) = ir_sector r \<and> whole_sectors (ir_data r)"

lemma desc_agree:
  assumes "agree (bytes_at (desc_at d k) 16) m m'"
  shows "desc_addr m' d k = desc_addr m d k" "desc_len m' d k = desc_len m d k" "desc_flags m' d k = desc_flags m d k"
    "desc_next m' d k = desc_next m d k"
  using ld_agree(3) [OF assms, of 0] ld_agree(2) [OF assms, of 8] ld_agree(1) [OF assms, of 12]
    ld_agree(1) [OF assms, of 14]
  by (simp_all add: desc_addr_def desc_len_def desc_flags_def desc_next_def)

lemma next_idx_agree: "agree (bytes_at (desc_at d k) 16) m m' \<Longrightarrow> next_idx m' d maxd k = next_idx m d maxd k"
  by (simp add: next_idx_def next_desc_def virt_desc__test_flag_def desc_agree)

lemma descs_at_agree: "agree (descs_at d ks) m m' \<Longrightarrow> k \<in> set ks \<Longrightarrow> agree (bytes_at (desc_at d k) 16) m m'"
  by (auto simp: descs_at_def agree_def)

lemma chain_agree:
  "chain m d maxd i p \<Longrightarrow> agree (descs_at d p) m m' \<Longrightarrow> chain m' d maxd i p"
proof (induction rule: chain.induct)
  case (chain_last i)
  then have "agree (bytes_at (desc_at d i) 16) m m'" by (auto intro: descs_at_agree)
  then show ?case using chain_last by (auto simp: next_idx_agree intro: chain.chain_last)
next
  case (chain_link i j p)
  have "agree (bytes_at (desc_at d i) 16) m m'" using chain_link.prems by (auto intro: descs_at_agree)
  moreover have "agree (descs_at d p) m m'" using chain_link.prems by (auto simp: descs_at_def agree_def)
  ultimately show ?case using chain_link by (auto simp: next_idx_agree intro: chain.chain_link)
qed

lemma posted_agree:
  assumes "posted ok g q d m r" and "agree (request_reads d r) m m'"
  shows "posted ok g q d m' r"
proof -
  have a: "agree (descs_at d [ir_head r]) m m'" "agree (descs_at (ir_table r) (ir_path r)) m m'"
    and h: "agree (bytes_at (ir_header r) 16) m m'"
    using assms(2) by (simp_all add: request_reads_def agree_Un)
  have hd: "agree (bytes_at (desc_at d (ir_head r)) 16) m m'" by (rule descs_at_agree [OF a(1)]) simp
  have "chain m (ir_table r) maxd i (ir_path r) \<Longrightarrow> chain m' (ir_table r) maxd i (ir_path r)" for maxd i
    by (rule chain_agree [OF _ a(2)])
  moreover have "desc_addr m' (ir_table r) k = desc_addr m (ir_table r) k \<and> desc_len m' (ir_table r) k = desc_len m (ir_table r) k"
    if "k \<in> set (ir_path r)" for k
    using desc_agree [OF descs_at_agree [OF a(2) that]] by simp
  ultimately have "chain_of ok g q d m' r" "map (seg_of m' (ir_table r)) (ir_path r) = map (seg_of m (ir_table r)) (ir_path r)"
    using assms(1) by (auto simp: posted_def chain_of_def Let_def virt_desc__test_flag_def desc_agree [OF hd] seg_of_def split: if_splits)
  then show ?thesis
    using assms(1) ld_agree(2) [OF h, of 0] ld_agree(3) [OF h, of 8] by (simp add: posted_def del: map_eq_conv)
qed

lemma can_map_cong: "use_gnttab g' = use_gnttab g \<Longrightarrow> can_map ok g' = can_map ok g"
  by (intro ext) (simp add: can_map_def)

lemma posted_cong:
  assumes "use_gnttab g' = use_gnttab g" and "vr_num q' = vr_num q"
  shows "posted ok g' q' d m r = posted ok g q d m r"
  unfolding posted_def chain_of_def can_map_cong [OF assms(1)] assms(2) by (rule refl)

lemma posted_head_iov:
  assumes "posted ok g q d m r" and "vr_desc q = Some d"
  shows "\<exists>out inn g'. virt_queue__get_head_iov ok VIRTIO_BLK_QUEUE_SIZE m g q (ir_head r) =
      Done (map (seg_of m (ir_table r)) (ir_path r), out, inn, g') \<and> \<not> empty_table m q (ir_head r)"
proof (cases "virt_desc__test_flag m d (ir_head r) VRING_DESC_F_INDIRECT")
  case True
  then have c: "chain_of ok g q d m r" using assms(1) by (simp add: posted_def)
  let ?maxd = "ucast (desc_len m d (ir_head r) div 16) :: u16"
  have n: "desc_len m d (ir_head r) \<noteq> 0" using c True by (auto simp: chain_of_def Let_def)
  from get_head_iov_indirect_chain [OF refl assms(2) True, of "ir_table r" ok g "ir_path r" VIRTIO_BLK_QUEUE_SIZE]
  show ?thesis using c True n assms(2) by (auto simp: chain_of_def Let_def empty_table_def)
next
  case False
  then have c: "chain_of ok g q d m r" using assms(1) by (simp add: posted_def)
  from get_head_iov_direct_chain [OF assms(2) False, of "ir_path r" ok g VIRTIO_BLK_QUEUE_SIZE]
  show ?thesis using c False assms(2) by (auto simp: chain_of_def empty_table_def)
qed

end
