(* ===== verification/BlkStore.thy ===== *)
theory BlkStore
  imports Footprint
begin

text \<open>
  The block device as an array of bytes: one run of \<open>virtio_blk_do_io\<close> over everything the driver has made
  available does to the disk, in the order of the available ring, what the requests say.
\<close>

subsection \<open>The bytes of a disk\<close>

definition byte_store :: "disk_image \<Rightarrow> bool" where
  "byte_store d \<longleftrightarrow> dk_ops d \<in> {Raw_image_regular_ops, Blk_dev_ops, Ro_ops} \<and> \<not> dk_async d \<and> dk_req_cb d"

definition disk_bytes :: "disk_image \<Rightarrow> u8 list" where
  "disk_bytes d = (if dk_ops d = Ro_ops then map_bytes (dk_priv d) else raw_bytes d)"

definition slice :: "u8 list \<Rightarrow> u64 \<Rightarrow> nat \<Rightarrow> u8 list" where
  "slice bs sector n = take n (drop (512 * unat sector) bs)"

lemma store_content:
  "byte_store d \<Longrightarrow> disk_ready fuel d s n \<Longrightarrow> disk_content d s n = slice (disk_bytes d) s n"
  using raw.content_slice [of fuel d s n] mapped.content_slice [of fuel d s n]
  by (auto simp: byte_store_def disk_ready_def disk_content_def disk_bytes_def slice_def)

lemma same_content_same_bytes:
  assumes "byte_store d" and "dk_ops d' = dk_ops d" and "\<forall>s n. disk_content d' s n = disk_content d s n"
  shows "disk_bytes d' = disk_bytes d"
proof -
  have z: "nat (sector_pos 0) = 0" by (simp add: sector_pos_nat)
  have c: "disk_content x 0 n = take n (disk_bytes x)" if "dk_ops x = dk_ops d" for x n
    using assms(1) that
    by (auto simp: byte_store_def disk_content_def disk_bytes_def raw_content_def map_content_def file_slice_def z)
  have "take n (disk_bytes d') = take n (disk_bytes d)" for n
    using c [OF assms(2), of n] c [OF refl, of n] assms(3) by simp
  from this [of "max (length (disk_bytes d')) (length (disk_bytes d))"] show ?thesis by simp
qed

lemma store_read:
  assumes "byte_store d" and "disk_ready fuel d s (iov_total vs)" and "whole_sectors vs" and "0 < iov_len w"
  shows "\<exists>d'. disk_image__read fuel d m s (vs @ w # rest) (int (length vs)) =
      Done (int (iov_total vs), Some (int (iov_total vs)), scatter m vs (slice (disk_bytes d) s (iov_total vs)), d') \<and>
    byte_store d' \<and> disk_bytes d' = disk_bytes d \<and> (\<forall>s n. disk_ready fuel d s n \<longrightarrow> disk_ready fuel d' s n)"
proof -
  obtain d' where d': "disk_image__read fuel d m s (vs @ w # rest) (int (length vs)) =
      Done (int (iov_total vs), acknowledged d (int (iov_total vs)), scatter m vs (disk_content d s (iov_total vs)), d')"
      "dk_ops d' = dk_ops d" "dk_async d' = dk_async d" "dk_req_cb d' = dk_req_cb d"
      "\<forall>s n. disk_content d' s n = disk_content d s n" "\<forall>s n. disk_ready fuel d s n \<longrightarrow> disk_ready fuel d' s n"
    using disk_read_ok [OF assms(2-4), of m rest] by blast
  then show ?thesis
    using assms(1) store_content [OF assms(1,2)] same_content_same_bytes [OF assms(1) d'(2,5)]
    by (auto simp: byte_store_def acknowledged_def)
qed

lemma store_write:
  assumes "byte_store d" and "disk_ready fuel d s (iov_total vs)" and "whole_sectors vs" and "0 < iov_len w"
  shows "\<exists>d'. disk_image__write fuel jk d m s (vs @ w # rest) (int (length vs)) =
      Done (int (iov_total vs), Some (int (iov_total vs)), d') \<and>
    byte_store d' \<and> disk_bytes d' = overlay (disk_bytes d) (512 * unat s) (gather m vs) \<and>
    (\<forall>s n. disk_ready fuel d s n \<longrightarrow> disk_ready fuel d' s n)"
proof (cases "dk_ops d = Ro_ops")
  case True
  then have "map_ready fuel d s (iov_total vs)" using assms(2) by (simp add: disk_ready_def)
  from mapped.write_law [OF this assms(3,4), of m rest] obtain d' where d':
    "raw_image__write_mmap d m s (vs @ w # rest) (int (length vs)) = Done (int (iov_total vs), d')"
    "map_bytes (dk_priv d') = overlay (map_bytes (dk_priv d)) (512 * unat s) (gather m vs)"
    "\<forall>s n. map_ready fuel d s n \<longrightarrow> map_ready fuel d' s n" by blast
  then show ?thesis using True assms(1) write_keeps(2) [OF d'(1)]
    by (auto simp: disk_image__write_def ops_tables byte_store_def disk_bytes_def disk_ready_def)
next
  case False
  then have "raw_ready fuel d s (iov_total vs)" using assms(1,2) by (auto simp: disk_ready_def byte_store_def)
  from raw.write_law [OF this assms(3,4), of m rest] obtain d' where d':
    "raw_image__write_sync fuel d m s (vs @ w # rest) (int (length vs)) = Done (int (iov_total vs), d')"
    "raw_bytes d' = overlay (raw_bytes d) (512 * unat s) (gather m vs)"
    "\<forall>s n. raw_ready fuel d s n \<longrightarrow> raw_ready fuel d' s n" by blast
  then show ?thesis using False assms(1) write_keeps(1) [OF d'(1)]
    by (auto simp: disk_image__write_def ops_tables byte_store_def disk_bytes_def disk_ready_def)
qed

subsection \<open>What a completion leaves alone\<close>

lemma unmap_segs_mode: "use_gnttab (unmap_segs g vs) = use_gnttab g"
  by (induction vs arbitrary: g) (simp_all add: demu_unmap_guest_range_def)

lemma map_range_mode:
  "demu_map_guest_range ok g a n = Done (b, g') \<Longrightarrow> 0 \<le> use_gnttab g \<Longrightarrow> use_gnttab g' = use_gnttab g"
  by (auto simp: demu_map_guest_range_def demu_detect_mappings_model_def Let_def split: if_splits)

lemma head_iov_loop_mode:
  "head_iov_loop ok cap m d maxd i g acc out inn = Done (iov, out', inn', g') \<Longrightarrow> 0 \<le> use_gnttab g \<Longrightarrow>
     use_gnttab g' = use_gnttab g"
proof (induction ok cap m d maxd i g acc out inn rule: head_iov_loop.induct)
  case (1 ok cap m d maxd i g acc out inn)
  have cap: "\<not> cap \<le> length acc" using "1.prems" by (auto simp: head_iov_loop.simps [of ok cap] split: if_splits)
  obtain b g1 where mp: "demu_map_guest_range ok g (desc_addr m d i) (ucast (desc_len m d i)) = Done (b, g1)"
    using "1.prems" cap by (auto simp: head_iov_loop.simps [of ok cap] bind_run_Done_iff)
  note md = map_range_mode [OF mp "1.prems"(2)]
  let ?next = "ucast (next_desc m d i (ucast maxd)) :: u16"
  show ?case
  proof (cases "?next = maxd")
    case True
    then show ?thesis using "1.prems"(1) cap mp md by (simp add: head_iov_loop.simps [of ok cap] Let_def)
  next
    case False
    have "0 \<le> use_gnttab g1" using md "1.prems"(2) by simp
    from "1.IH" [OF cap _ refl refl refl refl refl refl False _ this] show ?thesis
      using "1.prems"(1) cap mp md False by (simp add: head_iov_loop.simps [of ok cap m d maxd i] Let_def)
  qed
qed

lemma get_head_iov_mode:
  assumes "virt_queue__get_head_iov ok cap m g q head = Done (iov, out, inn, g')" and "0 \<le> use_gnttab g"
  shows "use_gnttab g' = use_gnttab g"
  using assms map_range_mode head_iov_loop_mode
  by (fastforce simp: virt_queue__get_head_iov_def bind_run_Done_iff Let_def demu_unmap_guest_range_def
      split: option.splits if_splits)

lemma should_signal_queue:
  "virtio_queue__should_signal abi m q = Done (b, q') \<Longrightarrow> \<exists>x. q' = q\<lparr>last_used_signalled := x\<rparr>"
  by (auto simp: virtio_queue__should_signal_def Let_def split: option.splits if_splits
      intro: exI [of _ "last_used_signalled q"])

lemma completed_frame:
  assumes f: "fetches e s m q head iov out inn g" and p: "parts iov h vs st" and "vr_used q = Some u"
    and c: "completed e (after_disk (fetched s m q head iov out inn g) m1 d) (unat head) (int len) s'"
    and g: "0 \<le> use_gnttab (gmap s)"
  shows "virt_queue__set_used_elem (stn m1 st [VIRTIO_BLK_S_OK]) q (ucast head) (of_nat len) = Done (ram s')"
    and "agree (- (bytes_at st 1 \<union> bytes_at u (used_bytes (vr_num q)))) m1 (ram s')"
    and "use_gnttab (gmap s') = use_gnttab (gmap s)"
    and "\<exists>x. queue (dev s') = q\<lparr>last_used_signalled := x\<rparr>"
    and "length (reqs (dev s')) = length (reqs (dev s))" "io_done (dev s') = io_done (dev s)" "vqs (dev s') \<noteq> []"
proof -
  let ?s = "after_disk (fetched s m q head iov out inn g) m1 d"
  let ?r = "fill_req iov out inn head (reqs (dev s) ! unat head)"
  note fr = fetched_request [OF f]
  have mp: "list_all mapped iov" using f by (simp add: fetches_def)
  note v = parts_vector [OF p mp fr(3)]
  have n: "unat (rq_out ?r) + unat (rq_in ?r) = length iov" using fr(3) by (simp add: fill_req_def)
  have hd: "rq_head ?r = head" by (simp add: fill_req_def)
  obtain b q' where used: "virt_queue__set_used_elem (stn m1 st [VIRTIO_BLK_S_OK]) q (ucast head) (of_nat len) = Done (ram s')"
    and gm: "gmap s' = unmap_segs g iov"
    and sg: "virtio_queue__should_signal (ring_abi e) (ram s') q = Done (b, q')"
    and dv: "dev s' = set_queue q' (dev ?s)"
    using c fr(1,2) n v(5,6) hd by (auto simp: completed_def Let_def)
  show "virt_queue__set_used_elem (stn m1 st [VIRTIO_BLK_S_OK]) q (ucast head) (of_nat len) = Done (ram s')" by (rule used)
  show "agree (- (bytes_at st 1 \<union> bytes_at u (used_bytes (vr_num q)))) m1 (ram s')"
    using set_used_elem_outside [OF used assms(3)] stn_outside [of _ st "[VIRTIO_BLK_S_OK]" m1] by (simp add: agree_def)
  have "virt_queue__get_head_iov (map_ok e) VIRTIO_BLK_QUEUE_SIZE m (gmap s) q head = Done (iov, out, inn, g)"
    using f by (simp add: fetches_def)
  then show "use_gnttab (gmap s') = use_gnttab (gmap s)" using get_head_iov_mode g gm by (simp add: unmap_segs_mode)
  have q: "vqs (dev s) \<noteq> []" using f by (simp add: fetches_def)
  then have "queue (dev s') = q'" using dv by (cases "vqs (dev s)") (simp_all add: set_queue_def queue_def after_disk_def fetched_def)
  then show "\<exists>x. queue (dev s') = q\<lparr>last_used_signalled := x\<rparr>" using should_signal_queue [OF sg] by simp
  show "length (reqs (dev s')) = length (reqs (dev s))" "io_done (dev s') = io_done (dev s)" "vqs (dev s') \<noteq> []"
    using dv q by (simp_all add: set_queue_def after_disk_def fetched_def)
qed

subsection \<open>One request\<close>

text \<open>The queue is in use: its rings are at \<open>d\<close>, \<open>a\<close> and \<open>u\<close>, and the device is up.\<close>

definition serving :: "u64 \<Rightarrow> u64 \<Rightarrow> u64 \<Rightarrow> u32 \<Rightarrow> blk \<Rightarrow> bool" where
  "serving d a u n s \<longleftrightarrow>
     (let q = queue (dev s)
      in vr_desc q = Some d \<and> vr_avail q = Some a \<and> vr_used q = Some u \<and> vr_num q = n \<and> unat n dvd 2 ^ 16 \<and>
         disjoint a (avail_bytes n) u (used_bytes n)) \<and>
     vqs (dev s) \<noteq> [] \<and> \<not> io_done (dev s) \<and> length (reqs (dev s)) = VIRTIO_BLK_QUEUE_SIZE \<and>
     byte_store (disk (dev s)) \<and> 0 \<le> use_gnttab (gmap s)"

text \<open>What the disk holds after a request, and what the guest finds in its buffers.\<close>

definition store_step :: "mem \<Rightarrow> io_request \<Rightarrow> u8 list \<Rightarrow> u8 list" where
  "store_step m r bs =
     (if ir_write r then overlay bs (512 * unat (ir_sector r)) (gather m (ir_data r)) else bs)"

definition answer :: "mem \<Rightarrow> io_request \<Rightarrow> u8 list \<Rightarrow> u8 list" where
  "answer m r bs =
     (if ir_write r then gather m (ir_data r) else slice bs (ir_sector r) (iov_total (ir_data r)))"

definition completion :: "io_request \<Rightarrow> u32 \<times> u32" where
  "completion r = (ucast (ir_head r), of_nat (iov_total (ir_data r)))"

text \<open>The buffers of a request are apart from each other and from the rings, and it is not read from the used ring.\<close>

definition placed :: "virt_queue \<Rightarrow> u64 \<Rightarrow> u64 \<Rightarrow> u64 \<Rightarrow> io_request \<Rightarrow> bool" where
  "placed q d a u r \<longleftrightarrow> layout_ok q u (ir_data r) (ir_status r) \<and>
     request_own r \<inter> bytes_at a (avail_bytes (vr_num q)) = {} \<and>
     (request_own r \<union> request_reads d r) \<inter> bytes_at u (used_bytes (vr_num q)) = {} \<and>
     request_own r \<inter> request_reads d r = {}"

lemma available_frame:
  assumes "serving d a u n s"
  shows "\<exists>m. virt_queue__available (ram s) (queue (dev s)) = Done (pending (ram s) (queue (dev s)) \<noteq> [], m) \<and>
    agree (- bytes_at (u + of_nat (4 + 8 * unat n)) 2) (ram s) m"
proof -
  let ?q = "queue (dev s)"
  have q: "vr_avail ?q = Some a" "vr_used ?q = Some u" "vr_num ?q = n" "rings_apart ?q" "n \<noteq> 0"
    using assms by (auto simp: serving_def Let_def rings_apart_def)
  show ?thesis
  proof (cases "use_event_idx ?q")
    case False
    from available_no_event [OF this, of "ram s"] show ?thesis by auto
  next
    case True
    obtain m where m: "virt_queue__available (ram s) ?q = Done (pending (ram s) ?q \<noteq> [], m)"
      using available_event [OF True q(4)] q(3,5) by blast
    then have "m = st16 (ram s) (u + of_nat (4 + 8 * unat n)) (last_avail_idx ?q)"
      using True q(1-3) by (simp add: virt_queue__available_def Let_def used_elem_off del: of_nat_add of_nat_mult)
    then have "agree (- bytes_at (u + of_nat (4 + 8 * unat n)) 2) (ram s) m"
      by (simp add: agree_def st16_def stn_outside del: of_nat_add of_nat_mult)
    then show ?thesis using m by blast
  qed
qed

lemma event_bytes:
  "bytes_at (u + of_nat (4 + 8 * unat n)) 2 \<subseteq> bytes_at u (used_bytes n)"
  "n \<noteq> 0 \<Longrightarrow> bytes_at u (4 + 8 * unat n) \<inter> bytes_at (u + of_nat (4 + 8 * unat n)) 2 = {}"
proof -
  show "bytes_at (u + of_nat (4 + 8 * unat n)) 2 \<subseteq> bytes_at u (used_bytes n)"
    by (rule bytes_at_sub) (simp add: used_bytes_def)
  assume "n \<noteq> 0"
  have "unat n < 2 ^ 32" using unsigned_less [of n] by simp
  then have "4 + 8 * unat n + 2 \<le> (2 :: nat) ^ 64" by simp
  then have "disjoint (u + of_nat 0) (4 + 8 * unat n) (u + of_nat (4 + 8 * unat n)) 2"
    by (intro disjoint_same_base) simp_all
  from disjoint_bytes [OF this] show "bytes_at u (4 + 8 * unat n) \<inter> bytes_at (u + of_nat (4 + 8 * unat n)) 2 = {}"
    by simp
qed

lemma posted_mapped:
  assumes "posted ok g q d m r"
  shows "list_all mapped (map (seg_of m (ir_table r)) (ir_path r))" "2 \<le> length (map (seg_of m (ir_table r)) (ir_path r))"
    "0 \<le> use_gnttab g"
proof -
  have p: "parts (map (seg_of m (ir_table r)) (ir_path r)) (ir_header r) (ir_data r) (ir_status r)"
    using assms by (simp add: posted_def)
  show "list_all mapped (map (seg_of m (ir_table r)) (ir_path r))" by (simp add: list_all_iff mapped_def seg_of_def)
  show l: "2 \<le> length (map (seg_of m (ir_table r)) (ir_path r))"
    using p unfolding parts_def by (metis One_nat_def length_Cons length_append_singleton less_eq_Suc_le numeral_2_eq_2 zero_less_Suc Suc_le_mono)
  have "ir_path r \<noteq> []" using l by auto
  then show "0 \<le> use_gnttab g" using assms by (auto simp: posted_def chain_of_def can_map_def neq_Nil_conv)
qed

text \<open>The round finds the request: memory is \<open>m\<close>, and the chain is followed.\<close>

lemma posted_fetches:
  assumes sv: "serving d a u n s" and pend: "pending (ram s) (queue (dev s)) = ir_head r # hs"
    and po: "posted (map_ok e) (gmap s) (queue (dev s)) d (ram s) r" and pl: "placed (queue (dev s)) d a u r"
  shows "\<exists>m q iov out inn g. fetches e s m q (ir_head r) iov out inn g \<and>
    parts iov (ir_header r) (ir_data r) (ir_status r) \<and> posted (map_ok e) (gmap s) q d m r \<and>
    q = (queue (dev s))\<lparr>last_avail_idx := last_avail_idx (queue (dev s)) + 1\<rparr> \<and> pending m q = hs \<and>
    agree (- bytes_at (u + of_nat (4 + 8 * unat n)) 2) (ram s) m"
proof -
  let ?q = "queue (dev s)" and ?ev = "bytes_at (u + of_nat (4 + 8 * unat n)) 2"
  let ?p = "?q\<lparr>last_avail_idx := last_avail_idx ?q + 1\<rparr>"
  have q: "vr_desc ?q = Some d" "vr_avail ?q = Some a" "vr_num ?q = n" "n \<noteq> 0"
      "disjoint a (avail_bytes n) u (used_bytes n)"
    using sv by (auto simp: serving_def Let_def)
  obtain m where m: "virt_queue__available (ram s) ?q = Done (pending (ram s) ?q \<noteq> [], m)" "agree (- ?ev) (ram s) m"
    using available_frame [OF sv] by blast
  have ev: "bytes_at a (avail_bytes n) \<inter> ?ev = {}" "request_reads d r \<inter> ?ev = {}"
    using disjoint_bytes [OF q(5)] event_bytes(1) [of u n] pl q(3) by (auto simp: placed_def)
  have "agree (bytes_at a (avail_bytes (vr_num ?q))) (ram s) m"
    using agree_subset [OF m(2)] ev(1) q(3) by (metis disjoint_eq_subset_Compl)
  then have pend': "pending m ?q = ir_head r # hs" using pending_agree [OF q(2)] q(3,4) pend by simp
  from pending_Cons [OF this] have pop: "virt_queue__pop m ?q = Done (ir_head r, ?p)" "pending m ?p = hs"
    using q(3,4) by simp_all
  have "agree (request_reads d r) (ram s) m" using agree_subset [OF m(2)] ev(2) by (metis disjoint_eq_subset_Compl)
  then have "posted (map_ok e) (gmap s) ?q d m r" by (rule posted_agree [OF po])
  then have po': "posted (map_ok e) (gmap s) ?p d m r" by (subst posted_cong [where g = "gmap s" and q = ?q]) simp_all
  obtain out inn g where h: "virt_queue__get_head_iov (map_ok e) VIRTIO_BLK_QUEUE_SIZE m (gmap s) ?p (ir_head r) =
      Done (map (seg_of m (ir_table r)) (ir_path r), out, inn, g)" "\<not> empty_table m ?p (ir_head r)"
    using posted_head_iov [OF po'] q(1) by auto
  have f: "fetches e s m ?p (ir_head r) (map (seg_of m (ir_table r)) (ir_path r)) out inn g"
    using m(1) pend pop(1) h posted_mapped [OF po'] sv po' by (simp add: fetches_def serving_def posted_def)
  have p: "parts (map (seg_of m (ir_table r)) (ir_path r)) (ir_header r) (ir_data r) (ir_status r)"
    using po' by (simp add: posted_def)
  show ?thesis by (intro exI conjI) (rule f p po' refl pop(2) m(2))+
qed

lemma pending_signalled: "pending m (q\<lparr>last_used_signalled := x\<rparr>) = pending m q"
  by (cases "vr_avail q") (simp_all add: pending_def)

lemma own_bytes: "bytes_at (ir_status r) 1 \<subseteq> request_own r" "iov_bytes (ir_data r) \<subseteq> request_own r"
  by (auto simp: request_own_def)

text \<open>The memory once the disk's part is done.\<close>

definition memory_after :: "mem \<Rightarrow> io_request \<Rightarrow> u8 list \<Rightarrow> mem" where
  "memory_after m r bs =
     (if ir_write r then m else scatter m (ir_data r) (slice bs (ir_sector r) (iov_total (ir_data r))))"

lemma memory_after_agree: "agree (- iov_bytes (ir_data r)) m (memory_after m r bs)"
  by (simp add: memory_after_def agree_def scatter_outside)

lemma carried_out:
  assumes f: "fetches e s m q head iov out inn g" and p: "parts iov (ir_header r) (ir_data r) (ir_status r)"
    and live: "queue_live q" and po: "posted ok g' q d m r" and bs: "byte_store (disk (dev s))"
    and rdy: "disk_ready (io_fuel e) (disk (dev s)) (ir_sector r) (iov_total (ir_data r))"
  shows "\<exists>s' d'. do_io_round e s = Done (True, s') \<and>
    completed e (after_disk (fetched s m q head iov out inn g) (memory_after m r (disk_bytes (disk (dev s)))) d') (unat head)
      (int (iov_total (ir_data r))) s' \<and>
    byte_store d' \<and> disk_bytes d' = store_step m r (disk_bytes (disk (dev s))) \<and>
    (\<forall>x k. disk_ready (io_fuel e) (disk (dev s)) x k \<longrightarrow> disk_ready (io_fuel e) d' x k)"
proof -
  let ?P = "\<lambda>d'. byte_store d' \<and> disk_bytes d' = store_step m r (disk_bytes (disk (dev s))) \<and>
      (\<forall>x k. disk_ready (io_fuel e) (disk (dev s)) x k \<longrightarrow> disk_ready (io_fuel e) d' x k)"
  have sec: "ir_sector r = ld64 m (ir_header r + 8)" "whole_sectors (ir_data r)"
      "ld32 m (ir_header r) = (if ir_write r then VIRTIO_BLK_T_OUT else VIRTIO_BLK_T_IN)"
    using po by (simp_all add: posted_def)
  show ?thesis
  proof (cases "ir_write r")
    case True
    then show ?thesis
      using write_carried_out [OF f p live _ sec(1), of "int (iov_total (ir_data r))" ?P] sec(3)
        store_write [OF bs rdy sec(2), of _ "heap_junk e" m]
      by (simp add: memory_after_def store_step_def)
  next
    case False
    then show ?thesis
      using read_carried_out [OF f p live _ sec(1), of "int (iov_total (ir_data r))" "memory_after m r (disk_bytes (disk (dev s)))" ?P]
        sec(3) store_read [OF bs rdy sec(2), of _ m]
      by (simp add: memory_after_def store_step_def)
  qed
qed

text \<open>
  The memory in the course of a request: \<open>m0\<close> before it, \<open>m\<close> with the event index written, \<open>m1\<close> with the data, \<open>m'\<close> with
  the status and the completion.
\<close>

lemma request_memory:
  assumes q: "vr_avail q = Some a" "vr_used q = Some u" "vr_num q = n" "unat n dvd 2 ^ 16"
    and apart: "disjoint a (avail_bytes n) u (used_bytes n)" and pl: "placed q d a u r"
    and m: "agree (- bytes_at (u + of_nat (4 + 8 * unat n)) 2) m0 m" and m1: "agree (- iov_bytes (ir_data r)) m m1"
    and m': "virt_queue__set_used_elem (stn m1 (ir_status r) [b]) q h l = Done m'"
    and log: "shows_log m0 u n i0 False xs"
  shows "agree (- (request_own r \<union> bytes_at u (used_bytes n))) m0 m'" and "pending m' q = pending m q"
    and "shows_log m' u n i0 False (xs @ [(h, l)])" and "gather m (ir_data r) = gather m0 (ir_data r)"
proof -
  let ?st = "ir_status r" and ?used = "bytes_at u (used_bytes n)"
  have n: "n \<noteq> 0" using q(4) by auto
  have own: "request_own r \<inter> bytes_at a (avail_bytes n) = {}" "request_own r \<inter> ?used = {}"
    using pl q(3) by (auto simp: placed_def)
  note ev = event_bytes(1) [of u n] and ob = own_bytes [of r]
  have st: "agree (- bytes_at ?st 1) m1 (stn m1 ?st [b])" by (simp add: agree_def)
  have us: "agree (- ?used) (stn m1 ?st [b]) m'" using set_used_elem_outside [OF m' q(2)] q(3) by (simp add: agree_def)
  show "agree (- (request_own r \<union> ?used)) m0 m'"
    by (rule agree_trans [OF agree_subset [OF m] agree_trans [OF agree_subset [OF m1]
          agree_trans [OF agree_subset [OF st] agree_subset [OF us]]]]) (use ev ob in blast)+
  have "bytes_at a (avail_bytes n) \<inter> ?used = {}" using disjoint_bytes [OF apart] .
  then have "agree (bytes_at a (avail_bytes n)) m m'"
    by (intro agree_trans [OF agree_subset [OF m1] agree_trans [OF agree_subset [OF st] agree_subset [OF us]]])
      (use own(1) ob in blast)+
  then show "pending m' q = pending m q" using pending_agree [OF q(1)] q(3) n by simp
  have "bytes_at u (4 + 8 * unat n) \<subseteq> ?used"
    using bytes_at_sub [of 0 "4 + 8 * unat n" "used_bytes n" u] by (simp add: used_bytes_def)
  then have "agree (bytes_at u (4 + 8 * unat n)) m0 (stn m1 ?st [b])"
    by (intro agree_trans [OF agree_subset [OF m] agree_trans [OF agree_subset [OF m1] agree_subset [OF st]]])
      (use event_bytes(2) [OF n, of u] own(2) ob in blast)+
  then have "shows_log (stn m1 ?st [b]) u n i0 False xs" using shows_log_agree n log by simp
  then show "shows_log m' u n i0 False (xs @ [(h, l)])" by (rule set_used_elem_log [OF _ m' q(2,3,4)])
  show "gather m (ir_data r) = gather m0 (ir_data r)"
    by (rule gather_agree, rule agree_subset [OF m]) (use own(2) ob ev in blast)
qed

lemma serve_one:
  assumes sv: "serving d a u n s" and pend: "pending (ram s) (queue (dev s)) = ir_head r # hs"
    and po: "posted (map_ok e) (gmap s) (queue (dev s)) d (ram s) r" and pl: "placed (queue (dev s)) d a u r"
    and rdy: "disk_ready (io_fuel e) (disk (dev s)) (ir_sector r) (iov_total (ir_data r))"
    and log: "shows_log (ram s) u n i0 False xs"
  shows "\<exists>s'. do_io_round e s = Done (True, s') \<and> serving d a u n s' \<and> pending (ram s') (queue (dev s')) = hs \<and>
    agree (- (request_own r \<union> bytes_at u (used_bytes n))) (ram s) (ram s') \<and>
    ram s' (ir_status r) = VIRTIO_BLK_S_OK \<and> gather (ram s') (ir_data r) = answer (ram s) r (disk_bytes (disk (dev s))) \<and>
    shows_log (ram s') u n i0 False (xs @ [completion r]) \<and>
    disk_bytes (disk (dev s')) = store_step (ram s) r (disk_bytes (disk (dev s))) \<and>
    (\<forall>x k. disk_ready (io_fuel e) (disk (dev s)) x k \<longrightarrow> disk_ready (io_fuel e) (disk (dev s')) x k) \<and>
    use_gnttab (gmap s') = use_gnttab (gmap s) \<and> mset (mappings (gmap s')) = mset (mappings (gmap s))"
proof -
  let ?q = "queue (dev s)" and ?bs = "disk_bytes (disk (dev s))"
  obtain m q iov out inn g where f: "fetches e s m q (ir_head r) iov out inn g"
      and p: "parts iov (ir_header r) (ir_data r) (ir_status r)" and po': "posted (map_ok e) (gmap s) q d m r"
      and q: "q = ?q\<lparr>last_avail_idx := last_avail_idx ?q + 1\<rparr>" and hs: "pending m q = hs"
      and m: "agree (- bytes_at (u + of_nat (4 + 8 * unat n)) 2) (ram s) m"
    using posted_fetches [OF sv pend po pl] by blast
  have qf: "vr_avail q = Some a" "vr_used q = Some u" "vr_num q = n" "unat n dvd 2 ^ 16" "vr_num q \<noteq> 0"
      and apart: "disjoint a (avail_bytes n) u (used_bytes n)" and bs: "byte_store (disk (dev s))" and g0: "0 \<le> use_gnttab (gmap s)"
    using sv q by (auto simp: serving_def Let_def)
  have live: "queue_live q" using qf by (simp add: queue_live_def)
  have pl': "placed q d a u r" using pl q by (simp add: placed_def layout_ok_def)
  then have lay: "layout_ok q u (ir_data r) (ir_status r)" by (simp add: placed_def)
  obtain s' d' where r: "do_io_round e s = Done (True, s')"
      and c: "completed e (after_disk (fetched s m q (ir_head r) iov out inn g) (memory_after m r ?bs) d') (unat (ir_head r))
        (int (iov_total (ir_data r))) s'"
      and d': "byte_store d'" "disk_bytes d' = store_step m r ?bs"
        "\<forall>x k. disk_ready (io_fuel e) (disk (dev s)) x k \<longrightarrow> disk_ready (io_fuel e) d' x k"
    using carried_out [OF f p live po' bs rdy] by blast
  note fr = completed_frame [OF f p qf(2) c g0]
  have "used_idx (memory_after m r ?bs) u = used_idx m u" using used_idx_scatter [OF lay] by (simp add: memory_after_def)
  note sd = completed_served [OF f p qf(2,5) lay c this]
  note mem = request_memory [OF qf(1-4) apart pl' m memory_after_agree fr(1) log]
  obtain x where x: "queue (dev s') = q\<lparr>last_used_signalled := x\<rparr>" using fr(4) by blast
  have len: "length (slice ?bs (ir_sector r) (iov_total (ir_data r))) = iov_total (ir_data r)"
    using length_disk_content [OF rdy] store_content [OF bs rdy] by simp
  have "gather (memory_after m r ?bs) (ir_data r) = answer (ram s) r ?bs"
    using gather_scatter [of "ir_data r" "slice ?bs (ir_sector r) (iov_total (ir_data r))" m] lay len mem(4) po'
    by (simp add: memory_after_def answer_def layout_ok_def posted_def whole_sectors_sizes)
  moreover have "store_step m r ?bs = store_step (ram s) r ?bs" using mem(4) by (simp add: store_step_def)
  moreover have "serving d a u n s'"
    using sv fr(3,5-7) x q sd d' by (simp add: serving_def Let_def)
  moreover have "pending (ram s') (queue (dev s')) = hs" unfolding x using mem(2) hs by (simp add: pending_signalled)
  ultimately show ?thesis
    using r mem(1,3) sd d' fr(3) by (auto simp: served_def completion_def)
qed

subsection \<open>All of them\<close>

primrec store_after :: "mem \<Rightarrow> io_request list \<Rightarrow> u8 list \<Rightarrow> u8 list" where
  "store_after m [] bs = bs"
| "store_after m (r # rs) bs = store_after m rs (store_step m r bs)"

text \<open>
  Each request is placed well, its buffers are those of no other request, and nothing that belongs to a request
  is part of what describes another one.
\<close>

definition separate :: "virt_queue \<Rightarrow> u64 \<Rightarrow> u64 \<Rightarrow> u64 \<Rightarrow> io_request list \<Rightarrow> bool" where
  "separate q d a u rs \<longleftrightarrow> (\<forall>r\<in>set rs. placed q d a u r) \<and>
     sorted_wrt (\<lambda>r r'. request_own r \<inter> (request_own r' \<union> request_reads d r') = {}) rs"

lemma placed_cong: "vr_num q' = vr_num q \<Longrightarrow> placed q' d a u r = placed q d a u r"
  unfolding placed_def layout_ok_def by simp

lemma separate_cong: "vr_num q' = vr_num q \<Longrightarrow> separate q' d a u rs = separate q d a u rs"
  by (simp add: separate_def placed_cong [of q' q])

lemma store_after_cong:
  "\<forall>r\<in>set rs. gather m' (ir_data r) = gather m (ir_data r) \<Longrightarrow> store_after m' rs bs = store_after m rs bs"
  by (induction rs arbitrary: bs) (simp_all add: store_step_def)

lemma answer_cong: "gather m' (ir_data r) = gather m (ir_data r) \<Longrightarrow> answer m' r bs = answer m r bs"
  by (simp add: answer_def)

text \<open>What the guest finds in its memory: the statuses and the buffers of the requests.\<close>

definition answered :: "mem \<Rightarrow> u8 list \<Rightarrow> io_request list \<Rightarrow> mem \<Rightarrow> bool" where
  "answered m bs rs m' \<longleftrightarrow>
     (\<forall>i < length rs. m' (ir_status (rs ! i)) = VIRTIO_BLK_S_OK \<and>
        gather m' (ir_data (rs ! i)) = answer m (rs ! i) (store_after m (take i rs) bs))"

lemma answered_Cons:
  assumes "m' (ir_status r) = VIRTIO_BLK_S_OK" and "gather m' (ir_data r) = answer m r bs"
    and "answered m1 (store_step m r bs) rs m'" and "\<forall>r\<in>set rs. gather m1 (ir_data r) = gather m (ir_data r)"
  shows "answered m bs (r # rs) m'"
  unfolding answered_def
proof (intro allI impI)
  fix i assume i: "i < length (r # rs)"
  show "m' (ir_status ((r # rs) ! i)) = VIRTIO_BLK_S_OK \<and>
    gather m' (ir_data ((r # rs) ! i)) = answer m ((r # rs) ! i) (store_after m (take i (r # rs)) bs)"
  proof (cases i)
    case (Suc j)
    then have j: "j < length rs" using i by simp
    have "store_after m1 (take j rs) bs' = store_after m (take j rs) bs'" for bs'
      by (rule store_after_cong) (use assms(4) in_set_takeD in fast)
    then show ?thesis using assms(3,4) j Suc answer_cong [of m1 "rs ! j" m] by (simp add: answered_def)
  qed (use assms(1,2) in simp)
qed

lemma serve_none:
  assumes "serving d a u n s" and "pending (ram s) (queue (dev s)) = []" and "shows_log (ram s) u n i0 False xs"
  shows "\<exists>m. virtio_blk_do_io e k s = Done (s\<lparr>ram := m\<rparr>) \<and> pending m (queue (dev s)) = [] \<and>
    agree (- bytes_at u (used_bytes n)) (ram s) m \<and> shows_log m u n i0 False xs"
proof -
  let ?ev = "bytes_at (u + of_nat (4 + 8 * unat n)) 2" and ?q = "queue (dev s)"
  obtain m where m: "virt_queue__available (ram s) ?q = Done (False, m)" "agree (- ?ev) (ram s) m"
    using available_frame [OF assms(1)] assms(2) by auto
  have q: "vr_avail ?q = Some a" "vr_num ?q = n" "n \<noteq> 0" "disjoint a (avail_bytes n) u (used_bytes n)"
    using assms(1) by (auto simp: serving_def Let_def)
  have "bytes_at a (avail_bytes n) \<inter> ?ev = {}" using disjoint_bytes [OF q(4)] event_bytes(1) [of u n] by auto
  then have "agree (bytes_at a (avail_bytes n)) (ram s) m" using m(2) by (auto simp: agree_def)
  then have "pending m ?q = []" using pending_agree [OF q(1)] q(2,3) assms(2) by simp
  moreover have "agree (bytes_at u (4 + 8 * unat n)) (ram s) m"
    using m(2) event_bytes(2) [OF q(3), of u] by (auto simp: agree_def)
  then have "shows_log m u n i0 False xs" using shows_log_agree q(3) assms(3) by simp
  moreover have "agree (- bytes_at u (used_bytes n)) (ram s) m"
    by (rule agree_subset [OF m(2)]) (use event_bytes(1) [of u n] in blast)
  moreover have "virtio_blk_do_io e k s = Done (s\<lparr>ram := m\<rparr>)"
    using m(1) by (simp add: virtio_blk_do_io.simps [of e k] do_io_round_def Let_def)
  ultimately show ?thesis by blast
qed

text \<open>What has been served of a request leaves the requests behind it as the driver has posted them.\<close>

lemma rest_stays:
  assumes "serving d a u n s" and "separate (queue (dev s)) d a u (r # rs)" and r': "r' \<in> set rs"
    and m: "agree (- (request_own r \<union> bytes_at u (used_bytes n))) (ram s) m"
  shows "gather m (ir_data r') = gather (ram s) (ir_data r')"
    and "posted ok g (queue (dev s)) d (ram s) r' \<Longrightarrow> posted ok g (queue (dev s)) d m r'"
proof -
  have "(request_own r' \<union> request_reads d r') \<inter> (request_own r \<union> bytes_at u (used_bytes n)) = {}"
    using assms(1,2) r' by (fastforce simp: separate_def placed_def serving_def Let_def)
  then have keep: "agree (request_own r' \<union> request_reads d r') (ram s) m" by (intro agree_subset [OF m]) blast
  show "gather m (ir_data r') = gather (ram s) (ir_data r')"
    by (rule gather_agree, rule agree_subset [OF keep]) (use own_bytes [of r'] in blast)
  show "posted ok g (queue (dev s)) d m r'" if "posted ok g (queue (dev s)) d (ram s) r'"
    by (rule posted_agree [OF that agree_subset [OF keep]]) auto
qed

lemma serve_all:
  assumes "serving d a u n s" and "pending (ram s) (queue (dev s)) = map ir_head rs"
    and "\<forall>r\<in>set rs. posted (map_ok e) (gmap s) (queue (dev s)) d (ram s) r \<and>
      disk_ready (io_fuel e) (disk (dev s)) (ir_sector r) (iov_total (ir_data r))"
    and "separate (queue (dev s)) d a u rs" and "shows_log (ram s) u n i0 False xs" and "length rs \<le> k"
  shows "\<exists>s'. virtio_blk_do_io e k s = Done s' \<and> pending (ram s') (queue (dev s')) = [] \<and>
    agree (- ((\<Union>r\<in>set rs. request_own r) \<union> bytes_at u (used_bytes n))) (ram s) (ram s') \<and>
    answered (ram s) (disk_bytes (disk (dev s))) rs (ram s') \<and>
    disk_bytes (disk (dev s')) = store_after (ram s) rs (disk_bytes (disk (dev s))) \<and>
    shows_log (ram s') u n i0 False (xs @ map completion rs) \<and>
    mset (mappings (gmap s')) = mset (mappings (gmap s))"
  using assms
proof (induction rs arbitrary: s xs k)
  case Nil
  then show ?case using serve_none [OF Nil.prems(1) _ Nil.prems(5), of e k] by (auto simp: answered_def)
next
  case (Cons r rs)
  let ?bs = "disk_bytes (disk (dev s))"
  have r: "posted (map_ok e) (gmap s) (queue (dev s)) d (ram s) r" "placed (queue (dev s)) d a u r"
      "disk_ready (io_fuel e) (disk (dev s)) (ir_sector r) (iov_total (ir_data r))"
    and apart: "\<forall>r'\<in>set rs. request_own r \<inter> (request_own r' \<union> request_reads d r') = {}"
    and sep: "separate (queue (dev s)) d a u rs"
    using Cons.prems(3,4) by (simp_all add: separate_def)
  obtain s1 where s1: "do_io_round e s = Done (True, s1)" "serving d a u n s1"
      "pending (ram s1) (queue (dev s1)) = map ir_head rs"
      "agree (- (request_own r \<union> bytes_at u (used_bytes n))) (ram s) (ram s1)"
      "ram s1 (ir_status r) = VIRTIO_BLK_S_OK" "gather (ram s1) (ir_data r) = answer (ram s) r ?bs"
      "shows_log (ram s1) u n i0 False (xs @ [completion r])"
      "disk_bytes (disk (dev s1)) = store_step (ram s) r ?bs"
      "\<forall>x k. disk_ready (io_fuel e) (disk (dev s)) x k \<longrightarrow> disk_ready (io_fuel e) (disk (dev s1)) x k"
      "use_gnttab (gmap s1) = use_gnttab (gmap s)" "mset (mappings (gmap s1)) = mset (mappings (gmap s))"
    using serve_one [OF Cons.prems(1) _ r Cons.prems(5), of "map ir_head rs"] Cons.prems(2) by auto
  have n: "vr_num (queue (dev s1)) = vr_num (queue (dev s))" using s1(2) Cons.prems(1) by (simp add: serving_def Let_def)
  note rest = rest_stays [OF Cons.prems(1,4) _ s1(4)]
  have gath: "gather (ram s1) (ir_data r') = gather (ram s) (ir_data r')" if "r' \<in> set rs" for r'
    by (rule rest(1) [OF that])
  have po: "posted (map_ok e) (gmap s1) (queue (dev s1)) d (ram s1) r'" if "r' \<in> set rs" for r'
    unfolding posted_cong [OF s1(10) n] by (rule rest(2) [OF that]) (use Cons.prems(3) that in auto)
  obtain k' where k: "k = Suc k'" "length rs \<le> k'" using Cons.prems(6) by (cases k) auto
  obtain s' where s': "virtio_blk_do_io e k' s1 = Done s'" "pending (ram s') (queue (dev s')) = []"
      "agree (- ((\<Union>r\<in>set rs. request_own r) \<union> bytes_at u (used_bytes n))) (ram s1) (ram s')"
      "answered (ram s1) (disk_bytes (disk (dev s1))) rs (ram s')"
      "disk_bytes (disk (dev s')) = store_after (ram s1) rs (disk_bytes (disk (dev s1)))"
      "shows_log (ram s') u n i0 False ((xs @ [completion r]) @ map completion rs)"
      "mset (mappings (gmap s')) = mset (mappings (gmap s1))"
    using Cons.IH [OF s1(2,3) _ _ s1(7) k(2)] po s1(9) Cons.prems(3) sep separate_cong [OF n] by auto
  have "request_own r \<inter> ((\<Union>r\<in>set rs. request_own r) \<union> bytes_at u (used_bytes n)) = {}"
    using apart r(2) Cons.prems(1) by (fastforce simp: placed_def serving_def Let_def)
  then have own: "agree (request_own r) (ram s1) (ram s')" by (intro agree_subset [OF s'(3)]) blast
  have st: "ram s' (ir_status r) = VIRTIO_BLK_S_OK"
    using own s1(5) by (auto simp: agree_def request_own_def bytes_at_def)
  have dt: "gather (ram s') (ir_data r) = answer (ram s) r ?bs"
    using gather_agree [OF agree_subset [OF own own_bytes(2)]] s1(6) by simp
  have "answered (ram s) ?bs (r # rs) (ram s')"
    by (rule answered_Cons [OF st dt]) (use s'(4) s1(8) gath in auto)
  moreover have "disk_bytes (disk (dev s')) = store_after (ram s) (r # rs) ?bs"
    using s'(5) s1(8) store_after_cong [of rs "ram s1" "ram s"] gath by simp
  moreover have "agree (- ((\<Union>r\<in>set (r # rs). request_own r) \<union> bytes_at u (used_bytes n))) (ram s) (ram s')"
    by (rule agree_trans [OF agree_subset [OF s1(4)] agree_subset [OF s'(3)]]) auto
  moreover have "virtio_blk_do_io e k s = Done s'"
    using s1(1) s'(1) k(1) by (simp add: virtio_blk_do_io.simps [of e "Suc k'"])
  ultimately show ?case using s'(2,6,7) s1(11) by auto
qed

subsection \<open>Properties\<close>

text \<open>
  C1: Whatever reads and writes the driver has made available, in direct or indirect chains, one run of
  \<open>virtio_blk_do_io\<close> serves all of them in the order of the ring and returns: the disk is the array of bytes that
  the writes make of it one after the other, each read finds what the writes before it have left, every status says
  OK, the used ring holds their heads and lengths in the same order, and all their mappings are given back.
  The image is a raw file, a block device or a private mapping, served synchronously (\<open>byte_store\<close>, not a QCOW image);
  every request lies inside the disk, and the kernel may interrupt the transfers and cut them short but not refuse them
  (\<open>disk_ready\<close>); its pages can be mapped (\<open>posted\<close>); and the driver has kept what one request writes apart from the
  rings, the descriptors and every other request (\<open>separate\<close>).
\<close>

theorem pending_requests_served:
  assumes "serving d a u n s" and "pending (ram s) (queue (dev s)) = map ir_head rs"
    and "\<forall>r\<in>set rs. posted (map_ok e) (gmap s) (queue (dev s)) d (ram s) r \<and>
      disk_ready (io_fuel e) (disk (dev s)) (ir_sector r) (iov_total (ir_data r))"
    and "separate (queue (dev s)) d a u rs" and "length rs \<le> k"
  shows "\<exists>s'. virtio_blk_do_io e k s = Done s' \<and> pending (ram s') (queue (dev s')) = [] \<and>
    disk_bytes (disk (dev s')) = store_after (ram s) rs (disk_bytes (disk (dev s))) \<and>
    answered (ram s) (disk_bytes (disk (dev s))) rs (ram s') \<and>
    used_idx (ram s') u = used_idx (ram s) u + of_nat (length rs) \<and>
    (\<forall>j < length rs. length rs \<le> j + unat n \<longrightarrow>
       used_entry (ram s') u n (used_idx (ram s) u + of_nat j) = completion (rs ! j)) \<and>
    mset (mappings (gmap s')) = mset (mappings (gmap s))"
proof -
  have "shows_log (ram s) u n (used_idx (ram s) u) False []" by (simp add: shows_log_def)
  from serve_all [OF assms(1-4) this assms(5)] show ?thesis by (auto simp: shows_log_def)
qed

text \<open>Two requests: a write of sector 1 and then a read of it.\<close>

definition two_descs :: "u8 list" where
  "two_descs =
     [0, 0x40, 0, 0, 0, 0, 0, 0, 16, 0, 0, 0, 1, 0, 1, 0,
      0, 0x50, 0, 0, 0, 0, 0, 0, 0, 2, 0, 0, 1, 0, 2, 0,
      0, 0x60, 0, 0, 0, 0, 0, 0, 1, 0, 0, 0, 2, 0, 0, 0,
      0, 0x48, 0, 0, 0, 0, 0, 0, 16, 0, 0, 0, 1, 0, 4, 0,
      0, 0x58, 0, 0, 0, 0, 0, 0, 0, 2, 0, 0, 3, 0, 5, 0,
      0, 0x68, 0, 0, 0, 0, 0, 0, 1, 0, 0, 0, 2, 0, 0, 0]"

definition two_ram :: mem where
  "two_ram a =
     (if a - 0x1000 < 96 then two_descs ! unat (a - 0x1000)
      else if a = 0x2002 then 2
      else if a = 0x2006 then 3
      else if a \<in> {0x4000, 0x4008, 0x4808} then 1
      else if a - 0x5000 < 512 then 7
      else 0)"

definition two_requests :: "io_request list" where
  "two_requests =
     [\<lparr>ir_head = 0, ir_table = 0x1000, ir_path = [0, 1, 2], ir_header = 0x4000, ir_write = True, ir_sector = 1,
       ir_data = [\<lparr>iov_base = 0x5000, iov_len = 512\<rparr>], ir_status = 0x6000\<rparr>,
      \<lparr>ir_head = 3, ir_table = 0x1000, ir_path = [3, 4, 5], ir_header = 0x4800, ir_write = False, ir_sector = 1,
       ir_data = [\<lparr>iov_base = 0x5800, iov_len = 512\<rparr>], ir_status = 0x6800\<rparr>]"

definition two_blk :: blk where
  "two_blk = (sample_blk 0 sample_disk)\<lparr>ram := two_ram, gmap := \<lparr>use_gnttab = 0, mappings = []\<rparr>,
     dev := (dev (sample_blk 0 sample_disk))\<lparr>reqs := replicate VIRTIO_BLK_QUEUE_SIZE zero_req\<rparr>\<rparr>"

lemma two_pending: "pending two_ram sample_queue = map ir_head two_requests"
  by code_simp

lemma two_serving: "serving 0x1000 0x2000 0x3000 256 two_blk"
  by (simp add: serving_def two_blk_def sample_blk_def queue_def sample_queue_def zero_vq_def disjoint_def
      avail_bytes_def used_bytes_def byte_store_def sample_disk_def)

lemma two_chains:
  "chain two_ram 0x1000 256 0 [0, 1, 2]" "chain two_ram 0x1000 256 3 [3, 4, 5]"
proof -
  have "next_idx two_ram 0x1000 256 0 = 1" "next_idx two_ram 0x1000 256 1 = 2" "next_idx two_ram 0x1000 256 2 = 256"
    "next_idx two_ram 0x1000 256 3 = 4" "next_idx two_ram 0x1000 256 4 = 5" "next_idx two_ram 0x1000 256 5 = 256"
    by code_simp+
  then show "chain two_ram 0x1000 256 0 [0, 1, 2]" "chain two_ram 0x1000 256 3 [3, 4, 5]"
    by (simp_all add: chain_Cons_simp)
qed

lemma two_segs:
  "map (seg_of two_ram 0x1000) [0, 1, 2] = sample_iov"
  "map (seg_of two_ram 0x1000) [3, 4, 5] = [\<lparr>seg_base = Some 0x4800, seg_len = 16\<rparr>,
     \<lparr>seg_base = Some 0x5800, seg_len = 512\<rparr>, \<lparr>seg_base = Some 0x6800, seg_len = 1\<rparr>]"
  by code_simp+

lemma two_headers:
  "ld32 two_ram 0x4000 = 1" "ld64 two_ram 0x4008 = 1" "ld32 two_ram 0x4800 = 0" "ld64 two_ram 0x4808 = 1"
  by code_simp+

lemma two_flags: "\<not> virt_desc__test_flag two_ram 0x1000 0 VRING_DESC_F_INDIRECT"
  "\<not> virt_desc__test_flag two_ram 0x1000 3 VRING_DESC_F_INDIRECT"
  by code_simp+

lemma two_mapped:
  "\<forall>k\<in>set [0, 1, 2, 3, 4, 5]. can_map (map_ok sample_env) \<lparr>use_gnttab = 0, mappings = []\<rparr> (desc_addr two_ram 0x1000 k) (ucast (desc_len two_ram 0x1000 k))"
  by code_simp

lemma two_parts: "parts [\<lparr>seg_base = Some 0x4800, seg_len = 16\<rparr>, \<lparr>seg_base = Some 0x5800, seg_len = 512\<rparr>,
    \<lparr>seg_base = Some 0x6800, seg_len = 1\<rparr>] 0x4800 [\<lparr>iov_base = 0x5800, iov_len = 512\<rparr>] 0x6800"
  by (auto simp: parts_def iovec_of_def)

lemma two_posted:
  "\<forall>r\<in>set two_requests. posted (map_ok sample_env) \<lparr>use_gnttab = 0, mappings = []\<rparr> sample_queue 0x1000 two_ram r"
proof -
  have q: "vr_num sample_queue = 256" by (simp add: sample_queue_def)
  show ?thesis
    using two_chains two_segs two_headers two_flags two_mapped sample_parts two_parts
    by (simp add: two_requests_def posted_def chain_of_def q c_simps whole_sectors_def del: list.map)
qed

lemma two_separate: "separate sample_queue 0x1000 0x2000 0x3000 two_requests"
proof -
  have a: "disjoint a n b k \<Longrightarrow> bytes_at a n \<inter> bytes_at b k = {}" "disjoint a n b 1 \<Longrightarrow> b \<notin> bytes_at a n" for a b n k
    using disjoint_bytes [of a n b k] disjoint_bytes [of a n b 1] by simp_all
  have q: "vr_num sample_queue = 256" by (simp add: sample_queue_def)
  show ?thesis
    by (simp add: separate_def placed_def two_requests_def request_own_def request_reads_def descs_at_def iov_bytes_def
        Int_Un_distrib Int_Un_distrib2 a disjoint_def desc_at_def q layout_ok_def iovs_apart_def used_bytes_def avail_bytes_def)
qed

lemma two_data: "gather two_ram [\<lparr>iov_base = 0x5000, iov_len = 512\<rparr>] = replicate 512 7"
proof -
  have "two_ram (0x5000 + of_nat i) = 7" if i: "i < 512" for i
  proof -
    have u: "unat (of_nat i :: u64) = i" using i by (intro unat_of_nat64) simp
    have x: "unat (0x5000 + of_nat i :: u64) = 0x5000 + i" using i u by (simp add: unat_word_ariths)
    have "\<not> 0x4000 + of_nat i < (96 :: u64)" using i u by (simp add: word_less_nat_alt unat_word_ariths)
    moreover have "0x5000 + of_nat i \<notin> S" if "\<forall>c\<in>S. unat c < 0x5000" for S :: "u64 set" using x that by fastforce
    from this [of "{0x2002, 0x2006, 0x4000, 0x4008, 0x4808}"]
    have "0x5000 + of_nat i \<notin> {0x2002, 0x2006, 0x4000, 0x4008, 0x4808 :: u64}" by simp
    moreover have "of_nat i < (512 :: u64)" using i u by (simp add: word_less_nat_alt)
    ultimately show ?thesis by (simp add: two_ram_def)
  qed
  then have "ldn two_ram 0x5000 512 = replicate 512 7" by (intro nth_equalityI) simp_all
  then show ?thesis by (simp add: gather_def)
qed

theorem pending_requests_served_witness:
  "\<exists>s'. virtio_blk_do_io sample_env 2 two_blk = Done s' \<and>
    gather (ram s') [\<lparr>iov_base = 0x5800, iov_len = 512\<rparr>] = replicate 512 7 \<and> used_idx (ram s') 0x3000 = 2 \<and>
    used_entry (ram s') 0x3000 256 1 = (3, 512)"
proof -
  have b: "ram two_blk = two_ram" "queue (dev two_blk) = sample_queue" "gmap two_blk = \<lparr>use_gnttab = 0, mappings = []\<rparr>"
    "disk (dev two_blk) = sample_disk"
    by (simp_all add: two_blk_def sample_blk_def queue_def)
  have d: "\<forall>r\<in>set two_requests. disk_ready (io_fuel sample_env) sample_disk (ir_sector r) (iov_total (ir_data r))"
    by (simp add: two_requests_def disk_ready_def raw_ready_def sample_disk_def benign_def transient_def sample_env_def)
  obtain s' where s': "virtio_blk_do_io sample_env 2 two_blk = Done s'"
      "answered two_ram (disk_bytes sample_disk) two_requests (ram s')"
      "used_idx (ram s') 0x3000 = used_idx two_ram 0x3000 + 2"
      "\<forall>j < 2. used_entry (ram s') 0x3000 256 (used_idx two_ram 0x3000 + of_nat j) = completion (two_requests ! j)"
    using pending_requests_served [OF two_serving, of two_requests sample_env 2] two_pending two_posted two_separate d
    unfolding b by (auto simp: two_requests_def)
  have z: "used_idx two_ram 0x3000 = 0" by code_simp
  have "gather (ram s') [\<lparr>iov_base = 0x5800, iov_len = 512\<rparr>] = replicate 512 7"
    using s'(2) [unfolded answered_def, rule_format, of 1] two_data slice_overlay [of "replicate 512 7" 512 "disk_bytes sample_disk"]
    by (simp add: two_requests_def answer_def store_step_def slice_def)
  then show ?thesis
    using s'(1,3) s'(4) [rule_format, of 1] unfolding z by (auto simp: completion_def two_requests_def)
qed

end
