(* ===== verification/VirtioMmioProofs.thy ===== *)
theory VirtioMmioProofs
  imports VirtioBlk
begin

text \<open>
  Properties of the registers.  The interface between the transport and a device is stated as
  locales: \<open>device_frame\<close>, what no operation of a device may change, and \<open>queue_store\<close>, the laws of the
  operations that find a queue.  The block device is an instance of both.
\<close>

subsection \<open>What register accesses leave alone\<close>

text \<open>
  \<open>keep\<close> relates states of the device; the frame adds the ranges, where the device sits, and the size
  of its registers.
\<close>

definition frame :: "('d \<Rightarrow> 'd \<Rightarrow> bool) \<Rightarrow> 'd vstate \<Rightarrow> 'd vstate \<Rightarrow> bool" where
  "frame keep s s' \<longleftrightarrow> spaces s' = spaces s \<and> io_ranges s' = io_ranges s \<and>
     vm_addr (vmmio s') = vm_addr (vmmio s) \<and> vd_legacy (vdev s') = vd_legacy (vdev s) \<and>
     length (hdr (vmmio s')) = length (hdr (vmmio s)) \<and> keep (dev s) (dev s')"

named_theorems frame_intros \<open>steps that keep the frame\<close>

locale device_frame =
  fixes e :: env and ops :: "'d virtio_ops" and keep :: "'d \<Rightarrow> 'd \<Rightarrow> bool"
  assumes keep_refl: "keep d d"
    and keep_trans: "keep a b \<Longrightarrow> keep b c \<Longrightarrow> keep a c"
    and keep_config: "length bs = length (get_config ops d) \<Longrightarrow> keep d (put_config ops bs d)"
    and keep_addr: "get_vq ops d n = Some q \<Longrightarrow> keep d (put_vq ops d n (q\<lparr>vq_addr := ad\<rparr>))"
    and keep_size: "keep d (snd (set_size_vq ops d n len))"
    and init_frame: "init_vq ops s n = Done (r, s') \<Longrightarrow> frame keep s s'"
    and exit_vq_frame: "virtio_exit_vq e ops s n = Done s' \<Longrightarrow> frame keep s s'"
    and notify_frame: "notify_vq ops s n = Done (r, s') \<Longrightarrow> frame keep s s'"
    and status_frame: "notify_status ops = Some f \<Longrightarrow> frame keep s (f s st)"
begin

lemma frame_refl: "frame keep s s"
  by (simp add: frame_def keep_refl)

lemma frame_trans: "frame keep s s' \<Longrightarrow> frame keep s' s'' \<Longrightarrow> frame keep s s''"
  by (auto simp: frame_def intro: keep_trans)

lemma frame_hdr_set: "frame keep s (hdr_set off v s)"
  by (simp add: frame_def hdr_set_def keep_refl)

lemma frame_dev: "keep (dev s) d \<Longrightarrow> frame keep s (s\<lparr>dev := d\<rparr>)"
  by (simp add: frame_def)

lemma frame_vdev: "(\<And>d. vd_legacy (f d) = vd_legacy d) \<Longrightarrow> frame keep s (upd_vdev f s)"
  by (simp add: frame_def keep_refl)

lemma exit_vqs_frame: "exit_vqs e ops vq n s = Done s' \<Longrightarrow> frame keep s s'"
proof (induction n arbitrary: vq s)
  case 0
  then show ?case by (simp add: frame_refl)
next
  case (Suc n)
  then show ?case
    by (auto simp: bind_run_Done_iff virtio_mmio_exit_vq_def intro: frame_trans exit_vq_frame)
qed

lemma notify_status_frame:
  assumes "virtio_notify_status e ops s status = Done s'" shows "frame keep s s'"
proof -
  let ?st0 = "(vd_status (vdev s) AND NOT VIRTIO_CONFIG_S_MASK) OR ucast status"
  let ?s0 = "upd_vdev (\<lambda>d. d\<lparr>vd_status := ?st0\<rparr>) s"
  let ?m = "if status AND VIRTIO_CONFIG_S_DRIVER_OK \<noteq> 0 \<and> ?st0 AND VIRTIO__STATUS_START = 0 then
      Done (upd_vdev (\<lambda>d. d\<lparr>vd_status := ?st0 OR VIRTIO__STATUS_START\<rparr>) ?s0, ucast status OR VIRTIO__STATUS_START)
    else if status = 0 \<and> ?st0 AND VIRTIO__STATUS_START \<noteq> 0 then
      bind_run (virtio_mmio_reset e ops
          (upd_vdev (\<lambda>d. d\<lparr>vd_status := ?st0 AND NOT VIRTIO__STATUS_START\<rparr>) ?s0)) (\<lambda>s1.
        Done (s1, ucast status OR VIRTIO__STATUS_STOP))
    else Done (?s0, ucast status)"
  obtain s1 ext where m: "?m = Done (s1, ext)"
    and s': "s' = (let swab = (status = 0 \<and> vd_status (vdev s1) AND VIRTIO__STATUS_SWAB = 0);
             s2 = (if swab then upd_vdev (\<lambda>d. d\<lparr>vd_status := vd_status d OR VIRTIO__STATUS_SWAB\<rparr>) s1 else s1);
             ext2 = (if swab then ext OR VIRTIO__STATUS_SWAB else ext)
         in case notify_status ops of Some f \<Rightarrow> f s2 ext2 | None \<Rightarrow> s2)"
    using assms unfolding virtio_notify_status_def Let_def bind_run_Done_iff by (force split del: if_split)
  have reset: "virtio_mmio_reset e ops t = Done t' \<Longrightarrow> frame keep t t'" for t t'
    by (auto simp: virtio_mmio_reset_def intro: exit_vqs_frame)
  have u: "frame keep s (upd_vdev (\<lambda>d. d\<lparr>vd_status := x\<rparr>) s)"
    "frame keep s (upd_vdev (\<lambda>d. d\<lparr>vd_status := y\<rparr>) (upd_vdev (\<lambda>d. d\<lparr>vd_status := x\<rparr>) s))" for x y
    by (auto simp: frame_def keep_refl)
  have "frame keep s s1"
    using m u frame_trans [OF u(2) reset]
    by (auto simp: bind_run_Done_iff split: if_splits)
  moreover have "frame keep s1 s'"
  proof -
    have sw: "frame keep s1 (upd_vdev (\<lambda>d. d\<lparr>vd_status := vd_status d OR VIRTIO__STATUS_SWAB\<rparr>) s1)"
      by (rule frame_vdev) simp
    show ?thesis unfolding s' Let_def
      using sw frame_refl status_frame frame_trans [OF sw status_frame] by (auto split: option.splits)
  qed
  ultimately show ?thesis by (rule frame_trans)
qed

lemma upd_vq_addr_frame: "upd_vq_addr ops f s = Done s' \<Longrightarrow> frame keep s s'"
  by (auto simp: upd_vq_addr_def sel_vq_def set_vq_def frame_def Let_def bind_run_Done_iff keep_addr split: option.splits)

lemma size_frame: "frame keep s (hdr_set off v s\<lparr>dev := snd (set_size_vq ops (dev (hdr_set off v s)) n len)\<rparr>)"
  by (rule frame_trans [OF frame_hdr_set frame_dev]) (rule keep_size)

lemma features_frame: "frame keep s (virtio_set_guest_features s f)"
  by (simp add: virtio_set_guest_features_def frame_def keep_refl)

lemmas register_frames = frame_refl frame_hdr_set size_frame features_frame upd_vq_addr_frame init_frame
  notify_frame exit_vq_frame

lemma modern_out_frame: "modern_config_out e ops s addr data = Done s' \<Longrightarrow> frame keep s s'"
  unfolding modern_config_out_def Let_def virtio_mmio_init_vq_def virtio_mmio_exit_vq_def
  by (auto simp: bind_run_Done_iff split: if_splits
      intro: register_frames frame_trans [OF frame_hdr_set notify_status_frame])

lemma legacy_out_frame:
  assumes "legacy_config_out e ops s addr data = Done s'" shows "frame keep s s'"
proof -
  have st: "virtio_notify_status e ops (if b then upd_vdev (\<lambda>d. d\<lparr>vd_endian := v\<rparr>) (hdr_set o1 x s) else hdr_set o1 x s) y = Done s'
      \<Longrightarrow> frame keep s s'" for b v o1 x y
  proof -
    assume r: "virtio_notify_status e ops (if b then upd_vdev (\<lambda>d. d\<lparr>vd_endian := v\<rparr>) (hdr_set o1 x s) else hdr_set o1 x s) y = Done s'"
    have "frame keep s (if b then upd_vdev (\<lambda>d. d\<lparr>vd_endian := v\<rparr>) (hdr_set o1 x s) else hdr_set o1 x s)"
      by (simp add: frame_def hdr_set_def keep_refl)
    then show ?thesis using notify_status_frame [OF r] by (rule frame_trans)
  qed
  have pfn: "upd_vq_addr ops f s = Done s1 \<Longrightarrow> init_vq ops s1 n = Done (r, s') \<Longrightarrow> frame keep s s'" for f s1 n r
    using upd_vq_addr_frame init_frame frame_trans by blast
  show ?thesis
    using assms unfolding legacy_config_out_def Let_def virtio_mmio_init_vq_def virtio_mmio_exit_vq_def
    by (auto simp: bind_run_Done_iff split: if_split_asm intro: register_frames st pfn)
qed

lemma device_specific_frame:
  "virtio_mmio_device_specific ops s addr data len w = Done (r, s') \<Longrightarrow> frame keep s s'"
  by (auto simp: virtio_mmio_device_specific_def virtio_write_config_def virtio_read_config_def bind_run_Done_iff
      frame_refl length_overlay intro!: frame_dev keep_config split: if_splits)

lemma modern_callback_frame:
  "virtio_mmio_modern_callback e ops s addr data len w = Done (r, s') \<Longrightarrow> frame keep s s'"
  by (auto simp: virtio_mmio_modern_callback_def Let_def bind_run_Done_iff frame_refl
      intro: device_specific_frame modern_out_frame split: if_splits)

lemma legacy_callback_frame:
  "virtio_mmio_legacy_callback e ops s addr data len w = Done (r, s') \<Longrightarrow> frame keep s s'"
  by (auto simp: virtio_mmio_legacy_callback_def Let_def bind_run_Done_iff frame_refl
      intro: device_specific_frame legacy_out_frame split: if_splits)

end

subsection \<open>The block device keeps the frame\<close>

text \<open>A block device keeps the number of its queues, the size of its configuration, and its array of requests.\<close>

definition same_shape :: "blk_dev \<Rightarrow> blk_dev \<Rightarrow> bool" where
  "same_shape a b \<longleftrightarrow> length (vqs b) = length (vqs a) \<and> length (blk_config b) = length (blk_config a) \<and>
     (length (reqs a) = VIRTIO_BLK_QUEUE_SIZE \<longrightarrow> length (reqs b) = VIRTIO_BLK_QUEUE_SIZE)"

abbreviation blk_frame :: "blk \<Rightarrow> blk \<Rightarrow> bool" where
  "blk_frame \<equiv> frame same_shape"

lemma same_shape_refl [simp]: "same_shape a a"
  by (simp add: same_shape_def)

lemma blk_frame_refl [simp]: "blk_frame s s"
  by (simp add: frame_def)

lemma blk_frame_trans: "blk_frame s s' \<Longrightarrow> blk_frame s' s'' \<Longrightarrow> blk_frame s s''"
  by (auto simp: frame_def same_shape_def)

text \<open>What taking a request and completing one may change of a queue.\<close>

definition same_rings :: "virt_queue \<Rightarrow> virt_queue \<Rightarrow> bool" where
  "same_rings q q' \<longleftrightarrow> (\<exists>i j. q' = q\<lparr>last_avail_idx := i, last_used_signalled := j\<rparr>)"

lemma same_ringsI:
  "same_rings q q" "same_rings q (q\<lparr>last_avail_idx := i\<rparr>)" "same_rings q (q\<lparr>last_used_signalled := i\<rparr>)"
  unfolding same_rings_def
  by (rule exI [of _ "last_avail_idx q"], rule exI [of _ "last_used_signalled q"], simp)
    (rule exI [of _ i], rule exI [of _ "last_used_signalled q"], simp,
     rule exI [of _ "last_avail_idx q"], rule exI [of _ i], simp)

lemma same_rings_trans: "same_rings a b \<Longrightarrow> same_rings b c \<Longrightarrow> same_rings a c"
  unfolding same_rings_def by (elim exE) (simp, blast)

lemma pop_rings: "virt_queue__pop m q = Done (h, q') \<Longrightarrow> same_rings q q'"
  by (auto simp: virt_queue__pop_def same_ringsI split: option.splits if_splits)

lemma signal_rings: "virtio_queue__should_signal abi m q = Done (b, q') \<Longrightarrow> same_rings q q'"
  by (auto simp: virtio_queue__should_signal_def same_ringsI Let_def split: option.splits if_splits)

text \<open>
  A request is carried out in few kinds of updates; what relates the states before and after each of them, also
  relates those before and after the request, and the round of the loop it belongs to.  \<open>D\<close> is what the operations of
  an image keep of it.
\<close>

locale request_steps =
  fixes R :: "blk \<Rightarrow> blk \<Rightarrow> bool" and D :: "disk_image \<Rightarrow> disk_image \<Rightarrow> bool"
  assumes R_refl: "R s s" and R_trans: "R s s' \<Longrightarrow> R s' s'' \<Longrightarrow> R s s''"
    and R_mem: "R s (s\<lparr>ram := m\<rparr>)" and R_map: "R s (s\<lparr>gmap := g\<rparr>)"
    and R_queue: "same_rings (queue (dev s)) vq \<Longrightarrow> R s (upd_dev (set_queue vq) s)"
    and R_disk: "D (disk (dev s)) d \<Longrightarrow> R s (upd_dev (\<lambda>b. b\<lparr>disk := d\<rparr>) s)"
    and R_reqs: "R s (upd_dev (\<lambda>d. d\<lparr>reqs := (reqs d)[h := r d]\<rparr>) s)"
    and R_signal: "R s (snd (virtio_mmio_signal_vq s n))"
    and D_read: "disk_image__read fuel d m sector iov k = Done (cnt, cb, m', d') \<Longrightarrow> D d d'"
    and D_write: "disk_image__write fuel jk d m sector iov k = Done (cnt, cb, d') \<Longrightarrow> D d d'"
    and D_flush: "disk_image__flush d = Done (cnt, d') \<Longrightarrow> D d d'"
begin

lemma complete:
  assumes "virtio_blk_complete e s rq len = Done s'" shows "R s s'"
proof -
  have q: "R s (upd_dev (set_queue vq) (s\<lparr>ram := m, gmap := g, ram := m2\<rparr>))"
    if "virtio_queue__should_signal (ring_abi e) m2 (queue (dev s)) = Done (b, vq)" for b vq m g m2
    by (rule R_trans [OF R_mem R_trans [OF R_map R_trans [OF R_mem R_queue]]]) (use signal_rings [OF that] in simp)
  show ?thesis
    using assms R_trans [OF q R_signal] q
    by (auto simp: virtio_blk_complete_def Let_def bind_run_Done_iff split: if_splits option.splits)
qed

lemma callback: "callback e s rq cb = Done s' \<Longrightarrow> R s s'"
  by (auto simp: callback_def R_refl intro: complete split: option.splits)

lemma request:
  assumes "virtio_blk_do_io_request e s rq = Done s'" shows "R s s'"
proof -
  have d: "R s (upd_dev (\<lambda>b. b\<lparr>disk := d\<rparr>) (s\<lparr>ram := m\<rparr>))" if "D (disk (dev s)) d" for m d
    by (rule R_trans [OF R_mem R_disk]) (use that in simp)
  note steps = R_trans [OF d [OF D_read] callback] R_trans [OF R_disk [OF D_write] callback]
    R_trans [OF R_disk [OF D_flush] complete] R_trans [OF R_mem complete] complete
  show ?thesis
    using assms unfolding virtio_blk_do_io_request_def Let_def
    by (auto simp: bind_run_Done_iff R_refl split: if_splits option.splits prod.splits intro: steps)
qed

lemma round:
  assumes "do_io_round e s = Done (b, s')" shows "R s s'"
proof -
  have d: "R s (upd_dev (\<lambda>d. d\<lparr>reqs := (reqs d)[h := r d]\<rparr>) (upd_dev (set_queue vq) (s\<lparr>ram := m\<rparr>)\<lparr>gmap := g\<rparr>))"
    if "virt_queue__pop m (queue (dev s)) = Done (k, vq)" for r h k vq m g
    by (rule R_trans [OF R_mem R_trans [OF R_queue R_trans [OF R_map R_reqs]]]) (use pop_rings [OF that] in simp)
  show ?thesis
    using assms unfolding do_io_round_def Let_def
    by (auto simp: bind_run_Done_iff R_mem split: if_splits intro: R_trans [OF d request])
qed

end

interpretation blk_steps: request_steps blk_frame "\<lambda>d d'. True"
  by unfold_locales (auto simp: frame_def same_shape_def set_queue_def virtio_mmio_signal_vq_def Let_def hdr_set_def
      kvm__irq_trigger_def demu_set_irq_def)

lemma set_pc_frame: "blk_frame s (set_pc t pc s)"
  by (simp add: frame_def same_shape_def set_pc_def)

lemma thread_frame:
  assumes "virtio_blk_thread e t s = Some (Done s')" shows "blk_frame s s'"
proof -
  have d: "blk_frame s (set_pc t pc (upd_dev (\<lambda>d. d\<lparr>efds := (efds d)[fd := x]\<rparr>) s))" for pc fd x
    by (simp add: frame_def same_shape_def set_pc_def)
  show ?thesis
    using assms unfolding virtio_blk_thread_def
    by (auto simp: bind_run_Done_iff set_pc_frame d split: io_pc.splits option.splits if_splits
        intro: blk_steps.round blk_frame_trans [OF blk_steps.round set_pc_frame])
qed

lemma run_thread_frame: "run_thread e t n s = Done s' \<Longrightarrow> blk_frame s s'"
proof (induction n arbitrary: s)
  case 0
  then show ?case by (subst (asm) run_thread.simps) (auto split: if_splits)
next
  case (Suc n)
  show ?case using Suc.prems
    by (subst (asm) run_thread.simps)
      (auto simp: bind_run_Done_iff split: if_splits option.splits intro: blk_frame_trans [OF thread_frame Suc.IH])
qed

lemma notify_frame: "blk_notify_vq e s n = Done (r, s') \<Longrightarrow> blk_frame s s'"
  by (auto simp: blk_notify_vq_def frame_def same_shape_def split: option.splits if_splits)

lemma init_vq_frame:
  assumes "blk_init_vq e s n = Done (r, s')" shows "blk_frame s s'"
proof -
  obtain q q' g where q: "blk_get_vq (dev s) n = Some q"
      "virtio_init_device_vq e (vdev s) (gmap s) q (of_nat VIRTIO_BLK_QUEUE_SIZE) = Done (q', g)"
    using assms by (auto simp: blk_init_vq_def bind_run_Done_iff split: option.splits)
  define s1 where "s1 = upd_dev (\<lambda>d. blk_put_vq d n q') (s\<lparr>gmap := g\<rparr>)"
  define s2 where "s2 = upd_dev (\<lambda>d. d\<lparr>reqs := replicate VIRTIO_BLK_QUEUE_SIZE zero_req\<rparr>) s1"
  define s3 where "s3 = upd_dev (\<lambda>d. d\<lparr>io_efd := Some (length (efds d)), efds := efds d @ [Some 0], io_done := False\<rparr>) s2"
  have "s' \<in> {s1, upd_dev (\<lambda>d. d\<lparr>io_efd := None\<rparr>) s2, s3,
      upd_dev (\<lambda>d. d\<lparr>io_thread := Some (length (threads d)), threads := threads d @ [TCheck]\<rparr>) s3}"
    using assms q by (simp add: blk_init_vq_def Let_def s1_def s2_def s3_def split: if_split_asm)
  moreover have "blk_frame s s1" by (simp add: s1_def frame_def same_shape_def blk_put_vq_def)
  moreover from this have "blk_frame s s2" by (simp add: s2_def frame_def same_shape_def)
  moreover from this have "blk_frame s s3" by (simp add: s3_def frame_def same_shape_def)
  ultimately show ?thesis by (auto simp: frame_def same_shape_def)
qed

lemma exit_vq_blk_frame:
  assumes "blk_exit_vq e s n = Done s'" shows "blk_frame s s'"
proof -
  have d: "blk_frame s (upd_dev (\<lambda>d. d\<lparr>io_done := b\<rparr>) s)" "blk_frame s (upd_dev close_efd s)" for b s
    by (auto simp: frame_def same_shape_def close_efd_def split: option.splits)
  show ?thesis
  proof (cases "n = 0")
    case False
    then show ?thesis using assms by (simp add: blk_exit_vq_def)
  next
    case True
    then obtain r s1 t s2 where "blk_notify_vq e (upd_dev (\<lambda>d. d\<lparr>io_done := True\<rparr>) s) n = Done (r, s1)"
        "run_thread e t (io_fuel e) s1 = Done s2" and s': "s' = upd_dev close_efd s2"
      using assms by (auto simp: blk_exit_vq_def bind_run_Done_iff split: option.splits)
    then have "blk_frame s s2"
      using blk_frame_trans [OF blk_frame_trans [OF d(1) notify_frame] run_thread_frame] by blast
    then show ?thesis unfolding s' using d(2) by (rule blk_frame_trans)
  qed
qed

lemma blk_exit_cases:
  assumes "virtio_exit_vq e (blk_dev_virtio_ops e) s n = Done s'"
  obtains q where "blk_get_vq (dev s) n = Some q" and "\<not> vq_enabled q" and "s' = upd_dev (\<lambda>d. blk_put_vq d n zero_vq) s"
  | q s1 q1 where "blk_get_vq (dev s) n = Some q" and "vq_enabled q" and "blk_exit_vq e s n = Done s1"
    and "blk_get_vq (dev s1) n = Some q1"
    and "s' = upd_dev (\<lambda>d. blk_put_vq d n zero_vq) (s1\<lparr>gmap := unmap_queue e q1 (gmap s1)\<rparr>)"
  using assms
  by (auto simp: virtio_exit_vq_def sel_vq_def set_vq_def blk_dev_virtio_ops_def bind_run_Done_iff split: option.splits if_splits)

lemma put_vq_frame: "blk_frame s (upd_dev (\<lambda>d. blk_put_vq d n q) s)"
  by (simp add: frame_def same_shape_def blk_put_vq_def)

lemma exit_frame: "virtio_exit_vq e (blk_dev_virtio_ops e) s n = Done s' \<Longrightarrow> blk_frame s s'"
proof (erule blk_exit_cases)
  fix s1 q1
  assume s1: "blk_exit_vq e s n = Done s1"
    and s': "s' = upd_dev (\<lambda>d. blk_put_vq d n zero_vq) (s1\<lparr>gmap := unmap_queue e q1 (gmap s1)\<rparr>)"
  have "blk_frame s1 (s1\<lparr>gmap := unmap_queue e q1 (gmap s1)\<rparr>)" by (simp add: frame_def)
  then show "blk_frame s s'" unfolding s'
    by (intro blk_frame_trans [OF exit_vq_blk_frame [OF s1] blk_frame_trans [OF _ put_vq_frame]])
qed (simp add: put_vq_frame)

interpretation blk_device: device_frame e "blk_dev_virtio_ops e" same_shape
proof
  fix s s' :: blk and n st :: u32 and f and r :: int
  show "virtio_exit_vq e (blk_dev_virtio_ops e) s n = Done s' \<Longrightarrow> blk_frame s s'" by (rule exit_frame)
  show "notify_status (blk_dev_virtio_ops e) = Some f \<Longrightarrow> blk_frame s (f s st)"
    by (auto simp: blk_dev_virtio_ops_def blk_notify_status_def frame_def)
qed (auto simp: blk_dev_virtio_ops_def same_shape_def blk_put_vq_def intro: init_vq_frame notify_frame)

end
