(* ===== verification/Service.thy ===== *)
theory Service
  imports BlkStore VirtioMmioProofs
begin

text \<open>
  A notification from the register to the thread (\<^verbatim>\<open>virtio/mmio-modern.c\<close>, \<^verbatim>\<open>virtio/mmio-legacy.c\<close>, \<^verbatim>\<open>virtio/blk.c\<close>): the
  guest writes \<open>QUEUE_NOTIFY\<close>, the handler adds to the event descriptor, the I/O thread comes back from \<open>read\<close>, serves
  what there is, and sleeps again.
\<close>

subsection \<open>What serving leaves to the thread\<close>

definition same_threads :: "blk \<Rightarrow> blk \<Rightarrow> bool" where
  "same_threads s s' \<longleftrightarrow> threads (dev s') = threads (dev s) \<and> efds (dev s') = efds (dev s) \<and>
     io_efd (dev s') = io_efd (dev s) \<and> io_done (dev s') = io_done (dev s)"

interpretation wait_steps: request_steps same_threads "\<lambda>d d'. True"
  by unfold_locales (auto simp: same_threads_def set_queue_def virtio_mmio_signal_vq_def Let_def hdr_set_def
      kvm__irq_trigger_def demu_set_irq_def)

text \<open>So many steps of thread \<open>t\<close>, none of which has to wait.\<close>

fun thread_steps :: "env \<Rightarrow> nat \<Rightarrow> nat \<Rightarrow> blk \<Rightarrow> blk run" where
  "thread_steps e t 0 s = Done s"
| "thread_steps e t (Suc k) s =
     (case virtio_blk_thread e t s of None \<Rightarrow> NoFuel | Some r \<Rightarrow> bind_run r (thread_steps e t k))"

lemma thread_steps_then:
  "thread_steps e t j s = Done s1 \<Longrightarrow> thread_steps e t k s1 = Done s2 \<Longrightarrow> thread_steps e t (j + k) s = Done s2"
  by (induction j arbitrary: s) (auto simp: bind_run_Done_iff split: option.splits)

text \<open>In its loop the thread does what \<open>virtio_blk_do_io\<close> does, one round in each step.\<close>

lemma serving_thread:
  assumes "virtio_blk_do_io e n s = Done s'" and "threads (dev s) ! t = TServe"
  shows "\<exists>k \<le> Suc n. thread_steps e t k s = Done (set_pc t TCheck s') \<and> same_threads s s'"
  using assms
proof (induction n arbitrary: s)
  case 0
  then have r: "do_io_round e s = Done (False, s')"
    by (auto simp: virtio_blk_do_io.simps [of e 0] bind_run_Done_iff split: if_splits)
  then show ?case using 0 wait_steps.round [OF r]
    by (intro exI [of _ 1]) (simp add: virtio_blk_thread_def)
next
  case (Suc n)
  obtain b s1 where r: "do_io_round e s = Done (b, s1)"
      "if b then virtio_blk_do_io e n s1 = Done s' else s1 = s'"
    using Suc.prems(1) by (auto simp: virtio_blk_do_io.simps [of e "Suc n"] bind_run_Done_iff split: if_splits)
  have same: "same_threads s s1" by (rule wait_steps.round [OF r(1)])
  show ?case
  proof (cases b)
    case False
    then show ?thesis using r same Suc.prems(2) by (intro exI [of _ 1]) (simp add: virtio_blk_thread_def)
  next
    case True
    have "threads (dev s1) ! t = TServe" using same Suc.prems(2) by (simp add: same_threads_def)
    with Suc.IH [of s1] r(2) True obtain k where k: "k \<le> Suc n" "thread_steps e t k s1 = Done (set_pc t TCheck s')"
        "same_threads s1 s'" by auto
    have "thread_steps e t (Suc k) s = Done (set_pc t TCheck s')"
      using k(2) r(1) True Suc.prems(2) by (simp add: virtio_blk_thread_def)
    then show ?thesis using k(1,3) wait_steps.R_trans [OF same] by (intro exI [of _ "Suc k"]) simp
  qed
qed

text \<open>
  The thread is in \<open>read\<close> of the event descriptor of the queue, and \<open>c\<close> is its counter; with a counter of zero it
  sleeps.
\<close>

definition in_read :: "nat \<Rightarrow> u64 \<Rightarrow> blk \<Rightarrow> bool" where
  "in_read t c s \<longleftrightarrow> t < length (threads (dev s)) \<and> \<not> io_done (dev s) \<and>
     (\<exists>fd. threads (dev s) ! t = TRead (Some fd) \<and> io_efd (dev s) = Some fd \<and> fd < length (efds (dev s)) \<and>
       efds (dev s) ! fd = Some c)"

lemma in_read_sleeps: "in_read t 0 s \<Longrightarrow> virtio_blk_thread e t s = None"
  by (auto simp: in_read_def virtio_blk_thread_def)

text \<open>What the thread changes outside \<open>virtio_blk_do_io\<close>.\<close>

definition same_but_threads :: "blk \<Rightarrow> blk \<Rightarrow> bool" where
  "same_but_threads s s' \<longleftrightarrow> (\<exists>ts es. s' = s\<lparr>dev := (dev s)\<lparr>threads := ts, efds := es\<rparr>\<rparr>)"

lemma same_but_threadsI: "same_but_threads s (s\<lparr>dev := (dev s)\<lparr>threads := ts, efds := es\<rparr>\<rparr>)"
  by (auto simp: same_but_threads_def)

lemma set_pc_same: "same_but_threads s (set_pc t pc s)"
  using same_but_threadsI [of s "efds (dev s)"] by (simp add: set_pc_def)

lemma thread_wakes:
  assumes "in_read t c s" and "c \<noteq> 0"
  shows "\<exists>s1 fd. virtio_blk_thread e t s = Some (Done s1) \<and> same_but_threads s s1 \<and> threads (dev s1) ! t = TServe \<and>
    t < length (threads (dev s1)) \<and> \<not> io_done (dev s1) \<and>
    io_efd (dev s1) = Some fd \<and> fd < length (efds (dev s1)) \<and> efds (dev s1) ! fd = Some 0"
proof -
  obtain fd where fd: "threads (dev s) ! t = TRead (Some fd)" "io_efd (dev s) = Some fd" "fd < length (efds (dev s))"
      "efds (dev s) ! fd = Some c" "t < length (threads (dev s))" "\<not> io_done (dev s)"
    using assms(1) by (auto simp: in_read_def)
  let ?s1 = "s\<lparr>dev := (dev s)\<lparr>threads := (threads (dev s))[t := TServe], efds := (efds (dev s))[fd := Some 0]\<rparr>\<rparr>"
  have "virtio_blk_thread e t s = Some (Done ?s1)" using fd assms(2) by (simp add: virtio_blk_thread_def set_pc_def)
  then show ?thesis using fd same_but_threadsI by (intro exI [of _ ?s1] exI [of _ fd]) simp
qed

lemma thread_sleeps_again:
  assumes "threads (dev s) ! t = TCheck" and "t < length (threads (dev s))" and "\<not> io_done (dev s)"
    and "io_efd (dev s) = Some fd" "fd < length (efds (dev s))" "efds (dev s) ! fd = Some 0"
  shows "virtio_blk_thread e t s = Some (Done (set_pc t (TRead (Some fd)) s))" "in_read t 0 (set_pc t (TRead (Some fd)) s)"
  using assms by (simp_all add: in_read_def virtio_blk_thread_def set_pc_def)

text \<open>From a notification to the next sleep: everything \<open>virtio_blk_do_io\<close> does, and nothing else but the thread's own.\<close>

lemma woken_thread_serves:
  assumes "in_read t c s" and "c \<noteq> 0"
    and io: "\<And>s1. same_but_threads s s1 \<Longrightarrow> \<exists>s2. virtio_blk_do_io e n s1 = Done s2 \<and> P s2"
    and P: "\<And>s1 s2. same_but_threads s1 s2 \<Longrightarrow> P s1 \<Longrightarrow> P s2"
  shows "\<exists>k s'. k \<le> n + 3 \<and> thread_steps e t k s = Done s' \<and> in_read t 0 s' \<and> P s'"
proof -
  obtain s1 fd where s1: "virtio_blk_thread e t s = Some (Done s1)" "same_but_threads s s1" "threads (dev s1) ! t = TServe"
      "t < length (threads (dev s1))" "\<not> io_done (dev s1)"
      "io_efd (dev s1) = Some fd" "fd < length (efds (dev s1))" "efds (dev s1) ! fd = Some 0"
    using thread_wakes [OF assms(1,2), of e] by blast
  obtain s2 where s2: "virtio_blk_do_io e n s1 = Done s2" "P s2" using io [OF s1(2)] by blast
  obtain k where k: "k \<le> Suc n" "thread_steps e t k s1 = Done (set_pc t TCheck s2)" "same_threads s1 s2"
    using serving_thread [OF s2(1) s1(3)] by blast
  let ?s3 = "set_pc t TCheck s2"
  let ?s4 = "set_pc t (TRead (Some fd)) ?s3"
  have "threads (dev ?s3) ! t = TCheck" "t < length (threads (dev ?s3))" "\<not> io_done (dev ?s3)"
    "io_efd (dev ?s3) = Some fd" "fd < length (efds (dev ?s3))" "efds (dev ?s3) ! fd = Some 0"
    using s1 k(3) by (simp_all add: set_pc_def same_threads_def)
  note s4 = thread_sleeps_again(1) [OF this, of e] thread_sleeps_again(2) [OF this]
  have "P ?s4" by (rule P [OF set_pc_same P [OF set_pc_same s2(2)]])
  moreover have "thread_steps e t (1 + (k + 1)) s = Done ?s4"
    by (rule thread_steps_then [OF _ thread_steps_then [OF k(2)]]) (use s1(1) s4(1) in simp_all)
  ultimately show ?thesis using s4(2) k(1) by (intro exI [of _ "1 + (k + 1)"] exI [of _ ?s4]) simp
qed

subsection \<open>Properties\<close>

text \<open>The thread's own state does not matter to what is served.\<close>

lemma same_but_threads_simps:
  assumes "same_but_threads s s'"
  shows "ram s' = ram s" "gmap s' = gmap s" "queue (dev s') = queue (dev s)" "disk (dev s') = disk (dev s)"
    "serving d a u n s' = serving d a u n s"
  using assms by (auto simp: same_but_threads_def serving_def queue_def)

lemma notify_counts:
  assumes "in_read t c s" and "c < 0xFFFFFFFFFFFFFFFE"
  shows "\<exists>s1. blk_notify_vq e s vq = Done (0, s1) \<and> in_read t (c + 1) s1 \<and> same_but_threads s s1"
proof -
  obtain fd where fd: "threads (dev s) ! t = TRead (Some fd)" "io_efd (dev s) = Some fd" "fd < length (efds (dev s))"
      "efds (dev s) ! fd = Some c" "t < length (threads (dev s))" "\<not> io_done (dev s)"
    using assms(1) by (auto simp: in_read_def)
  let ?s1 = "s\<lparr>dev := (dev s)\<lparr>threads := threads (dev s), efds := (efds (dev s))[fd := Some (c + 1)]\<rparr>\<rparr>"
  have "blk_notify_vq e s vq = Done (0, ?s1)" using fd assms(2) by (simp add: blk_notify_vq_def not_le)
  moreover have "in_read t (c + 1) ?s1" using fd by (simp add: in_read_def)
  ultimately show ?thesis using same_but_threadsI by blast
qed

lemma notify_register:
  assumes "reg_offset s addr = VIRTIO_MMIO_QUEUE_NOTIFY" and "blk_notify_vq e s (ucast val) = Done (r, s1)"
  shows "virtio_mmio_modern_callback e (blk_dev_virtio_ops e) s addr val 4 True = Done (val, s1)"
    "virtio_mmio_legacy_callback e (blk_dev_virtio_ops e) s addr val 4 True = Done (val, s1)"
  using assms
  by (simp_all add: virtio_mmio_modern_callback_def virtio_mmio_legacy_callback_def modern_config_out_def
      legacy_config_out_def Let_def c_simps blk_dev_virtio_ops_def ioport__read32_def)

text \<open>
  C2: A notification is answered in full: when the guest writes the register \<open>QUEUE_NOTIFY\<close> while the I/O thread is in
  \<open>read\<close>, the handler (of either layout) returns with nothing changed but the event descriptor's counter, and the thread
  then serves every read and write that is available and sleeps in \<open>read\<close> again: the disk holds what the writes make of
  it in order, the guest has its data, the statuses, and the completions in the used ring, and no mapping of theirs is left.
  As in C1 the image is a raw file, a block device or a private mapping, served synchronously (\<open>byte_store\<close>, a part of
  \<open>serving\<close>), the disk answers each request (\<open>disk_ready\<close>), the pages can be mapped (\<open>posted\<close>), and the
  requests do not overlap one another or the rings (\<open>separate\<close>); the event counter is not full.
\<close>

theorem notification_served:
  assumes "serving d a u n s" and "pending (ram s) (queue (dev s)) = map ir_head rs"
    and "\<forall>r\<in>set rs. posted (map_ok e) (gmap s) (queue (dev s)) d (ram s) r \<and>
      disk_ready (io_fuel e) (disk (dev s)) (ir_sector r) (iov_total (ir_data r))"
    and "separate (queue (dev s)) d a u rs"
    and "in_read t c s" and "c < 0xFFFFFFFFFFFFFFFE" and "reg_offset s addr = VIRTIO_MMIO_QUEUE_NOTIFY"
    and "handler \<in> {virtio_mmio_modern_callback, virtio_mmio_legacy_callback}"
  shows "\<exists>s1 k s2. handler e (blk_dev_virtio_ops e) s addr val 4 True = Done (val, s1) \<and> same_but_threads s s1 \<and>
    k \<le> length rs + 3 \<and> thread_steps e t k s1 = Done s2 \<and> virtio_blk_thread e t s2 = None \<and>
    pending (ram s2) (queue (dev s2)) = [] \<and>
    disk_bytes (disk (dev s2)) = store_after (ram s) rs (disk_bytes (disk (dev s))) \<and>
    answered (ram s) (disk_bytes (disk (dev s))) rs (ram s2) \<and>
    shows_log (ram s2) u n (used_idx (ram s) u) False (map completion rs) \<and>
    mset (mappings (gmap s2)) = mset (mappings (gmap s))"
proof -
  obtain s1 where s1: "blk_notify_vq e s (ucast val) = Done (0, s1)" "in_read t (c + 1) s1" "same_but_threads s s1"
    using notify_counts [OF assms(5,6)] by blast
  have cb: "handler e (blk_dev_virtio_ops e) s addr val 4 True = Done (val, s1)"
    using assms(8) notify_register [OF assms(7) s1(1)] by auto
  have c: "c + 1 \<noteq> 0"
  proof
    assume "c + 1 = 0"
    then have "c = 0xFFFFFFFFFFFFFFFF" by (simp add: add_eq_0_iff2)
    then show False using assms(6) by simp
  qed
  let ?P = "\<lambda>s2. pending (ram s2) (queue (dev s2)) = [] \<and>
    disk_bytes (disk (dev s2)) = store_after (ram s) rs (disk_bytes (disk (dev s))) \<and>
    answered (ram s) (disk_bytes (disk (dev s))) rs (ram s2) \<and>
    shows_log (ram s2) u n (used_idx (ram s) u) False ([] @ map completion rs) \<and>
    mset (mappings (gmap s2)) = mset (mappings (gmap s))"
  have log: "shows_log (ram s) u n (used_idx (ram s) u) False []" by (simp add: shows_log_def)
  have "\<exists>k s2. k \<le> length rs + 3 \<and> thread_steps e t k s1 = Done s2 \<and> in_read t 0 s2 \<and> ?P s2"
  proof (rule woken_thread_serves [OF s1(2) c])
    fix s' assume "same_but_threads s1 s'"
    note same = same_but_threads_simps [OF this] same_but_threads_simps [OF s1(3)]
    show "\<exists>s2. virtio_blk_do_io e (length rs) s' = Done s2 \<and> ?P s2"
      using serve_all [of d a u n s' rs e "used_idx (ram s) u" "[]" "length rs"] assms(1-4) log unfolding same by auto
  next
    fix s' s'' assume "same_but_threads s' s''" "?P s'"
    then show "?P s''" using same_but_threads_simps [of s' s''] by simp
  qed
  then show ?thesis using cb s1(3) in_read_sleeps by fastforce
qed

text \<open>The two requests of \<open>two_ram\<close>, with the thread asleep.\<close>

definition sleeping_blk :: blk where
  "sleeping_blk = two_blk\<lparr>dev := (dev two_blk)\<lparr>threads := [TRead (Some 0)], efds := [Some 0]\<rparr>\<rparr>"

theorem notification_served_witness:
  "\<exists>s1 k s2. virtio_mmio_modern_callback sample_env (blk_dev_virtio_ops sample_env) sleeping_blk 0x2000050 0 4 True = Done (0, s1) \<and>
    thread_steps sample_env 0 k s1 = Done s2 \<and> virtio_blk_thread sample_env 0 s2 = None \<and>
    used_idx (ram s2) 0x3000 = used_idx two_ram 0x3000 + 2 \<and>
    disk_bytes (disk (dev s2)) = overlay (disk_bytes sample_disk) 512 (gather two_ram [\<lparr>iov_base = 0x5000, iov_len = 512\<rparr>])"
proof -
  have same: "same_but_threads two_blk sleeping_blk" unfolding sleeping_blk_def by (rule same_but_threadsI)
  have b: "ram sleeping_blk = two_ram" "queue (dev sleeping_blk) = sample_queue" "gmap sleeping_blk = \<lparr>use_gnttab = 0, mappings = []\<rparr>"
    "disk (dev sleeping_blk) = sample_disk"
    unfolding same_but_threads_simps [OF same] by (simp_all add: two_blk_def sample_blk_def queue_def)
  have sv: "serving 0x1000 0x2000 0x3000 256 sleeping_blk" unfolding same_but_threads_simps [OF same] by (rule two_serving)
  have d: "\<forall>r\<in>set two_requests. disk_ready (io_fuel sample_env) sample_disk (ir_sector r) (iov_total (ir_data r))"
    by (simp add: two_requests_def disk_ready_def raw_ready_def sample_disk_def benign_def transient_def sample_env_def)
  have r: "in_read 0 0 sleeping_blk" "reg_offset sleeping_blk 0x2000050 = VIRTIO_MMIO_QUEUE_NOTIFY"
    by (simp_all add: in_read_def reg_offset_def sleeping_blk_def two_blk_def sample_blk_def c_simps)
  show ?thesis
    using notification_served [OF sv, of two_requests sample_env 0 0 "0x2000050" virtio_mmio_modern_callback 0]
      two_pending two_posted two_separate d r
    unfolding b by (fastforce simp: two_requests_def store_step_def shows_log_def)
qed

end
