(* ===== verification/Registers.thy ===== *)
theory Registers
  imports VirtioMmioProofs
begin

text \<open>
  What a driver sees through the registers of a block device: the addresses of a queue's rings, the
  configuration space and its bounds, the feature test, and the reset by the status register.
\<close>

subsection \<open>The registers that hold a queue's addresses\<close>

text \<open>A queue that a device has is found again after it was stored.\<close>

locale queue_store =
  fixes ops :: "'d virtio_ops"
  assumes get_put: "get_vq ops d n \<noteq> None \<Longrightarrow> get_vq ops (put_vq ops d n q) n = Some q"
begin

lemma upd_vq_addr_selects:
  assumes "get_vq ops (dev s) (hdr_get s (reg VIRTIO_MMIO_QUEUE_SEL)) = Some q"
  obtains s' where "upd_vq_addr ops f s = Done s'" and "vmmio s' = vmmio s"
    and "get_vq ops (dev s') (hdr_get s (reg VIRTIO_MMIO_QUEUE_SEL)) = Some (q\<lparr>vq_addr := f (vq_addr q)\<rparr>)"
proof
  let ?n = "hdr_get s (reg VIRTIO_MMIO_QUEUE_SEL)"
  let ?s = "set_vq ops ?n (q\<lparr>vq_addr := f (vq_addr q)\<rparr>) s"
  show "upd_vq_addr ops f s = Done ?s" using assms by (simp add: upd_vq_addr_def sel_vq_def Let_def)
  show "vmmio ?s = vmmio s" by (simp add: set_vq_def)
  show "get_vq ops (dev ?s) ?n = Some (q\<lparr>vq_addr := f (vq_addr q)\<rparr>)"
    using get_put [of "dev s" ?n] assms by (simp add: set_vq_def)
qed

end

interpretation blk_queues: queue_store "blk_dev_virtio_ops e"
  by unfold_locales (auto simp: blk_dev_virtio_ops_def blk_get_vq_def blk_put_vq_def split: if_splits)

definition queue_regs :: "u32 list" where
  "queue_regs = [VIRTIO_MMIO_QUEUE_DESC_LOW, VIRTIO_MMIO_QUEUE_DESC_HIGH, VIRTIO_MMIO_QUEUE_USED_LOW,
     VIRTIO_MMIO_QUEUE_USED_HIGH, VIRTIO_MMIO_QUEUE_AVAIL_LOW, VIRTIO_MMIO_QUEUE_AVAIL_HIGH]"

definition reg_addr :: "'d vstate \<Rightarrow> u32 \<Rightarrow> u64" where
  "reg_addr s r = ucast (vm_addr (vmmio s)) + ucast r"

lemma ucast_up_down: "ucast (ucast (r :: u32) :: u64) = r"
  by (rule bit_word_eqI) (simp add: bit_ucast_iff)

lemma ucast_down_up: "ucast (ucast (v :: u64) :: u32) = v AND mask 32"
  by (rule bit_word_eqI) (auto simp: bit_ucast_iff bit_and_iff bit_mask_iff)

lemma reg_offset_reg_addr [simp]: "reg_offset s (reg_addr s r) = r"
  by (simp add: reg_offset_def reg_addr_def ucast_up_down)

lemma reg_offset_same: "vmmio s' = vmmio s \<Longrightarrow> reg_offset s' (reg_addr s r) = r"
  by (simp add: reg_offset_def reg_addr_def ucast_up_down)

text \<open>How one of these registers changes a queue's addresses, and reads them.\<close>

definition set_field :: "u32 \<Rightarrow> u32 \<Rightarrow> vring_addr \<Rightarrow> vring_addr" where
  "set_field r v =
     (if r = VIRTIO_MMIO_QUEUE_DESC_LOW then (\<lambda>a. a\<lparr>desc_lo := v\<rparr>)
      else if r = VIRTIO_MMIO_QUEUE_DESC_HIGH then (\<lambda>a. a\<lparr>desc_hi := v\<rparr>)
      else if r = VIRTIO_MMIO_QUEUE_USED_LOW then (\<lambda>a. a\<lparr>used_lo := v\<rparr>)
      else if r = VIRTIO_MMIO_QUEUE_USED_HIGH then (\<lambda>a. a\<lparr>used_hi := v\<rparr>)
      else if r = VIRTIO_MMIO_QUEUE_AVAIL_LOW then (\<lambda>a. a\<lparr>avail_lo := v\<rparr>)
      else (\<lambda>a. a\<lparr>avail_hi := v\<rparr>))"

definition get_field :: "u32 \<Rightarrow> vring_addr \<Rightarrow> u32" where
  "get_field r a =
     (if r = VIRTIO_MMIO_QUEUE_DESC_LOW then desc_lo a
      else if r = VIRTIO_MMIO_QUEUE_DESC_HIGH then desc_hi a
      else if r = VIRTIO_MMIO_QUEUE_USED_LOW then used_lo a
      else if r = VIRTIO_MMIO_QUEUE_USED_HIGH then used_hi a
      else if r = VIRTIO_MMIO_QUEUE_AVAIL_LOW then avail_lo a
      else avail_hi a)"

lemma get_set_field:
  assumes "r \<in> set queue_regs" "r' \<in> set queue_regs"
  shows "get_field r' (set_field r v a) = (if r' = r then v else get_field r' a)"
  using assms by (auto simp: queue_regs_def get_field_def set_field_def c_simps)

lemma queue_reg_write:
  assumes "r \<in> set queue_regs"
  shows "modern_config_out e ops s r v = upd_vq_addr ops (set_field r (ucast v)) s"
  using assms by (auto simp: queue_regs_def modern_config_out_def set_field_def c_simps Let_def)

lemma queue_reg_read:
  assumes "r \<in> set queue_regs" and "get_vq ops (dev s) (hdr_get s (reg VIRTIO_MMIO_QUEUE_SEL)) = Some q"
  shows "modern_config_in ops s r d = Done (low_bytes 4 d (ucast (get_field r (vq_addr q))))"
  using assms by (auto simp: queue_regs_def modern_config_in_def get_field_def sel_vq_def c_simps Let_def)

lemma queue_reg_small: "r \<in> set queue_regs \<Longrightarrow> \<not> VIRTIO_MMIO_CONFIG \<le> r"
  by (auto simp: queue_regs_def c_simps)

text \<open>
  C26: The six registers with the addresses of a queue's rings work as registers: what the driver writes
  to one is read back from it, and the other five keep their values.
\<close>

theorem queue_registers_roundtrip:
  assumes "r \<in> set queue_regs"
    and "get_vq (blk_dev_virtio_ops e) (dev s) (hdr_get s (reg VIRTIO_MMIO_QUEUE_SEL)) = Some q"
  shows "\<exists>s'. virtio_mmio_modern_callback e (blk_dev_virtio_ops e) s (reg_addr s r) v 4 True = Done (v, s') \<and>
    (\<forall>r'\<in>set queue_regs. \<forall>d.
       virtio_mmio_modern_callback e (blk_dev_virtio_ops e) s' (reg_addr s r') d 4 False =
         (if r' = r then Done (low_bytes 4 d (v AND mask 32), s')
          else bind_run (virtio_mmio_modern_callback e (blk_dev_virtio_ops e) s (reg_addr s r') d 4 False) (\<lambda>(x, _). Done (x, s'))))"
proof -
  let ?ops = "blk_dev_virtio_ops e" and ?n = "hdr_get s (reg VIRTIO_MMIO_QUEUE_SEL)"
  obtain s' where s': "upd_vq_addr ?ops (set_field r (ucast v)) s = Done s'" "vmmio s' = vmmio s"
      "get_vq ?ops (dev s') ?n = Some (q\<lparr>vq_addr := set_field r (ucast v) (vq_addr q)\<rparr>)"
    by (rule blk_queues.upd_vq_addr_selects [OF assms(2)])
  have n: "hdr_get s' (reg VIRTIO_MMIO_QUEUE_SEL) = ?n" using s'(2) by (simp add: hdr_get_def)
  have w: "virtio_mmio_modern_callback e ?ops s (reg_addr s r) v 4 True = Done (v, s')"
    using queue_reg_small [OF assms(1)] s'(1)
    by (simp add: virtio_mmio_modern_callback_def Let_def queue_reg_write [OF assms(1)])
  moreover have "virtio_mmio_modern_callback e ?ops s' (reg_addr s r') d 4 False =
         (if r' = r then Done (low_bytes 4 d (v AND mask 32), s')
          else bind_run (virtio_mmio_modern_callback e ?ops s (reg_addr s r') d 4 False) (\<lambda>(x, _). Done (x, s')))"
    if r': "r' \<in> set queue_regs" for r' d
    using queue_reg_small [OF r'] queue_reg_read [OF r' assms(2), of d] get_set_field [OF assms(1) r']
      queue_reg_read [OF r' s'(3) [folded n], of d] reg_offset_same [OF s'(2)]
    by (simp add: virtio_mmio_modern_callback_def Let_def ucast_down_up)
  ultimately show ?thesis by blast
qed

subsection \<open>The configuration space\<close>

lemma word_of_le_of_word_mask:
  "word_of_le (le_of_word n (v :: u64)) = v AND mask (8 * n)"
proof (rule bit_word_eqI)
  fix i assume "i < LENGTH(64)"
  then show "bit (word_of_le (le_of_word n v) :: u64) i = bit (v AND mask (8 * n)) i"
    by (auto simp: bit_word_of_le nth_le_of_word bit_ucast_iff bit_drop_bit_eq bit_and_iff bit_mask_iff less_mult_imp_div_less
        mult.commute div_less_iff_less_mult)
qed

lemma low_bytes_mask: "low_bytes n d (v AND mask (8 * n)) = low_bytes n d v"
  by (simp add: low_bytes_def and.assoc)

text \<open>
  C37: The configuration of a block device can be written and read by accesses of 1, 2 and 4 bytes that
  lie inside it; every other access of these sizes in the upper half of the device's range leaves the
  structure, as nothing compares the offset with its size.  This holds for both register layouts.
\<close>

theorem config_access_in_bounds:
  assumes "off \<ge> VIRTIO_MMIO_CONFIG" and "len \<in> {1, 2, 4}"
    and "cb = virtio_mmio_modern_callback \<or> cb = virtio_mmio_legacy_callback"
    and "n = unat (off - VIRTIO_MMIO_CONFIG) + unat len"
  shows "if n \<le> length (blk_config (dev s))
    then \<exists>s'. cb e (blk_dev_virtio_ops e) s (reg_addr s off) v len True = Done (v, s') \<and>
      cb e (blk_dev_virtio_ops e) s' (reg_addr s off) d len False = Done (low_bytes (unat len) d v, s')
    else cb e (blk_dev_virtio_ops e) s (reg_addr s off) v len is_write = Wild"
proof -
  let ?o = "unat (off - VIRTIO_MMIO_CONFIG)" and ?ops = "blk_dev_virtio_ops e"
  have c: "cb e ?ops t (reg_addr s off) x len w = virtio_mmio_device_specific ?ops t (off - VIRTIO_MMIO_CONFIG) x len w"
    if "vmmio t = vmmio s" for t x w
    using assms(1,3) reg_offset_same [OF that, of off]
    by (auto simp: virtio_mmio_modern_callback_def virtio_mmio_legacy_callback_def Let_def)
  show ?thesis
  proof (cases "n \<le> length (blk_config (dev s))")
    case False
    then show ?thesis using assms(2,4) c [of s]
      by (auto simp: virtio_mmio_device_specific_def virtio_write_config_def virtio_read_config_def
          blk_dev_virtio_ops_def)
  next
    case True
    let ?bs = "overlay (blk_config (dev s)) ?o (le_of_word (unat len) v)"
    let ?s = "upd_dev (\<lambda>d. d\<lparr>blk_config := ?bs\<rparr>) s"
    have w: "cb e ?ops s (reg_addr s off) v len True = Done (v, ?s)"
      using True assms(2,4) c [of s]
      by (simp add: virtio_mmio_device_specific_def virtio_write_config_def blk_dev_virtio_ops_def)
    have l: "length ?bs = length (blk_config (dev s))" using True assms(4) by (simp add: length_overlay)
    have "take (unat len) (drop ?o ?bs) = le_of_word (unat len) v"
      using slice_overlay [of "le_of_word (unat len) v" ?o "blk_config (dev s)"] by simp
    then have "cb e ?ops ?s (reg_addr s off) d len False = Done (low_bytes (unat len) d v, ?s)"
      using True assms(2,4) c [of ?s] l
      by (simp add: virtio_mmio_device_specific_def virtio_read_config_def blk_dev_virtio_ops_def
          word_of_le_of_word_mask low_bytes_mask)
    then show ?thesis using w True by auto
  qed
qed

subsection \<open>The event index\<close>

text \<open>
  C40: Whether a queue uses the event index does not depend on the feature bit of that name, bit 29: the
  code tests the features against the number 29 itself, that is, bits 0, 2, 3 and 4.
\<close>

theorem event_idx_tests_wrong_bits:
  assumes "virtio_init_device_vq e vd g vq n = Done (vq', g')"
  shows "use_event_idx vq' \<longleftrightarrow> (\<exists>i\<in>{0, 2, 3, 4}. bit (vd_features vd) i)"
proof -
  have "use_event_idx vq' = uses_event_idx (vd_features vd)"
    using assms by (auto simp: virtio_init_device_vq_def Let_def bind_run_Done_iff split: if_splits option.splits)
  also have "\<dots> \<longleftrightarrow> (\<exists>i. bit (vd_features vd AND 29) i)"
    using bit_imp_le_length [of "vd_features vd AND 29"]
    by (fastforce simp: uses_event_idx_def c_simps bit_eq_iff)
  also have "\<dots> \<longleftrightarrow> (\<exists>i\<in>{0, 2, 3, 4}. bit (vd_features vd) i)"
  proof -
    have "bit (29 :: u64) i \<longleftrightarrow> i \<in> {0, 2, 3, 4}" for i
    proof (cases "i < 5")
      case True
      then show ?thesis by (auto simp: less_Suc_eq numeral_eq_Suc)
    next
      case False
      have "(29 :: u64) = take_bit 5 29" by simp
      then have "bit (29 :: u64) i = bit (take_bit 5 (29 :: u64)) i" by (rule arg_cong)
      also have "\<dots> \<longleftrightarrow> i < 5 \<and> bit (29 :: u64) i" by (rule bit_take_bit_iff)
      finally show ?thesis using False by auto
    qed
    then show ?thesis by (auto simp: bit_and_iff)
  qed
  finally show ?thesis .
qed

subsection \<open>Reset\<close>

text \<open>
  The thread of the queue is alive: at the test of its loop, waiting on the device's descriptor, which is
  open and not full, or between two requests, and the rings are there.
\<close>

definition io_alive :: "env \<Rightarrow> blk \<Rightarrow> nat \<Rightarrow> nat \<Rightarrow> bool" where
  "io_alive e s t fd \<longleftrightarrow> io_thread (dev s) = Some t \<and> t < length (threads (dev s)) \<and>
     threads (dev s) ! t \<in> {TCheck, TRead (Some fd), TServe} \<and>
     io_efd (dev s) = Some fd \<and> fd < length (efds (dev s)) \<and>
     (\<exists>c < 0xFFFFFFFFFFFFFFFE. efds (dev s) ! fd = Some c) \<and>
     vr_used (queue (dev s)) \<noteq> None \<and> 3 \<le> io_fuel e"

lemma available_done:
  assumes "vr_used q \<noteq> None"
  obtains b m' where "virt_queue__available m q = Done (b, m')"
proof -
  have "\<exists>b m'. virt_queue__available m q = Done (b, m')"
    using assms by (auto simp: virt_queue__available_def Let_def split: option.splits)
  then show thesis using that by blast
qed

lemma last_round:
  assumes "io_done (dev s)" and "vr_used (queue (dev s)) \<noteq> None"
  obtains m where "do_io_round e s = Done (False, s\<lparr>ram := m\<rparr>)"
proof -
  obtain b m where a: "virt_queue__available (ram s) (queue (dev s)) = Done (b, m)"
    using available_done [OF assms(2)] by blast
  have "do_io_round e s = Done (False, s\<lparr>ram := m\<rparr>)"
    using a assms(1) by (simp add: do_io_round_def Let_def)
  then show thesis by (rule that)
qed

text \<open>
  A thread that sees \<open>io_done\<close> ends: from the test at once, from the loop of requests over the test, and
  from \<open>read\<close> over both.  Only memory can change, by the event index of the last look at the queue.
\<close>

lemma set_pc_simps [simp]:
  "threads (dev (set_pc t pc s)) = (threads (dev s))[t := pc]" "io_done (dev (set_pc t pc s)) = io_done (dev s)"
  "queue (dev (set_pc t pc s)) = queue (dev s)" "ram (set_pc t pc s) = ram s"
  "set_pc t pc (set_pc t pc' s) = set_pc t pc s" "(set_pc t pc s)\<lparr>ram := m\<rparr> = set_pc t pc (s\<lparr>ram := m\<rparr>)"
  by (simp_all add: set_pc_def queue_def)

lemma queue_simps [simp]:
  "queue (d\<lparr>efds := x\<rparr>) = queue d" "queue (d\<lparr>io_done := b\<rparr>) = queue d"
  by (simp_all add: queue_def)

lemma run_from_exit: "threads (dev s) ! t = TExit \<Longrightarrow> run_thread e t n s = Done s"
  by (subst run_thread.simps) simp

lemma run_from_check:
  assumes "io_done (dev s)" "t < length (threads (dev s))" "threads (dev s) ! t = TCheck"
  shows "run_thread e t (Suc n) s = Done (set_pc t TExit s)"
  using assms by (subst run_thread.simps) (simp add: virtio_blk_thread_def run_from_exit)

lemma run_from_serve:
  assumes "io_done (dev s)" "t < length (threads (dev s))" "threads (dev s) ! t = TServe"
    and "vr_used (queue (dev s)) \<noteq> None"
  obtains m where "run_thread e t (Suc (Suc n)) s = Done (set_pc t TExit (s\<lparr>ram := m\<rparr>))"
proof -
  obtain m where "do_io_round e s = Done (False, s\<lparr>ram := m\<rparr>)" by (rule last_round [OF assms(1,4)])
  then have "run_thread e t (Suc (Suc n)) s = Done (set_pc t TExit (s\<lparr>ram := m\<rparr>))"
    using assms by (subst run_thread.simps) (simp add: virtio_blk_thread_def run_from_check)
  then show thesis by (rule that)
qed

lemma run_from_read:
  assumes "io_done (dev s)" "t < length (threads (dev s))" "threads (dev s) ! t = TRead (Some fd)"
    and "vr_used (queue (dev s)) \<noteq> None" and "efds (dev s) ! fd = Some c" "c \<noteq> 0"
  obtains m where "run_thread e t (Suc (Suc (Suc n))) s =
    Done (set_pc t TExit ((upd_dev (\<lambda>d. d\<lparr>efds := (efds d)[fd := Some 0]\<rparr>) s)\<lparr>ram := m\<rparr>))"
proof -
  let ?s = "set_pc t TServe (upd_dev (\<lambda>d. d\<lparr>efds := (efds d)[fd := Some 0]\<rparr>) s)"
  have "io_done (dev ?s)" "t < length (threads (dev ?s))" "threads (dev ?s) ! t = TServe"
    "vr_used (queue (dev ?s)) \<noteq> None" using assms by simp_all
  then obtain m where m: "run_thread e t (Suc (Suc n)) ?s = Done (set_pc t TExit (?s\<lparr>ram := m\<rparr>))"
    by (rule run_from_serve)
  have "run_thread e t (Suc (Suc (Suc n))) s = run_thread e t (Suc (Suc n)) ?s"
    using assms(3,5,6) by (subst run_thread.simps) (simp add: virtio_blk_thread_def)
  then show thesis using m that by simp
qed

lemma exit_vq_returns:
  assumes "io_alive e s t fd"
  obtains m where "blk_exit_vq e s 0 = Done (set_pc t TExit ((upd_dev (\<lambda>d. d\<lparr>io_done := True,
    efds := (efds d)[fd := None]\<rparr>) s)\<lparr>ram := m\<rparr>))"
proof -
  obtain c where a: "io_thread (dev s) = Some t" "t < length (threads (dev s))"
      "threads (dev s) ! t \<in> {TCheck, TRead (Some fd), TServe}" "io_efd (dev s) = Some fd"
      "fd < length (efds (dev s))" "c < 0xFFFFFFFFFFFFFFFE" "efds (dev s) ! fd = Some c"
      "vr_used (queue (dev s)) \<noteq> None" "3 \<le> io_fuel e"
    using assms by (auto simp: io_alive_def)
  let ?s1 = "upd_dev (\<lambda>d. d\<lparr>io_done := True, efds := (efds d)[fd := Some (c + 1)]\<rparr>) s"
  have n: "blk_notify_vq e (upd_dev (\<lambda>d. d\<lparr>io_done := True\<rparr>) s) 0 = Done (0, ?s1)"
    using a(4,6,7) by (simp add: blk_notify_vq_def not_le)
  have c1: "c + 1 \<noteq> 0"
  proof
    assume "c + 1 = 0"
    then have "c = -1" by (simp add: eq_neg_iff_add_eq_0)
    then show False using a(6) by simp
  qed
  obtain k where "io_fuel e = 3 + k" using a(9) le_Suc_ex by blast
  then have k: "io_fuel e = Suc (Suc (Suc k))" by simp
  have d: "io_done (dev ?s1)" "t < length (threads (dev ?s1))" "vr_used (queue (dev ?s1)) \<noteq> None"
    "efds (dev ?s1) ! fd = Some (c + 1)" using a by simp_all
  have "\<exists>m x. run_thread e t (io_fuel e) ?s1 =
      Done (set_pc t TExit ((upd_dev (\<lambda>d. d\<lparr>efds := (efds d)[fd := x]\<rparr>) ?s1)\<lparr>ram := m\<rparr>))"
  proof -
    consider "threads (dev ?s1) ! t = TCheck" | "threads (dev ?s1) ! t = TServe" | "threads (dev ?s1) ! t = TRead (Some fd)"
      using a(3) by auto
    then show ?thesis
    proof cases
      case 1
      show ?thesis unfolding k run_from_check [OF d(1,2) 1]
        by (intro exI [of _ "ram s"] exI [of _ "Some (c + 1)"]) simp
    next
      case 2
      obtain m where "run_thread e t (io_fuel e) ?s1 = Done (set_pc t TExit (?s1\<lparr>ram := m\<rparr>))"
        unfolding k by (rule run_from_serve [OF d(1,2) 2 d(3)])
      then show ?thesis by (intro exI [of _ m] exI [of _ "Some (c + 1)"]) simp
    next
      case 3
      obtain m where "run_thread e t (io_fuel e) ?s1 =
          Done (set_pc t TExit ((upd_dev (\<lambda>d. d\<lparr>efds := (efds d)[fd := Some 0]\<rparr>) ?s1)\<lparr>ram := m\<rparr>))"
        unfolding k by (rule run_from_read [OF d(1,2) 3 d(3,4) c1])
      then show ?thesis by blast
    qed
  qed
  then obtain m x where r: "run_thread e t (io_fuel e) ?s1 =
      Done (set_pc t TExit ((upd_dev (\<lambda>d. d\<lparr>efds := (efds d)[fd := x]\<rparr>) ?s1)\<lparr>ram := m\<rparr>))" by blast
  have "blk_exit_vq e s 0 = Done (set_pc t TExit ((upd_dev (\<lambda>d. d\<lparr>io_done := True,
    efds := (efds d)[fd := None]\<rparr>) s)\<lparr>ram := m\<rparr>))"
    using n r a(1,4) by (simp add: blk_exit_vq_def close_efd_def set_pc_def)
  then show thesis by (rule that)
qed

lemma blk_notify_status_eq: "blk_notify_status s st = s"
  by (simp add: blk_notify_status_def)

lemma masked_start:
  fixes x :: u32
  shows "((x AND NOT VIRTIO_CONFIG_S_MASK) OR 0) AND VIRTIO__STATUS_START = x AND VIRTIO__STATUS_START"
    "(x AND NOT VIRTIO__STATUS_START) AND VIRTIO__STATUS_START = 0"
    "(x AND NOT VIRTIO__STATUS_START OR VIRTIO__STATUS_SWAB) AND VIRTIO__STATUS_START = 0"
  by (simp_all add: c_simps and.assoc bit.conj_disj_distrib2)

text \<open>
  C19: A driver that writes 0 to the status register resets the device: the write returns once the thread
  of the queue has ended, which it does wherever it was, the event descriptor is closed, the pages
  of the rings are unmapped, and the queue and the started flag are cleared.
\<close>

theorem status_zero_resets:
  assumes "io_alive e s t fd" and "vqs (dev s) = [q]" and "vq_enabled q"
    and "vd_status (vdev s) AND VIRTIO__STATUS_START \<noteq> 0"
  shows "\<exists>s'. virtio_mmio_modern_callback e (blk_dev_virtio_ops e) s (reg_addr s VIRTIO_MMIO_STATUS) 0 4 True = Done (0, s') \<and>
    vqs (dev s') = [zero_vq] \<and> threads (dev s') ! t = TExit \<and> efds (dev s') ! fd = None \<and>
    gmap s' = unmap_queue e q (gmap s) \<and> vd_status (vdev s') AND VIRTIO__STATUS_START = 0"
proof -
  let ?ops = "blk_dev_virtio_ops e"
  let ?h = "hdr_set (reg VIRTIO_MMIO_STATUS) 0 s"
  let ?st0 = "(vd_status (vdev s) AND NOT VIRTIO_CONFIG_S_MASK) OR 0"
  let ?s0 = "upd_vdev (\<lambda>d. d\<lparr>vd_status := ?st0 AND NOT VIRTIO__STATUS_START\<rparr>) ?h"
  have "io_alive e ?s0 t fd" using assms(1) by (simp add: io_alive_def hdr_set_def)
  then obtain m where x: "blk_exit_vq e ?s0 0 = Done (set_pc t TExit ((upd_dev (\<lambda>d. d\<lparr>io_done := True,
    efds := (efds d)[fd := None]\<rparr>) ?s0)\<lparr>ram := m\<rparr>))" (is "_ = Done ?s1")
    by (rule exit_vq_returns)
  have v: "vqs (dev ?s0) = [q]" "vqs (dev ?s1) = [q]" "gmap ?s1 = gmap s" using assms(2) by (simp_all add: hdr_set_def set_pc_def)
  let ?s2 = "set_vq ?ops 0 zero_vq (?s1\<lparr>gmap := unmap_queue e q (gmap s)\<rparr>)"
  have "virtio_exit_vq e ?ops ?s0 0 = Done ?s2"
    using x v assms(3) by (simp add: virtio_exit_vq_def sel_vq_def blk_dev_virtio_ops_def blk_get_vq_def)
  then have r: "virtio_mmio_reset e ?ops ?s0 = Done ?s2"
    by (simp add: virtio_mmio_reset_def virtio_mmio_exit_vq_def blk_dev_virtio_ops_def c_simps numeral_eq_Suc)
  let ?s' = "if vd_status (vdev ?s2) AND VIRTIO__STATUS_SWAB = 0
    then upd_vdev (\<lambda>d. d\<lparr>vd_status := vd_status d OR VIRTIO__STATUS_SWAB\<rparr>) ?s2 else ?s2"
  have "vd_status (vdev ?h) = vd_status (vdev s)" by (simp add: hdr_set_def)
  then have "virtio_notify_status e ?ops ?h 0 = Done ?s'"
    using r assms(4) masked_start(1) [of "vd_status (vdev s)"]
    by (simp add: virtio_notify_status_def Let_def blk_notify_status_eq blk_dev_virtio_ops_def [THEN arg_cong [where f = notify_status]])
  then have "virtio_mmio_modern_callback e ?ops s (reg_addr s VIRTIO_MMIO_STATUS) 0 4 True = Done (0, ?s')"
    by (simp add: virtio_mmio_modern_callback_def Let_def modern_config_out_def c_simps)
  moreover have "vd_status (vdev ?s2) = ?st0 AND NOT VIRTIO__STATUS_START"
    by (simp add: set_vq_def set_pc_def)
  moreover have "vqs (dev ?s2) = [zero_vq]" "gmap ?s2 = unmap_queue e q (gmap s)"
    using v(2) by (simp_all add: set_vq_def blk_dev_virtio_ops_def blk_put_vq_def)
  moreover have "threads (dev ?s2) ! t = TExit" "efds (dev ?s2) ! fd = None"
    using assms(1) by (simp_all add: set_vq_def blk_dev_virtio_ops_def blk_put_vq_def set_pc_def io_alive_def hdr_set_def)
  ultimately show ?thesis
    using masked_start(2,3) [of "vd_status (vdev s) AND NOT VIRTIO_CONFIG_S_MASK"] by auto
qed

subsection \<open>Witnesses\<close>

definition sample_dev_disk :: disk_image where
  "sample_dev_disk = \<lparr>dk_fd = \<lparr>fbytes = [], fpos = 0, fscript = []\<rparr>, dk_size = 1024, dk_ops = Raw_image_regular_ops,
     dk_priv = PNull, dk_req_cb = True, dk_readonly = False, dk_async = False, dk_addr = 0x2000000, dk_irq = 33,
     dk_fd_open = True\<rparr>"

definition live_queue :: virt_queue where
  "live_queue = zero_vq\<lparr>vr_num := 256, vr_desc := Some 0x1000, vr_avail := Some 0x2000,
     vr_used := Some 0x3000, vq_enabled := True\<rparr>"

definition plain_env :: env where
  "plain_env = \<lparr>map_ok = (\<lambda>k f n. True), map_io = (\<lambda>a b. 0),
     ring_abi = \<lparr>vring_need_event = (\<lambda>event new old. new - event - 1 < new - old),
       vring_size = (\<lambda>n a. 0x3000), vring_avail_off = (\<lambda>n. 0x1000), vring_used_off = (\<lambda>n p a. 0x2000)\<rparr>,
     host_page = 4096, efd_ok = True, thread_ok = True, sys_errno = 24, serial_stat = Some (1, 2, 3),
     io_fuel = 4, heap_junk = [], config_len = 60\<rparr>"

text \<open>A device whose queue is set up and whose thread waits for the guest.\<close>

definition waiting_blk :: blk where
  "waiting_blk =
     \<lparr>ram = (\<lambda>a. 0), gmap = \<lparr>use_gnttab = 0, mappings = [(0x1000, 1), (0x2000, 1), (0x3000, 1)]\<rparr>, irq_levels = [],
      spaces = [], io_ranges = [],
      vdev = \<lparr>vd_legacy = False, vd_endian = 1, vd_features = 0x30000204, vd_status = 0x10F\<rparr>,
      vmmio = \<lparr>vm_addr = 0x2000000, vm_irq = 33, hdr = initial_hdr False 2\<rparr>,
      dev = \<lparr>blk_config = replicate 60 0, disk = sample_dev_disk, vqs = [live_queue], reqs = [], io_thread = Some 0,
        io_efd = Some 0, io_done = False, efds = [Some 0], threads = [TRead (Some 0)]\<rparr>\<rparr>"

theorem queue_registers_roundtrip_witness:
  "\<exists>s'. virtio_mmio_modern_callback plain_env (blk_dev_virtio_ops plain_env) waiting_blk
       (reg_addr waiting_blk VIRTIO_MMIO_QUEUE_USED_LOW) 0x12345678 4 True = Done (0x12345678, s') \<and>
     virtio_mmio_modern_callback plain_env (blk_dev_virtio_ops plain_env) s'
       (reg_addr waiting_blk VIRTIO_MMIO_QUEUE_USED_LOW) 0 4 False = Done (low_bytes 4 0 (0x12345678 AND mask 32), s')"
proof -
  have sel: "hdr_get waiting_blk (reg VIRTIO_MMIO_QUEUE_SEL) = 0"
    by (simp add: hdr_get_def waiting_blk_def initial_hdr_def zero_hdr_def c_simps)
  have q: "get_vq (blk_dev_virtio_ops plain_env) (dev waiting_blk) (hdr_get waiting_blk (reg VIRTIO_MMIO_QUEUE_SEL)) = Some live_queue"
    unfolding sel by (simp add: blk_dev_virtio_ops_def blk_get_vq_def waiting_blk_def)
  have r: "VIRTIO_MMIO_QUEUE_USED_LOW \<in> set queue_regs" by (simp add: queue_regs_def)
  show ?thesis using queue_registers_roundtrip [where v = "0x12345678", OF r q] r by auto
qed

theorem config_access_in_bounds_witness:
  "virtio_mmio_modern_callback plain_env (blk_dev_virtio_ops plain_env) waiting_blk (reg_addr waiting_blk 0x13C) 7 4 True = Wild \<and>
   (\<exists>s'. virtio_mmio_modern_callback plain_env (blk_dev_virtio_ops plain_env) waiting_blk (reg_addr waiting_blk 0x138) 7 4 True = Done (7, s'))"
  using config_access_in_bounds [where off = "0x13C" and len = 4 and cb = virtio_mmio_modern_callback and n = 64
      and s = waiting_blk and e = plain_env and v = 7 and is_write = True]
    config_access_in_bounds [where off = "0x138" and len = 4 and cb = virtio_mmio_modern_callback and n = 60
      and s = waiting_blk and e = plain_env and v = 7]
  by (simp add: c_simps waiting_blk_def) blast

theorem event_idx_tests_wrong_bits_witness:
  "\<exists>vq g. virtio_init_device_vq plain_env (vdev waiting_blk) (gmap waiting_blk) zero_vq 256 = Done (vq, g) \<and> use_event_idx vq"
proof -
  have "\<exists>vq g. virtio_init_device_vq plain_env (vdev waiting_blk) (gmap waiting_blk) zero_vq 256 = Done (vq, g)"
  proof -
    have "(case virtio_init_device_vq plain_env (vdev waiting_blk) (gmap waiting_blk) zero_vq 256 of Done r \<Rightarrow> True | _ \<Rightarrow> False)"
      by code_simp
    then show ?thesis by (auto split: run.splits)
  qed
  then obtain vq g where r: "virtio_init_device_vq plain_env (vdev waiting_blk) (gmap waiting_blk) zero_vq 256 = Done (vq, g)"
    by blast
  have "bit (vd_features (vdev waiting_blk)) 2" by (simp add: waiting_blk_def)
  then show ?thesis using event_idx_tests_wrong_bits [OF r] r by auto
qed

theorem status_zero_resets_witness:
  "\<exists>s'. virtio_mmio_modern_callback plain_env (blk_dev_virtio_ops plain_env) waiting_blk
       (reg_addr waiting_blk VIRTIO_MMIO_STATUS) 0 4 True = Done (0, s') \<and>
     vqs (dev s') = [zero_vq] \<and> threads (dev s') ! 0 = TExit"
proof -
  have "io_alive plain_env waiting_blk 0 0"
    by (simp add: io_alive_def waiting_blk_def plain_env_def queue_def live_queue_def)
  moreover have "vqs (dev waiting_blk) = [live_queue]" "vq_enabled live_queue"
    "vd_status (vdev waiting_blk) AND VIRTIO__STATUS_START \<noteq> 0"
    by (simp_all add: waiting_blk_def live_queue_def c_simps)
  ultimately show ?thesis using status_zero_resets by blast
qed

end
