(* ===== verification/BringUp.thy ===== *)
theory BringUp
  imports Service Registers
begin

text \<open>
  How a driver brings up the queue of a block device through the registers of virtio 1.x, and what it then has: a
  queue on its rings, and a thread in \<open>read\<close> that serves it.
\<close>

subsection \<open>Addresses in two halves\<close>

lemma modern_addr_halves: "modern_addr (ucast (drop_bit 32 x)) (ucast x) = (x :: u64)"
proof -
  have "push_bit 32 (ucast (ucast (drop_bit 32 x) :: u32)) OR ucast (ucast x :: u32) = x"
    by (rule bit_word_eqI) (auto simp: bit_or_iff bit_push_bit_iff bit_ucast_iff bit_drop_bit_eq)
  then show ?thesis by (simp add: modern_addr_def)
qed

subsection \<open>Writes to the registers\<close>

fun reg_writes :: "env \<Rightarrow> (u32 \<times> u64) list \<Rightarrow> blk \<Rightarrow> blk run" where
  "reg_writes e [] s = Done s"
| "reg_writes e ((r, v) # ws) s =
     bind_run (virtio_mmio_modern_callback e (blk_dev_virtio_ops e) s (reg_addr s r) v 4 True) (\<lambda>(_, s'). reg_writes e ws s')"

text \<open>What the driver writes: it selects the queue, sets its size and its rings, and makes it ready.\<close>

definition ring_writes :: "u64 \<Rightarrow> u64 \<Rightarrow> u64 \<Rightarrow> (u32 \<times> u64) list" where
  "ring_writes d a u =
     [(VIRTIO_MMIO_QUEUE_DESC_LOW, d AND mask 32), (VIRTIO_MMIO_QUEUE_DESC_HIGH, drop_bit 32 d),
      (VIRTIO_MMIO_QUEUE_AVAIL_LOW, a AND mask 32), (VIRTIO_MMIO_QUEUE_AVAIL_HIGH, drop_bit 32 a),
      (VIRTIO_MMIO_QUEUE_USED_LOW, u AND mask 32), (VIRTIO_MMIO_QUEUE_USED_HIGH, drop_bit 32 u)]"

definition queue_writes :: "u64 \<Rightarrow> u64 \<Rightarrow> u64 \<Rightarrow> u64 \<Rightarrow> (u32 \<times> u64) list" where
  "queue_writes k d a u =
     [(VIRTIO_MMIO_QUEUE_SEL, 0), (VIRTIO_MMIO_QUEUE_NUM, k)] @ ring_writes d a u @ [(VIRTIO_MMIO_QUEUE_READY, 1)]"

text \<open>The one queue of the device, and whether it is selected.\<close>

definition selected :: "blk \<Rightarrow> bool" where
  "selected s \<longleftrightarrow> (\<exists>q. vqs (dev s) = [q]) \<and> hdr_get s (reg VIRTIO_MMIO_QUEUE_SEL) = 0"

lemma selected_upd [simp]:
  "selected (s\<lparr>dev := (dev s)\<lparr>vqs := [q]\<rparr>\<rparr>) \<longleftrightarrow> hdr_get s (reg VIRTIO_MMIO_QUEUE_SEL) = 0"
  "hdr_get (s\<lparr>dev := x\<rparr>) i = hdr_get s i"
  by (simp_all add: selected_def hdr_get_def)

lemma ring_field_write:
  assumes "selected s" and "r \<in> set queue_regs"
  shows "virtio_mmio_modern_callback e (blk_dev_virtio_ops e) s (reg_addr s r) v 4 True =
    Done (v, s\<lparr>dev := (dev s)\<lparr>vqs := [(queue (dev s))\<lparr>vq_addr := set_field r (ucast v) (vq_addr (queue (dev s)))\<rparr>]\<rparr>\<rparr>)"
  using assms queue_reg_small [OF assms(2)]
  by (auto simp: virtio_mmio_modern_callback_def Let_def queue_reg_write upd_vq_addr_def sel_vq_def set_vq_def selected_def
      blk_dev_virtio_ops_def blk_get_vq_def blk_put_vq_def queue_def)

lemma ring_regs:
  "VIRTIO_MMIO_QUEUE_DESC_LOW \<in> set queue_regs" "VIRTIO_MMIO_QUEUE_DESC_HIGH \<in> set queue_regs"
  "VIRTIO_MMIO_QUEUE_USED_LOW \<in> set queue_regs" "VIRTIO_MMIO_QUEUE_USED_HIGH \<in> set queue_regs"
  "VIRTIO_MMIO_QUEUE_AVAIL_LOW \<in> set queue_regs" "VIRTIO_MMIO_QUEUE_AVAIL_HIGH \<in> set queue_regs"
  by (simp_all add: queue_regs_def)

lemma ring_fields:
  "set_field VIRTIO_MMIO_QUEUE_DESC_LOW v x = x\<lparr>desc_lo := v\<rparr>" "set_field VIRTIO_MMIO_QUEUE_DESC_HIGH v x = x\<lparr>desc_hi := v\<rparr>"
  "set_field VIRTIO_MMIO_QUEUE_USED_LOW v x = x\<lparr>used_lo := v\<rparr>" "set_field VIRTIO_MMIO_QUEUE_USED_HIGH v x = x\<lparr>used_hi := v\<rparr>"
  "set_field VIRTIO_MMIO_QUEUE_AVAIL_LOW v x = x\<lparr>avail_lo := v\<rparr>" "set_field VIRTIO_MMIO_QUEUE_AVAIL_HIGH v x = x\<lparr>avail_hi := v\<rparr>"
  by (simp_all add: set_field_def c_simps)

lemma low_half: "ucast (x AND mask 32 :: u64) = (ucast x :: u32)"
  by (rule bit_word_eqI) (simp add: bit_ucast_iff bit_and_iff bit_mask_iff)

lemma ring_writes_result:
  assumes "selected s"
  shows "reg_writes e (ring_writes d a u @ ws) s =
    reg_writes e ws (s\<lparr>dev := (dev s)\<lparr>vqs := [(queue (dev s))\<lparr>vq_addr := (vq_addr (queue (dev s)))\<lparr>desc_lo := ucast d,
      desc_hi := ucast (drop_bit 32 d), avail_lo := ucast a, avail_hi := ucast (drop_bit 32 a), used_lo := ucast u,
      used_hi := ucast (drop_bit 32 u)\<rparr>\<rparr>]\<rparr>\<rparr>)"
proof -
  have s: "hdr_get s (reg VIRTIO_MMIO_QUEUE_SEL) = 0" using assms by (simp add: selected_def)
  have q: "queue (x\<lparr>vqs := [q]\<rparr>) = q" for x q by (simp add: queue_def)
  show ?thesis
    by (simp add: ring_writes_def ring_field_write assms ring_regs ring_fields s q low_half)
qed

text \<open>Making the queue ready maps its rings, makes the event descriptor and starts the thread.\<close>

lemma map_detected:
  assumes "can_map ok (demu_detect_mappings_model g x) y n"
    and "g' = g \<and> y = x \<or> 0 \<le> use_gnttab g' \<and> use_gnttab g' = use_gnttab (demu_detect_mappings_model g x)"
  shows "\<exists>g''. demu_map_guest_range ok g' y n = Done (Some y, g'') \<and> mappings g'' = page_entry y n # mappings g' \<and>
    use_gnttab g'' = use_gnttab (demu_detect_mappings_model g x) \<and> 0 \<le> use_gnttab g''"
  using assms
  by (auto simp: can_map_def demu_map_guest_range_def demu_detect_mappings_model_def Let_def page_entry_def page_split
      split: if_splits)

definition ring_pages :: "env \<Rightarrow> u64 \<Rightarrow> u64 \<Rightarrow> u64 \<Rightarrow> (u64 \<times> u32) multiset" where
  "ring_pages e d a u = {#page_entry d (host_page e), page_entry a (host_page e), page_entry u (host_page e)#}"

lemma init_device_vq_modern:
  assumes "vq_addr q = \<lparr>va_legacy = False, desc_lo = ucast d, desc_hi = ucast (drop_bit 32 d), avail_lo = ucast a,
      avail_hi = ucast (drop_bit 32 a), used_lo = ucast u, used_hi = ucast (drop_bit 32 u)\<rparr>"
    and m: "\<forall>x\<in>{d, a, u}. can_map (map_ok e) (demu_detect_mappings_model g d) x (host_page e)"
  shows "\<exists>g'. virtio_init_device_vq e vd g q n =
      Done (q\<lparr>vq_endian := vd_endian vd, use_event_idx := uses_event_idx (vd_features vd), vq_enabled := True,
        vr_num := n, vr_desc := Some d, vr_avail := Some a, vr_used := Some u\<rparr>, g') \<and>
    mset (mappings g') = ring_pages e d a u + mset (mappings g) \<and> 0 \<le> use_gnttab g'"
proof -
  let ?md = "use_gnttab (demu_detect_mappings_model g d)"
  obtain g1 where g1: "demu_map_guest_range (map_ok e) g d (host_page e) = Done (Some d, g1)"
      "mappings g1 = page_entry d (host_page e) # mappings g" "use_gnttab g1 = ?md" "0 \<le> use_gnttab g1"
    using map_detected [of "map_ok e" g d d "host_page e" g] m by auto
  obtain g2 where g2: "demu_map_guest_range (map_ok e) g1 u (host_page e) = Done (Some u, g2)"
      "mappings g2 = page_entry u (host_page e) # mappings g1" "use_gnttab g2 = ?md" "0 \<le> use_gnttab g2"
    using map_detected [of "map_ok e" g d u "host_page e" g1] m g1(2-4) by auto
  obtain g3 where g3: "demu_map_guest_range (map_ok e) g2 a (host_page e) = Done (Some a, g3)"
      "mappings g3 = page_entry a (host_page e) # mappings g2" "0 \<le> use_gnttab g3"
    using map_detected [of "map_ok e" g d a "host_page e" g2] m g2(2-4) g1(2) by auto
  show ?thesis
    using g1(1,2) g2(1,2) g3
    by (simp add: virtio_init_device_vq_def assms(1) Let_def modern_addr_halves ring_pages_def)
qed

lemma ready_write:
  assumes "selected s" and "virtio_init_device_vq e (vdev s) (gmap s) (queue (dev s)) (of_nat VIRTIO_BLK_QUEUE_SIZE) = Done (q, g)"
    and "efd_ok e" and "thread_ok e"
  shows "virtio_mmio_modern_callback e (blk_dev_virtio_ops e) s (reg_addr s VIRTIO_MMIO_QUEUE_READY) 1 4 True =
    Done (1, s\<lparr>gmap := g, dev := (dev s)\<lparr>vqs := [q], reqs := replicate VIRTIO_BLK_QUEUE_SIZE zero_req,
      io_efd := Some (length (efds (dev s))), efds := efds (dev s) @ [Some 0], io_done := False,
      io_thread := Some (length (threads (dev s))), threads := threads (dev s) @ [TCheck]\<rparr>\<rparr>)"
proof -
  obtain q0 where q0: "vqs (dev s) = [q0]" "hdr_get s (reg VIRTIO_MMIO_QUEUE_SEL) = 0"
    using assms(1) by (auto simp: selected_def)
  have r: "\<not> VIRTIO_MMIO_CONFIG \<le> VIRTIO_MMIO_QUEUE_READY" by (simp add: c_simps)
  have o: "modern_config_out e (blk_dev_virtio_ops e) s VIRTIO_MMIO_QUEUE_READY 1 =
      bind_run (blk_init_vq e s 0) (\<lambda>(r, s'). Done s')"
    by (simp add: modern_config_out_def Let_def c_simps virtio_mmio_init_vq_def blk_dev_virtio_ops_def q0(2) [unfolded c_simps, simplified])
  show ?thesis
    using assms(2-4) q0(1) r o
    by (simp add: virtio_mmio_modern_callback_def Let_def blk_init_vq_def blk_get_vq_def blk_put_vq_def queue_def)
qed

subsection \<open>Properties\<close>

lemma hdr_set_other [simp]:
  "vdev (hdr_set i v s) = vdev s" "gmap (hdr_set i v s) = gmap s" "dev (hdr_set i v s) = dev s" "ram (hdr_set i v s) = ram s"
  by (simp_all add: hdr_set_def)

text \<open>
  C3: A driver that selects the queue of a block device, writes the addresses of its rings in two halves each, and makes
  it ready, has a device that serves: the queue is on these rings with 256 elements, whatever size was written, their
  pages are mapped, and the thread that was started comes to \<open>read\<close> and sleeps until it is notified.  Memory and disk
  are as before.  So the state is one in which a notification is served (\<open>serving\<close> and \<open>in_read\<close>).  The device is
  fresh and its image a raw file, a block device or a private mapping, served synchronously (\<open>byte_store\<close>); the host
  maps the three pages (\<open>can_map\<close>) and gives an event descriptor and a thread; and the driver's available and used rings do
  not overlap.
\<close>

theorem queue_brought_up:
  assumes "vqs (dev s) = [zero_vq]" and "length (hdr (vmmio s)) = 42" and "t = length (threads (dev s))"
    and "\<forall>x\<in>{d, a, u}. can_map (map_ok e) (demu_detect_mappings_model (gmap s) d) x (host_page e)"
    and "efd_ok e" and "thread_ok e" and "byte_store (disk (dev s))"
    and "disjoint a (avail_bytes 256) u (used_bytes 256)"
  shows "\<exists>s1 s2. reg_writes e (queue_writes k d a u) s = Done s1 \<and> virtio_blk_thread e t s1 = Some (Done s2) \<and>
    serving d a u 256 s2 \<and> last_avail_idx (queue (dev s2)) = 0 \<and> in_read t 0 s2 \<and> virtio_blk_thread e t s2 = None \<and>
    ram s2 = ram s \<and> disk (dev s2) = disk (dev s) \<and>
    mset (mappings (gmap s2)) = ring_pages e d a u + mset (mappings (gmap s))"
proof -
  define s0 where "s0 = hdr_set (reg VIRTIO_MMIO_QUEUE_NUM) (ucast k) (hdr_set (reg VIRTIO_MMIO_QUEUE_SEL) 0 s)"
  have h: "hdr_get s0 (reg VIRTIO_MMIO_QUEUE_SEL) = 0"
    using assms(2) by (simp add: s0_def hdr_get_def hdr_set_def c_simps)
  have s0: "selected s0" "queue (dev s0) = zero_vq" "dev s0 = dev s" "gmap s0 = gmap s" "ram s0 = ram s"
    using assms(1) h by (simp_all add: selected_def s0_def queue_def)
  have w: "reg_writes e (queue_writes k d a u) s = reg_writes e (ring_writes d a u @ [(VIRTIO_MMIO_QUEUE_READY, 1)]) s0"
    by (simp add: queue_writes_def virtio_mmio_modern_callback_def modern_config_out_def Let_def c_simps s0_def
        blk_dev_virtio_ops_def)
  let ?q = "zero_vq\<lparr>vq_addr := (vq_addr zero_vq)\<lparr>desc_lo := ucast d, desc_hi := ucast (drop_bit 32 d), avail_lo := ucast a,
      avail_hi := ucast (drop_bit 32 a), used_lo := ucast u, used_hi := ucast (drop_bit 32 u)\<rparr>\<rparr>"
  let ?s = "s0\<lparr>dev := (dev s0)\<lparr>vqs := [?q]\<rparr>\<rparr>"
  have q: "vq_addr ?q = \<lparr>va_legacy = False, desc_lo = ucast d, desc_hi = ucast (drop_bit 32 d), avail_lo = ucast a,
      avail_hi = ucast (drop_bit 32 a), used_lo = ucast u, used_hi = ucast (drop_bit 32 u)\<rparr>"
    by (simp add: zero_vq_def zero_vring_addr_def)
  have qs: "queue (dev ?s) = ?q" "selected ?s" using h by (simp_all add: queue_def)
  obtain q' g' where v: "virtio_init_device_vq e (vdev ?s) (gmap ?s) (queue (dev ?s)) (of_nat VIRTIO_BLK_QUEUE_SIZE) = Done (q', g')"
      and q': "vr_num q' = 256" "vr_desc q' = Some d" "vr_avail q' = Some a" "vr_used q' = Some u" "last_avail_idx q' = 0"
      and g': "mset (mappings g') = ring_pages e d a u + mset (mappings (gmap s))" "0 \<le> use_gnttab g'"
    using init_device_vq_modern [OF q, where e = e and g = "gmap s" and vd = "vdev ?s" and n = "of_nat VIRTIO_BLK_QUEUE_SIZE"] assms(4)
    unfolding qs(1) by (auto simp: s0(4) zero_vq_def c_simps)
  let ?s1 = "?s\<lparr>gmap := g', dev := (dev ?s)\<lparr>vqs := [q'], reqs := replicate VIRTIO_BLK_QUEUE_SIZE zero_req,
      io_efd := Some (length (efds (dev s))), efds := efds (dev s) @ [Some 0], io_done := False,
      io_thread := Some t, threads := threads (dev s) @ [TCheck]\<rparr>\<rparr>"
  have "reg_writes e (queue_writes k d a u) s = Done ?s1"
    unfolding w ring_writes_result [OF s0(1)] s0(2)
    using ready_write [OF qs(2) v assms(5,6)] s0(3) assms(3) by simp
  moreover let ?s2 = "set_pc t (TRead (Some (length (efds (dev s))))) ?s1"
  have "virtio_blk_thread e t ?s1 = Some (Done ?s2)" "in_read t 0 ?s2"
    using thread_sleeps_again(1) [of ?s1 t "length (efds (dev s))" e]
      thread_sleeps_again(2) [of ?s1 t "length (efds (dev s))"] assms(3) by (simp_all add: nth_append)
  moreover have "serving d a u 256 ?s2"
    using q' g'(2) assms(7,8) s0(3) by (simp add: serving_def Let_def set_pc_def queue_def)
  moreover have "last_avail_idx (queue (dev ?s2)) = 0" "ram ?s2 = ram s" "disk (dev ?s2) = disk (dev s)"
    "mset (mappings (gmap ?s2)) = ring_pages e d a u + mset (mappings (gmap s))"
    using q'(5) g'(1) s0(3,5) by (simp_all add: set_pc_def queue_def)
  ultimately show ?thesis using in_read_sleeps by blast
qed

text \<open>A device as \<open>virtio_blk__init_one\<close> leaves it, and rings of which one address needs both halves.\<close>

definition fresh_blk :: blk where
  "fresh_blk = (sample_blk 0 sample_disk)\<lparr>gmap := \<lparr>use_gnttab = -1, mappings = []\<rparr>,
     vmmio := \<lparr>vm_addr = 0x2000000, vm_irq = 33, hdr = initial_hdr False 2\<rparr>, dev := new_blk_dev sample_env sample_disk\<rparr>"

theorem queue_brought_up_witness:
  "\<exists>s1 s2. reg_writes sample_env (queue_writes 128 0x123456000 0x2000 0x3000) fresh_blk = Done s1 \<and>
    virtio_blk_thread sample_env 0 s1 = Some (Done s2) \<and> vr_num (queue (dev s2)) = 256 \<and>
    vr_desc (queue (dev s2)) = Some 0x123456000 \<and> in_read 0 0 s2 \<and>
    mset (mappings (gmap s2)) = {#(0x123456000, 1), (0x2000, 1), (0x3000, 1)#}"
proof -
  have f: "vqs (dev fresh_blk) = [zero_vq]" "length (hdr (vmmio fresh_blk)) = 42" "0 = length (threads (dev fresh_blk))"
    "byte_store (disk (dev fresh_blk))" "gmap fresh_blk = \<lparr>use_gnttab = -1, mappings = []\<rparr>" "efd_ok sample_env" "thread_ok sample_env"
    by (simp_all add: fresh_blk_def new_blk_dev_def initial_hdr_def zero_hdr_def byte_store_def sample_disk_def sample_env_def)
  have m: "\<forall>x\<in>{0x123456000, 0x2000, 0x3000}. can_map (map_ok sample_env)
      (demu_detect_mappings_model (gmap fresh_blk) 0x123456000) x (host_page sample_env)"
    unfolding f by code_simp
  have d: "disjoint 0x2000 (avail_bytes 256) 0x3000 (used_bytes 256)" by (simp add: disjoint_def avail_bytes_def used_bytes_def)
  have p: "ring_pages sample_env 0x123456000 0x2000 0x3000 = {#(0x123456000, 1), (0x2000, 1), (0x3000, 1)#}"
  proof -
    have "page_entry x (host_page sample_env) = (x, 1)" if "x \<in> {0x123456000, 0x2000, 0x3000}" for x
      using that by (elim insertE emptyE; hypsubst; code_simp)
    then show ?thesis by (simp add: ring_pages_def)
  qed
  show ?thesis
    using queue_brought_up [OF f(1-3) m f(6,7,4) d, of 128] f(5) p by (auto simp: serving_def Let_def)
qed

end
