(* ===== verification/Wakeup.thy ===== *)
theory Wakeup
  imports UsedRing "HOL-Library.Sublist"
begin

text \<open>
  How the I/O thread of a block device learns of new requests (\<^verbatim>\<open>virtio/blk.c\<close>, \<^verbatim>\<open>include/kvm/virtio.h\<close>), access by
  access: the thread sleeps in \<open>read\<close> of the event descriptor, and with event indices the driver writes to the
  descriptor only when the index the thread has published asks for it.  The accesses of the two to the rings
  happen in any order.  That no request is missed rests on the order of the accesses of each.
\<close>

subsection \<open>The thread and the driver\<close>

text \<open>
  Where the thread is: in \<open>read\<close>, before the event index is written in \<open>virt_queue__available\<close>, before the index of
  the available ring is read, or before \<open>virt_queue__pop\<close> with a request at hand.  What it does with the request, and
  how it ends when \<open>io_done\<close> is set, is left out here: it does not touch the words that are looked at.
\<close>

datatype taker = Reads_efd | Sets_event | Looks_at_idx | Takes_head

text \<open>The driver is not part of the program; it does what the specification of virtio asks of it.\<close>

datatype driver = Free | Filled u16 | Kicks

text \<open>
  \<open>wk_added\<close> is the driver's count of entries since it last looked whether to notify.  \<open>wk_posted\<close> and \<open>wk_taken\<close>
  belong to neither: the heads made available and those taken, in order.
\<close>

record wake =
  wk_mem :: mem
  wk_vq :: virt_queue
  wk_count :: u64
  wk_thread :: taker
  wk_driver :: driver
  wk_added :: nat
  wk_posted :: "u16 list"
  wk_taken :: "u16 list"

definition take_step :: "u64 \<Rightarrow> u64 \<Rightarrow> wake \<Rightarrow> wake option" where
  "take_step a u s =
     (let q = wk_vq s; m = wk_mem s
      in case wk_thread s of
           Reads_efd \<Rightarrow> if wk_count s = 0 then None else Some (s\<lparr>wk_count := 0, wk_thread := Sets_event\<rparr>)
         | Sets_event \<Rightarrow>
             Some (s\<lparr>wk_mem := (if use_event_idx q then st16 m (used_elem_at u (vr_num q)) (last_avail_idx q) else m),
               wk_thread := Looks_at_idx\<rparr>)
         | Looks_at_idx \<Rightarrow>
             Some (s\<lparr>wk_thread := (if ld16 m (a + 2) \<noteq> last_avail_idx q then Takes_head else Reads_efd)\<rparr>)
         | Takes_head \<Rightarrow>
             (case virt_queue__pop m q of
                Done (h, q') \<Rightarrow> Some (s\<lparr>wk_vq := q', wk_taken := wk_taken s @ [h], wk_thread := Sets_event\<rparr>)
              | _ \<Rightarrow> None))"

text \<open>
  The driver publishes an entry it has filled, or looks whether to notify, or notifies: it writes to the register,
  and the program adds to the counter of the descriptor, for which it waits while the counter is full.
\<close>

definition drive_step :: "vring_abi \<Rightarrow> u64 \<Rightarrow> u64 \<Rightarrow> wake \<Rightarrow> wake option" where
  "drive_step abi a u s =
     (let q = wk_vq s; m = wk_mem s; new = ld16 m (a + 2)
      in case wk_driver s of
           Filled h \<Rightarrow>
             Some (s\<lparr>wk_mem := st16 m (a + 2) (new + 1), wk_added := wk_added s + 1, wk_posted := wk_posted s @ [h],
               wk_driver := Free\<rparr>)
         | Free \<Rightarrow>
             Some (s\<lparr>wk_added := 0,
               wk_driver := (if use_event_idx q \<longrightarrow>
                 vring_need_event abi (ld16 m (used_elem_at u (vr_num q))) new (new - of_nat (wk_added s))
                 then Kicks else Free)\<rparr>)
         | Kicks \<Rightarrow>
             if wk_count s \<ge> 0xFFFFFFFFFFFFFFFE then None
             else Some (s\<lparr>wk_count := wk_count s + 1, wk_driver := Free\<rparr>))"

text \<open>
  The driver fills an entry behind those made available, when there is one left and it need not look first; and
  the rest of memory changes.
\<close>

datatype wake_act = Takes | Drives | Fills u16 | Elsewhere u64 "u8 list"

fun wake_do :: "vring_abi \<Rightarrow> u64 \<Rightarrow> u64 \<Rightarrow> wake_act \<Rightarrow> wake \<Rightarrow> wake option" where
  "wake_do abi a u Takes s = take_step a u s"
| "wake_do abi a u Drives s = drive_step abi a u s"
| "wake_do abi a u (Fills h) s =
     (let n = vr_num (wk_vq s)
      in if wk_driver s = Free \<and> length (wk_posted s) < length (wk_taken s) + unat n \<and> wk_added s < 2 ^ 16 - 1
         then Some (s\<lparr>wk_mem := st16 (wk_mem s) (avail_ring_at a (ucast (ld16 (wk_mem s) (a + 2)) mod n)) h,
                wk_driver := Filled h\<rparr>)
         else None)"
| "wake_do abi a u (Elsewhere b bs) s =
     (let n = vr_num (wk_vq s)
      in if disjoint a (4 + 2 * unat n) b (length bs) \<and> disjoint (used_elem_at u n) 2 b (length bs)
         then Some (s\<lparr>wk_mem := stn (wk_mem s) b bs\<rparr>) else None)"

fun wake_run :: "vring_abi \<Rightarrow> u64 \<Rightarrow> u64 \<Rightarrow> wake_act list \<Rightarrow> wake \<Rightarrow> wake option" where
  "wake_run abi a u [] s = Some s"
| "wake_run abi a u (x # xs) s = (case wake_do abi a u x s of None \<Rightarrow> None | Some s' \<Rightarrow> wake_run abi a u xs s')"

definition wake_start :: "mem \<Rightarrow> virt_queue \<Rightarrow> wake" where
  "wake_start m q = \<lparr>wk_mem = m, wk_vq = q, wk_count = 0, wk_thread = Reads_efd, wk_driver = Free, wk_added = 0,
     wk_posted = [], wk_taken = []\<rparr>"

text \<open>The thread alone: its steps are \<open>virt_queue__available\<close> and \<open>virt_queue__pop\<close>.\<close>

lemma two_steps_available:
  assumes "vr_avail (wk_vq s) = Some a" and "vr_used (wk_vq s) = Some u" and "wk_thread s = Sets_event"
    and "virt_queue__available (wk_mem s) (wk_vq s) = Done (b, m)"
  shows "wake_run abi a u [Takes, Takes] s =
    Some (s\<lparr>wk_mem := m, wk_thread := (if b then Takes_head else Reads_efd)\<rparr>)"
  using assms by (auto simp: take_step_def virt_queue__available_def Let_def)

subsection \<open>Words of the available ring\<close>

lemma entry_word: "avail_entry m a n i = ld16 m (a + of_nat (4 + 2 * slot_of_idx n i))"
  unfolding avail_entry_def avail_ring_off slot_of_idx_def ..

lemma entries_apart:
  assumes "s < 2 ^ 32" "t < 2 ^ 32" and "s \<noteq> t"
  shows "disjoint (a + of_nat (4 + 2 * t)) 2 (a + of_nat (4 + 2 * s)) 2"
proof -
  have "4 + 2 * s + 2 \<le> 4 + 2 * t \<or> 4 + 2 * t + 2 \<le> 4 + 2 * s" using assms(3) by linarith
  moreover have "4 + 2 * t + 2 \<le> (2 :: nat) ^ 64" "4 + 2 * s + 2 \<le> (2 :: nat) ^ 64" using assms(1,2) by auto
  ultimately show ?thesis
    using disjoint_same_base [of "4 + 2 * t" 2 "4 + 2 * s" 2 a]
      disjoint_sym [OF disjoint_same_base [of "4 + 2 * s" 2 "4 + 2 * t" 2 a]]
    by (elim disjE) (simp_all del: of_nat_add of_nat_mult)
qed

lemma avail_idx_word_apart: "t < 2 ^ 32 \<Longrightarrow> disjoint (a + 2) 2 (a + of_nat (4 + 2 * t)) 2"
  using disjoint_same_base [of 2 2 "4 + 2 * t" 2 a] by simp

lemma fill_entry:
  assumes "s < 2 ^ 32" "t < 2 ^ 32"
  shows "ld16 (st16 m (a + of_nat (4 + 2 * s)) h) (a + of_nat (4 + 2 * t)) =
      (if s = t then h else ld16 m (a + of_nat (4 + 2 * t)))"
    and "ld16 (st16 m (a + of_nat (4 + 2 * s)) h) (a + 2) = ld16 m (a + 2)"
    and "ld16 (st16 m (a + 2) i) (a + of_nat (4 + 2 * t)) = ld16 m (a + of_nat (4 + 2 * t))"
  using entries_apart [OF assms, of a] avail_idx_word_apart [OF assms(1), of a]
    disjoint_sym [OF avail_idx_word_apart [OF assms(2), of a]]
  by (auto simp: mem_simps simp del: of_nat_add of_nat_mult)

text \<open>A write outside the words of the ring.\<close>

lemma ring_word_kept:
  assumes "disjoint a (4 + 2 * unat n) b (length bs)" and "2 \<le> j" "j + 2 \<le> 4 + 2 * unat n"
  shows "ld16 (stn m b bs) (a + of_nat j) = ld16 m (a + of_nat j)"
proof (cases "bs = []")
  case False
  then have "disjoint (a + of_nat j) 2 (b + of_nat 0) (length bs)"
    using assms by (intro disjoint_sub [OF assms(1)]) simp_all
  then show ?thesis by (simp add: mem_simps del: of_nat_add of_nat_mult)
qed simp

subsection \<open>The invariant\<close>

text \<open>While the driver fills an entry, it is the one behind those made available, and there is room for it.\<close>

fun next_filled :: "driver \<Rightarrow> u16 \<Rightarrow> bool \<Rightarrow> bool" where
  "next_filled (Filled h) e room \<longleftrightarrow> e = h \<and> room"
| "next_filled _ e room \<longleftrightarrow> True"

definition wake_inv :: "u64 \<Rightarrow> u64 \<Rightarrow> u32 \<Rightarrow> u16 \<Rightarrow> wake \<Rightarrow> bool" where
  "wake_inv a u n i0 s \<longleftrightarrow>
     (let q = wk_vq s; m = wk_mem s; p = length (wk_posted s); t = length (wk_taken s)
      in vr_avail q = Some a \<and> vr_num q = n \<and> wk_added s \<le> p \<and> wk_added s < 2 ^ 16 \<and> t \<le> p \<and> p \<le> t + unat n \<and>
         ld16 m (a + 2) = i0 + of_nat p \<and> last_avail_idx q = i0 + of_nat t \<and> prefix (wk_taken s) (wk_posted s) \<and>
         (\<forall>k. t \<le> k \<and> k < p \<longrightarrow> avail_entry m a n (i0 + of_nat k) = wk_posted s ! k) \<and>
         next_filled (wk_driver s) (avail_entry m a n (i0 + of_nat p)) (p < t + unat n \<and> wk_added s < 2 ^ 16 - 1) \<and>
         (wk_thread s = Takes_head \<longrightarrow> t < p) \<and>
         (use_event_idx q \<and> wk_thread s \<in> {Looks_at_idx, Reads_efd} \<longrightarrow>
            ld16 m (used_elem_at u n) = last_avail_idx q) \<and>
         (wk_thread s = Reads_efd \<and> wk_count s = 0 \<and> wk_driver s \<noteq> Kicks \<longrightarrow> p \<le> t + wk_added s))"

text \<open>The queue's part of the invariant: what the words of the ring say.\<close>

lemma idx_differs:
  assumes "t \<le> p" and "p \<le> t + unat n" and "unat n < 2 ^ 16"
  shows "(i0 :: u16) + of_nat p \<noteq> i0 + of_nat t \<longleftrightarrow> t < p"
proof -
  obtain k where k: "p = t + k" using assms(1) le_Suc_ex by blast
  have "(of_nat k :: u16) = 0 \<longleftrightarrow> k = 0"
    using assms k dvd_imp_le [of "2 ^ 16" k] by (auto simp: word_of_nat_eq_0_iff)
  then show ?thesis by (simp add: k)
qed

lemma take_step_inv:
  assumes inv: "wake_inv a u n i0 s" and d: "unat n dvd 2 ^ 16" "unat n < 2 ^ 16"
    and r: "disjoint a (4 + 2 * unat n) (used_elem_at u n) 2" and step: "take_step a u s = Some s'"
  shows "wake_inv a u n i0 s'"
proof (cases "wk_thread s")
  case Reads_efd
  then show ?thesis using inv step by (auto simp: take_step_def wake_inv_def Let_def split: if_splits)
next
  case Sets_event
  have n: "vr_num (wk_vq s) = n" "0 < unat n" using inv d(1) by (auto simp: wake_inv_def Let_def unat_gt_0)
  define m where "m = (if use_event_idx (wk_vq s) then st16 (wk_mem s) (used_elem_at u n) (last_avail_idx (wk_vq s)) else wk_mem s)"
  have k: "ld16 m (a + of_nat j) = ld16 (wk_mem s) (a + of_nat j)" if "2 \<le> j" "j + 2 \<le> 4 + 2 * unat n" for j
    using ring_word_kept [OF _ that, of a "used_elem_at u n" "le_of_word 2 (last_avail_idx (wk_vq s))" "wk_mem s"] r
    by (simp add: m_def st16_def del: of_nat_add of_nat_mult)
  have i: "ld16 m (a + 2) = ld16 (wk_mem s) (a + 2)" using k [of 2] n(2) by simp
  have e: "avail_entry m a n i = avail_entry (wk_mem s) a n i" for i
    unfolding entry_word using slot_of_idx_less [OF d(1), of i] by (intro k) auto
  have x: "use_event_idx (wk_vq s) \<longrightarrow> ld16 m (used_elem_at u n) = last_avail_idx (wk_vq s)" by (simp add: m_def mem_simps)
  have s': "s' = s\<lparr>wk_mem := m, wk_thread := Looks_at_idx\<rparr>"
    using step Sets_event n(1) by (auto simp: take_step_def Let_def m_def)
  show ?thesis using inv i e x unfolding s' by (simp add: wake_inv_def Let_def)
next
  case Looks_at_idx
  have "ld16 (wk_mem s) (a + 2) \<noteq> last_avail_idx (wk_vq s) \<longleftrightarrow> length (wk_taken s) < length (wk_posted s)"
    using inv idx_differs [OF _ _ d(2), of "length (wk_taken s)" "length (wk_posted s)" i0]
    by (simp add: wake_inv_def Let_def)
  then have s': "s' = s\<lparr>wk_thread := (if length (wk_taken s) < length (wk_posted s) then Takes_head else Reads_efd)\<rparr>"
    using step Looks_at_idx by (auto simp: take_step_def Let_def)
  show ?thesis
    using inv Looks_at_idx unfolding s'
    by (cases "length (wk_taken s) < length (wk_posted s)") (auto simp: wake_inv_def Let_def)
next
  case Takes_head
  let ?t = "length (wk_taken s)"
  have n: "n \<noteq> 0" using d(1) by auto
  have q: "vr_avail (wk_vq s) = Some a" "vr_num (wk_vq s) = n" and t: "?t < length (wk_posted s)"
    and e: "avail_entry (wk_mem s) a n (i0 + of_nat ?t) = wk_posted s ! ?t" "last_avail_idx (wk_vq s) = i0 + of_nat ?t"
    using inv Takes_head by (auto simp: wake_inv_def Let_def)
  have pop: "virt_queue__pop (wk_mem s) (wk_vq s) =
      Done (wk_posted s ! ?t, (wk_vq s)\<lparr>last_avail_idx := i0 + of_nat (Suc ?t)\<rparr>)"
    using q n e by (simp add: virt_queue__pop_def avail_entry_def add.assoc add.commute)
  then have s': "s' = s\<lparr>wk_vq := (wk_vq s)\<lparr>last_avail_idx := i0 + of_nat (Suc ?t)\<rparr>,
      wk_taken := wk_taken s @ [wk_posted s ! ?t], wk_thread := Sets_event\<rparr>"
    using step Takes_head by (simp add: take_step_def Let_def)
  have "prefix (wk_taken s @ [wk_posted s ! ?t]) (wk_posted s)"
    using inv t append_one_prefix [of "wk_taken s" "wk_posted s"] by (auto simp: wake_inv_def Let_def prefix_def)
  then show ?thesis using inv t unfolding s' by (cases "wk_driver s") (auto simp: wake_inv_def Let_def)
qed

text \<open>When the driver finds the index in the entries it has added, it notifies.\<close>

lemma need_event_added:
  assumes "need_event_spec abi" and "t < p" "p \<le> t + c" and "c \<le> p" "c < 2 ^ 16"
  shows "vring_need_event abi (i0 + of_nat t) (i0 + of_nat p) (i0 + of_nat p - of_nat c)"
proof -
  define old where "old = i0 + of_nat p - (of_nat c :: u16)"
  have "unat (i0 + of_nat p - old) = c" using assms(5) by (simp add: old_def unat_of_nat)
  moreover have "i0 + of_nat t = old + of_nat (t + c - p)" using assms(3) by (simp add: old_def of_nat_diff)
  moreover have "t + c - p < c" using assms(2,3) by linarith
  ultimately show ?thesis
    using assms(1) unfolding need_event_spec_def event_window old_def [symmetric] by metis
qed

lemma drive_step_inv:
  assumes inv: "wake_inv a u n i0 s" and d: "unat n dvd 2 ^ 16" "unat n < 2 ^ 16" and ev: "need_event_spec abi"
    and r: "disjoint a (4 + 2 * unat n) (used_elem_at u n) 2" and step: "drive_step abi a u s = Some s'"
  shows "wake_inv a u n i0 s'"
proof (cases "wk_driver s")
  case (Filled h)
  let ?p = "length (wk_posted s)"
  define m where "m = st16 (wk_mem s) (a + 2) (ld16 (wk_mem s) (a + 2) + 1)"
  have s: "slot_of_idx n i < 2 ^ 32" for i using slot_of_idx_less [OF d(1), of i] by simp
  have e: "avail_entry m a n i = avail_entry (wk_mem s) a n i" for i
    unfolding entry_word m_def by (rule fill_entry(3) [OF s s])
  have "disjoint (used_elem_at u n + of_nat 0) 2 (a + of_nat 2) 2"
    by (rule disjoint_sub [OF disjoint_sym [OF r]]) simp_all
  then have x: "ld16 m (used_elem_at u n) = ld16 (wk_mem s) (used_elem_at u n)" by (simp add: m_def mem_simps)
  have i: "ld16 m (a + 2) = ld16 (wk_mem s) (a + 2) + 1" by (simp add: m_def mem_simps)
  have f: "avail_entry (wk_mem s) a n (i0 + of_nat ?p) = h" "?p < length (wk_taken s) + unat n" "wk_added s < 2 ^ 16 - 1"
    using inv Filled by (simp_all add: wake_inv_def Let_def)
  have s': "s' = s\<lparr>wk_mem := m, wk_added := wk_added s + 1, wk_posted := wk_posted s @ [h], wk_driver := Free\<rparr>"
    using step Filled by (simp add: drive_step_def Let_def m_def)
  have en: "avail_entry m a n (i0 + of_nat k) = (wk_posted s @ [h]) ! k"
    if "length (wk_taken s) \<le> k" "k < Suc ?p" for k
  proof (cases "k = ?p")
    case True
    then show ?thesis using f(1) by (simp add: e)
  next
    case False
    then have "avail_entry (wk_mem s) a n (i0 + of_nat k) = wk_posted s ! k" "k < ?p"
      using inv that by (simp_all add: wake_inv_def Let_def)
    then show ?thesis by (simp add: e nth_append)
  qed
  have "length (wk_taken s) \<le> ?p" "prefix (wk_taken s) (wk_posted s @ [h])"
    using inv by (auto simp: wake_inv_def Let_def)
  then show ?thesis
    using inv Filled x i f(2,3) en unfolding s' by (simp add: wake_inv_def Let_def add.assoc)
next
  case Kicks
  then have s': "s' = s\<lparr>wk_count := wk_count s + 1, wk_driver := Free\<rparr>" and full: "wk_count s < 0xFFFFFFFFFFFFFFFE"
    using step by (auto simp: drive_step_def Let_def split: if_splits)
  have "wk_count s + 1 \<noteq> 0"
  proof
    assume "wk_count s + 1 = 0"
    then have "wk_count s = 0xFFFFFFFFFFFFFFFF" by (simp add: add_eq_0_iff2)
    then show False using full by simp
  qed
  then show ?thesis using inv unfolding s' by (simp add: wake_inv_def Let_def)
next
  case Free
  let ?p = "length (wk_posted s)" and ?t = "length (wk_taken s)"
  define kick where "kick \<longleftrightarrow> (use_event_idx (wk_vq s) \<longrightarrow>
      vring_need_event abi (ld16 (wk_mem s) (used_elem_at u n)) (ld16 (wk_mem s) (a + 2))
        (ld16 (wk_mem s) (a + 2) - of_nat (wk_added s)))"
  have "vr_num (wk_vq s) = n" using inv by (simp add: wake_inv_def Let_def)
  then have s': "s' = s\<lparr>wk_added := 0, wk_driver := (if kick then Kicks else Free)\<rparr>"
    using step Free by (auto simp: drive_step_def Let_def kick_def)
  have "kick" if "wk_thread s = Reads_efd" "wk_count s = 0" "?t < ?p"
    using need_event_added [OF ev that(3), of "wk_added s" i0] inv that Free
    unfolding kick_def by (auto simp: wake_inv_def Let_def)
  then have "wk_thread s = Reads_efd \<Longrightarrow> wk_count s = 0 \<Longrightarrow> \<not> kick \<Longrightarrow> ?p \<le> ?t" by (meson not_le)
  then show ?thesis using inv unfolding s' by (cases kick) (simp_all add: wake_inv_def Let_def)
qed

lemma wake_do_inv:
  assumes inv: "wake_inv a u n i0 s" and d: "unat n dvd 2 ^ 16" "unat n < 2 ^ 16" and ev: "need_event_spec abi"
    and r: "disjoint a (4 + 2 * unat n) (used_elem_at u n) 2" and step: "wake_do abi a u x s = Some s'"
  shows "wake_inv a u n i0 s'"
proof (cases x)
  case Takes
  then show ?thesis using take_step_inv [OF inv d r] step by simp
next
  case Drives
  then show ?thesis using drive_step_inv [OF inv d ev r] step by simp
next
  case (Fills h)
  let ?p = "length (wk_posted s)" and ?t = "length (wk_taken s)"
  let ?m = "st16 (wk_mem s) (a + of_nat (4 + 2 * slot_of_idx n (i0 + of_nat ?p))) h"
  have n: "vr_num (wk_vq s) = n" "ld16 (wk_mem s) (a + 2) = i0 + of_nat ?p" using inv by (simp_all add: wake_inv_def Let_def)
  have room: "?p < ?t + unat n" "wk_driver s = Free" "wk_added s < 2 ^ 16 - 1"
    and s': "s' = s\<lparr>wk_mem := ?m, wk_driver := Filled h\<rparr>"
    using step Fills n by (auto simp: Let_def avail_ring_off slot_of_idx_def split: if_splits)
  have sl: "slot_of_idx n i < 2 ^ 32" for i using slot_of_idx_less [OF d(1), of i] by simp
  have w: "avail_entry ?m a n (i0 + of_nat k) = (if k = ?p then h else avail_entry (wk_mem s) a n (i0 + of_nat k))"
    if "?t \<le> k" "k \<le> ?p" for k
    using other_slot [OF d(1), of k ?p i0] that room(1)
    unfolding entry_word by (auto simp: fill_entry(1) [OF sl sl] simp del: of_nat_add of_nat_mult)
  have i: "ld16 ?m (a + 2) = ld16 (wk_mem s) (a + 2)" by (rule fill_entry(2) [OF sl sl])
  have "4 + 2 * slot_of_idx n (i0 + of_nat ?p) + 2 \<le> 4 + 2 * unat n"
    using slot_of_idx_less [OF d(1), of "i0 + of_nat ?p"] by simp
  then have "disjoint (used_elem_at u n + of_nat 0) 2 (a + of_nat (4 + 2 * slot_of_idx n (i0 + of_nat ?p))) 2"
    by (intro disjoint_sub [OF disjoint_sym [OF r]]) simp_all
  then have x: "ld16 ?m (used_elem_at u n) = ld16 (wk_mem s) (used_elem_at u n)"
    by (simp add: mem_simps del: of_nat_add of_nat_mult)
  have "avail_entry ?m a n (i0 + of_nat k) = wk_posted s ! k" if "?t \<le> k" "k < ?p" for k
    using w [of k] that inv by (simp add: wake_inv_def Let_def)
  moreover have "avail_entry ?m a n (i0 + of_nat ?p) = h" using w [of ?p] inv by (simp add: wake_inv_def Let_def)
  ultimately show ?thesis
    using inv room i x unfolding s' by (simp add: wake_inv_def Let_def del: of_nat_add of_nat_mult)
next
  case (Elsewhere b bs)
  have n: "vr_num (wk_vq s) = n" using inv by (simp add: wake_inv_def Let_def)
  have o: "disjoint a (4 + 2 * unat n) b (length bs)" "disjoint (used_elem_at u n) 2 b (length bs)"
    and s': "s' = s\<lparr>wk_mem := stn (wk_mem s) b bs\<rparr>"
    using step Elsewhere n by (auto simp: Let_def split: if_splits)
  have "n \<noteq> 0" using d(1) by auto
  then have "ld16 (stn (wk_mem s) b bs) (a + of_nat 2) = ld16 (wk_mem s) (a + of_nat 2)"
    by (intro ring_word_kept [OF o(1)]) (simp_all add: unat_gt_0)
  moreover have "avail_entry (stn (wk_mem s) b bs) a n i = avail_entry (wk_mem s) a n i" for i
    unfolding entry_word using slot_of_idx_less [OF d(1), of i] by (intro ring_word_kept [OF o(1)]) auto
  moreover have "ld16 (stn (wk_mem s) b bs) (used_elem_at u n) = ld16 (wk_mem s) (used_elem_at u n)"
    using o(2) by (simp add: mem_simps)
  ultimately show ?thesis using inv unfolding s' by (simp add: wake_inv_def Let_def)
qed

lemma wake_run_inv:
  assumes "wake_inv a u n i0 s" and "unat n dvd 2 ^ 16" "unat n < 2 ^ 16" and "need_event_spec abi"
    and "disjoint a (4 + 2 * unat n) (used_elem_at u n) 2" and "wake_run abi a u xs s = Some s'"
  shows "wake_inv a u n i0 s'"
  using assms(1,6)
proof (induction xs arbitrary: s)
  case (Cons x xs)
  then show ?case using wake_do_inv [OF Cons.prems(1) assms(2-5)] by (auto split: option.splits)
qed simp

lemma wake_start_inv:
  assumes "vr_avail q = Some a" and "vr_num q = n" and "ld16 m (a + 2) = last_avail_idx q"
    and "use_event_idx q \<longrightarrow> ld16 m (used_elem_at u n) = last_avail_idx q"
  shows "wake_inv a u n (last_avail_idx q) (wake_start m q)"
  using assms by (auto simp: wake_inv_def wake_start_def)

subsection \<open>The thread goes to sleep with everything taken\<close>

text \<open>The steps the thread can still make while the driver does nothing.\<close>

definition steps_left :: "wake \<Rightarrow> nat" where
  "steps_left s = 3 * (length (wk_posted s) - length (wk_taken s)) + (if wk_count s = 0 then 0 else 3) +
     (case wk_thread s of Sets_event \<Rightarrow> 2 | Looks_at_idx \<Rightarrow> 1 | _ \<Rightarrow> 0)"

lemma take_step_goes_on:
  assumes inv: "wake_inv a u n i0 s" and d: "unat n dvd 2 ^ 16"
    and "\<not> (wk_thread s = Reads_efd \<and> wk_count s = 0)"
  shows "\<exists>s'. take_step a u s = Some s' \<and> steps_left s' < steps_left s \<and> wk_posted s' = wk_posted s \<and>
    wk_driver s' = wk_driver s \<and> wk_added s' = wk_added s \<and> prefix (wk_taken s) (wk_taken s')"
proof (cases "wk_thread s")
  case Takes_head
  have "vr_avail (wk_vq s) = Some a" "vr_num (wk_vq s) \<noteq> 0" and t: "length (wk_taken s) < length (wk_posted s)"
    using inv Takes_head d by (auto simp: wake_inv_def Let_def)
  then obtain h q' where p: "virt_queue__pop (wk_mem s) (wk_vq s) = Done (h, q')" by (auto simp: virt_queue__pop_def)
  define s' where "s' = s\<lparr>wk_vq := q', wk_taken := wk_taken s @ [h], wk_thread := Sets_event\<rparr>"
  have "take_step a u s = Some s'" using Takes_head p by (simp add: take_step_def Let_def s'_def)
  moreover have "steps_left s' < steps_left s" using t Takes_head by (simp add: steps_left_def s'_def)
  ultimately show ?thesis by (intro exI [of _ s']) (simp add: s'_def)
next
  case Reads_efd
  then show ?thesis using assms(3) by (simp add: take_step_def Let_def steps_left_def)
next
  case Sets_event
  then show ?thesis by (simp add: take_step_def Let_def steps_left_def)
next
  case Looks_at_idx
  then show ?thesis by (simp add: take_step_def Let_def steps_left_def)
qed

lemma thread_alone:
  assumes "wake_inv a u n i0 s" and "unat n dvd 2 ^ 16" "unat n < 2 ^ 16"
    and r: "disjoint a (4 + 2 * unat n) (used_elem_at u n) 2"
  shows "\<exists>k s'. k \<le> steps_left s \<and> wake_run abi a u (replicate k Takes) s = Some s' \<and> wake_inv a u n i0 s' \<and>
    wk_thread s' = Reads_efd \<and> wk_count s' = 0 \<and> wk_posted s' = wk_posted s \<and> wk_driver s' = wk_driver s \<and>
    wk_added s' = wk_added s \<and> prefix (wk_taken s) (wk_taken s')"
  using assms(1)
proof (induction "steps_left s" arbitrary: s rule: less_induct)
  case less
  show ?case
  proof (cases "wk_thread s = Reads_efd \<and> wk_count s = 0")
    case True
    then show ?thesis using less.prems by (intro exI [of _ 0] exI [of _ s]) simp
  next
    case False
    obtain s1 where s1: "take_step a u s = Some s1" "steps_left s1 < steps_left s" "wk_posted s1 = wk_posted s"
        "wk_driver s1 = wk_driver s" "wk_added s1 = wk_added s" "prefix (wk_taken s) (wk_taken s1)"
      using take_step_goes_on [OF less.prems assms(2) False] by blast
    have "wake_inv a u n i0 s1" by (rule take_step_inv [OF less.prems assms(2,3) r s1(1)])
    from less.hyps [OF s1(2) this] obtain k s' where "k \<le> steps_left s1" "wake_run abi a u (replicate k Takes) s1 = Some s'"
        "wake_inv a u n i0 s'" "wk_thread s' = Reads_efd" "wk_count s' = 0" "wk_posted s' = wk_posted s1"
        "wk_driver s' = wk_driver s1" "wk_added s' = wk_added s1" "prefix (wk_taken s1) (wk_taken s')" by blast
    then show ?thesis using s1 prefix_order.trans [OF s1(6)] by (intro exI [of _ "Suc k"] exI [of _ s']) simp
  qed
qed

subsection \<open>Properties\<close>

text \<open>
  C4: No request is missed: in whatever order the driver and the I/O thread access the rings, with event indices and
  without, the thread takes the heads in the order in which they were made available; and from every state the
  thread, left alone, is back in \<open>read\<close> after a bounded number of steps, and then, when the driver has done what the
  specification asks (looked at the event index after its last entry, and notified if it says so), nothing is left
  in the ring.  The indices may wrap.
\<close>

theorem no_request_missed:
  assumes "wake_run abi a u acts (wake_start m q) = Some s" and "need_event_spec abi"
    and "vr_avail q = Some a" and "vr_num q = n" and "unat n dvd 2 ^ 16" and "unat n < 2 ^ 16"
    and "disjoint a (4 + 2 * unat n) (used_elem_at u n) 2" and "ld16 m (a + 2) = last_avail_idx q"
    and "use_event_idx q \<longrightarrow> ld16 m (used_elem_at u n) = last_avail_idx q"
  shows "prefix (wk_taken s) (wk_posted s) \<and>
    (\<exists>k s'. k \<le> 3 * (length (wk_posted s) - length (wk_taken s)) + 5 \<and>
       wake_run abi a u (replicate k Takes) s = Some s' \<and> take_step a u s' = None \<and>
       prefix (wk_taken s) (wk_taken s') \<and> prefix (wk_taken s') (wk_posted s) \<and>
       (wk_driver s = Free \<and> wk_added s = 0 \<longrightarrow> wk_taken s' = wk_posted s))"
proof -
  have inv: "wake_inv a u n (last_avail_idx q) s"
    using wake_run_inv [OF wake_start_inv [OF assms(3,4,8,9)] assms(5,6,2,7,1)] .
  obtain k s' where s': "k \<le> steps_left s" "wake_run abi a u (replicate k Takes) s = Some s'"
      "wake_inv a u n (last_avail_idx q) s'" "wk_thread s' = Reads_efd" "wk_count s' = 0" "wk_posted s' = wk_posted s"
      "wk_driver s' = wk_driver s" "wk_added s' = wk_added s" "prefix (wk_taken s) (wk_taken s')"
    using thread_alone [OF inv assms(5-7)] by blast
  have "steps_left s \<le> 3 * (length (wk_posted s) - length (wk_taken s)) + 5"
    by (cases "wk_thread s") (simp_all add: steps_left_def)
  moreover have "prefix (wk_taken s) (wk_posted s)" "prefix (wk_taken s') (wk_posted s)"
    using inv s'(3,6) by (simp_all add: wake_inv_def Let_def)
  moreover have "wk_taken s' = wk_posted s" if "wk_driver s = Free \<and> wk_added s = 0"
  proof -
    have "length (wk_posted s) \<le> length (wk_taken s')" using s'(3-8) that by (auto simp: wake_inv_def Let_def)
    then show ?thesis using \<open>prefix (wk_taken s') (wk_posted s)\<close> by (auto simp: prefix_def)
  qed
  moreover have "take_step a u s' = None" using s'(4,5) by (simp add: take_step_def)
  ultimately show ?thesis using s'(1,2,9) order_trans by blast
qed

text \<open>A request is posted while the thread sleeps, and another one when it has been notified.\<close>

definition event_queue :: virt_queue where
  "event_queue = zero_vq\<lparr>vr_num := 4, vr_avail := Some 0x1000, vr_used := Some 0x2000, use_event_idx := True\<rparr>"

definition event_abi :: vring_abi where
  "event_abi = \<lparr>vring_need_event = (\<lambda>event new old. new - event - 1 < new - old), vring_size = (\<lambda>n al. 0),
     vring_avail_off = (\<lambda>n. 0), vring_used_off = (\<lambda>n b al. 0)\<rparr>"

definition two_posts :: "wake_act list" where
  "two_posts = [Fills 7, Drives, Drives, Drives, Takes, Fills 3, Takes, Drives, Drives]"

lemma zero_mem: "ld16 (\<lambda>a. 0) x = 0"
  by (simp add: ld16_def ldn_def numeral_eq_Suc)

lemma two_posts_run:
  "map_option (\<lambda>s. (wk_posted s, wk_driver s, wk_added s)) (wake_run event_abi 0x1000 0x2000 two_posts (wake_start (\<lambda>a. 0) event_queue)) =
    Some ([7, 3], Free, 0)"
  by (simp add: two_posts_def wake_start_def event_queue_def zero_vq_def event_abi_def drive_step_def take_step_def
      Let_def avail_ring_at_def used_elem_at_def mem_simps disjoint_def zero_mem)

theorem no_request_missed_witness:
  "\<exists>s s' k. wake_run event_abi 0x1000 0x2000 two_posts (wake_start (\<lambda>a. 0) event_queue) = Some s \<and>
    wake_run event_abi 0x1000 0x2000 (replicate k Takes) s = Some s' \<and> wk_taken s' = [7, 3]"
proof -
  obtain s where s: "wake_run event_abi 0x1000 0x2000 two_posts (wake_start (\<lambda>a. 0) event_queue) = Some s"
      "wk_posted s = [7, 3]" "wk_driver s = Free" "wk_added s = 0"
    using two_posts_run by auto
  have d: "disjoint 0x1000 12 (used_elem_at 0x2000 4) 2" by (simp add: disjoint_def used_elem_at_def)
  show ?thesis
    using no_request_missed [OF s(1)] s d
    by (auto simp: event_queue_def event_abi_def zero_vq_def need_event_spec_def zero_mem)
qed

end
