(* ===== verification/XsDev.thy ===== *)
theory XsDev
  imports Prelude
begin

text \<open>
  The connection to a frontend through Xenstore (\<^verbatim>\<open>xs_dev.c\<close>).  The Xenstore library is the record
  \<open>xs_ops\<close> over an abstract state \<open>'x\<close>: every call may let the store change, since other domains
  write to it.  A call that blocks forever is \<open>None\<close> there and \<open>NoFuel\<close> here.  The values of the
  states of a Xenbus device come from a Xen header and are fields of the record too.  \<open>strdup\<close> is
  taken to succeed.
\<close>

subsection \<open>The conversions of the C library\<close>

definition is_space :: "char \<Rightarrow> bool" where
  "is_space c \<longleftrightarrow> of_char c \<in> {9 :: int, 10, 11, 12, 13, 32}"

definition digit_of :: "char \<Rightarrow> int" where
  "digit_of c =
     (let n = of_char c
      in if 48 \<le> n \<and> n \<le> 57 then n - 48
         else if 97 \<le> n \<and> n \<le> 122 then n - 87
         else if 65 \<le> n \<and> n \<le> 90 then n - 55
         else 99)"

fun scan_digits :: "int \<Rightarrow> int \<Rightarrow> string \<Rightarrow> int \<times> string" where
  "scan_digits base acc [] = (acc, [])"
| "scan_digits base acc (c # cs) =
     (if digit_of c < base then scan_digits base (acc * base + digit_of c) cs else (acc, c # cs))"

fun scan_sign :: "string \<Rightarrow> bool \<times> string" where
  "scan_sign (c # cs) =
     (if c = CHR ''-'' then (True, cs) else if c = CHR ''+'' then (False, cs) else (False, c # cs))"
| "scan_sign [] = (False, [])"

text \<open>The base of a number for \<open>strtol\<close> with base 0, and where its digits start.\<close>

fun scan_base :: "string \<Rightarrow> int \<times> string" where
  "scan_base (a # b # c # cs) =
     (if a = CHR ''0'' \<and> b \<in> {CHR ''x'', CHR ''X''} \<and> digit_of c < 16 then (16, c # cs)
      else if a = CHR ''0'' then (8, a # b # c # cs)
      else (10, a # b # c # cs))"
| "scan_base s = (case s of [] \<Rightarrow> 10 | a # _ \<Rightarrow> if a = CHR ''0'' then 8 else 10, s)"

definition clamp_long :: "int \<Rightarrow> int" where
  "clamp_long v = max (- (2 ^ 63)) (min (2 ^ 63 - 1) v)"

text \<open>The value and the rest of the string; \<open>None\<close> when there are no digits.\<close>

definition scan_long :: "(string \<Rightarrow> int \<times> string) \<Rightarrow> string \<Rightarrow> int option \<times> string" where
  "scan_long base s =
     (case scan_sign (dropWhile is_space s) of
        (neg, t) \<Rightarrow>
          (case base t of
             (b, u) \<Rightarrow>
               (case u of
                  [] \<Rightarrow> (None, s)
                | c # cs \<Rightarrow>
                    if digit_of c < b then
                      (case scan_digits b 0 u of
                         (v, r) \<Rightarrow> (Some (clamp_long (if neg then - v else v)), r))
                    else (None, s))))"

definition to_int :: "int \<Rightarrow> int" where
  "to_int v = signed_take_bit 31 v"

text \<open>\<open>sscanf\<close> with \<open>%d\<close>, \<open>atoi\<close>, and \<open>strtol\<close> with base 0.\<close>

definition scan_int :: "string \<Rightarrow> int option" where
  "scan_int s = map_option to_int (fst (scan_long (\<lambda>t. (10, t)) s))"

definition atoi :: "string \<Rightarrow> int" where
  "atoi s = (case scan_int s of Some v \<Rightarrow> v | None \<Rightarrow> 0)"

definition strtol_0 :: "string \<Rightarrow> int \<times> string" where
  "strtol_0 s = (case scan_long scan_base s of (v, r) \<Rightarrow> (case v of Some v \<Rightarrow> v | None \<Rightarrow> 0, r))"

text \<open>\<open>strtoull\<close> with base 10.\<close>

definition strtoull_10 :: "string \<Rightarrow> u64" where
  "strtoull_10 s =
     (case scan_sign (dropWhile is_space s) of
        (neg, t) \<Rightarrow> let v = fst (scan_digits 10 0 t) in if 2 ^ 64 \<le> v then -1 else of_int (if neg then - v else v))"

function show_nat :: "int \<Rightarrow> string" where
  "show_nat n = (if n < 10 then [char_of (48 + n)] else show_nat (n div 10) @ [char_of (48 + n mod 10)])"
  by auto
termination by (relation "measure nat") auto

declare show_nat.simps [simp del]

definition show_int :: "int \<Rightarrow> string" where
  "show_int i = (if i < 0 then CHR ''-'' # show_nat (- i) else show_nat i)"

text \<open>\<open>snprintf\<close> into a buffer of \<open>n\<close> characters keeps room for the terminator.\<close>

definition fit :: "nat \<Rightarrow> string \<Rightarrow> string" where
  "fit n s = take (n - 1) s"

subsection \<open>State\<close>

record 'x xs_ops =
  xs_read :: "'x \<Rightarrow> string \<Rightarrow> string option \<times> 'x"
  xs_write :: "'x \<Rightarrow> string \<Rightarrow> string \<Rightarrow> bool \<times> 'x"
  xs_rm :: "'x \<Rightarrow> string \<Rightarrow> 'x"
  xs_watch :: "'x \<Rightarrow> string \<Rightarrow> string \<Rightarrow> bool \<times> 'x"
  xs_unwatch :: "'x \<Rightarrow> string \<Rightarrow> string \<Rightarrow> 'x"
  xs_read_watch :: "'x \<Rightarrow> ((string \<times> string) option \<times> 'x) option"
  xs_directory :: "'x \<Rightarrow> string \<Rightarrow> string list option \<times> 'x"
  xs_poll :: "'x \<Rightarrow> (int \<times> bool) \<times> 'x"
  errno_eintr :: "'x \<Rightarrow> bool"
  XenbusStateUnknown :: int
  XenbusStateInitialising :: int
  XenbusStateInitWait :: int
  XenbusStateClosed :: int

definition XEN_BUFSIZE :: nat where [c_simps]: "XEN_BUFSIZE = 1024"

text \<open>
  \<open>connected_cb\<close> is an argument of \<open>xenstore_connect_dom\<close>, and \<open>curr_domid\<close> is the static variable of
  \<open>xenstore_get_fe_domid\<close>.
\<close>

record xs_dev =
  xs_be_domid :: u16
  xs_fe_domid :: u16
  xs_type :: string
  xs_devid_str :: "string option"
  xs_devid :: int
  xs_be :: string
  xs_path :: string
  xs_fe :: "string option"
  xs_be_state :: int
  xs_curr_domid :: u16

subsection \<open>Reading and writing nodes\<close>

definition node_path :: "string \<Rightarrow> string \<Rightarrow> string" where
  "node_path base node = fit XEN_BUFSIZE (base @ ''/'' @ node)"

definition xenstore_read_str :: "'x xs_ops \<Rightarrow> 'x \<Rightarrow> string \<Rightarrow> string \<Rightarrow> string option \<times> 'x" where
  "xenstore_read_str xs x base node = xs_read xs x (node_path base node)"

definition xenstore_write_str :: "'x xs_ops \<Rightarrow> 'x \<Rightarrow> string \<Rightarrow> string \<Rightarrow> string \<Rightarrow> int \<times> 'x" where
  "xenstore_write_str xs x base node val =
     (case xs_write xs x (node_path base node) val of (ok, x') \<Rightarrow> (if ok then 0 else -1, x'))"

definition xenstore_read_int :: "'x xs_ops \<Rightarrow> 'x \<Rightarrow> string \<Rightarrow> string \<Rightarrow> int option \<times> 'x" where
  "xenstore_read_int xs x base node =
     (case xenstore_read_str xs x base node of
        (val, x') \<Rightarrow> (case val of None \<Rightarrow> None | Some v \<Rightarrow> scan_int v, x'))"

definition xenstore_write_int :: "'x xs_ops \<Rightarrow> 'x \<Rightarrow> string \<Rightarrow> string \<Rightarrow> int \<Rightarrow> int \<times> 'x" where
  "xenstore_write_int xs x base node ival = xenstore_write_str xs x base node (fit 12 (show_int ival))"

definition fe_of :: "xs_dev \<Rightarrow> string run" where
  "fe_of dev = (case xs_fe dev of Some fe \<Rightarrow> Done fe | None \<Rightarrow> Wild)"

definition xenstore_read_fe_int :: "'x xs_ops \<Rightarrow> 'x \<Rightarrow> xs_dev \<Rightarrow> string \<Rightarrow> (int option \<times> 'x) run" where
  "xenstore_read_fe_int xs x dev node = bind_run (fe_of dev) (\<lambda>fe. Done (xenstore_read_int xs x fe node))"

definition xenstore_read_fe_str :: "'x xs_ops \<Rightarrow> 'x \<Rightarrow> xs_dev \<Rightarrow> string \<Rightarrow> (string option \<times> 'x) run" where
  "xenstore_read_fe_str xs x dev node = bind_run (fe_of dev) (\<lambda>fe. Done (xenstore_read_str xs x fe node))"

definition xenstore_read_be_str :: "'x xs_ops \<Rightarrow> 'x \<Rightarrow> xs_dev \<Rightarrow> string \<Rightarrow> string option \<times> 'x" where
  "xenstore_read_be_str xs x dev node = xenstore_read_str xs x (xs_be dev) node"

definition xenstore_read_be_int :: "'x xs_ops \<Rightarrow> 'x \<Rightarrow> xs_dev \<Rightarrow> string \<Rightarrow> int option \<times> 'x" where
  "xenstore_read_be_int xs x dev node = xenstore_read_int xs x (xs_be dev) node"

definition xenstore_write_be_int :: "'x xs_ops \<Rightarrow> 'x \<Rightarrow> xs_dev \<Rightarrow> string \<Rightarrow> int \<Rightarrow> int \<times> 'x" where
  "xenstore_write_be_int xs x dev node ival = xenstore_write_int xs x (xs_be dev) node ival"

subsection \<open>Connecting to a frontend\<close>

definition xenstore_set_be_state :: "'x xs_ops \<Rightarrow> 'x \<Rightarrow> xs_dev \<Rightarrow> int \<Rightarrow> int \<times> xs_dev \<times> 'x" where
  "xenstore_set_be_state xs x dev st =
     (case xenstore_write_be_int xs x dev ''state'' st of
        (rc, x') \<Rightarrow> if rc < 0 then (rc, dev, x') else (0, dev\<lparr>xs_be_state := st\<rparr>, x'))"

text \<open>A shift of the \<open>int\<close> 1 by a state outside 0 to 30 is undefined.\<close>

fun wait_be_state :: "'x xs_ops \<Rightarrow> nat \<Rightarrow> 'x \<Rightarrow> xs_dev \<Rightarrow> int \<Rightarrow> (int \<times> 'x) run" where
  "wait_be_state xs n x dev awaited =
     (case xenstore_read_be_int xs x dev ''state'' of
        (None, x1) \<Rightarrow> Done (-1, x1)
      | (Some st, x1) \<Rightarrow>
          if st < 0 \<or> 30 < st then Wild
          else if push_bit (nat st) 1 AND awaited \<noteq> 0 then Done (st, x1)
          else
            (case xs_read_watch xs x1 of
               None \<Rightarrow> NoFuel
             | Some (None, x2) \<Rightarrow> Done (-1, x2)
             | Some (Some vec, x2) \<Rightarrow>
                 (case n of 0 \<Rightarrow> NoFuel | Suc n' \<Rightarrow> wait_be_state xs n' x2 dev awaited)))"

declare wait_be_state.simps [simp del]

definition xenstore_wait_be_state :: "'x xs_ops \<Rightarrow> nat \<Rightarrow> 'x \<Rightarrow> xs_dev \<Rightarrow> int \<Rightarrow> (int \<times> 'x) run" where
  "xenstore_wait_be_state xs n x dev awaited =
     wait_be_state xs n x dev (awaited OR push_bit (nat (XenbusStateUnknown xs)) 1)"

definition xenstore_disconnect_dom :: "'x xs_ops \<Rightarrow> 'x \<Rightarrow> xs_dev \<Rightarrow> xs_dev \<times> 'x" where
  "xenstore_disconnect_dom xs x dev =
     (case xenstore_set_be_state xs x dev (XenbusStateClosed xs) of
        (rc, dev1, x1) \<Rightarrow>
          (case (case xs_fe dev1 of
                   None \<Rightarrow> (dev1, x1)
                 | Some fe \<Rightarrow> (dev1\<lparr>xs_fe := None\<rparr>, xs_unwatch xs x1 fe fe)) of
             (dev2, x2) \<Rightarrow>
               (dev2\<lparr>xs_fe_domid := 0\<rparr>, xs_rm xs (xs_unwatch xs x2 (xs_be dev2) (xs_be dev2)) (xs_be dev2))))"

text \<open>
  The steps of \<open>xenstore_connect_dom\<close> before its label \<open>err\<close>, in three parts: each says whether it
  succeeded, and the next one runs only then.  The callback works on a state \<open>'c\<close> of its own.
\<close>

definition be_ready :: "'x xs_ops \<Rightarrow> 'x \<Rightarrow> xs_dev \<Rightarrow> bool \<times> xs_dev \<times> 'x" where
  "be_ready xs x dev =
     (case xenstore_read_be_int xs x dev ''state'' of
        (None, x1) \<Rightarrow> (False, dev, x1)
      | (Some st, x1) \<Rightarrow>
          let dev1 = dev\<lparr>xs_be_state := st\<rparr>
          in if st \<noteq> XenbusStateInitialising xs then (False, dev1, x1)
             else case xenstore_set_be_state xs x1 dev1 (XenbusStateInitWait xs) of (rc, dev2, x2) \<Rightarrow> (True, dev2, x2))"

definition fe_ready :: "'x xs_ops \<Rightarrow> 'x \<Rightarrow> xs_dev \<Rightarrow> bool \<times> xs_dev \<times> 'x" where
  "fe_ready xs x dev =
     (case xenstore_read_be_str xs x dev ''frontend'' of
        (None, x1) \<Rightarrow> (False, dev\<lparr>xs_fe := None\<rparr>, x1)
      | (Some fe, x1) \<Rightarrow>
          (case xenstore_read_int xs x1 fe ''state'' of
             (None, x2) \<Rightarrow> (False, dev\<lparr>xs_fe := Some fe\<rparr>, x2)
           | (Some st, x2) \<Rightarrow> (st = XenbusStateInitialising xs, dev\<lparr>xs_fe := Some fe\<rparr>, x2)))"

definition watch_both :: "'x xs_ops \<Rightarrow> 'x \<Rightarrow> string \<Rightarrow> string \<Rightarrow> bool \<times> 'x" where
  "watch_both xs x be fe =
     (case xs_watch xs x be be of (ok, x1) \<Rightarrow> if ok then xs_watch xs x1 fe fe else (False, x1))"

definition connect_attempt ::
  "'x xs_ops \<Rightarrow> nat \<Rightarrow> ('x \<Rightarrow> xs_dev \<Rightarrow> 'c \<Rightarrow> int \<times> 'c \<times> 'x) \<Rightarrow> 'x \<Rightarrow> xs_dev \<Rightarrow> 'c \<Rightarrow> (bool \<times> xs_dev \<times> 'c \<times> 'x) run" where
  "connect_attempt xs n connected_cb x dev c =
     (case be_ready xs x dev of
        (ok1, dev1, x1) \<Rightarrow>
          if \<not> ok1 then Done (False, dev1, c, x1)
          else case fe_ready xs x1 dev1 of
            (ok2, dev2, x2) \<Rightarrow>
              if \<not> ok2 then Done (False, dev2, c, x2)
              else bind_run (fe_of dev2) (\<lambda>fe. case watch_both xs x2 (xs_be dev2) fe of
                (ok3, x3) \<Rightarrow>
                  if \<not> ok3 then Done (False, dev2, c, x3)
                  else bind_run (xenstore_wait_be_state xs n x3 dev2 (push_bit (nat (XenbusStateInitWait xs)) 1)) (\<lambda>(w, x4).
                    if w \<noteq> XenbusStateInitWait xs then Done (False, dev2, c, x4)
                    else case connected_cb x4 dev2 c of (r, c', x5) \<Rightarrow> Done (\<not> r < 0, dev2, c', x5))))"

definition backend_path :: "xs_dev \<Rightarrow> string" where
  "backend_path dev =
     fit XEN_BUFSIZE (''backend/'' @ xs_type dev @ ''/'' @ show_nat (uint (xs_fe_domid dev)) @ ''/'' @ show_int (xs_devid dev))"

definition xenstore_connect_dom ::
  "'x xs_ops \<Rightarrow> nat \<Rightarrow> ('x \<Rightarrow> xs_dev \<Rightarrow> 'c \<Rightarrow> int \<times> 'c \<times> 'x) \<Rightarrow> 'x \<Rightarrow> xs_dev \<Rightarrow> u16 \<Rightarrow> u16 \<Rightarrow> 'c \<Rightarrow>
    (int \<times> xs_dev \<times> 'c \<times> 'x) run" where
  "xenstore_connect_dom xs n connected_cb x dev be_domid fe_domid c =
     (let dev1 = dev\<lparr>xs_be_domid := be_domid, xs_fe_domid := fe_domid\<rparr>;
          dev2 = dev1\<lparr>xs_be := backend_path dev1\<rparr>
      in bind_run (connect_attempt xs n connected_cb x dev2 c) (\<lambda>(ok, dev3, c', x').
           if ok then Done (0, dev3, c', x')
           else case xenstore_disconnect_dom xs x' dev3 of (dev4, x'') \<Rightarrow> Done (-1, dev4, c', x'')))"

subsection \<open>Finding a frontend\<close>

definition xenstore_create :: "bool \<Rightarrow> string \<Rightarrow> string option \<Rightarrow> xs_dev option" where
  "xenstore_create opened type devid_str =
     (if \<not> opened then None
      else Some \<lparr>xs_be_domid = 0, xs_fe_domid = 0, xs_type = type, xs_devid_str = devid_str, xs_devid = 0,
        xs_be = [], xs_path = fit XEN_BUFSIZE (''backend/'' @ type), xs_fe = None, xs_be_state = 0,
        xs_curr_domid = 0\<rparr>)"

definition xenstore_get_be_domid :: "'x xs_ops \<Rightarrow> 'x \<Rightarrow> int \<times> 'x" where
  "xenstore_get_be_domid xs x =
     (case xs_read xs x ''domid'' of
        (None, x') \<Rightarrow> (0, x')
      | (Some val, x') \<Rightarrow>
          (case strtol_0 val of (v, rest) \<Rightarrow> (if rest \<noteq> [] then -1 else to_int v, x')))"

definition xenstore_get_dom_mem :: "'x xs_ops \<Rightarrow> 'x \<Rightarrow> u16 \<Rightarrow> u64 \<times> 'x" where
  "xenstore_get_dom_mem xs x domid =
     (case xs_read xs x (fit XEN_BUFSIZE (''/local/domain/'' @ show_nat (uint domid) @ ''/memory/static-max'')) of
        (None, x') \<Rightarrow> (0, x')
      | (Some memkb, x') \<Rightarrow> (strtoull_10 memkb * 1024, x'))"

text \<open>
  The number of the device: the first of the directory, or the one that was asked for.  An empty
  directory has no first entry.
\<close>

definition choose_devid :: "xs_dev \<Rightarrow> string list \<Rightarrow> int option run" where
  "choose_devid dev ds =
     (case xs_devid_str dev of
        None \<Rightarrow> (case ds of [] \<Rightarrow> Wild | d # _ \<Rightarrow> Done (Some (atoi d)))
      | Some s \<Rightarrow> Done (if s \<in> set ds then Some (atoi s) else None))"

definition backend_dir :: "xs_dev \<Rightarrow> u16 \<Rightarrow> string" where
  "backend_dir dev domid = fit XEN_BUFSIZE (''backend/'' @ xs_type dev @ ''/'' @ show_nat (uint domid))"

definition frontend_node :: "xs_dev \<Rightarrow> u16 \<Rightarrow> int \<Rightarrow> string" where
  "frontend_node dev domid d =
     fit XEN_BUFSIZE (''/local/domain/'' @ show_nat (uint domid) @ ''/device/'' @ xs_type dev @ ''/'' @ show_int d)"

definition xenstore_check_fe_exists :: "'x xs_ops \<Rightarrow> 'x \<Rightarrow> xs_dev \<Rightarrow> u16 \<Rightarrow> (bool \<times> xs_dev \<times> 'x) run" where
  "xenstore_check_fe_exists xs x dev domid =
     (case xs_directory xs x (backend_dir dev domid) of
        (None, x1) \<Rightarrow> Done (False, dev, x1)
      | (Some ds, x1) \<Rightarrow>
          bind_run (choose_devid dev ds) (\<lambda>d.
            case d of
              None \<Rightarrow> Done (False, dev, x1)
            | Some d \<Rightarrow>
                (case xs_read xs x1 (frontend_node dev domid d) of
                   (v, x2) \<Rightarrow> Done (v \<noteq> None, dev\<lparr>xs_devid := if v \<noteq> None then d else 0\<rparr>, x2))))"

definition newest_domid :: "u16 \<Rightarrow> string list \<Rightarrow> u16" where
  "newest_domid c ds = foldl (\<lambda>c d. if of_int (atoi d) > c then of_int (atoi d) else c) c ds"

definition xenstore_get_fe_domid :: "'x xs_ops \<Rightarrow> 'x \<Rightarrow> xs_dev \<Rightarrow> (int \<times> xs_dev \<times> 'x) run" where
  "xenstore_get_fe_domid xs x dev =
     (case xs_directory xs x (xs_path dev) of
        (None, x1) \<Rightarrow> Done (-1, dev, x1)
      | (Some ds, x1) \<Rightarrow>
          let c = newest_domid (xs_curr_domid dev) ds;
              dev1 = dev\<lparr>xs_curr_domid := c\<rparr>
          in if c > xs_curr_domid dev then
               bind_run (xenstore_check_fe_exists xs x1 dev1 c) (\<lambda>(ok, dev2, x2).
                 Done (if ok then uint c else 0, dev2, x2))
             else Done (0, dev1, x1))"

definition xenstore_poll_be_watch :: "'x xs_ops \<Rightarrow> 'x \<Rightarrow> xs_dev \<Rightarrow> (int \<times> xs_dev \<times> 'x) run" where
  "xenstore_poll_be_watch xs x dev =
     (case xs_read_watch xs x of
        None \<Rightarrow> NoFuel
      | Some (None, x1) \<Rightarrow> Done (-1, dev, x1)
      | Some (Some (path, token), x1) \<Rightarrow>
          if path = xs_path dev then xenstore_get_fe_domid xs x1 dev else Done (0, dev, x1))"

text \<open>
  The loop of \<open>xenstore_wait_fe_domid\<close> with fuel, since nobody may ever connect.  A poll that reports
  something else than input leaves \<open>domid\<close> alone, as one that reports nothing does.
\<close>

fun wait_fe_loop :: "'x xs_ops \<Rightarrow> nat \<Rightarrow> 'x \<Rightarrow> xs_dev \<Rightarrow> (int \<times> xs_dev \<times> 'x) run" where
  "wait_fe_loop xs n x dev =
     (case xs_poll xs x of
        ((rc, pollin), x1) \<Rightarrow>
          bind_run (if rc > 0 \<and> pollin then xenstore_poll_be_watch xs x1 dev else Done (min rc 0, dev, x1)) (\<lambda>(r, dev1, x2).
            if r > 0 then Done (r, dev1, x2)
            else if r < 0 \<and> \<not> errno_eintr xs x2 then Done (-1, dev1, x2)
            else (case n of 0 \<Rightarrow> NoFuel | Suc n' \<Rightarrow> wait_fe_loop xs n' x2 dev1)))"

declare wait_fe_loop.simps [simp del]

definition xenstore_wait_fe_domid :: "'x xs_ops \<Rightarrow> nat \<Rightarrow> 'x \<Rightarrow> xs_dev \<Rightarrow> (int \<times> xs_dev \<times> 'x) run" where
  "xenstore_wait_fe_domid xs n x dev =
     (case xs_watch xs x (xs_path dev) (xs_path dev) of
        (ok, x1) \<Rightarrow>
          if \<not> ok then Done (-1, dev, x1)
          else
            bind_run (wait_fe_loop xs n x1 dev) (\<lambda>(domid, dev1, x2).
              Done (domid, dev1, xs_unwatch xs x2 (xs_path dev1) (xs_path dev1))))"

subsection \<open>Watching a connected frontend\<close>

definition xenstore_fe_state_changed :: "'x xs_ops \<Rightarrow> 'x \<Rightarrow> xs_dev \<Rightarrow> (int \<times> 'x) run" where
  "xenstore_fe_state_changed xs x dev =
     bind_run (xenstore_read_fe_int xs x dev ''state'') (\<lambda>(st, x1).
       case st of
         None \<Rightarrow> Done (-1, x1)
       | Some v \<Rightarrow>
           if v = XenbusStateUnknown xs then Done (-1, x1)
           else if v = XenbusStateInitialising xs then Done (0, x1)
           else Abort)"

definition xenstore_be_state_changed :: "'x xs_ops \<Rightarrow> 'x \<Rightarrow> xs_dev \<Rightarrow> int \<times> 'x" where
  "xenstore_be_state_changed xs x dev =
     (case xenstore_read_be_int xs x dev ''state'' of
        (None, x1) \<Rightarrow> (-1, x1)
      | (Some v, x1) \<Rightarrow> (if v = XenbusStateUnknown xs then -1 else 0, x1))"

definition xenstore_poll_watches :: "'x xs_ops \<Rightarrow> 'x \<Rightarrow> xs_dev \<Rightarrow> (int \<times> 'x) run" where
  "xenstore_poll_watches xs x dev =
     (case xs_read_watch xs x of
        None \<Rightarrow> NoFuel
      | Some (None, x1) \<Rightarrow> Done (-1, x1)
      | Some (Some (path, token), x1) \<Rightarrow>
          (case (if token = xs_be dev then xenstore_be_state_changed xs x1 dev else (0, x1)) of
             (rc, x2) \<Rightarrow>
               bind_run (fe_of dev) (\<lambda>fe.
                 if token = fe then xenstore_fe_state_changed xs x2 dev else Done (rc, x2))))"

end
