(* ===== verification/Device.thy ===== *)
theory Device
  imports VirtioBlk
begin

text \<open>
  The lists of initialisers and finalisers by priority (\<^verbatim>\<open>util/init.c\<close>, \<^verbatim>\<open>include/kvm/util-init.h\<close>) and
  bringing the devices of a guest up and down (\<^verbatim>\<open>device.c\<close>).
\<close>

subsection \<open>Initialisers by priority\<close>

text \<open>
  An item stands for its function, which \<open>call\<close> runs on the state.  A list \<open>init_lists[i]\<close> has the
  item added last at its head.
\<close>

definition PRIORITY_LISTS :: nat where [c_simps]: "PRIORITY_LISTS = 10"

definition no_items :: "'i list list" where
  "no_items = replicate PRIORITY_LISTS []"

definition init_list_add :: "'i \<Rightarrow> nat \<Rightarrow> 'i list list \<Rightarrow> 'i list list run" where
  "init_list_add t priority ls =
     (if priority < length ls then Done (ls[priority := t # ls ! priority]) else Wild)"

fun run_list :: "('i \<Rightarrow> 's \<Rightarrow> (int \<times> 's) run) \<Rightarrow> int \<Rightarrow> 'i list \<Rightarrow> 's \<Rightarrow> (int \<times> 's) run" where
  "run_list call r [] s = Done (r, s)"
| "run_list call r (t # ts) s =
     bind_run (call t s) (\<lambda>(r', s'). if r' < 0 then Done (r', s') else run_list call r' ts s')"

fun run_lists :: "('i \<Rightarrow> 's \<Rightarrow> (int \<times> 's) run) \<Rightarrow> int \<Rightarrow> 'i list list \<Rightarrow> 's \<Rightarrow> (int \<times> 's) run" where
  "run_lists call r [] s = Done (r, s)"
| "run_lists call r (l # ls) s =
     bind_run (run_list call r l s) (\<lambda>(r', s'). if r' < 0 then Done (r', s') else run_lists call r' ls s')"

definition init_list__init :: "('i \<Rightarrow> 's \<Rightarrow> (int \<times> 's) run) \<Rightarrow> 'i list list \<Rightarrow> 's \<Rightarrow> (int \<times> 's) run" where
  "init_list__init call ls s = run_lists call 0 ls s"

definition init_list__exit :: "('i \<Rightarrow> 's \<Rightarrow> (int \<times> 's) run) \<Rightarrow> 'i list list \<Rightarrow> 's \<Rightarrow> (int \<times> 's) run" where
  "init_list__exit call ls s = run_lists call 0 (rev ls) s"

text \<open>The program's items, which the constructors of the linked files add.\<close>

datatype init_fn = Disk_image__init | Virtio_blk__init
datatype exit_fn = Disk_image__exit | Virtio_blk__exit

definition dev_base_level :: nat where [c_simps]: "dev_base_level = 4"
definition virtio_dev_level :: nat where [c_simps]: "virtio_dev_level = 6"

definition init_lists :: "init_fn list list run" where
  "init_lists = bind_run (init_list_add Disk_image__init dev_base_level no_items) (init_list_add Virtio_blk__init virtio_dev_level)"

definition exit_lists :: "exit_fn list list run" where
  "exit_lists = bind_run (init_list_add Disk_image__exit dev_base_level no_items) (init_list_add Virtio_blk__exit virtio_dev_level)"

subsection \<open>The devices of a guest\<close>

text \<open>
  \<open>struct kvm\<close>: the parameters of the images, and the disks opened for them (null before that).  The
  static pointer to it can dangle.
\<close>

record kvm =
  kv_params :: "disk_image_params list"
  kv_disks :: "disk_image ptr list"

datatype kvm_ptr = Kvm_null | Kvm_at kvm | Kvm_freed

record devices =
  dv_machine :: machine
  dv_bdevs :: bdevs
  dv_kvm :: kvm_ptr

definition the_kvm :: "devices \<Rightarrow> kvm run" where
  "the_kvm d = (case dv_kvm d of Kvm_at k \<Rightarrow> Done k | _ \<Rightarrow> Wild)"

text \<open>While a disk has a device its state is kept there; taking the devices down gives the disks back.\<close>

fun init_call :: "env \<Rightarrow> u8 list \<Rightarrow> bool \<Rightarrow> init_fn \<Rightarrow> devices \<Rightarrow> (int \<times> devices) run" where
  "init_call e stk virtio_legacy Disk_image__init d =
     bind_run (the_kvm d) (\<lambda>k.
       bind_run (disk_image__init stk (kv_params k)) (\<lambda>(r, ds).
         Done (r, d\<lparr>dv_kvm := Kvm_at (k\<lparr>kv_disks := (case ds of Some ds \<Rightarrow> ds | None \<Rightarrow> kv_disks k)\<rparr>)\<rparr>)))"
| "init_call e stk virtio_legacy Virtio_blk__init d =
     bind_run (the_kvm d) (\<lambda>k.
       bind_run (virtio_blk__init e virtio_legacy (dv_machine d) (dv_bdevs d) (kv_disks k)) (\<lambda>(r, m, bs).
         Done (r, d\<lparr>dv_machine := m, dv_bdevs := bs\<rparr>)))"

fun exit_call :: "env \<Rightarrow> exit_fn \<Rightarrow> devices \<Rightarrow> (int \<times> devices) run" where
  "exit_call e Virtio_blk__exit d =
     bind_run (the_kvm d) (\<lambda>k.
       bind_run (virtio_blk__exit e (dv_machine d) (dv_bdevs d)) (\<lambda>(m, ds).
         Done (0, d\<lparr>dv_machine := m, dv_bdevs := [], dv_kvm := Kvm_at (k\<lparr>kv_disks := map Ptr ds\<rparr>)\<rparr>)))"
| "exit_call e Disk_image__exit d =
     bind_run (the_kvm d) (\<lambda>k.
       bind_run (disk_image__exit (kv_disks k)) (\<lambda>ds.
         Done (0, d\<lparr>dv_kvm := Kvm_at (k\<lparr>kv_disks := ds\<rparr>)\<rparr>)))"

text \<open>\<open>calloc\<close> is taken to succeed.  The copy of the parameters must fit into the array of the structure.\<close>

definition device_initialize ::
  "env \<Rightarrow> u8 list \<Rightarrow> bool \<Rightarrow> disk_image_params list \<Rightarrow> devices \<Rightarrow> (int \<times> devices) run" where
  "device_initialize e stk virtio_legacy images d =
     (if MAX_DISK_IMAGES < length images then Wild
      else
        bind_run init_lists (\<lambda>ls.
          bind_run (init_list__init (init_call e stk virtio_legacy) ls
              (d\<lparr>dv_kvm := Kvm_at \<lparr>kv_params = images, kv_disks = []\<rparr>\<rparr>)) (\<lambda>(rc, d').
            if rc < 0 then Done (rc, d'\<lparr>dv_kvm := Kvm_freed\<rparr>) else Done (0, d'))))"

text \<open>The disks are returned too, as they were closed.\<close>

definition device_teardown :: "env \<Rightarrow> devices \<Rightarrow> (disk_image ptr list \<times> devices) run" where
  "device_teardown e d =
     (case dv_kvm d of
        Kvm_null \<Rightarrow> Done ([], d)
      | Kvm_freed \<Rightarrow> Wild
      | Kvm_at k \<Rightarrow>
          bind_run exit_lists (\<lambda>ls.
            bind_run (init_list__exit (exit_call e) ls d) (\<lambda>(r, d').
              bind_run (the_kvm d') (\<lambda>k'. Done (kv_disks k', d'\<lparr>dv_kvm := Kvm_null\<rparr>)))))"

subsection \<open>The order of the steps\<close>

lemma init_lists_eq:
  "init_lists = Done [[], [], [], [], [Disk_image__init], [], [Virtio_blk__init], [], [], []]"
  by (simp add: init_lists_def init_list_add_def no_items_def c_simps eval_nat_numeral)

lemma exit_lists_eq:
  "exit_lists = Done [[], [], [], [], [Disk_image__exit], [], [Virtio_blk__exit], [], [], []]"
  by (simp add: exit_lists_def init_list_add_def no_items_def c_simps eval_nat_numeral)

text \<open>Items of different priorities may be added in any order.\<close>

lemma init_list_add_commute:
  "p \<noteq> q \<Longrightarrow> bind_run (init_list_add t p ls) (init_list_add u q) = bind_run (init_list_add u q ls) (init_list_add t p)"
  by (simp add: init_list_add_def list_update_swap)

lemma run_list_append:
  "\<not> r < 0 \<or> l \<noteq> [] \<Longrightarrow> run_list call r (l @ ts) s =
      bind_run (run_list call r l s) (\<lambda>(r', s'). if r' < 0 then Done (r', s') else run_list call r' ts s')"
proof (induction l arbitrary: r s)
  case (Cons t l)
  then show ?case by (auto simp: bind_run_assoc intro!: bind_run_cong)
qed simp

lemma run_lists_concat: "\<not> r < 0 \<Longrightarrow> run_lists call r ls s = run_list call r (concat ls) s"
proof (induction ls arbitrary: r s)
  case (Cons l ls)
  then show ?case by (auto simp: run_list_append intro!: bind_run_cong)
qed simp

end
