(* ===== verification/Demu.thy ===== *)
theory Demu
  imports XsDev Device
begin

text \<open>
  The life of a connection and the requests of the guest (\<^verbatim>\<open>demu.c\<close>): the steps of
  \<open>demu_initialize\<close>, the sequence number that says how far they came, \<open>demu_teardown\<close>, and the
  dispatch of the requests in the page that the hypervisor shares.  The Xen libraries are the record
  \<open>xen\<close> of their answers; \<open>held\<close> is the ledger of what the program has acquired from them, and
  \<open>bad\<close> lists what it gave back without having it.
\<close>

subsection \<open>The sequence\<close>

datatype demu_seq =
  DEMU_SEQ_UNINITIALIZED | DEMU_SEQ_XENSTORE_ATTACHED | DEMU_SEQ_XENEVTCHN_OPEN
| DEMU_SEQ_XENFOREIGNMEMORY_OPEN | DEMU_SEQ_XENDEVICEMODEL_OPEN | DEMU_SEQ_XENGNTTAB_OPEN
| DEMU_SEQ_SERVER_REGISTERED | DEMU_SEQ_RESOURCE_MAPPED | DEMU_SEQ_SERVER_ENABLED
| DEMU_SEQ_PORT_ARRAY_ALLOCATED | DEMU_SEQ_PORTS_BOUND | DEMU_SEQ_DEVICE_INITIALIZED | DEMU_SEQ_INITIALIZED

fun seq_number :: "demu_seq \<Rightarrow> nat" where
  "seq_number DEMU_SEQ_UNINITIALIZED = 0"
| "seq_number DEMU_SEQ_XENSTORE_ATTACHED = 1"
| "seq_number DEMU_SEQ_XENEVTCHN_OPEN = 2"
| "seq_number DEMU_SEQ_XENFOREIGNMEMORY_OPEN = 3"
| "seq_number DEMU_SEQ_XENDEVICEMODEL_OPEN = 4"
| "seq_number DEMU_SEQ_XENGNTTAB_OPEN = 5"
| "seq_number DEMU_SEQ_SERVER_REGISTERED = 6"
| "seq_number DEMU_SEQ_RESOURCE_MAPPED = 7"
| "seq_number DEMU_SEQ_SERVER_ENABLED = 8"
| "seq_number DEMU_SEQ_PORT_ARRAY_ALLOCATED = 9"
| "seq_number DEMU_SEQ_PORTS_BOUND = 10"
| "seq_number DEMU_SEQ_DEVICE_INITIALIZED = 11"
| "seq_number DEMU_SEQ_INITIALIZED = 12"

fun seq_succ :: "demu_seq \<Rightarrow> demu_seq" where
  "seq_succ DEMU_SEQ_UNINITIALIZED = DEMU_SEQ_XENSTORE_ATTACHED"
| "seq_succ DEMU_SEQ_XENSTORE_ATTACHED = DEMU_SEQ_XENEVTCHN_OPEN"
| "seq_succ DEMU_SEQ_XENEVTCHN_OPEN = DEMU_SEQ_XENFOREIGNMEMORY_OPEN"
| "seq_succ DEMU_SEQ_XENFOREIGNMEMORY_OPEN = DEMU_SEQ_XENDEVICEMODEL_OPEN"
| "seq_succ DEMU_SEQ_XENDEVICEMODEL_OPEN = DEMU_SEQ_XENGNTTAB_OPEN"
| "seq_succ DEMU_SEQ_XENGNTTAB_OPEN = DEMU_SEQ_SERVER_REGISTERED"
| "seq_succ DEMU_SEQ_SERVER_REGISTERED = DEMU_SEQ_RESOURCE_MAPPED"
| "seq_succ DEMU_SEQ_RESOURCE_MAPPED = DEMU_SEQ_SERVER_ENABLED"
| "seq_succ DEMU_SEQ_SERVER_ENABLED = DEMU_SEQ_PORT_ARRAY_ALLOCATED"
| "seq_succ DEMU_SEQ_PORT_ARRAY_ALLOCATED = DEMU_SEQ_PORTS_BOUND"
| "seq_succ DEMU_SEQ_PORTS_BOUND = DEMU_SEQ_DEVICE_INITIALIZED"
| "seq_succ DEMU_SEQ_DEVICE_INITIALIZED = DEMU_SEQ_INITIALIZED"
| "seq_succ DEMU_SEQ_INITIALIZED = DEMU_SEQ_INITIALIZED"

lemma seq_number_inj: "seq_number a = seq_number b \<Longrightarrow> a = b"
  by (cases a; cases b) simp_all

instantiation demu_seq :: linorder
begin

definition less_eq_demu_seq :: "demu_seq \<Rightarrow> demu_seq \<Rightarrow> bool" where
  "less_eq_demu_seq a b \<longleftrightarrow> seq_number a \<le> seq_number b"

definition less_demu_seq :: "demu_seq \<Rightarrow> demu_seq \<Rightarrow> bool" where
  "less_demu_seq a b \<longleftrightarrow> seq_number a < seq_number b"

instance
  by standard (auto simp: less_eq_demu_seq_def less_demu_seq_def dest: seq_number_inj)

end

lemmas seq_order = less_eq_demu_seq_def less_demu_seq_def

subsection \<open>State\<close>

datatype ioreq_dir = IOREQ_READ | IOREQ_WRITE
datatype ioreq_type = IOREQ_TYPE_COPY | IOREQ_TYPE_INVALIDATE | IOREQ_TYPE_OTHER
datatype ioreq_state = STATE_IOREQ_NONE | STATE_IOREQ_READY | STATE_IOREQ_INPROCESS | STATE_IORESP_READY

record ioreq =
  io_addr :: u64
  io_data :: u64
  io_size :: u32
  io_is_ptr :: bool
  io_dir :: ioreq_dir
  io_type :: ioreq_type
  io_state :: ioreq_state
  vp_eport :: u32

datatype resource =
  Evtchn_handle | Foreignmemory_handle | Devicemodel_handle | Gnttab_handle | Ioreq_server u16
| Shared_iopage | Server_enabled u16 | Port_array | Bound_port u32

record xen =
  evtchn_opens :: bool
  foreignmemory_opens :: bool
  devicemodel_opens :: bool
  gnttab_opens :: bool
  nr_vcpus :: "u32 option"
  new_server :: "u16 option"
  iopage :: "ioreq list option"
  enables :: bool
  port_array :: bool
  bind_port :: "u32 \<Rightarrow> int"

text \<open>The array \<open>disk_image\<close>, with the names of the files.\<close>

record image_conf =
  im_file :: "string option"
  im_readonly :: bool
  im_addr :: u32
  im_irq :: u32

record 'x demu =
  seq :: demu_seq
  store :: 'x
  xdev :: xs_dev
  images :: "image_conf list"
  image_count :: nat
  domid :: u16
  be_domid :: u16
  ioservid :: u16
  page :: "ioreq list"
  ports :: "u32 list"
  notified :: "u32 list"
  devs :: devices
  held :: "resource list"
  bad :: "resource list"

definition hold :: "resource \<Rightarrow> 'x demu \<Rightarrow> 'x demu" where
  "hold r d = d\<lparr>held := r # held d\<rparr>"

definition release :: "resource \<Rightarrow> 'x demu \<Rightarrow> 'x demu" where
  "release r d = (if r \<in> set (held d) then d\<lparr>held := remove1 r (held d)\<rparr> else d\<lparr>bad := r # bad d\<rparr>)"

subsection \<open>Initialisation\<close>

definition demu_seq_next :: "'x demu \<Rightarrow> 'x demu run" where
  "demu_seq_next d =
     (if seq d < DEMU_SEQ_INITIALIZED then Done (d\<lparr>seq := seq_succ (seq d)\<rparr>) else Abort)"

text \<open>The callback of \<open>xenstore_connect_dom\<close> fills in the first element of the array.\<close>

definition demu_read_xenstore_config ::
  "'x xs_ops \<Rightarrow> 'x \<Rightarrow> xs_dev \<Rightarrow> image_conf list \<times> nat \<Rightarrow> int \<times> (image_conf list \<times> nat) \<times> 'x" where
  "demu_read_xenstore_config xs x xd c =
     (let ims = fst c
      in case xenstore_read_be_str xs x xd ''mode'' of
           (None, x1) \<Rightarrow> (-1, (ims, 0), x1)
         | (Some mode, x1) \<Rightarrow>
             let ims1 = ims[0 := (ims ! 0)\<lparr>im_readonly := CHR ''w'' \<notin> set mode\<rparr>]
             in case xenstore_read_be_int xs x1 xd ''base'' of
                  (None, x2) \<Rightarrow> (-1, (ims1, 0), x2)
                | (Some base, x2) \<Rightarrow>
                    let ims2 = ims1[0 := (ims1 ! 0)\<lparr>im_addr := of_int base\<rparr>]
                    in case xenstore_read_be_int xs x2 xd ''irq'' of
                         (None, x3) \<Rightarrow> (-1, (ims2, 0), x3)
                       | (Some irq, x3) \<Rightarrow>
                           let ims3 = ims2[0 := (ims2 ! 0)\<lparr>im_irq := of_int irq\<rparr>]
                           in case xenstore_read_be_str xs x3 xd ''params'' of
                                (None, x4) \<Rightarrow> (-1, (ims3, 0), x4)
                              | (Some file, x4) \<Rightarrow> (0, (ims3[0 := (ims3 ! 0)\<lparr>im_file := Some file\<rparr>], 1), x4))"

text \<open>
  A step of \<open>demu_initialize\<close> says whether it succeeded; the labels \<open>fail\<close> print a warning and return
  the error.
\<close>

type_synonym 'x init_step = "'x demu \<Rightarrow> (bool \<times> 'x demu) run"

definition and_then :: "'x init_step \<Rightarrow> 'x init_step \<Rightarrow> 'x init_step" where
  "and_then f g d = bind_run (f d) (\<lambda>(ok, d'). if ok then g d' else Done (False, d'))"

definition next_seq :: "'x init_step" where
  "next_seq d = bind_run (demu_seq_next d) (\<lambda>d'. Done (True, d'))"

definition acquire :: "bool \<Rightarrow> resource \<Rightarrow> 'x init_step" where
  "acquire ok r d = (if ok then next_seq (hold r d) else Done (False, d))"

definition connect_step :: "'x xs_ops \<Rightarrow> nat \<Rightarrow> 'x init_step" where
  "connect_step xs n d =
     bind_run (xenstore_connect_dom xs n (demu_read_xenstore_config xs) (store d) (xdev d) (be_domid d) (domid d)
         (images d, image_count d)) (\<lambda>(rc, xd, (ims, cnt), x).
       let d' = d\<lparr>store := x, xdev := xd, images := ims, image_count := cnt\<rparr>
       in if rc < 0 then Done (False, d') else next_seq d')"

definition forget_mappings_model :: "'x init_step" where
  "forget_mappings_model d =
     Done (True, d\<lparr>devs := (devs d)\<lparr>dv_machine := (dv_machine (devs d))\<lparr>gmap :=
       (gmap (dv_machine (devs d)))\<lparr>use_gnttab := -1\<rparr>\<rparr>\<rparr>\<rparr>)"

definition server_step :: "xen \<Rightarrow> 'x init_step" where
  "server_step xen d =
     (case new_server xen of
        None \<Rightarrow> Done (False, d)
      | Some i \<Rightarrow> next_seq (hold (Ioreq_server i) (d\<lparr>ioservid := i\<rparr>)))"

definition resource_step :: "xen \<Rightarrow> 'x init_step" where
  "resource_step xen d =
     (case iopage xen of
        None \<Rightarrow> Done (False, d)
      | Some p \<Rightarrow> next_seq (hold Shared_iopage (d\<lparr>page := p\<rparr>)))"

text \<open>
  The array of ports holds -1 until they are bound.  The page has a request for each virtual CPU; one
  beyond its end is \<open>Wild\<close>.
\<close>

definition array_step :: "xen \<Rightarrow> u32 \<Rightarrow> 'x init_step" where
  "array_step xen n d =
     (if port_array xen then next_seq (hold Port_array (d\<lparr>ports := replicate (unat n) (-1)\<rparr>))
      else Done (False, d))"

fun bind_ports :: "xen \<Rightarrow> nat \<Rightarrow> nat \<Rightarrow> 'x init_step" where
  "bind_ports xen i 0 d = next_seq d"
| "bind_ports xen i (Suc n) d =
     (if length (page d) \<le> i then Wild
      else
        let rc = bind_port xen (vp_eport (page d ! i))
        in if rc < 0 then Done (False, d)
           else bind_ports xen (Suc i) n (hold (Bound_port (of_int rc)) (d\<lparr>ports := (ports d)[i := of_int rc]\<rparr>)))"

definition params_of :: "(string \<Rightarrow> host_file) \<Rightarrow> image_conf \<Rightarrow> disk_image_params" where
  "params_of host im =
     \<lparr>pr_file = map_option host (im_file im), pr_readonly = im_readonly im, pr_addr = im_addr im, pr_irq = im_irq im\<rparr>"

definition devices_step :: "env \<Rightarrow> u8 list \<Rightarrow> bool \<Rightarrow> (string \<Rightarrow> host_file) \<Rightarrow> 'x init_step" where
  "devices_step e stk virtio_legacy host d =
     bind_run (device_initialize e stk virtio_legacy (map (params_of host) (take (image_count d) (images d))) (devs d)) (\<lambda>(rc, dv).
       let d' = d\<lparr>devs := dv\<rparr> in if rc < 0 then Done (False, d') else next_seq d')"

definition init_steps ::
  "env \<Rightarrow> u8 list \<Rightarrow> bool \<Rightarrow> (string \<Rightarrow> host_file) \<Rightarrow> 'x xs_ops \<Rightarrow> xen \<Rightarrow> 'x init_step" where
  "init_steps e stk virtio_legacy host xs xen =
     and_then (connect_step xs (io_fuel e))
     (and_then (acquire (evtchn_opens xen) Evtchn_handle)
     (and_then (acquire (foreignmemory_opens xen) Foreignmemory_handle)
     (and_then (acquire (devicemodel_opens xen) Devicemodel_handle)
     (and_then forget_mappings_model
     (and_then (acquire (gnttab_opens xen) Gnttab_handle)
     (\<lambda>d. case nr_vcpus xen of
        None \<Rightarrow> Done (False, d)
      | Some n \<Rightarrow>
          and_then (server_step xen)
          (and_then (resource_step xen)
          (and_then (\<lambda>d. acquire (enables xen) (Server_enabled (ioservid d)) d)
          (and_then (array_step xen n)
          (and_then (bind_ports xen 0 (unat n))
          (and_then (devices_step e stk virtio_legacy host) next_seq))))) d))))))"

definition demu_initialize ::
  "env \<Rightarrow> u8 list \<Rightarrow> bool \<Rightarrow> (string \<Rightarrow> host_file) \<Rightarrow> 'x xs_ops \<Rightarrow> xen \<Rightarrow> 'x demu \<Rightarrow> (int \<times> 'x demu) run" where
  "demu_initialize e stk virtio_legacy host xs xen d =
     bind_run (init_steps e stk virtio_legacy host xs xen d) (\<lambda>(ok, d').
       if \<not> ok then Done (-1, d')
       else if seq d' = DEMU_SEQ_INITIALIZED then Done (0, d') else Abort)"

subsection \<open>Teardown\<close>

definition down_devices :: "env \<Rightarrow> 'x demu \<Rightarrow> 'x demu run" where
  "down_devices e d =
     (let d1 = (if seq d = DEMU_SEQ_INITIALIZED then d\<lparr>seq := DEMU_SEQ_DEVICE_INITIALIZED\<rparr> else d)
      in if seq d1 = DEMU_SEQ_DEVICE_INITIALIZED then
           bind_run (device_teardown e (devs d1)) (\<lambda>(ds, dv). Done (d1\<lparr>devs := dv, seq := DEMU_SEQ_PORTS_BOUND\<rparr>))
         else Done d1)"

definition down_ports :: "'x demu \<Rightarrow> 'x demu" where
  "down_ports d =
     (if seq d \<ge> DEMU_SEQ_PORTS_BOUND then d\<lparr>seq := DEMU_SEQ_PORT_ARRAY_ALLOCATED\<rparr> else d)"

text \<open>A port is an unsigned number, so the test for a bound one holds for every element.\<close>

definition unbind :: "u32 \<Rightarrow> 'x demu \<Rightarrow> 'x demu" where
  "unbind port d = (if port \<ge> 0 then release (Bound_port port) d else d)"

definition down_array :: "'x demu \<Rightarrow> 'x demu" where
  "down_array d =
     (if seq d \<ge> DEMU_SEQ_PORT_ARRAY_ALLOCATED then
        (release Port_array (fold unbind (ports d) d))\<lparr>ports := [], seq := DEMU_SEQ_SERVER_ENABLED\<rparr>
      else d)"

definition down_enabled :: "'x demu \<Rightarrow> 'x demu" where
  "down_enabled d =
     (if seq d = DEMU_SEQ_SERVER_ENABLED then
        (release (Server_enabled (ioservid d)) d)\<lparr>seq := DEMU_SEQ_RESOURCE_MAPPED\<rparr>
      else d)"

definition down_to :: "demu_seq \<Rightarrow> demu_seq \<Rightarrow> resource \<Rightarrow> 'x demu \<Rightarrow> 'x demu" where
  "down_to s s' r d = (if seq d \<ge> s then (release r d)\<lparr>seq := s'\<rparr> else d)"

definition down_xenstore :: "'x xs_ops \<Rightarrow> 'x demu \<Rightarrow> 'x demu" where
  "down_xenstore xs d =
     (if seq d \<ge> DEMU_SEQ_XENSTORE_ATTACHED then
        (case xenstore_disconnect_dom xs (store d) (xdev d) of
           (xd, x) \<Rightarrow> d\<lparr>images := map (\<lambda>im. im\<lparr>im_file := None\<rparr>) (images d), xdev := xd, store := x,
             seq := DEMU_SEQ_UNINITIALIZED\<rparr>)
      else d)"

definition down_xen :: "'x demu \<Rightarrow> 'x demu" where
  "down_xen d =
     (let d1 = down_enabled (down_array (down_ports d));
          d2 = down_to DEMU_SEQ_RESOURCE_MAPPED DEMU_SEQ_SERVER_REGISTERED Shared_iopage d1;
          d3 = down_to DEMU_SEQ_SERVER_REGISTERED DEMU_SEQ_XENGNTTAB_OPEN (Ioreq_server (ioservid d2)) d2;
          d4 = down_to DEMU_SEQ_XENGNTTAB_OPEN DEMU_SEQ_XENDEVICEMODEL_OPEN Gnttab_handle d3;
          d5 = down_to DEMU_SEQ_XENDEVICEMODEL_OPEN DEMU_SEQ_XENFOREIGNMEMORY_OPEN Devicemodel_handle d4;
          d6 = down_to DEMU_SEQ_XENFOREIGNMEMORY_OPEN DEMU_SEQ_XENEVTCHN_OPEN Foreignmemory_handle d5
      in down_to DEMU_SEQ_XENEVTCHN_OPEN DEMU_SEQ_XENSTORE_ATTACHED Evtchn_handle d6)"

definition demu_teardown :: "env \<Rightarrow> 'x xs_ops \<Rightarrow> 'x demu \<Rightarrow> 'x demu run" where
  "demu_teardown e xs d = bind_run (down_devices e d) (\<lambda>d'. Done (down_xenstore xs (down_xen d')))"

subsection \<open>Requests\<close>

text \<open>A handler gets the state of the device its range points to; a dangling pointer is \<open>Wild\<close>.\<close>

definition put_slot :: "nat \<Rightarrow> blk_slot \<Rightarrow> bdevs \<Rightarrow> bdevs" where
  "put_slot k sl bs = map (\<lambda>(j, x). (j, if j = k then sl else x)) bs"

definition with_device :: "nat \<Rightarrow> devices \<Rightarrow> (blk \<Rightarrow> ('a \<times> blk) run) \<Rightarrow> ('a \<times> devices) run" where
  "with_device k d f =
     (case map_of (dv_bdevs d) k of
        None \<Rightarrow> Wild
      | Some sl \<Rightarrow>
          bind_run (f (with_slot (dv_machine d) sl)) (\<lambda>(a, s).
            Done (a, d\<lparr>dv_machine := machine.truncate s, dv_bdevs := put_slot k (slot_of s) (dv_bdevs d)\<rparr>)))"

definition mmio_call :: "env \<Rightarrow> devices \<Rightarrow> demu_space \<Rightarrow> u64 \<Rightarrow> u64 \<Rightarrow> u32 \<Rightarrow> bool \<Rightarrow> (u64 \<times> devices) run" where
  "mmio_call e d sp addr data len is_write =
     with_device (sp_ptr sp) d (\<lambda>s.
       case sp_fn sp of
         Virtio_mmio_legacy_callback \<Rightarrow>
           virtio_mmio_legacy_callback e (blk_dev_virtio_ops e) s addr data len is_write
       | Virtio_mmio_modern_callback \<Rightarrow>
           virtio_mmio_modern_callback e (blk_dev_virtio_ops e) s addr data len is_write)"

definition demu_handle_io :: "env \<Rightarrow> devices \<Rightarrow> ioreq \<Rightarrow> (ioreq \<times> devices) run" where
  "demu_handle_io e d r =
     (case demu_find_memory_space (dv_machine d) (io_addr r) of
        None \<Rightarrow> Done (r, d)
      | Some sp \<Rightarrow>
          if io_is_ptr r then Abort
          else (case io_dir r of
                  IOREQ_READ \<Rightarrow>
                    bind_run (mmio_call e d sp (io_addr r) 0 (io_size r) False) (\<lambda>(data, d').
                      Done (r\<lparr>io_data := data\<rparr>, d'))
                | IOREQ_WRITE \<Rightarrow>
                    bind_run (mmio_call e d sp (io_addr r) (io_data r) (io_size r) True) (\<lambda>(data, d').
                      Done (r, d'))))"

definition demu_handle_ioreq :: "env \<Rightarrow> devices \<Rightarrow> ioreq \<Rightarrow> (ioreq \<times> devices) run" where
  "demu_handle_ioreq e d r =
     (case io_type r of IOREQ_TYPE_COPY \<Rightarrow> demu_handle_io e d r | _ \<Rightarrow> Done (r, d))"

text \<open>\<open>notified\<close> lists the ports on which the hypervisor was told of an answer, latest first.\<close>

definition demu_poll_shared_iopage :: "env \<Rightarrow> nat \<Rightarrow> 'x demu \<Rightarrow> 'x demu run" where
  "demu_poll_shared_iopage e i d =
     (if seq d \<noteq> DEMU_SEQ_INITIALIZED then Done d
      else if length (page d) \<le> i then Wild
      else if io_state (page d ! i) \<noteq> STATE_IOREQ_READY then Done d
      else
        bind_run (demu_handle_ioreq e (devs d) ((page d ! i)\<lparr>io_state := STATE_IOREQ_INPROCESS\<rparr>)) (\<lambda>(r, dv).
          Done (d\<lparr>devs := dv, page := (page d)[i := r\<lparr>io_state := STATE_IORESP_READY\<rparr>],
            notified := ports d ! i # notified d\<rparr>)))"

fun poll_ports :: "env \<Rightarrow> u32 \<Rightarrow> nat list \<Rightarrow> 'x demu \<Rightarrow> 'x demu run" where
  "poll_ports e port [] d = Done d"
| "poll_ports e port (i # is) d =
     bind_run (if port = ports d ! i then demu_poll_shared_iopage e i d else Done d) (poll_ports e port is)"

text \<open>
  \<open>pending\<close> is the answer of \<open>xenevtchn_pending\<close>, kept in an unsigned variable; the number of virtual
  CPUs is the length of the array of ports.
\<close>

definition demu_poll_iopages :: "env \<Rightarrow> int \<Rightarrow> 'x demu \<Rightarrow> 'x demu run" where
  "demu_poll_iopages e pending d =
     (if seq d \<noteq> DEMU_SEQ_INITIALIZED then Done d
      else
        let port = of_int pending :: u32
        in if port < 0 then Done d else poll_ports e port [0..<length (ports d)] d)"

text \<open>
  One round of the inner loop of \<open>main\<close>, after \<open>select\<close> has said what is ready: the event channel with
  a pending port, and the connection to the store.  The round says whether the loop goes on.
\<close>

definition main_round :: "env \<Rightarrow> 'x xs_ops \<Rightarrow> int option \<Rightarrow> bool \<Rightarrow> 'x demu \<Rightarrow> (bool \<times> 'x demu) run" where
  "main_round e xs efd xfd d =
     bind_run (case efd of None \<Rightarrow> Done d | Some pending \<Rightarrow> demu_poll_iopages e pending d) (\<lambda>d1.
       if \<not> xfd then Done (True, d1)
       else bind_run (xenstore_poll_watches xs (store d1) (xdev d1)) (\<lambda>(rc, x).
         Done (\<not> rc < 0, d1\<lparr>store := x\<rparr>)))"

end
