(* ===== verification/DemuLedger.thy ===== *)
theory DemuLedger
  imports Demu "HOL-Library.Multiset"
begin

text \<open>
  The ledger of what the program holds, over the sequence of its initialisation: the steps of
  \<open>demu_initialize\<close> keep it equal to what the sequence number says, and \<open>demu_teardown\<close> empties it from
  any point.
\<close>

subsection \<open>The ledger\<close>

text \<open>What the program holds at a point of the sequence; from the point on where the ports are bound, all are.\<close>

definition bound_ports :: "u32 list \<Rightarrow> resource multiset" where
  "bound_ports ps = mset (map Bound_port (filter (\<lambda>p. p \<noteq> -1) ps))"

definition held_at :: "demu_seq \<Rightarrow> u16 \<Rightarrow> u32 list \<Rightarrow> resource multiset" where
  "held_at s i ps =
     (if s \<ge> DEMU_SEQ_XENEVTCHN_OPEN then {#Evtchn_handle#} else {#}) +
     (if s \<ge> DEMU_SEQ_XENFOREIGNMEMORY_OPEN then {#Foreignmemory_handle#} else {#}) +
     (if s \<ge> DEMU_SEQ_XENDEVICEMODEL_OPEN then {#Devicemodel_handle#} else {#}) +
     (if s \<ge> DEMU_SEQ_XENGNTTAB_OPEN then {#Gnttab_handle#} else {#}) +
     (if s \<ge> DEMU_SEQ_SERVER_REGISTERED then {#Ioreq_server i#} else {#}) +
     (if s \<ge> DEMU_SEQ_RESOURCE_MAPPED then {#Shared_iopage#} else {#}) +
     (if s \<ge> DEMU_SEQ_SERVER_ENABLED then {#Server_enabled i#} else {#}) +
     (if s \<ge> DEMU_SEQ_PORT_ARRAY_ALLOCATED then add_mset Port_array (bound_ports ps) else {#})"

definition ledger :: "'x demu \<Rightarrow> bool" where
  "ledger d \<longleftrightarrow> mset (held d) = held_at (seq d) (ioservid d) (ports d) \<and>
     (seq d \<ge> DEMU_SEQ_PORTS_BOUND \<longrightarrow> -1 \<notin> set (ports d))"

lemma held_at_simps:
  "held_at DEMU_SEQ_UNINITIALIZED i ps = {#}"
  "held_at DEMU_SEQ_XENSTORE_ATTACHED i ps = {#}"
  "held_at DEMU_SEQ_XENEVTCHN_OPEN i ps = {#Evtchn_handle#}"
  "held_at DEMU_SEQ_XENFOREIGNMEMORY_OPEN i ps = add_mset Foreignmemory_handle (held_at DEMU_SEQ_XENEVTCHN_OPEN i ps)"
  "held_at DEMU_SEQ_XENDEVICEMODEL_OPEN i ps = add_mset Devicemodel_handle (held_at DEMU_SEQ_XENFOREIGNMEMORY_OPEN i ps)"
  "held_at DEMU_SEQ_XENGNTTAB_OPEN i ps = add_mset Gnttab_handle (held_at DEMU_SEQ_XENDEVICEMODEL_OPEN i ps)"
  "held_at DEMU_SEQ_SERVER_REGISTERED i ps = add_mset (Ioreq_server i) (held_at DEMU_SEQ_XENGNTTAB_OPEN i ps)"
  "held_at DEMU_SEQ_RESOURCE_MAPPED i ps = add_mset Shared_iopage (held_at DEMU_SEQ_SERVER_REGISTERED i ps)"
  "held_at DEMU_SEQ_SERVER_ENABLED i ps = add_mset (Server_enabled i) (held_at DEMU_SEQ_RESOURCE_MAPPED i ps)"
  "held_at DEMU_SEQ_PORT_ARRAY_ALLOCATED i ps =
     add_mset Port_array (held_at DEMU_SEQ_SERVER_ENABLED i ps) + bound_ports ps"
  "held_at DEMU_SEQ_PORTS_BOUND i ps = held_at DEMU_SEQ_PORT_ARRAY_ALLOCATED i ps"
  "held_at DEMU_SEQ_DEVICE_INITIALIZED i ps = held_at DEMU_SEQ_PORT_ARRAY_ALLOCATED i ps"
  "held_at DEMU_SEQ_INITIALIZED i ps = held_at DEMU_SEQ_PORT_ARRAY_ALLOCATED i ps"
  by (simp_all add: held_at_def seq_order add_mset_commute)

lemma held_at_frame:
  "s < DEMU_SEQ_SERVER_REGISTERED \<Longrightarrow> held_at s i ps = held_at s j qs"
  "s < DEMU_SEQ_PORT_ARRAY_ALLOCATED \<Longrightarrow> held_at s i ps = held_at s i qs"
  by (auto simp: held_at_def seq_order)

text \<open>
  Reasoning about the steps: from a state with \<open>P\<close> a step that returns ends in one with \<open>Q\<close> when it succeeds,
  and with \<open>R\<close> when it fails.
\<close>

definition triple :: "('x demu \<Rightarrow> bool) \<Rightarrow> 'x init_step \<Rightarrow> ('x demu \<Rightarrow> bool) \<Rightarrow> ('x demu \<Rightarrow> bool) \<Rightarrow> bool" where
  "triple P f Q R \<longleftrightarrow> (\<forall>d ok d'. P d \<and> f d = Done (ok, d') \<longrightarrow> (if ok then Q d' else R d'))"

lemma tripleI: "(\<And>d ok d'. P d \<Longrightarrow> f d = Done (ok, d') \<Longrightarrow> if ok then Q d' else R d') \<Longrightarrow> triple P f Q R"
  unfolding triple_def by blast

lemma tripleD: "triple P f Q R \<Longrightarrow> P d \<Longrightarrow> f d = Done (ok, d') \<Longrightarrow> if ok then Q d' else R d'"
  unfolding triple_def by blast

lemma triple_then:
  assumes f: "triple P f Q R" and g: "triple Q g Q' R" shows "triple P (and_then f g) Q' R"
proof (rule tripleI)
  fix d :: "'a demu" and ok d'
  assume p: "P d" and r: "and_then f g d = Done (ok, d')"
  obtain ok1 d1 where 1: "f d = Done (ok1, d1)" "(if ok1 then g d1 else Done (False, d1)) = Done (ok, d')"
    using r by (auto simp: and_then_def bind_run_Done_iff)
  have a1: "if ok1 then Q d1 else R d1" by (rule tripleD [OF f p 1(1)])
  show "if ok then Q' d' else R d'"
  proof (cases ok1)
    case True
    then show ?thesis using tripleD [OF g] a1 1(2) by simp
  next
    case False
    then show ?thesis using a1 1(2) by auto
  qed
qed

lemma and_then_assoc: "and_then (and_then f g) h = and_then f (and_then g h)"
  by (rule ext) (auto simp: and_then_def bind_run_assoc intro!: bind_run_cong)

text \<open>The assertions between the steps of \<open>demu_initialize\<close>: what they need is a triple for each step.\<close>

lemma init_steps_triple:
  assumes "triple P (connect_step xs (io_fuel e)) P R" and "\<And>b r. triple P (acquire b r) P R"
    and "triple P forget_mappings_model P R" and "triple P (server_step xen) P R"
    and "triple P (resource_step xen) A R"
    and "\<And>b. triple A (\<lambda>d. acquire b (Server_enabled (ioservid d)) d) A R"
    and "\<And>n. nr_vcpus xen = Some n \<Longrightarrow> triple A (and_then (array_step xen n) (bind_ports xen 0 (unat n))) B R"
    and "triple B (devices_step e stk leg host) C R" and "triple C next_seq Q R" and "\<And>d. P d \<Longrightarrow> R d"
  shows "triple P (init_steps e stk leg host xs xen) Q R"
proof -
  have "triple P (\<lambda>d. case nr_vcpus xen of
        None \<Rightarrow> Done (False, d)
      | Some n \<Rightarrow>
          and_then (server_step xen)
          (and_then (resource_step xen)
          (and_then (\<lambda>d. acquire (enables xen) (Server_enabled (ioservid d)) d)
          (and_then (array_step xen n)
          (and_then (bind_ports xen 0 (unat n))
          (and_then (devices_step e stk leg host) next_seq))))) d) Q R"
  proof (cases "nr_vcpus xen")
    case None
    then show ?thesis using assms(10) by (auto simp: triple_def)
  next
    case (Some n)
    have "triple A (and_then (array_step xen n) (and_then (bind_ports xen 0 (unat n))
        (and_then (devices_step e stk leg host) next_seq))) Q R"
      unfolding and_then_assoc [symmetric]
      by (rule triple_then [OF triple_then [OF assms(7) [OF Some] assms(8)] assms(9)])
    then show ?thesis unfolding Some option.case
      by (intro triple_then [OF assms(4)] triple_then [OF assms(5)] triple_then [OF assms(6)])
  qed
  then show ?thesis unfolding init_steps_def
    by (intro triple_then [OF assms(1)] triple_then [OF assms(2)] triple_then [OF assms(3)])
qed

text \<open>A step takes the sequence from \<open>s\<close> to \<open>s'\<close> when it succeeds, and keeps the ledger in any case.\<close>

definition ledger_at :: "demu_seq \<Rightarrow> resource list \<Rightarrow> 'x demu \<Rightarrow> bool" where
  "ledger_at s B d \<longleftrightarrow> seq d = s \<and> ledger d \<and> bad d = B"

definition ledger_below :: "resource list \<Rightarrow> 'x demu \<Rightarrow> bool" where
  "ledger_below B d \<longleftrightarrow> seq d < DEMU_SEQ_DEVICE_INITIALIZED \<and> ledger d \<and> bad d = B"

definition step_ok :: "demu_seq \<Rightarrow> 'x init_step \<Rightarrow> demu_seq \<Rightarrow> bool" where
  "step_ok s f s' \<longleftrightarrow> (\<forall>B. triple (ledger_at s B) f (ledger_at s' B) (ledger_below B))"

lemma step_okI:
  "(\<And>d ok d'. seq d = s \<Longrightarrow> ledger d \<Longrightarrow> f d = Done (ok, d') \<Longrightarrow>
      ledger d' \<and> bad d' = bad d \<and> (if ok then seq d' = s' else seq d' < DEMU_SEQ_DEVICE_INITIALIZED)) \<Longrightarrow> step_ok s f s'"
  unfolding step_ok_def triple_def ledger_at_def ledger_below_def by (metis (full_types))

lemma step_okD:
  assumes "step_ok s f s'" "seq d = s" "ledger d" "f d = Done (ok, d')"
  shows "ledger d' \<and> bad d' = bad d \<and> (if ok then seq d' = s' else seq d' < DEMU_SEQ_DEVICE_INITIALIZED)"
proof -
  have "triple (ledger_at s (bad d)) f (ledger_at s' (bad d)) (ledger_below (bad d))"
    using assms(1) by (simp add: step_ok_def)
  from tripleD [OF this _ assms(4)] show ?thesis
    using assms(2,3) by (auto simp: ledger_at_def ledger_below_def split: if_splits)
qed

lemma step_ok_then: "step_ok s f s1 \<Longrightarrow> step_ok s1 g s' \<Longrightarrow> step_ok s (and_then f g) s'"
  unfolding step_ok_def using triple_then by blast

lemma next_seq_result:
  "next_seq d = Done (ok, d') \<Longrightarrow> ok \<and> seq d < DEMU_SEQ_INITIALIZED \<and> d' = d\<lparr>seq := seq_succ (seq d)\<rparr>"
  by (auto simp: next_seq_def demu_seq_next_def bind_run_Done_iff split: if_splits)

lemma acquire_ok:
  assumes "\<And>i ps. held_at (seq_succ s) i ps = add_mset r (held_at s i ps)" and "s < DEMU_SEQ_SERVER_ENABLED" and "seq_number (seq_succ s) = Suc (seq_number s)"
  shows "step_ok s (acquire b r) (seq_succ s)"
  by (rule step_okI)
    (use assms in \<open>auto simp: acquire_def ledger_def hold_def seq_order dest!: next_seq_result split: if_splits\<close>)

lemma connect_ok: "step_ok DEMU_SEQ_UNINITIALIZED (connect_step xs n) DEMU_SEQ_XENSTORE_ATTACHED"
  by (rule step_okI)
    (auto simp: connect_step_def Let_def bind_run_Done_iff ledger_def held_at_simps seq_order
      dest!: next_seq_result split: if_splits prod.splits)

lemma forget_ok: "step_ok s forget_mappings_model s"
  by (rule step_okI) (auto simp: forget_mappings_model_def ledger_def)

lemma server_ok: "step_ok DEMU_SEQ_XENGNTTAB_OPEN (server_step xen) DEMU_SEQ_SERVER_REGISTERED"
  by (rule step_okI)
    (auto simp: server_step_def ledger_def hold_def held_at_simps seq_order dest!: next_seq_result split: option.splits)

lemma resource_ok: "step_ok DEMU_SEQ_SERVER_REGISTERED (resource_step xen) DEMU_SEQ_RESOURCE_MAPPED"
  by (rule step_okI)
    (auto simp: resource_step_def ledger_def hold_def held_at_simps seq_order dest!: next_seq_result split: option.splits)

lemma enable_ok: "step_ok DEMU_SEQ_RESOURCE_MAPPED (\<lambda>d. acquire b (Server_enabled (ioservid d)) d) DEMU_SEQ_SERVER_ENABLED"
  by (rule step_okI)
    (auto simp: acquire_def ledger_def hold_def held_at_simps seq_order dest!: next_seq_result split: if_splits)

lemma array_ok: "step_ok DEMU_SEQ_SERVER_ENABLED (array_step xen n) DEMU_SEQ_PORT_ARRAY_ALLOCATED"
  by (rule step_okI)
    (auto simp: array_step_def ledger_def hold_def held_at_simps bound_ports_def seq_order dest!: next_seq_result split: if_splits)

text \<open>A port is a non-negative \<open>int\<close>, as the library documents.\<close>

definition valid_ports :: "xen \<Rightarrow> bool" where
  "valid_ports xen \<longleftrightarrow> (\<forall>p. bind_port xen p < 2 ^ 31)"

lemma bound_ports_bind:
  assumes "i < length ps" "ps ! i = -1" "p \<noteq> -1"
  shows "bound_ports (ps[i := p]) = add_mset (Bound_port p) (bound_ports ps)"
proof -
  have "mset (ps[i := p]) = add_mset p (mset ps - {#-1#})"
    using assms(1,2) by (simp add: mset_update)
  moreover have "bound_ports qs = image_mset Bound_port (filter_mset (\<lambda>p. p \<noteq> -1) (mset qs))" for qs
    by (simp add: bound_ports_def)
  ultimately show ?thesis using assms(3) by simp
qed

lemma bind_ok:
  assumes "valid_ports xen" and "\<forall>j. i \<le> j \<and> j < i + n \<longrightarrow> j < length (ports d) \<and> ports d ! j = -1"
    and "seq d = DEMU_SEQ_PORT_ARRAY_ALLOCATED" and "ledger d" and "bind_ports xen i n d = Done (ok, d')"
    and "length (ports d) = i + n" and "\<forall>j<i. ports d ! j \<noteq> -1"
  shows "ledger d' \<and> bad d' = bad d \<and>
    (if ok then seq d' = DEMU_SEQ_PORTS_BOUND \<and> length (ports d') = length (ports d)
     else seq d' < DEMU_SEQ_DEVICE_INITIALIZED)"
  using assms(2-)
proof (induction n arbitrary: i d)
  case 0
  then show ?case by (auto simp: ledger_def held_at_simps seq_order in_set_conv_nth dest!: next_seq_result)
next
  case (Suc n)
  let ?rc = "bind_port xen (vp_eport (page d ! i))"
  let ?d = "hold (Bound_port (of_int ?rc)) (d\<lparr>ports := (ports d)[i := of_int ?rc]\<rparr>)"
  show ?case
  proof (cases "?rc < 0")
    case True
    then show ?thesis using Suc.prems by (auto simp: Let_def seq_order split: if_splits)
  next
    case False
    have i: "i < length (ports d)" "ports d ! i = -1" using Suc.prems(1) by auto
    have b: "0 \<le> ?rc" "?rc < 2 ^ 31" using False assms(1) by (auto simp: valid_ports_def)
    have rc: "(of_int ?rc :: u32) \<noteq> -1"
    proof
      assume m: "(of_int ?rc :: u32) = -1"
      have "uint (of_int ?rc :: u32) = ?rc"
        using b by (simp add: unsigned_of_int take_bit_int_eq_self_iff)
      then show False using b unfolding m by (simp add: unsigned_minus_1_eq_mask mask_eq_exp_minus_1)
    qed
    have "bind_ports xen (Suc i) n ?d = Done (ok, d')"
      using Suc.prems(4) False by (auto simp: Let_def split: if_splits)
    moreover have "ledger ?d"
      using Suc.prems(2,3) bound_ports_bind [OF i rc] by (simp add: ledger_def hold_def held_at_simps seq_order)
    moreover have "\<forall>j. Suc i \<le> j \<and> j < Suc i + n \<longrightarrow> j < length (ports ?d) \<and> ports ?d ! j = -1"
      using Suc.prems(1) by (auto simp: hold_def)
    moreover have "length (ports ?d) = Suc i + n" "\<forall>j<Suc i. ports ?d ! j \<noteq> -1"
      using Suc.prems(5,6) rc i(1) by (auto simp: hold_def less_Suc_eq nth_list_update)
    ultimately show ?thesis using Suc.IH [of "Suc i" ?d] Suc.prems(2) by (simp add: hold_def)
  qed
qed

lemma array_bind_ok:
  assumes "valid_ports xen"
  shows "step_ok DEMU_SEQ_SERVER_ENABLED (and_then (array_step xen n) (bind_ports xen 0 (unat n))) DEMU_SEQ_PORTS_BOUND"
proof (rule step_okI)
  fix d :: "'a demu" and ok d'
  assume d: "seq d = DEMU_SEQ_SERVER_ENABLED" "ledger d"
    and r: "and_then (array_step xen n) (bind_ports xen 0 (unat n)) d = Done (ok, d')"
  obtain ok1 d1 where 1: "array_step xen n d = Done (ok1, d1)"
      "(if ok1 then bind_ports xen 0 (unat n) d1 else Done (False, d1)) = Done (ok, d')"
    using r by (auto simp: and_then_def bind_run_Done_iff)
  have a: "ledger d1 \<and> bad d1 = bad d \<and> (if ok1 then seq d1 = DEMU_SEQ_PORT_ARRAY_ALLOCATED else seq d1 < DEMU_SEQ_DEVICE_INITIALIZED)"
    by (rule step_okD [OF array_ok d 1(1)])
  show "ledger d' \<and> bad d' = bad d \<and> (if ok then seq d' = DEMU_SEQ_PORTS_BOUND else seq d' < DEMU_SEQ_DEVICE_INITIALIZED)"
  proof (cases ok1)
    case True
    then have p: "ports d1 = replicate (unat n) (-1)"
      using 1(1) by (auto simp: array_step_def hold_def dest!: next_seq_result split: if_splits)
    have b: "bind_ports xen 0 (unat n) d1 = Done (ok, d')" using 1(2) True by simp
    show ?thesis using bind_ok [OF assms, of 0 "unat n" d1 ok d'] a True b by (auto simp: p)
  next
    case False
    then show ?thesis using a 1(2) by auto
  qed
qed

lemma devices_ok: "step_ok DEMU_SEQ_PORTS_BOUND (devices_step e stk leg host) DEMU_SEQ_DEVICE_INITIALIZED"
  by (rule step_okI)
    (auto simp: devices_step_def Let_def bind_run_Done_iff ledger_def held_at_simps seq_order
      dest!: next_seq_result split: if_splits)

lemma last_ok: "step_ok DEMU_SEQ_DEVICE_INITIALIZED next_seq DEMU_SEQ_INITIALIZED"
  by (rule step_okI) (auto simp: ledger_def held_at_simps seq_order dest!: next_seq_result)

lemma init_steps_ok:
  assumes "valid_ports xen"
  shows "step_ok DEMU_SEQ_UNINITIALIZED (init_steps e stk leg host xs xen) DEMU_SEQ_INITIALIZED"
proof -
  have rest: "step_ok DEMU_SEQ_XENGNTTAB_OPEN (\<lambda>d. case nr_vcpus xen of
        None \<Rightarrow> Done (False, d)
      | Some n \<Rightarrow>
          and_then (server_step xen)
          (and_then (resource_step xen)
          (and_then (\<lambda>d. acquire (enables xen) (Server_enabled (ioservid d)) d)
          (and_then (array_step xen n)
          (and_then (bind_ports xen 0 (unat n))
          (and_then (devices_step e stk leg host) next_seq))))) d) DEMU_SEQ_INITIALIZED"
  proof (cases "nr_vcpus xen")
    case None
    then show ?thesis by (auto intro!: step_okI simp: ledger_def seq_order)
  next
    case (Some n)
    have "step_ok DEMU_SEQ_SERVER_ENABLED (and_then (and_then (array_step xen n) (bind_ports xen 0 (unat n)))
        (and_then (devices_step e stk leg host) next_seq)) DEMU_SEQ_INITIALIZED"
      by (rule step_ok_then [OF array_bind_ok [OF assms] step_ok_then [OF devices_ok last_ok]])
    then have "step_ok DEMU_SEQ_XENGNTTAB_OPEN
          (and_then (server_step xen)
          (and_then (resource_step xen)
          (and_then (\<lambda>d. acquire (enables xen) (Server_enabled (ioservid d)) d)
          (and_then (array_step xen n)
          (and_then (bind_ports xen 0 (unat n))
          (and_then (devices_step e stk leg host) next_seq)))))) DEMU_SEQ_INITIALIZED"
      unfolding and_then_assoc by (intro step_ok_then [OF server_ok] step_ok_then [OF resource_ok] step_ok_then [OF enable_ok])
    then show ?thesis by (simp add: Some)
  qed
  have acq: "step_ok DEMU_SEQ_XENSTORE_ATTACHED (acquire b Evtchn_handle) DEMU_SEQ_XENEVTCHN_OPEN"
    "step_ok DEMU_SEQ_XENEVTCHN_OPEN (acquire b Foreignmemory_handle) DEMU_SEQ_XENFOREIGNMEMORY_OPEN"
    "step_ok DEMU_SEQ_XENFOREIGNMEMORY_OPEN (acquire b Devicemodel_handle) DEMU_SEQ_XENDEVICEMODEL_OPEN"
    "step_ok DEMU_SEQ_XENDEVICEMODEL_OPEN (acquire b Gnttab_handle) DEMU_SEQ_XENGNTTAB_OPEN" for b
    using acquire_ok [of DEMU_SEQ_XENSTORE_ATTACHED Evtchn_handle b] acquire_ok [of DEMU_SEQ_XENEVTCHN_OPEN Foreignmemory_handle b]
      acquire_ok [of DEMU_SEQ_XENFOREIGNMEMORY_OPEN Devicemodel_handle b] acquire_ok [of DEMU_SEQ_XENDEVICEMODEL_OPEN Gnttab_handle b]
    by (simp_all add: held_at_simps seq_order)
  show ?thesis unfolding init_steps_def
    by (intro step_ok_then [OF connect_ok] step_ok_then [OF acq(1)] step_ok_then [OF acq(2)] step_ok_then [OF acq(3)]
        step_ok_then [OF forget_ok] step_ok_then [OF acq(4)] rest)
qed

subsection \<open>Teardown\<close>

lemma release_held:
  "mset (held d) = add_mset r M \<Longrightarrow> release r d = d\<lparr>held := remove1 r (held d)\<rparr> \<and> mset (remove1 r (held d)) = M"
  by (auto simp: release_def dest: arg_cong [where f = set_mset])

lemma unbind_all:
  assumes "mset (held d) = M + bound_ports ps" and "Bound_port (-1) \<notin># M"
  shows "\<exists>h b. fold unbind ps d = d\<lparr>held := h, bad := b\<rparr> \<and> mset h = M \<and>
    set b \<subseteq> insert (Bound_port (-1)) (set (bad d)) \<and> (-1 \<notin> set ps \<longrightarrow> b = bad d)"
  using assms(1)
proof (induction ps arbitrary: d)
  case Nil
  then show ?case by - (rule exI [of _ "held d"], rule exI [of _ "bad d"], auto simp: bound_ports_def)
next
  case (Cons p ps)
  show ?case
  proof (cases "p = -1")
    case True
    have "set (held d) = set_mset (M + bound_ports (p # ps))" using Cons.prems by (metis set_mset_mset)
    then have "unbind p d = d\<lparr>bad := Bound_port (-1) # bad d\<rparr>"
      using assms(2) by (auto simp: unbind_def release_def True bound_ports_def)
    moreover have "mset (held d) = M + bound_ports ps" using Cons.prems True by (simp add: bound_ports_def)
    ultimately show ?thesis using Cons.IH [of "d\<lparr>bad := Bound_port (-1) # bad d\<rparr>"] True by auto
  next
    case False
    then have m: "mset (held d) = add_mset (Bound_port p) (M + bound_ports ps)" using Cons.prems by (simp add: bound_ports_def)
    note rh = release_held [OF m]
    then have "unbind p d = d\<lparr>held := remove1 (Bound_port p) (held d)\<rparr>" by (simp add: unbind_def)
    then show ?thesis using Cons.IH [of "d\<lparr>held := remove1 (Bound_port p) (held d)\<rparr>"] rh False by auto
  qed
qed

lemma down_to_ok:
  assumes "ledger d" "seq d \<le> s" and "seq_number s = Suc (seq_number s')" and "s < DEMU_SEQ_PORT_ARRAY_ALLOCATED"
    and "\<And>i ps. held_at s i ps = add_mset (r i) (held_at s' i ps)"
  shows "ledger (down_to s s' (r (ioservid d)) d) \<and> seq (down_to s s' (r (ioservid d)) d) \<le> s' \<and>
    bad (down_to s s' (r (ioservid d)) d) = bad d"
proof (cases "seq d = s")
  case True
  then have m: "mset (held d) = add_mset (r (ioservid d)) (held_at s' (ioservid d) (ports d))"
    using assms(1,5) by (simp add: ledger_def)
  show ?thesis using release_held [OF m] True assms(3,4) by (auto simp: down_to_def ledger_def seq_order)
next
  case False
  then have "seq d < s" using assms(2) by simp
  then show ?thesis using assms by (auto simp: down_to_def seq_order)
qed

lemma down_ports_ok:
  "ledger d \<Longrightarrow> seq d \<le> DEMU_SEQ_PORTS_BOUND \<Longrightarrow>
     ledger (down_ports d) \<and> seq (down_ports d) \<le> DEMU_SEQ_PORT_ARRAY_ALLOCATED \<and> bad (down_ports d) = bad d \<and>
     (seq d = DEMU_SEQ_PORTS_BOUND \<longrightarrow> -1 \<notin> set (ports (down_ports d)))"
  by (cases "seq d") (auto simp: down_ports_def ledger_def held_at_simps seq_order)

lemma down_array_ok:
  assumes "ledger d" "seq d \<le> DEMU_SEQ_PORT_ARRAY_ALLOCATED"
  shows "ledger (down_array d) \<and> seq (down_array d) \<le> DEMU_SEQ_SERVER_ENABLED \<and>
    set (bad (down_array d)) \<subseteq> insert (Bound_port (-1)) (set (bad d)) \<and>
    (-1 \<notin> set (ports d) \<or> seq d < DEMU_SEQ_PORT_ARRAY_ALLOCATED \<longrightarrow> bad (down_array d) = bad d)"
proof (cases "seq d = DEMU_SEQ_PORT_ARRAY_ALLOCATED")
  case False
  then have "seq d < DEMU_SEQ_PORT_ARRAY_ALLOCATED" using assms(2) by simp
  then show ?thesis using assms by (auto simp: down_array_def seq_order)
next
  case True
  let ?E = "held_at DEMU_SEQ_SERVER_ENABLED (ioservid d) (ports d)"
  have m: "mset (held d) = add_mset Port_array ?E + bound_ports (ports d)"
    using assms(1) True by (simp add: ledger_def held_at_simps)
  have "Bound_port (-1) \<notin># add_mset Port_array ?E" by (simp add: held_at_simps)
  then obtain h b where u: "fold unbind (ports d) d = d\<lparr>held := h, bad := b\<rparr>" "mset h = add_mset Port_array ?E"
      "set b \<subseteq> insert (Bound_port (-1)) (set (bad d))" "-1 \<notin> set (ports d) \<longrightarrow> b = bad d"
    using unbind_all [OF m] by blast
  have "release Port_array (d\<lparr>held := h, bad := b\<rparr>) = d\<lparr>held := remove1 Port_array h, bad := b\<rparr> \<and> mset (remove1 Port_array h) = ?E"
    using release_held [of "d\<lparr>held := h, bad := b\<rparr>"] u(2) by simp
  moreover have "?E = held_at DEMU_SEQ_SERVER_ENABLED (ioservid d) []" by (rule held_at_frame(2)) (simp add: seq_order)
  ultimately show ?thesis using True u by (auto simp: down_array_def ledger_def seq_order)
qed

lemma down_enabled_ok:
  assumes "ledger d" "seq d \<le> DEMU_SEQ_SERVER_ENABLED"
  shows "ledger (down_enabled d) \<and> seq (down_enabled d) \<le> DEMU_SEQ_RESOURCE_MAPPED \<and> bad (down_enabled d) = bad d"
proof -
  have "down_enabled d = down_to DEMU_SEQ_SERVER_ENABLED DEMU_SEQ_RESOURCE_MAPPED (Server_enabled (ioservid d)) d"
    using assms(2) by (cases "seq d") (auto simp: down_enabled_def down_to_def seq_order)
  then show ?thesis using down_to_ok [of d DEMU_SEQ_SERVER_ENABLED DEMU_SEQ_RESOURCE_MAPPED Server_enabled] assms
    by (simp add: held_at_simps seq_order)
qed

lemma down_xen_ok:
  assumes "ledger d" "seq d \<le> DEMU_SEQ_PORTS_BOUND"
  shows "held (down_xen d) = [] \<and> seq (down_xen d) \<le> DEMU_SEQ_XENSTORE_ATTACHED \<and>
    set (bad (down_xen d)) \<subseteq> insert (Bound_port (-1)) (set (bad d)) \<and>
    (seq d \<noteq> DEMU_SEQ_PORT_ARRAY_ALLOCATED \<longrightarrow> bad (down_xen d) = bad d)"
proof -
  note p = down_ports_ok [OF assms]
  let ?a = "down_array (down_ports d)"
  note a = down_array_ok [OF conjunct1 [OF p] conjunct1 [OF conjunct2 [OF p]]]
  let ?e = "down_enabled ?a"
  note e = down_enabled_ok [OF conjunct1 [OF a] conjunct1 [OF conjunct2 [OF a]]]
  note step = down_to_ok [OF conjunct1 conjunct1 [OF conjunct2]]
  define d2 where "d2 = down_to DEMU_SEQ_RESOURCE_MAPPED DEMU_SEQ_SERVER_REGISTERED Shared_iopage ?e"
  have 2: "ledger d2 \<and> seq d2 \<le> DEMU_SEQ_SERVER_REGISTERED \<and> bad d2 = bad ?e"
    using step [OF e e, of DEMU_SEQ_SERVER_REGISTERED "\<lambda>i. Shared_iopage"] by (simp add: d2_def held_at_simps seq_order)
  define d3 where "d3 = down_to DEMU_SEQ_SERVER_REGISTERED DEMU_SEQ_XENGNTTAB_OPEN (Ioreq_server (ioservid d2)) d2"
  have 3: "ledger d3 \<and> seq d3 \<le> DEMU_SEQ_XENGNTTAB_OPEN \<and> bad d3 = bad d2"
    using step [OF 2 2, of DEMU_SEQ_XENGNTTAB_OPEN Ioreq_server] by (simp add: d3_def held_at_simps seq_order)
  define d4 where "d4 = down_to DEMU_SEQ_XENGNTTAB_OPEN DEMU_SEQ_XENDEVICEMODEL_OPEN Gnttab_handle d3"
  have 4: "ledger d4 \<and> seq d4 \<le> DEMU_SEQ_XENDEVICEMODEL_OPEN \<and> bad d4 = bad d3"
    using step [OF 3 3, of DEMU_SEQ_XENDEVICEMODEL_OPEN "\<lambda>i. Gnttab_handle"] by (simp add: d4_def held_at_simps seq_order)
  define d5 where "d5 = down_to DEMU_SEQ_XENDEVICEMODEL_OPEN DEMU_SEQ_XENFOREIGNMEMORY_OPEN Devicemodel_handle d4"
  have 5: "ledger d5 \<and> seq d5 \<le> DEMU_SEQ_XENFOREIGNMEMORY_OPEN \<and> bad d5 = bad d4"
    using step [OF 4 4, of DEMU_SEQ_XENFOREIGNMEMORY_OPEN "\<lambda>i. Devicemodel_handle"] by (simp add: d5_def held_at_simps seq_order)
  define d6 where "d6 = down_to DEMU_SEQ_XENFOREIGNMEMORY_OPEN DEMU_SEQ_XENEVTCHN_OPEN Foreignmemory_handle d5"
  have 6: "ledger d6 \<and> seq d6 \<le> DEMU_SEQ_XENEVTCHN_OPEN \<and> bad d6 = bad d5"
    using step [OF 5 5, of DEMU_SEQ_XENEVTCHN_OPEN "\<lambda>i. Foreignmemory_handle"] by (simp add: d6_def held_at_simps seq_order)
  have x: "down_xen d = down_to DEMU_SEQ_XENEVTCHN_OPEN DEMU_SEQ_XENSTORE_ATTACHED Evtchn_handle d6"
    by (simp add: down_xen_def Let_def d2_def d3_def d4_def d5_def d6_def)
  have 7: "ledger (down_xen d) \<and> seq (down_xen d) \<le> DEMU_SEQ_XENSTORE_ATTACHED \<and> bad (down_xen d) = bad d6"
    using step [OF 6 6, of DEMU_SEQ_XENSTORE_ATTACHED "\<lambda>i. Evtchn_handle"] by (simp add: x held_at_simps seq_order)
  have "held_at (seq (down_xen d)) (ioservid (down_xen d)) (ports (down_xen d)) = {#}"
    using 7 by (cases "seq (down_xen d)") (auto simp: held_at_simps seq_order)
  then have h: "held (down_xen d) = []" using 7 by (simp add: ledger_def)
  have b: "bad (down_xen d) = bad ?a" using 2 3 4 5 6 7 e by simp
  have "bad (down_xen d) = bad d" if n: "seq d \<noteq> DEMU_SEQ_PORT_ARRAY_ALLOCATED"
  proof -
    have "seq d = DEMU_SEQ_PORTS_BOUND \<or> seq (down_ports d) < DEMU_SEQ_PORT_ARRAY_ALLOCATED"
      using n assms(2) by (cases "seq d") (auto simp: down_ports_def seq_order)
    then show ?thesis using a p b by auto
  qed
  then show ?thesis using h 7 a p b by auto
qed

lemma down_devices_ok:
  assumes "ledger d" "down_devices e d = Done d'"
  shows "ledger d' \<and> seq d' \<le> DEMU_SEQ_PORTS_BOUND \<and> bad d' = bad d \<and>
    (seq d' = DEMU_SEQ_PORT_ARRAY_ALLOCATED \<longrightarrow> seq d = DEMU_SEQ_PORT_ARRAY_ALLOCATED)"
  using assms
  by (cases "seq d") (auto simp: down_devices_def bind_run_Done_iff ledger_def held_at_simps seq_order)

lemma teardown_ok:
  assumes "ledger d" "demu_teardown e xs d = Done d'"
  shows "held d' = [] \<and> seq d' = DEMU_SEQ_UNINITIALIZED \<and> set (bad d') \<subseteq> insert (Bound_port (-1)) (set (bad d)) \<and>
    (seq d \<noteq> DEMU_SEQ_PORT_ARRAY_ALLOCATED \<longrightarrow> bad d' = bad d)"
proof -
  obtain d1 where 1: "down_devices e d = Done d1" "d' = down_xenstore xs (down_xen d1)"
    using assms(2) by (auto simp: demu_teardown_def bind_run_Done_iff)
  note d1 = down_devices_ok [OF assms(1) 1(1)]
  note x = down_xen_ok [OF conjunct1 [OF d1] conjunct1 [OF conjunct2 [OF d1]]]
  have "seq d' = DEMU_SEQ_UNINITIALIZED \<and> held d' = held (down_xen d1) \<and> bad d' = bad (down_xen d1)"
    using x by (cases "seq (down_xen d1)") (auto simp: 1(2) down_xenstore_def seq_order split: prod.splits)
  then show ?thesis using x d1 by auto
qed

end
