(* ===== verification/Attached.thy ===== *)
theory Attached
  imports Demu VirtioMmioProofs "HOL-Library.Multiset"
begin

text \<open>
  The devices of a guest and their ranges of addresses: bringing devices up and down keeps the two in
  step, also when a device cannot be brought up.
\<close>

section \<open>Devices and their ranges\<close>

definition slot_space :: "nat \<times> blk_slot \<Rightarrow> demu_space" where
  "slot_space b =
     (let start = ucast (vm_addr (sl_vmmio (snd b)))
      in \<lparr>sp_start = start, sp_end = start + VIRTIO_MMIO_IO_SIZE - 1,
          sp_fn = (if vd_legacy (sl_vdev (snd b)) then Virtio_mmio_legacy_callback else Virtio_mmio_modern_callback),
          sp_ptr = fst b\<rparr>)"

definition range_of :: "demu_space \<Rightarrow> u64 \<times> u64" where
  "range_of sp = (sp_start sp, sp_end sp)"

text \<open>The parts of a device that its registers and its queue index have their sizes.\<close>

definition slot_ok :: "blk_slot \<Rightarrow> bool" where
  "slot_ok sl \<longleftrightarrow> length (hdr (sl_vmmio sl)) = 42 \<and> length (vqs (sl_dev sl)) = 1 \<and>
     length (reqs (sl_dev sl)) = VIRTIO_BLK_QUEUE_SIZE"

text \<open>
  The ranges are those of the devices, each device has one, and the hypervisor knows exactly them.
\<close>

definition attached :: "machine \<Rightarrow> bdevs \<Rightarrow> bool" where
  "attached m bs \<longleftrightarrow> spaces_ok (spaces m) \<and> same_extent (VIRTIO_MMIO_IO_SIZE - 1) (spaces m) \<and>
     mset (spaces m) = mset (map slot_space bs) \<and> mset (io_ranges m) = mset (map (range_of \<circ> slot_space) bs) \<and>
     distinct (map fst bs) \<and> (\<forall>b\<in>set bs. slot_ok (snd b))"

lemma attached_cong:
  "spaces m' = spaces m \<Longrightarrow> io_ranges m' = io_ranges m \<Longrightarrow> attached m' bs = attached m bs"
  by (simp add: attached_def)

lemma attached_Nil: "attached m [] \<longleftrightarrow> spaces m = [] \<and> io_ranges m = []"
  by (auto simp: attached_def spaces_ok_def same_extent_def)

subsection \<open>Deregistration\<close>

lemma deregister_unique:
  assumes "spaces_ok sps" and "sp \<in> set sps"
  shows "\<exists>sps'. demu_deregister_space sps (sp_start sp) = (Some (sp_end sp), sps') \<and> mset sps = add_mset sp (mset sps')"
  using assms
proof (induction sps)
  case Nil
  then show ?case by simp
next
  case (Cons x xs)
  show ?case
  proof (cases "sp_start x = sp_start sp")
    case True
    have "space_ok x" "space_ok sp" using Cons.prems by (auto simp: spaces_ok_def list_all_iff)
    then have "x = sp"
      using spaces_ok_unique [OF Cons.prems(1), of x sp "sp_start sp"] Cons.prems(2) True
      by (simp add: space_ok_def)
    then show ?thesis by simp
  next
    case False
    then have "sp \<in> set xs" using Cons.prems(2) by auto
    moreover have "spaces_ok xs" using Cons.prems(1) by (simp add: spaces_ok_def)
    ultimately obtain sps' where "demu_deregister_space xs (sp_start sp) = (Some (sp_end sp), sps')"
        "mset xs = add_mset sp (mset sps')" using Cons.IH by blast
    then show ?thesis using False by auto
  qed
qed

lemma deregister_attached:
  assumes "attached m (b # bs)" and "spaces s = spaces m" and "io_ranges s = io_ranges m"
  shows "attached (machine.truncate (demu_deregister_memory_space s (sp_start (slot_space b)))) bs"
proof -
  have ok: "spaces_ok (spaces m)" and mem: "slot_space b \<in> set (spaces m)"
    using assms(1) by (auto simp: attached_def simp flip: set_mset_mset)
  obtain sps' where d: "demu_deregister_space (spaces m) (sp_start (slot_space b)) = (Some (sp_end (slot_space b)), sps')"
      "mset (spaces m) = add_mset (slot_space b) (mset sps')"
    using deregister_unique [OF ok mem] by blast
  have "spaces_ok sps'" using deregister_ok [OF ok, of "sp_start (slot_space b)"] d(1) by simp
  moreover have "same_extent (VIRTIO_MMIO_IO_SIZE - 1) sps'"
    using assms(1) deregister_subset [OF d(1)] by (auto simp: attached_def same_extent_def)
  moreover have "mset (io_ranges m) = add_mset (range_of (slot_space b)) (mset (map (range_of \<circ> slot_space) bs))"
    using assms(1) by (simp add: attached_def)
  then have "mset (remove1 (range_of (slot_space b)) (io_ranges m)) = mset (map (range_of \<circ> slot_space) bs)" by simp
  ultimately show ?thesis
    using assms d by (simp add: attached_def demu_deregister_memory_space_def machine.defs range_of_def)
qed

lemma with_slot_simps [simp]:
  "spaces (with_slot m sl) = spaces m" "io_ranges (with_slot m sl) = io_ranges m"
  "vmmio (with_slot m sl) = sl_vmmio sl" "vdev (with_slot m sl) = sl_vdev sl" "dev (with_slot m sl) = sl_dev sl"
  by (simp_all add: with_slot_def machine.defs)

lemma truncate_simps [simp]:
  "spaces (machine.truncate s) = spaces s" "io_ranges (machine.truncate s) = io_ranges s"
  by (simp_all add: machine.defs)

lemma mmio_exit_cases:
  assumes "virtio_mmio_exit e (blk_dev_virtio_ops e) s = Done (r, s')"
  obtains s1 where "blk_frame s s1" and "s' = demu_deregister_memory_space s1 (ucast (vm_addr (vmmio s)))"
proof -
  obtain s1 where x: "exit_vqs e (blk_dev_virtio_ops e) 0 (nat (get_vq_count (blk_dev_virtio_ops e) (dev s))) s = Done s1"
      "s' = demu_deregister_memory_space s1 (ucast (vm_addr (vmmio s1)))"
    using assms by (auto simp: virtio_mmio_exit_def virtio_mmio_reset_def bind_run_Done_iff)
  have f: "blk_frame s s1" by (rule blk_device.exit_vqs_frame [OF x(1)])
  then have "vm_addr (vmmio s1) = vm_addr (vmmio s)" by (simp add: frame_def)
  then show thesis using that f x(2) by simp
qed

lemma exit_one_attached:
  assumes "attached m (b # bs)" and "virtio_blk__exit_one e m (snd b) = Done (m', d)"
  shows "attached m' bs"
proof -
  obtain r s' where x: "virtio_mmio_exit e (blk_dev_virtio_ops e) (with_slot m (snd b)) = Done (r, s')" "m' = machine.truncate s'"
    using assms(2) by (auto simp: virtio_blk__exit_one_def bind_run_Done_iff)
  obtain s1 where s1: "blk_frame (with_slot m (snd b)) s1"
      "s' = demu_deregister_memory_space s1 (ucast (vm_addr (vmmio (with_slot m (snd b)))))"
    by (rule mmio_exit_cases [OF x(1)])
  show ?thesis
    using deregister_attached [OF assms(1), of s1] s1 x(2) by (simp add: frame_def slot_space_def Let_def)
qed

lemma exit_one_none:
  assumes "attached m []" and "virtio_blk__exit_one e m sl = Done (m', d)"
  shows "attached m' []"
proof -
  obtain r s' where x: "virtio_mmio_exit e (blk_dev_virtio_ops e) (with_slot m sl) = Done (r, s')" "m' = machine.truncate s'"
    using assms(2) by (auto simp: virtio_blk__exit_one_def bind_run_Done_iff)
  obtain s1 where s1: "blk_frame (with_slot m sl) s1" "s' = demu_deregister_memory_space s1 (ucast (vm_addr (vmmio (with_slot m sl))))"
    by (rule mmio_exit_cases [OF x(1)])
  show ?thesis using assms(1) s1 x(2) by (simp add: attached_Nil frame_def demu_deregister_memory_space_def)
qed

text \<open>Taking all devices down, and one that never came up, leaves no range.\<close>

lemma exit_attached:
  "attached m bs \<Longrightarrow> virtio_blk__exit e m (bs @ extra) = Done (m', ds) \<Longrightarrow> attached m' []"
proof (induction bs arbitrary: m ds)
  case Nil
  from Nil show ?case
  proof (induction extra arbitrary: m ds)
    case (Cons x extra)
    then show ?case by (cases x) (auto simp: bind_run_Done_iff dest: exit_one_none)
  qed simp
next
  case (Cons b bs)
  then obtain m1 d ds' where "virtio_blk__exit_one e m (snd b) = Done (m1, d)"
      "virtio_blk__exit e m1 (bs @ extra) = Done (m', ds')"
    by (cases b) (auto simp: bind_run_Done_iff)
  then show ?case using Cons.IH exit_one_attached [OF Cons.prems(1)] by blast
qed

subsection \<open>Registration\<close>

lemma new_key: "Suc (fold max ks 0) \<notin> set ks"
proof -
  have "k \<le> fold max ks a" if "k \<in> set ks \<or> k \<le> a" for k a
    using that by (induction ks arbitrary: a) (auto, force+)
  then show ?thesis by (metis Suc_n_not_le_n)
qed

lemma unat_of_u32_as_u64: "unat (ucast (a :: u32) :: u64) = unat a"
proof -
  have "unat a < 2 ^ 64" using unsigned_less [of a, where ?'a = nat] by simp
  then show ?thesis by (simp add: unsigned_ucast_eq take_bit_nat_eq_self_iff)
qed

lemma range_no_wrap: "(ucast (a :: u32) :: u64) \<le> ucast a + (VIRTIO_MMIO_IO_SIZE - 1)"
proof -
  have "unat (ucast a :: u64) + unat (0x1FF :: u64) < 2 ^ 64"
    using unsigned_less [of a, where ?'a = nat] by (simp add: unat_of_u32_as_u64)
  then show ?thesis by (simp add: c_simps no_olen_add_nat)
qed

lemma register_cases:
  assumes "demu_register_memory_space answer s start len fn p = (r, s')"
  shows "(r < 0 \<and> s' = s) \<or>
    (r = 0 \<and> (\<exists>sps. demu_register_space (spaces s) start (start + len - 1) fn p = (0, sps) \<and>
      s' = s\<lparr>spaces := sps, io_ranges := (start, start + len - 1) # io_ranges s\<rparr>))"
proof -
  obtain rc sps where g: "demu_register_space (spaces s) start (start + len - 1) fn p = (rc, sps)" by fastforce
  then have "rc = 0 \<or> rc = -1" by (auto simp: demu_register_space_def split: if_splits)
  then show ?thesis
    using assms g register_deregister [of "spaces s" start "start + len - 1" fn p sps]
    by (auto simp: demu_register_memory_space_def split: if_splits)
qed

lemma mmio_init_cases:
  assumes "virtio_mmio_init e s p subsys_id addr irq = (r, s')" and "length (hdr (vmmio s)) = 42"
  shows "dev s' = dev s \<and> vd_legacy (vdev s') = vd_legacy (vdev s) \<and> vm_addr (vmmio s') = addr \<and>
    length (hdr (vmmio s')) = 42 \<and>
    ((r < 0 \<and> spaces s' = spaces s \<and> io_ranges s' = io_ranges s) \<or>
     (r = 0 \<and> (\<exists>sps. demu_register_space (spaces s) (ucast addr) (ucast addr + VIRTIO_MMIO_IO_SIZE - 1)
          (if vd_legacy (vdev s) then Virtio_mmio_legacy_callback else Virtio_mmio_modern_callback) p = (0, sps) \<and>
        spaces s' = sps \<and> io_ranges s' = (ucast addr, ucast addr + VIRTIO_MMIO_IO_SIZE - 1) # io_ranges s)))"
proof -
  let ?s1 = "s\<lparr>vmmio := (vmmio s)\<lparr>vm_addr := addr, vm_irq := irq\<rparr>\<rparr>"
  let ?s2 = "if vd_legacy (vdev s) then ?s1 else upd_vdev (\<lambda>d. d\<lparr>vd_endian := VIRTIO_ENDIAN_LE\<rparr>) ?s1"
  let ?fn = "if vd_legacy (vdev s) then Virtio_mmio_legacy_callback else Virtio_mmio_modern_callback"
  obtain r3 s3 where g: "demu_register_memory_space (map_io e) ?s2 (ucast addr) VIRTIO_MMIO_IO_SIZE ?fn p = (r3, s3)" by fastforce
  have s2: "spaces ?s2 = spaces s" "io_ranges ?s2 = io_ranges s" "dev ?s2 = dev s" "vd_legacy (vdev ?s2) = vd_legacy (vdev s)"
    "vm_addr (vmmio ?s2) = addr" "length (hdr (vmmio ?s2)) = 42" using assms(2) by simp_all
  have "r = (if r3 < 0 then r3 else 0)" "s' = (if r3 < 0 then s3 else s3\<lparr>vmmio := (vmmio s3)\<lparr>hdr := initial_hdr (vd_legacy (vdev s)) subsys_id\<rparr>\<rparr>)"
    using assms(1) g by (auto simp: virtio_mmio_init_def Let_def split: if_splits)
  then show ?thesis using register_cases [OF g] s2
    by (auto simp: initial_hdr_def zero_hdr_def split del: if_split split: if_split_asm)
qed

lemma init_cases:
  assumes "virtio_init e s p (if leg then VIRTIO_MMIO_LEGACY else VIRTIO_MMIO) subsys_id addr irq = (r, s')"
  shows "dev s' = dev s \<and> vm_addr (vmmio s') = addr \<and> length (hdr (vmmio s')) = 42 \<and>
    ((r < 0 \<and> spaces s' = spaces s \<and> io_ranges s' = io_ranges s) \<or>
     (r = 0 \<and> (\<exists>sps. demu_register_space (spaces s) (ucast addr) (ucast addr + VIRTIO_MMIO_IO_SIZE - 1)
          (if vd_legacy (vdev s') then Virtio_mmio_legacy_callback else Virtio_mmio_modern_callback) p = (0, sps) \<and>
        spaces s' = sps \<and> io_ranges s' = (ucast addr, ucast addr + VIRTIO_MMIO_IO_SIZE - 1) # io_ranges s)))"
proof -
  have z: "length zero_hdr = 42" by (simp add: zero_hdr_def)
  let ?s1 = "if vd_endian (vdev s) = 0 then upd_vdev (\<lambda>d. d\<lparr>vd_endian := VIRTIO_ENDIAN_HOST\<rparr>) s else s"
  let ?s2 = "(if leg then upd_vdev (\<lambda>d. d\<lparr>vd_legacy := True\<rparr>) ?s1 else ?s1)\<lparr>vmmio := \<lparr>vm_addr = 0, vm_irq = 0, hdr = zero_hdr\<rparr>\<rparr>"
  have i: "virtio_mmio_init e ?s2 p subsys_id addr irq = (r, s')"
    using assms by (cases leg) (simp_all add: virtio_init_def Let_def)
  have "dev ?s2 = dev s" "spaces ?s2 = spaces s" "io_ranges ?s2 = io_ranges s" "length (hdr (vmmio ?s2)) = 42"
    using z by simp_all
  then show ?thesis using mmio_init_cases [OF i] by auto
qed

lemma register_attached:
  assumes "attached m bs" and "slot_ok sl" and "k \<notin> fst ` set bs"
    and "demu_register_space (spaces m) (sp_start (slot_space (k, sl))) (sp_end (slot_space (k, sl))) (sp_fn (slot_space (k, sl))) k = (0, sps)"
    and "spaces m' = sps" and "io_ranges m' = range_of (slot_space (k, sl)) # io_ranges m"
  shows "attached m' (bs @ [(k, sl)])"
proof -
  have e: "sp_end (slot_space (k, sl)) = sp_start (slot_space (k, sl)) + (VIRTIO_MMIO_IO_SIZE - 1)"
    by (simp add: slot_space_def Let_def)
  have w: "sp_start (slot_space (k, sl)) \<le> sp_start (slot_space (k, sl)) + (VIRTIO_MMIO_IO_SIZE - 1)"
    using range_no_wrap by (simp add: slot_space_def Let_def)
  have "spaces_ok sps \<and> same_extent (VIRTIO_MMIO_IO_SIZE - 1) sps"
    using register_ok [OF _ _ w assms(4) [unfolded e]] assms(1) by (simp add: attached_def)
  moreover have "sps = slot_space (k, sl) # spaces m"
    using assms(4) by (auto simp: demu_register_space_def slot_space_def Let_def split: if_splits)
  ultimately show ?thesis using assms by (auto simp: attached_def)
qed

lemma init_one_attached:
  assumes "attached m bs" and "virtio_blk__init_one e leg m bs p = Done (r, m', bs')"
  shows "if r < 0 then \<exists>extra. bs' = bs @ extra \<and> attached m' bs else attached m' bs'"
proof (cases p)
  case (Ptr d)
  let ?k = "Suc (fold max (map fst bs) 0)"
  let ?s = "with_slot m \<lparr>sl_vdev = zero_vdev, sl_vmmio = \<lparr>vm_addr = 0, vm_irq = 0, hdr = zero_hdr\<rparr>, sl_dev = new_blk_dev e d\<rparr>"
  obtain r1 s1 where i: "virtio_init e ?s ?k (if leg then VIRTIO_MMIO_LEGACY else VIRTIO_MMIO) VIRTIO_ID_BLOCK (dk_addr d) (dk_irq d) = (r1, s1)"
    by fastforce
  note c = init_cases [OF i]
  show ?thesis
  proof (cases "r1 < 0")
    case True
    then have "r = r1" "m' = machine.truncate s1" "bs' = bs @ [(?k, slot_of s1)]"
      using assms(2) i by (simp_all add: virtio_blk__init_one_def Ptr Let_def)
    then show ?thesis using c True assms(1) attached_cong [of m' m bs] by auto
  next
    case False
    let ?s2 = "upd_dev (\<lambda>b. b\<lparr>disk := disk_image__set_callback (disk b)\<rparr>) s1"
    have r: "r = 0" "m' = machine.truncate ?s2" "bs' = bs @ [(?k, slot_of ?s2)]"
      using assms(2) i False by (simp_all add: virtio_blk__init_one_def Ptr Let_def)
    have "slot_ok (slot_of ?s2)"
      using c by (simp add: slot_ok_def slot_of_def new_blk_dev_def)
    moreover have "?k \<notin> fst ` set bs" using new_key [of "map fst bs"] by simp
    moreover have sl: "slot_space (?k, slot_of ?s2) = \<lparr>sp_start = ucast (dk_addr d), sp_end = ucast (dk_addr d) + VIRTIO_MMIO_IO_SIZE - 1,
        sp_fn = (if vd_legacy (vdev s1) then Virtio_mmio_legacy_callback else Virtio_mmio_modern_callback), sp_ptr = ?k\<rparr>"
      using c by (simp add: slot_space_def slot_of_def Let_def)
    ultimately have "attached m' (bs @ [(?k, slot_of ?s2)])"
      using register_attached [OF assms(1), of "slot_of ?s2" ?k "spaces s1" m'] c False r(2) unfolding sl by (simp add: range_of_def)
    then show ?thesis using r by simp
  qed
qed (use assms in \<open>auto simp: virtio_blk__init_one_def intro: exI [of _ "[]"]\<close>)

lemma init_attached:
  "attached m bs \<Longrightarrow> virtio_blk__init e leg m bs ps = Done (r, m', bs') \<Longrightarrow> attached m' bs'"
proof (induction ps arbitrary: m bs)
  case Nil
  then show ?case by simp
next
  case (Cons p ps)
  obtain r1 m1 bs1 where 1: "virtio_blk__init_one e leg m bs p = Done (r1, m1, bs1)"
    using Cons.prems(2) by (auto simp: bind_run_Done_iff split: if_splits)
  note a = init_one_attached [OF Cons.prems(1) 1]
  show ?case
  proof (cases "r1 < 0")
    case True
    then obtain extra where "bs1 = bs @ extra" "attached m1 bs" using a by auto
    then show ?thesis using Cons.prems(2) 1 True exit_attached
      by (auto simp: bind_run_Done_iff split: if_splits)
  next
    case False
    then show ?thesis using a Cons.IH [of m1 bs1] Cons.prems(2) 1 by (auto split: if_splits)
  qed
qed

subsection \<open>Bringing the devices of a guest up and down\<close>

definition devices_ok :: "devices \<Rightarrow> bool" where
  "devices_ok d \<longleftrightarrow> attached (dv_machine d) (dv_bdevs d)"

lemma init_call_attached: "devices_ok d \<Longrightarrow> init_call e stk leg t d = Done (r, d') \<Longrightarrow> devices_ok d'"
  by (cases t) (auto simp: devices_ok_def bind_run_Done_iff intro: init_attached)

lemma exit_call_attached: "devices_ok d \<Longrightarrow> exit_call e t d = Done (r, d') \<Longrightarrow> devices_ok d'"
  by (cases t) (auto simp: devices_ok_def bind_run_Done_iff intro: exit_attached [where extra = "[]", simplified])

lemma run_list_invariant:
  assumes "P s" and "run_list call r ts s = Done (r', s')"
    and "\<And>t s r s'. P s \<Longrightarrow> call t s = Done (r, s') \<Longrightarrow> P s'"
  shows "P s'"
  using assms(1,2)
proof (induction ts arbitrary: r s)
  case (Cons t ts)
  then show ?case using assms(3) by (fastforce simp: bind_run_Done_iff split: if_splits)
qed simp

lemma device_initialize_attached:
  assumes "devices_ok d" and "device_initialize e stk leg ims d = Done (rc, d')"
  shows "devices_ok d'"
proof -
  obtain rc1 d1 where r: "run_list (init_call e stk leg) 0 [Disk_image__init, Virtio_blk__init]
        (d\<lparr>dv_kvm := Kvm_at \<lparr>kv_params = ims, kv_disks = []\<rparr>\<rparr>) = Done (rc1, d1)"
      and d': "d' = (if rc1 < 0 then d1\<lparr>dv_kvm := Kvm_freed\<rparr> else d1)"
    using assms(2) by (auto simp: device_initialize_def init_lists_eq init_list__init_def run_lists_concat bind_run_Done_iff split: if_splits)
  have "devices_ok (d\<lparr>dv_kvm := Kvm_at \<lparr>kv_params = ims, kv_disks = []\<rparr>\<rparr>)" using assms(1) by (simp add: devices_ok_def)
  then have "devices_ok d1"
    by (rule run_list_invariant [where P = devices_ok, OF _ r]) (rule init_call_attached)
  then show ?thesis unfolding d' by (simp add: devices_ok_def)
qed

text \<open>The finalisers run in the opposite order: first the devices, then the disks.\<close>

lemma device_teardown_attached:
  assumes "devices_ok d" and "dv_kvm d = Kvm_at k" and "device_teardown e d = Done (ds, d')"
  shows "dv_bdevs d' = [] \<and> devices_ok d' \<and> dv_kvm d' = Kvm_null"
proof -
  obtain r d1 where r: "run_list (exit_call e) 0 [Virtio_blk__exit, Disk_image__exit] d = Done (r, d1)"
      and d': "d' = d1\<lparr>dv_kvm := Kvm_null\<rparr>"
    using assms(2,3) by (auto simp: device_teardown_def exit_lists_eq init_list__exit_def run_lists_concat bind_run_Done_iff)
  have "devices_ok d1" 
    by (rule run_list_invariant [where P = devices_ok, OF assms(1) r]) (rule exit_call_attached)
  moreover have "dv_bdevs d1 = []" using r by (auto simp: bind_run_Done_iff)
  ultimately show ?thesis unfolding d' by (simp add: devices_ok_def)
qed

end
