(* ===== verification/DeviceSound.thy ===== *)
theory DeviceSound
  imports Attached Registers DiskProofs
begin

text \<open>
  What has to hold of a block device for it to be taken down: its disk can be closed, and when its queue is running,
  so is the thread of the queue.  Requests, the thread, the registers and bringing up keep it.
\<close>

subsection \<open>Disks\<close>

text \<open>
  The private state is that of the operations, the caches of a QCOW image are consistent, and the descriptor is
  open.  QCOW images are opened with their read-only operations.
\<close>

fun priv_sound :: "disk_ops \<Rightarrow> disk_priv \<Rightarrow> bool" where
  "priv_sound Ro_ops p \<longleftrightarrow> (case p of PMap bs \<Rightarrow> True | _ \<Rightarrow> False)"
| "priv_sound Qcow_disk_readonly_ops p \<longleftrightarrow>
     (case p of PQcow q \<Rightarrow> l1_cache_inv (table q) \<and> rf_lru (refcount_table q) = [] | _ \<Rightarrow> False)"
| "priv_sound Qcow_disk_ops p \<longleftrightarrow> False"
| "priv_sound ops p \<longleftrightarrow> True"

definition disk_sound :: "disk_image \<Rightarrow> bool" where
  "disk_sound d \<longleftrightarrow> priv_sound (dk_ops d) (dk_priv d) \<and> dk_fd_open d"

lemma read_l2_keeps:
  assumes "qcow_read_l2_table q off = Done (r, q')" and "l1_cache_inv (table q)"
  shows "l1_cache_inv (table q') \<and> refcount_table q' = refcount_table q"
proof -
  obtain f l1t where s: "l2_table_search (table q) off = Done (f, l1t)" "l1_cache_inv l1t"
      "case f of None \<Rightarrow> off \<notin> l2t_offset ` set (l1_lru (table q)) \<and> l1t = table q | Some t \<Rightarrow> True"
    using search_spec [OF assms(2), of off] by (force split: option.splits)
  show ?thesis
  proof (cases f)
    case (Some t)
    then show ?thesis using assms(1) s by (simp add: qcow_read_l2_table_def) auto
  next
    case None
    then have new: "off \<notin> l2t_offset ` set (l1_lru (table q))" and l: "l1t = table q" using s(3) by auto
    show ?thesis
    proof (cases "pread_in_full (q_fd q) (8 * unat (l2_entries q)) (sint off)")
      case (Pair d g)
      show ?thesis
      proof (cases d)
        case None
        then show ?thesis using assms s(1) Pair \<open>f = None\<close> by (simp add: qcow_read_l2_table_def Let_def) auto
      next
        case (Some bs)
        let ?c = "(new_cache_table q off)\<lparr>l2t_table := words64 (into_buffer (bytes64 (l2t_table (new_cache_table q off))) bs)\<rparr>"
        have "l2t_offset ?c = off" by (simp add: new_cache_table_def)
        then obtain t' where "cache_table (table q) ?c = Done t'" "l1_cache_inv t'"
          using cache_table_spec [OF assms(2), of ?c] new by auto
        then show ?thesis using assms(1) s(1) Pair Some \<open>f = None\<close> l by (simp add: qcow_read_l2_table_def Let_def) auto
      qed
    qed
  qed
qed

text \<open>What a read keeps of a QCOW image, whatever its tables say and the kernel answers.\<close>

definition caches_kept :: "qcow \<Rightarrow> qcow \<Rightarrow> bool" where
  "caches_kept q q' \<longleftrightarrow> (l1_cache_inv (table q) \<longrightarrow> l1_cache_inv (table q')) \<and> refcount_table q' = refcount_table q"

lemma caches_kept_refl [simp]: "caches_kept q q"
  by (simp add: caches_kept_def)

lemma caches_kept_trans: "caches_kept a b \<Longrightarrow> caches_kept b c \<Longrightarrow> caches_kept a c"
  by (simp add: caches_kept_def)

lemma caches_kept_fd: "caches_kept q q' \<Longrightarrow> caches_kept q (q'\<lparr>q_fd := f\<rparr>)"
  by (simp add: caches_kept_def)

lemma pieces_kept:
  "read_piece q m dst len pos = (r, m', q') \<Longrightarrow> caches_kept q q'"
  "read_compressed z q m dst c len cs sk i = Done (r, m', q') \<Longrightarrow> caches_kept q q'"
  by (auto simp: read_piece_def read_compressed_def caches_kept_fd Let_def split: prod.splits option.splits if_splits)

lemma l2_kept: "qcow_read_l2_table q off = Done (r, q') \<Longrightarrow> l1_cache_inv (table q) \<Longrightarrow> caches_kept q q'"
  using read_l2_keeps by (auto simp: caches_kept_def)

lemma read_cluster_kept:
  assumes "qcow_read_cluster q m off dst len = Done (r, m', q')" and inv: "l1_cache_inv (table q)"
  shows "caches_kept q q'"
proof -
  note k = caches_kept_trans [OF l2_kept [OF _ inv] pieces_kept(1)] caches_kept_trans [OF l2_kept [OF _ inv] pieces_kept(2)]
    l2_kept [OF _ inv]
  show ?thesis
    using assms(1)
    by (auto simp: qcow_read_cluster_def qcow1_read_cluster_def qcow2_read_cluster_def qcow1_read_cluster_z_def
        qcow2_read_cluster_z_def Let_def bind_run_Done_iff split: if_splits option.splits intro: k)
qed

lemma read_loop_kept:
  "read_single_loop fuel q m sector dst len nr buf = Done (r, m', q') \<Longrightarrow> l1_cache_inv (table q) \<Longrightarrow> caches_kept q q'"
proof (induction fuel arbitrary: q m sector nr buf)
  case 0
  then show ?case by (subst (asm) read_single_loop.simps) (auto split: if_splits)
next
  case (Suc fuel)
  have step: "caches_kept q q'" if "qcow_read_cluster q m o1 b1 l1 = Done (r1, m1, q1)" "caches_kept q q1 \<Longrightarrow> caches_kept q1 q'"
    for o1 b1 l1 r1 m1 q1
    using caches_kept_trans read_cluster_kept [OF that(1) Suc.prems(2)] that(2) by blast
  have inv: "caches_kept q q1 \<Longrightarrow> l1_cache_inv (table q1)" for q1 using Suc.prems(2) by (simp add: caches_kept_def)
  show ?case
    using Suc.prems(1)
    by (subst (asm) read_single_loop.simps)
      (auto simp: Let_def bind_run_Done_iff split: if_splits intro: step Suc.IH inv)
qed

lemma read_sector_kept:
  "qcow_read_sector q m sector iov n tot = Done (r, m', q') \<Longrightarrow> l1_cache_inv (table q) \<Longrightarrow> caches_kept q q'"
proof (induction iov arbitrary: q m sector n tot)
  case (Cons v iov)
  have step: "caches_kept q q'"
    if "qcow_read_sector_single q m s1 d1 l1 = Done (r1, m1, q1)" "caches_kept q q1 \<Longrightarrow> caches_kept q1 q'" for s1 d1 l1 r1 m1 q1
    using caches_kept_trans read_loop_kept [OF that(1) [unfolded qcow_read_sector_single_def] Cons.prems(2)] that(2) by blast
  have inv: "caches_kept q q1 \<Longrightarrow> l1_cache_inv (table q1)" for q1 using Cons.prems(2) by (simp add: caches_kept_def)
  show ?case using Cons.prems(1) by (auto simp: bind_run_Done_iff split: if_splits intro: step Cons.IH inv)
qed (auto split: if_splits)

text \<open>The requests keep a disk sound.\<close>

definition disk_kept :: "disk_image \<Rightarrow> disk_image \<Rightarrow> bool" where
  "disk_kept d d' \<longleftrightarrow> (disk_sound d \<longrightarrow> disk_sound d')"

lemma qcow_read_sound:
  assumes "qcow_op_read fuel d m sector iov k = Done (r, m', d')" and "dk_ops d = Qcow_disk_readonly_ops"
  shows "disk_kept d d'"
proof -
  obtain q q' where q: "dk_priv d = PQcow q" "qcow_read_sector (q\<lparr>q_fd := dk_fd d\<rparr>) m sector iov k 0 = Done (r, m', q')"
      "d' = set_qcow q' d"
    using assms(1) by (auto simp: qcow_op_read_def with_qcow_def bind_run_Done_iff split: disk_priv.splits)
  show ?thesis using read_sector_kept [OF q(2)] assms(2) q(1,3)
    by (auto simp: disk_kept_def disk_sound_def caches_kept_def set_qcow_def)
qed

lemma read_kept: "disk_image__read fuel d m sector iov k = Done (cnt, cb, m', d') \<Longrightarrow> disk_kept d d'"
proof (cases "dk_ops d")
  case Qcow_disk_readonly_ops
  assume "disk_image__read fuel d m sector iov k = Done (cnt, cb, m', d')"
  then obtain r where "qcow_op_read fuel d m sector iov k = Done (r, m', d')"
    by (auto simp: disk_image__read_def Qcow_disk_readonly_ops ops_tables bind_run_Done_iff split: if_splits)
  then show ?thesis using Qcow_disk_readonly_ops by (rule qcow_read_sound)
qed (auto simp: disk_image__read_def ops_tables bind_run_Done_iff raw_image__read_sync_def raw_image__read_mmap_def
    disk_kept_def disk_sound_def split: if_splits disk_priv.splits)

lemma write_kept: "disk_image__write fuel jk d m sector iov k = Done (cnt, cb, d') \<Longrightarrow> disk_kept d d'"
  by (cases "dk_ops d")
    (auto simp: disk_image__write_def ops_tables bind_run_Done_iff raw_image__write_sync_def raw_image__write_mmap_def
      disk_kept_def disk_sound_def split: if_splits disk_priv.splits)

lemma flush_kept: "disk_image__flush d = Done (r, d') \<Longrightarrow> disk_kept d d'"
  by (cases "dk_ops d")
    (auto simp: disk_image__flush_def ops_tables disk_kept_def disk_sound_def split: prod.splits sum.splits)

text \<open>Opening gives sound disks.\<close>

lemmas run_DoneD = bind_run_Done_iff [THEN iffD1]

lemma zero_qcow_sound: "l1_cache_inv (table (zero_qcow f h))" "rf_lru (refcount_table (zero_qcow f h)) = []"
  by (simp_all add: zero_qcow_def l1_cache_inv_def rb_inv_def rb_tree_def c_simps)

lemma tables_sound:
  "qcow_read_l1_table q = (b, q') \<Longrightarrow> l1_cache_inv (table q') = l1_cache_inv (table q) \<and> refcount_table q' = refcount_table q"
  "qcow_read_refcount_table q = (b, q') \<Longrightarrow> table q' = table q \<and> (b \<longrightarrow> rf_lru (refcount_table q') = [])"
  by (auto simp: qcow_read_l1_table_def qcow_read_refcount_table_def l1_cache_inv_def Let_def split: prod.splits option.splits)

lemma probe_sound:
  assumes "qcow_probe stk f = Done (Some q, f')"
  shows "l1_cache_inv (table q) \<and> rf_lru (refcount_table q) = []"
  using assms
  by (auto simp: qcow_probe_def qcow1_probe_def qcow2_probe_def Let_def zero_qcow_sound
      split: prod.splits bool.splits option.splits if_splits dest!: run_DoneD tables_sound)

lemma probes_sound:
  "blkdev__probe hf = Ptr d \<Longrightarrow> disk_sound d"
  "raw_image__probe f hf ro = Ptr d \<Longrightarrow> disk_sound d"
  "qcow_image__probe stk f True = Done (Ptr d, f') \<Longrightarrow> disk_sound d"
  by (auto simp: blkdev__probe_def raw_image__probe_def qcow_image__probe_def disk_image__new_def IS_ERR_OR_NULL_def
      Let_def disk_sound_def split: if_splits option.splits dest!: run_DoneD probe_sound)

lemma open_sound:
  assumes "disk_image__open stk hf ro = Done (Ptr d)" shows "disk_sound d"
  using assms
  by (auto simp: disk_image__open_def disk_sound_def split: if_splits option.splits ptr.splits
      dest!: run_DoneD probes_sound)

lemma open_each_sound:
  "open_each stk ps acc = Done (Inr ds) \<Longrightarrow> (\<And>d. Ptr d \<in> set acc \<Longrightarrow> disk_sound d) \<Longrightarrow> Ptr d \<in> set ds \<Longrightarrow> disk_sound d"
proof (induction ps arbitrary: acc)
  case (Cons p ps)
  have step: "disk_sound d" if "open_each stk ps (acc @ [q]) = Done (Inr ds)" "\<And>x. q = Ptr x \<Longrightarrow> disk_sound x" for q
    using Cons.IH [OF that(1)] Cons.prems(2,3) that(2) by auto
  have opened: "disk_sound d"
    if "disk_image__open stk hf ro = Done (Ptr c)" "open_each stk ps (acc @ [Ptr (c\<lparr>dk_addr := a, dk_irq := i\<rparr>)]) = Done (Inr ds)"
    for hf ro c a i
    by (rule step [OF that(2)]) (use open_sound [OF that(1)] in \<open>auto simp: disk_sound_def\<close>)
  show ?case
    using Cons.prems(1) by (auto split: option.splits ptr.splits dest!: run_DoneD intro: step opened)
qed auto

lemma disks_sound: "disk_image__init stk ps = Done (r, Some ds) \<Longrightarrow> Ptr d \<in> set ds \<Longrightarrow> disk_sound d"
  using open_each_sound [of stk ps "[]" ds d]
  by (auto simp: disk_image__init_def disk_image__open_all_def split: if_splits open_result.splits sum.splits dest!: run_DoneD)

text \<open>Sound disks can be closed; the descriptor stays open when the operations have a \<open>close\<close> of their own.\<close>

lemma free_nodes_done:
  "rb_inv r \<Longrightarrow> set (inorder r) = set (map l2t_offset ts) \<Longrightarrow> distinct (map l2t_offset ts) \<Longrightarrow> \<exists>u. l1_free_nodes ts r = Done u"
proof (induction ts arbitrary: r)
  case (Cons t ts)
  then show ?case using rbi.evict [of r "l2t_offset t" "map l2t_offset ts"] by fastforce
qed simp

lemma close_done:
  assumes "disk_sound d"
  obtains d' where "disk_image__close (Ptr d) = Done (0, Ptr d')" and "dk_ops d' = dk_ops d"
    and "dk_fd_open d' \<longleftrightarrow> op_close (ops_of (dk_ops d)) \<noteq> None"
proof -
  have "\<exists>d'. disk_image__close (Ptr d) = Done (0, Ptr d') \<and> dk_ops d' = dk_ops d \<and>
      (dk_fd_open d' \<longleftrightarrow> op_close (ops_of (dk_ops d)) \<noteq> None)"
  proof (cases "dk_ops d")
    case Qcow_disk_readonly_ops
    obtain q where q: "dk_priv d = PQcow q" "l1_cache_inv (table q)" "rf_lru (refcount_table q) = []" "dk_fd_open d"
      using assms by (auto simp: disk_sound_def Qcow_disk_readonly_ops split: disk_priv.splits)
    obtain u where "l1_free_nodes (l1_lru (table q)) (l1_root (table q)) = Done u"
      using free_nodes_done q(2) unfolding l1_cache_inv_def by blast
    then show ?thesis using q
      by (simp add: disk_image__close_def Qcow_disk_readonly_ops ops_tables qcow_op_close_def with_qcow_def qcow_disk_close_def
          refcount_table_free_cache_def l1_table_free_cache_def)
  qed (use assms in \<open>auto simp: disk_image__close_def ops_tables disk_sound_def raw_image__close_def split: disk_priv.splits\<close>)
  then show thesis using that by blast
qed

text \<open>What is left of the disks when they have been closed.\<close>

definition closed :: "disk_image ptr \<Rightarrow> bool" where
  "closed p \<longleftrightarrow> (\<exists>d. p = Ptr d \<and> (dk_fd_open d \<longleftrightarrow> dk_ops d \<in> {Ro_ops, Qcow_disk_readonly_ops, Qcow_disk_ops}))"

lemma close_ops: "op_close (ops_of x) \<noteq> None \<longleftrightarrow> x \<in> {Ro_ops, Qcow_disk_readonly_ops, Qcow_disk_ops}"
  by (cases x) (simp_all add: ops_tables)

lemma close_list_done: "(\<forall>d\<in>set ds. disk_sound d) \<Longrightarrow> \<exists>ps. close_list (map Ptr ds) = Done ps \<and> length ps = length ds \<and> list_all closed ps"
proof (induction ds)
  case (Cons d ds)
  obtain d' where d': "disk_image__close (Ptr d) = Done (0, Ptr d')" "closed (Ptr d')"
    using close_done [of d] Cons.prems close_ops by (metis closed_def list.set_intros(1))
  obtain ps where "close_list (map Ptr ds) = Done ps" "length ps = length ds" "list_all closed ps" using Cons by auto
  then show ?case using d' by simp
qed simp

lemma exit_disks_done:
  assumes "\<forall>d\<in>set ds. disk_sound d"
  obtains ps where "disk_image__exit (map Ptr ds) = Done ps" and "length ps = length ds" and "list_all closed ps"
  using close_list_done [of "rev ds"] assms
  by (auto simp: disk_image__exit_def disk_image__close_all_def rev_map list_all_iff)

subsection \<open>Devices\<close>

text \<open>
  A queue that is enabled has its rings and a thread that has not been told to end: at the test of its loop, in
  \<open>read\<close> on the device's event descriptor, which is open, or between two requests.
\<close>

definition io_running :: "blk_dev \<Rightarrow> bool" where
  "io_running d \<longleftrightarrow> \<not> io_done d \<and> vr_num (queue d) = of_nat VIRTIO_BLK_QUEUE_SIZE \<and>
     vr_desc (queue d) \<noteq> None \<and> vr_avail (queue d) \<noteq> None \<and> vr_used (queue d) \<noteq> None \<and>
     (\<exists>t fd c. io_thread d = Some t \<and> t < length (threads d) \<and> threads d ! t \<in> {TCheck, TRead (Some fd), TServe} \<and>
        io_efd d = Some fd \<and> fd < length (efds d) \<and> efds d ! fd = Some c)"

definition dev_sound :: "blk_dev \<Rightarrow> bool" where
  "dev_sound d \<longleftrightarrow> length (vqs d) = 1 \<and> disk_sound (disk d) \<and> (vq_enabled (queue d) \<longrightarrow> io_running d)"

lemma new_sound: "disk_sound d \<Longrightarrow> dev_sound (new_blk_dev e d)"
  by (simp add: dev_sound_def new_blk_dev_def queue_def zero_vq_def)

text \<open>What a request leaves of a device.\<close>

definition io_kept :: "blk_dev \<Rightarrow> blk_dev \<Rightarrow> bool" where
  "io_kept d d' \<longleftrightarrow> length (vqs d') = length (vqs d) \<and> (length (vqs d) = 1 \<longrightarrow> same_rings (queue d) (queue d')) \<and>
     disk_kept (disk d) (disk d') \<and> threads d' = threads d \<and> efds d' = efds d \<and> io_thread d' = io_thread d \<and>
     io_efd d' = io_efd d \<and> io_done d' = io_done d"

lemma disk_kept_refl [simp]: "disk_kept d d"
  by (simp add: disk_kept_def)

lemma io_kept_refl [simp]: "io_kept d d"
  by (simp add: io_kept_def same_ringsI)

lemma io_kept_trans: "io_kept a b \<Longrightarrow> io_kept b c \<Longrightarrow> io_kept a c"
  by (auto simp: io_kept_def disk_kept_def intro: same_rings_trans)

lemma same_rings_fields:
  "same_rings q q' \<Longrightarrow> vq_enabled q' = vq_enabled q \<and> vr_num q' = vr_num q \<and> vr_desc q' = vr_desc q \<and>
     vr_avail q' = vr_avail q \<and> vr_used q' = vr_used q"
  by (auto simp: same_rings_def)

lemma io_kept_sound: "io_kept d d' \<Longrightarrow> dev_sound d \<Longrightarrow> dev_sound d'"
  by (auto simp: io_kept_def dev_sound_def disk_kept_def io_running_def dest!: same_rings_fields)

interpretation sound_steps: request_steps "\<lambda>s s'. io_kept (dev s) (dev s')" disk_kept
proof
  show "io_kept (dev s) (dev (upd_dev (set_queue vq) s))" if "same_rings (queue (dev s)) vq" for s :: blk and vq
    using that by (cases "vqs (dev s)") (auto simp: io_kept_def set_queue_def queue_def)
  show "io_kept (dev s) (dev s'')" if "io_kept (dev s) (dev s')" "io_kept (dev s') (dev s'')" for s s' s'' :: blk
    using that by (rule io_kept_trans)
  show "io_kept (dev s) (dev (snd (virtio_mmio_signal_vq s n)))" for s :: blk and n
    by (simp add: virtio_mmio_signal_vq_def Let_def hdr_set_def kvm__irq_trigger_def demu_set_irq_def)
qed (auto simp: io_kept_def queue_def same_ringsI dest: read_kept write_kept flush_kept)

text \<open>Threads keep the disk, and a sound device sound, this one's thread or one that a second start left behind.\<close>

lemma nth_updated: "j < length xs \<Longrightarrow> xs[i := x] ! j = (if i = j then x else xs ! j)"
  by auto

lemma pc_sound:
  "dev_sound d \<Longrightarrow> (\<And>fd. io_efd d = Some fd \<Longrightarrow> \<not> io_done d \<Longrightarrow> pc \<in> {TCheck, TRead (Some fd), TServe}) \<Longrightarrow>
     dev_sound (d\<lparr>threads := (threads d)[t := pc]\<rparr>)"
  by (auto simp: dev_sound_def io_running_def queue_def nth_updated)

lemma efd_sound: "dev_sound d \<Longrightarrow> dev_sound (d\<lparr>efds := (efds d)[fd := Some c]\<rparr>)"
  by (auto simp: dev_sound_def io_running_def queue_def nth_updated)

lemma thread_sound:
  assumes "virtio_blk_thread e t s = Some (Done s')" and "dev_sound (dev s)" shows "dev_sound (dev s')"
proof -
  have r: "dev_sound (dev s1)" if "do_io_round e s = Done (b, s1)" for b s1
    using io_kept_sound [OF sound_steps.round [OF that] assms(2)] .
  show ?thesis
    using assms(1) pc_sound [OF assms(2)] pc_sound [OF efd_sound [OF assms(2)]] pc_sound [OF r]
    by (auto simp: virtio_blk_thread_def set_pc_def bind_run_Done_iff r split: io_pc.splits option.splits if_splits)
qed

definition stays :: "blk_dev \<Rightarrow> blk_dev \<Rightarrow> bool" where
  "stays d d' \<longleftrightarrow> disk_kept (disk d) (disk d') \<and> length (vqs d') = length (vqs d)"

lemma stays_refl [simp]: "stays d d"
  by (simp add: stays_def)

lemma stays_trans: "stays a b \<Longrightarrow> stays b c \<Longrightarrow> stays a c"
  by (simp add: stays_def disk_kept_def)

lemma thread_stays:
  assumes "virtio_blk_thread e t s = Some (Done s')" shows "stays (dev s) (dev s')"
proof -
  have r: "stays (dev s) (dev s1)" if "do_io_round e s = Done (b, s1)" for b s1
    using sound_steps.round [OF that] by (simp add: stays_def io_kept_def)
  have p: "stays a b \<Longrightarrow> stays a (b\<lparr>threads := p\<rparr>)" for a b p by (simp add: stays_def)
  have f: "stays a (a\<lparr>efds := x, threads := p\<rparr>)" for a x p by (simp add: stays_def)
  show ?thesis
    using assms r
    by (auto simp: virtio_blk_thread_def set_pc_def bind_run_Done_iff p f split: io_pc.splits option.splits if_splits)
qed

lemma run_thread_stays: "run_thread e t n s = Done s' \<Longrightarrow> stays (dev s) (dev s')"
proof (induction n arbitrary: s)
  case 0
  then show ?case by (subst (asm) run_thread.simps) (auto split: if_splits)
next
  case (Suc n)
  show ?case using Suc.prems
    by (subst (asm) run_thread.simps)
      (auto simp: bind_run_Done_iff split: if_splits option.splits
        intro: stays_trans [OF thread_stays Suc.IH])
qed

text \<open>So do the registers, when the host gives event descriptors and threads: a queue that is started gets its thread.\<close>

definition keeps_sound :: "env \<Rightarrow> blk_dev \<Rightarrow> blk_dev \<Rightarrow> bool" where
  "keeps_sound e d d' \<longleftrightarrow> (efd_ok e \<and> thread_ok e \<and> dev_sound d \<longrightarrow> dev_sound d')"

lemma frame_also: "blk_frame s s' \<Longrightarrow> keep (dev s) (dev s') \<Longrightarrow> frame keep s s'"
  by (simp add: frame_def)

lemma the_queue: "dev_sound d \<Longrightarrow> blk_get_vq d n = Some q \<Longrightarrow> unat n = 0 \<and> q = queue d"
  by (auto simp: dev_sound_def blk_get_vq_def queue_def split: if_splits)

lemma zero_sound: "length (vqs d) = 1 \<Longrightarrow> disk_sound (disk d) \<Longrightarrow> blk_get_vq d n = Some q \<Longrightarrow> dev_sound (blk_put_vq d n zero_vq)"
  by (auto simp: dev_sound_def blk_put_vq_def blk_get_vq_def queue_def zero_vq_def split: if_splits)

lemma readdress_sound:
  assumes "blk_get_vq d n = Some q" "dev_sound d" shows "dev_sound (blk_put_vq d n (q\<lparr>vq_addr := a\<rparr>))"
proof -
  have "unat n = 0" "q = queue d" using the_queue [OF assms(2,1)] by simp_all
  then show ?thesis using assms(2) by (auto simp: dev_sound_def io_running_def blk_put_vq_def queue_def)
qed

lemma vq_running:
  "virtio_init_device_vq e vd g q n = Done (q', g') \<Longrightarrow>
     vq_enabled q' \<and> vr_num q' = n \<and> vr_desc q' \<noteq> None \<and> vr_avail q' \<noteq> None \<and> vr_used q' \<noteq> None"
  unfolding virtio_init_device_vq_def Let_def by (auto split: if_splits option.splits dest!: run_DoneD)

lemma init_sound:
  assumes "blk_init_vq e s n = Done (r, s')" and "efd_ok e" "thread_ok e" and "dev_sound (dev s)"
  shows "dev_sound (dev s')"
proof -
  obtain q q' g where q: "blk_get_vq (dev s) n = Some q"
      "virtio_init_device_vq e (vdev s) (gmap s) q (of_nat VIRTIO_BLK_QUEUE_SIZE) = Done (q', g)"
    using assms(1) by (auto simp: blk_init_vq_def bind_run_Done_iff split: option.splits)
  have n: "unat n = 0" using the_queue [OF assms(4) q(1)] by simp
  then have "n = 0" by (simp add: unat_eq_0)
  then show ?thesis
    using assms q vq_running [OF q(2)]
    by (auto simp: blk_init_vq_def Let_def dev_sound_def io_running_def blk_put_vq_def queue_def nth_append)
qed

lemma notify_sound: "blk_notify_vq e s n = Done (r, s') \<Longrightarrow> dev_sound (dev s) \<Longrightarrow> dev_sound (dev s')"
  by (auto simp: blk_notify_vq_def efd_sound split: option.splits if_splits)

lemma exit_stays:
  assumes "blk_exit_vq e s n = Done s'" shows "stays (dev s) (dev s')"
proof (cases "n = 0")
  case True
  then obtain r s1 t s2 where 1: "blk_notify_vq e (upd_dev (\<lambda>d. d\<lparr>io_done := True\<rparr>) s) n = Done (r, s1)"
      "run_thread e t (io_fuel e) s1 = Done s2" "s' = upd_dev close_efd s2"
    using assms by (auto simp: blk_exit_vq_def bind_run_Done_iff split: option.splits)
  have "stays (dev s) (dev s1)" using 1(1) by (auto simp: blk_notify_vq_def stays_def split: option.splits if_splits)
  then have "stays (dev s) (dev s2)" using run_thread_stays [OF 1(2)] by (rule stays_trans)
  then show ?thesis by (simp add: 1(3) close_efd_def stays_def split: option.split)
qed (use assms in \<open>simp add: blk_exit_vq_def\<close>)

lemma exit_sound:
  assumes "virtio_exit_vq e (blk_dev_virtio_ops e) s n = Done s'" and "dev_sound (dev s)"
  shows "dev_sound (dev s')"
proof (rule blk_exit_cases [OF assms(1)])
  note d = assms(2) [unfolded dev_sound_def]
  fix q s1 q1
  assume 1: "blk_exit_vq e s n = Done s1" "blk_get_vq (dev s1) n = Some q1"
    and s': "s' = upd_dev (\<lambda>d. blk_put_vq d n zero_vq) (s1\<lparr>gmap := unmap_queue e q1 (gmap s1)\<rparr>)"
  have "dev_sound (blk_put_vq (dev s1) n zero_vq)"
    by (rule zero_sound [OF _ _ 1(2)]) (use exit_stays [OF 1(1)] d in \<open>simp_all add: stays_def disk_kept_def\<close>)
  then show ?thesis by (simp add: s')
next
  fix q
  assume 1: "blk_get_vq (dev s) n = Some q" and s': "s' = upd_dev (\<lambda>d. blk_put_vq d n zero_vq) s"
  have "dev_sound (blk_put_vq (dev s) n zero_vq)"
    by (rule zero_sound [OF _ _ 1]) (use assms(2) in \<open>simp_all add: dev_sound_def\<close>)
  then show ?thesis by (simp add: s')
qed

lemma config_sound: "dev_sound d \<Longrightarrow> dev_sound (d\<lparr>blk_config := bs\<rparr>)"
  by (simp add: dev_sound_def io_running_def queue_def)

interpretation sound_device: device_frame e "blk_dev_virtio_ops e" "keeps_sound e"
proof
  fix s s' :: blk and n st :: u32 and f r
  show "notify_status (blk_dev_virtio_ops e) = Some f \<Longrightarrow> frame (keeps_sound e) s (f s st)"
    by (auto simp: blk_dev_virtio_ops_def blk_notify_status_eq frame_def keeps_sound_def)
  show "virtio_exit_vq e (blk_dev_virtio_ops e) s n = Done s' \<Longrightarrow> frame (keeps_sound e) s s'"
    by (rule frame_also) (auto simp: keeps_sound_def intro: exit_frame exit_sound)
  show "init_vq (blk_dev_virtio_ops e) s n = Done (r, s') \<Longrightarrow> frame (keeps_sound e) s s'"
    by (rule frame_also) (auto simp: blk_dev_virtio_ops_def keeps_sound_def intro: init_vq_frame init_sound)
  show "notify_vq (blk_dev_virtio_ops e) s n = Done (r, s') \<Longrightarrow> frame (keeps_sound e) s s'"
    by (rule frame_also) (auto simp: blk_dev_virtio_ops_def keeps_sound_def intro: notify_frame notify_sound)
qed (auto simp: blk_dev_virtio_ops_def keeps_sound_def readdress_sound config_sound)

subsection \<open>Taking devices down\<close>

text \<open>The counter of the queue's event descriptor has room for one more event.\<close>

definition wakeable :: "blk_dev \<Rightarrow> bool" where
  "wakeable d \<longleftrightarrow> (case io_efd d of None \<Rightarrow> True | Some fd \<Rightarrow>
     (case efds d ! fd of None \<Rightarrow> True | Some c \<Rightarrow> c < 0xFFFFFFFFFFFFFFFE))"

text \<open>The mappings that \<open>virtio_exit_vq\<close> removes: those of the rings.\<close>

definition page_at :: "u64 option \<Rightarrow> u64 \<Rightarrow> u64 \<times> u32" where
  "page_at p len = (let a = (case p of Some a \<Rightarrow> a | None \<Rightarrow> 0) in (a AND TARGET_PAGE_MASK, npages a len))"

definition queue_pages :: "env \<Rightarrow> virt_queue \<Rightarrow> (u64 \<times> u32) list" where
  "queue_pages e q =
     (if \<not> vq_enabled q then []
      else if va_legacy (vq_addr q) then [page_at (vr_desc q) (vring_size (ring_abi e) (vr_num q) (align (vq_addr q)))]
      else map (\<lambda>p. page_at p (host_page e)) [vr_desc q, vr_used q, vr_avail q])"

lemma unmap_pages: "vq_enabled q \<Longrightarrow> mset (mappings (unmap_queue e q g)) = mset (mappings g) - mset (queue_pages e q)"
  by (simp add: unmap_queue_def queue_pages_def page_at_def demu_unmap_guest_range_def Let_def add_mset_commute)

lemma sound_alive:
  "dev_sound (dev s) \<Longrightarrow> vq_enabled (queue (dev s)) \<Longrightarrow> wakeable (dev s) \<Longrightarrow> 3 \<le> io_fuel e \<Longrightarrow> \<exists>t fd. io_alive e s t fd"
  unfolding dev_sound_def io_running_def wakeable_def io_alive_def by fastforce

lemma exit_vq_done:
  assumes "dev_sound (dev s)" and "vq_enabled (queue (dev s)) \<Longrightarrow> wakeable (dev s) \<and> 3 \<le> io_fuel e"
  obtains s' where "virtio_exit_vq e (blk_dev_virtio_ops e) s 0 = Done s'" and "disk (dev s') = disk (dev s)"
    and "mset (mappings (gmap s')) = mset (mappings (gmap s)) - mset (queue_pages e (queue (dev s)))"
proof -
  have q: "blk_get_vq (dev s) 0 = Some (queue (dev s))" using assms(1) by (simp add: dev_sound_def blk_get_vq_def queue_def)
  show thesis
  proof (cases "vq_enabled (queue (dev s))")
    case False
    then show thesis using that q
      by (simp add: virtio_exit_vq_def sel_vq_def set_vq_def blk_dev_virtio_ops_def blk_put_vq_def queue_pages_def)
  next
    case True
    obtain t fd where "io_alive e s t fd" using sound_alive [OF assms(1) True] assms(2) True by blast
    then obtain m where "blk_exit_vq e s 0 = Done (set_pc t TExit ((upd_dev (\<lambda>d. d\<lparr>io_done := True,
        efds := (efds d)[fd := None]\<rparr>) s)\<lparr>ram := m\<rparr>))" (is "_ = Done ?s1")
      by (rule exit_vq_returns)
    moreover have "blk_get_vq (dev ?s1) 0 = Some (queue (dev s))" "disk (dev ?s1) = disk (dev s)" "gmap ?s1 = gmap s"
      using assms(1) by (simp_all add: set_pc_def blk_get_vq_def queue_def dev_sound_def)
    ultimately show thesis using that True q unmap_pages [OF True]
      by (simp add: virtio_exit_vq_def sel_vq_def set_vq_def blk_dev_virtio_ops_def blk_put_vq_def)
  qed
qed

lemma exit_one_done:
  assumes "dev_sound (sl_dev sl)" and "vq_enabled (queue (sl_dev sl)) \<Longrightarrow> wakeable (sl_dev sl) \<and> 3 \<le> io_fuel e"
  obtains m' where "virtio_blk__exit_one e m sl = Done (m', disk (sl_dev sl))"
    and "mset (mappings (gmap m')) = mset (mappings (gmap m)) - mset (queue_pages e (queue (sl_dev sl)))"
proof -
  let ?s = "with_slot m sl"
  obtain s' where "virtio_exit_vq e (blk_dev_virtio_ops e) ?s 0 = Done s'" "disk (dev s') = disk (sl_dev sl)"
      "mset (mappings (gmap s')) = mset (mappings (gmap ?s)) - mset (queue_pages e (queue (sl_dev sl)))"
    using exit_vq_done [of ?s e] assms by auto
  moreover have "gmap ?s = gmap m" by (simp add: with_slot_def machine.defs)
  ultimately show thesis using that
    by (simp add: virtio_blk__exit_one_def virtio_mmio_exit_def virtio_mmio_reset_def virtio_mmio_exit_vq_def
        blk_dev_virtio_ops_def NUM_VIRT_QUEUES_def demu_deregister_memory_space_def machine.defs split: prod.split)
qed

definition devices_sound :: "bdevs \<Rightarrow> bool" where
  "devices_sound bs \<longleftrightarrow> (\<forall>b\<in>set bs. dev_sound (sl_dev (snd b)))"

definition devices_wakeable :: "bdevs \<Rightarrow> bool" where
  "devices_wakeable bs \<longleftrightarrow> (\<forall>b\<in>set bs. wakeable (sl_dev (snd b)))"

definition devices_pages :: "env \<Rightarrow> bdevs \<Rightarrow> (u64 \<times> u32) list" where
  "devices_pages e bs = concat (map (\<lambda>b. queue_pages e (queue (sl_dev (snd b)))) bs)"

lemma exit_done:
  assumes "devices_sound bs" and "\<forall>b\<in>set bs. vq_enabled (queue (sl_dev (snd b))) \<longrightarrow> wakeable (sl_dev (snd b)) \<and> 3 \<le> io_fuel e"
  shows "\<exists>m'. virtio_blk__exit e m bs = Done (m', map (\<lambda>b. disk (sl_dev (snd b))) bs) \<and>
    mset (mappings (gmap m')) = mset (mappings (gmap m)) - mset (devices_pages e bs)"
  using assms
proof (induction bs arbitrary: m)
  case (Cons b bs)
  obtain k sl where b: "b = (k, sl)" by fastforce
  obtain m1 where 1: "virtio_blk__exit_one e m sl = Done (m1, disk (sl_dev sl))"
      "mset (mappings (gmap m1)) = mset (mappings (gmap m)) - mset (queue_pages e (queue (sl_dev sl)))"
    using exit_one_done [of sl e m] Cons.prems b by (auto simp: devices_sound_def)
  obtain m2 where "virtio_blk__exit e m1 bs = Done (m2, map (\<lambda>b. disk (sl_dev (snd b))) bs)"
      "mset (mappings (gmap m2)) = mset (mappings (gmap m1)) - mset (devices_pages e bs)"
    using Cons.IH [of m1] Cons.prems by (auto simp: devices_sound_def)
  then show ?case using 1 b by (simp add: devices_pages_def)
qed (simp add: devices_pages_def)

text \<open>
  The devices of a guest are taken down and their disks closed, whatever state the threads are in.
\<close>

lemma device_teardown_done:
  assumes "devices_sound (dv_bdevs dv)" and "devices_wakeable (dv_bdevs dv)" and "3 \<le> io_fuel e" and "dv_kvm dv = Kvm_at k"
  obtains ps dv' where "device_teardown e dv = Done (ps, dv')" and "length ps = length (dv_bdevs dv)" and "list_all closed ps"
    and "mset (mappings (gmap (dv_machine dv'))) = mset (mappings (gmap (dv_machine dv))) - mset (devices_pages e (dv_bdevs dv))"
proof -
  let ?ds = "map (\<lambda>b. disk (sl_dev (snd b))) (dv_bdevs dv)"
  obtain m where m: "virtio_blk__exit e (dv_machine dv) (dv_bdevs dv) = Done (m, ?ds)"
      "mset (mappings (gmap m)) = mset (mappings (gmap (dv_machine dv))) - mset (devices_pages e (dv_bdevs dv))"
    using exit_done [OF assms(1), of e] assms(2,3) by (auto simp: devices_wakeable_def)
  have "\<forall>d\<in>set ?ds. disk_sound d" using assms(1) by (auto simp: devices_sound_def dev_sound_def)
  then obtain ps where "disk_image__exit (map Ptr ?ds) = Done ps" "length ps = length ?ds" "list_all closed ps"
    by (rule exit_disks_done)
  then show thesis using that m assms(4)
    by (simp add: device_teardown_def exit_lists_eq init_list__exit_def run_lists_concat the_kvm_def)
qed

subsection \<open>Bringing devices up\<close>

text \<open>
  New devices are sound and wait for their driver to start the queue; they sit at the addresses that their disks were
  opened with, and no page of the guest is mapped for them.
\<close>

definition waiting_devices :: "bdevs \<Rightarrow> bool" where
  "waiting_devices bs \<longleftrightarrow> (\<forall>b\<in>set bs. dev_sound (sl_dev (snd b)) \<and> \<not> vq_enabled (queue (sl_dev (snd b))))"

definition device_addr :: "nat \<times> blk_slot \<Rightarrow> u32" where
  "device_addr b = vm_addr (sl_vmmio (snd b))"

lemma waiting_sound: "waiting_devices bs \<Longrightarrow> devices_sound bs \<and> devices_pages e bs = []"
  by (auto simp: waiting_devices_def devices_sound_def devices_pages_def queue_pages_def)

lemma register_gmap: "demu_register_memory_space answer s start len fn p = (r, s') \<Longrightarrow> gmap s' = gmap s"
  by (auto simp: demu_register_memory_space_def split: prod.splits if_splits)

lemma init_gmap: "virtio_init e s p tr sid addr irq = (r, s') \<Longrightarrow> gmap s' = gmap s"
  by (auto simp: virtio_init_def virtio_mmio_init_def Let_def split: virtio_trans.splits prod.splits if_splits
      dest!: register_gmap)

lemma callback_sound: "disk_sound d \<Longrightarrow> disk_sound (disk_image__set_callback d)"
  by (simp add: disk_sound_def disk_image__set_callback_def)

lemma init_one_waiting:
  assumes "virtio_blk__init_one e leg m bs (Ptr d) = Done (r, m', bs')" and "disk_sound d"
  obtains b where "bs' = bs @ [b]" and "waiting_devices [b]" and "device_addr b = dk_addr d" and "gmap m' = gmap m"
proof -
  let ?k = "Suc (fold max (map fst bs) 0)"
  let ?s = "with_slot m \<lparr>sl_vdev = zero_vdev, sl_vmmio = \<lparr>vm_addr = 0, vm_irq = 0, hdr = zero_hdr\<rparr>, sl_dev = new_blk_dev e d\<rparr>"
  obtain r1 s1 where i: "virtio_init e ?s ?k (if leg then VIRTIO_MMIO_LEGACY else VIRTIO_MMIO) VIRTIO_ID_BLOCK (dk_addr d) (dk_irq d) = (r1, s1)"
    by fastforce
  have d: "dev_sound (new_blk_dev e d)" "\<not> vq_enabled (queue (new_blk_dev e d))" "dev_sound (new_blk_dev e (disk_image__set_callback d))"
    using new_sound [OF assms(2)] new_sound [OF callback_sound [OF assms(2)]]
    by (auto simp: new_blk_dev_def queue_def zero_vq_def)
  have c: "(new_blk_dev e d)\<lparr>disk := disk_image__set_callback d\<rparr> = new_blk_dev e (disk_image__set_callback d)"
    "disk (new_blk_dev e d) = d" "queue (new_blk_dev e (disk_image__set_callback d)) = queue (new_blk_dev e d)"
    by (simp_all add: new_blk_dev_def disk_image__set_callback_def queue_def)
  have g: "gmap ?s = gmap m" by (simp add: with_slot_def machine.defs)
  show thesis
    using assms(1) i init_cases [OF i] init_gmap [OF i] d c g that
    by (auto simp: virtio_blk__init_one_def Let_def waiting_devices_def device_addr_def slot_of_def machine.defs
        split: if_splits)
qed

lemma waiting_append [simp]: "waiting_devices (bs @ cs) \<longleftrightarrow> waiting_devices bs \<and> waiting_devices cs"
  by (auto simp: waiting_devices_def)

lemma init_waiting:
  "virtio_blk__init e leg m bs ps = Done (r, m', bs') \<Longrightarrow> waiting_devices bs \<Longrightarrow> (\<And>d. Ptr d \<in> set ps \<Longrightarrow> disk_sound d) \<Longrightarrow>
     waiting_devices bs' \<and> mset (mappings (gmap m')) = mset (mappings (gmap m)) \<and>
     (\<not> r < 0 \<longrightarrow> (\<exists>ds. ps = map Ptr ds \<and> map device_addr bs' = map device_addr bs @ map dk_addr ds))"
proof (induction ps arbitrary: m bs)
  case (Cons p ps)
  obtain r1 m1 bs1 where 1: "virtio_blk__init_one e leg m bs p = Done (r1, m1, bs1)" "p \<noteq> NullPtr"
    using Cons.prems(1) by (auto simp: bind_run_Done_iff split: if_splits)
  then obtain d where d: "p = Ptr d" by (cases p) (auto simp: virtio_blk__init_one_def)
  obtain b where b: "bs1 = bs @ [b]" "waiting_devices [b]" "device_addr b = dk_addr d" "gmap m1 = gmap m"
    by (rule init_one_waiting [OF 1(1) [unfolded d]]) (use Cons.prems(3) d in auto)
  then have w: "waiting_devices bs1" using Cons.prems(2) by simp
  show ?case
  proof (cases "r1 < 0")
    case True
    obtain m2 ds where "virtio_blk__exit e m1 bs1 = Done (m2, ds)" "mset (mappings (gmap m2)) = mset (mappings (gmap m1))"
      using exit_done [of bs1 e m1] waiting_sound [OF w] w by (auto simp: waiting_devices_def)
    then show ?thesis using Cons.prems(1) 1 True b(4) by (auto simp: waiting_devices_def)
  next
    case False
    have "virtio_blk__init e leg m1 bs1 ps = Done (r, m', bs')" using Cons.prems(1) 1 False by auto
    then show ?thesis using Cons.IH [of m1 bs1] w Cons.prems(3) b d by (auto intro: exI [of _ "d # ds" for ds])
  qed
qed simp

lemma opened_addrs:
  "open_each stk ps acc = Done (Inr ds) \<Longrightarrow> \<exists>ts. ds = acc @ ts \<and> list_all2 (\<lambda>p t. \<forall>d. t = Ptr d \<longrightarrow> dk_addr d = pr_addr p) ps ts"
proof (induction ps arbitrary: acc)
  case (Cons p ps)
  have step: "\<exists>ts. ds = acc @ ts \<and> list_all2 (\<lambda>p t. \<forall>d. t = Ptr d \<longrightarrow> dk_addr d = pr_addr p) (p # ps) ts"
    if "open_each stk ps (acc @ [q]) = Done (Inr ds)" "\<And>d. q = Ptr d \<Longrightarrow> dk_addr d = pr_addr p" for q
    using Cons.IH [OF that(1)] that(2) by fastforce
  show ?case
  proof (cases "pr_file p")
    case None
    then show ?thesis using Cons.prems by (intro step) auto
  next
    case (Some hf)
    then obtain d where "open_each stk ps (acc @ [Ptr (d\<lparr>dk_addr := pr_addr p, dk_irq := pr_irq p\<rparr>)]) = Done (Inr ds)"
      using Cons.prems by (auto split: ptr.splits dest!: run_DoneD)
    then show ?thesis by (rule step) auto
  qed
qed simp

lemma init_disks:
  assumes "disk_image__init stk ps = Done (r, Some ds)"
  shows "list_all2 (\<lambda>p t. \<forall>d. t = Ptr d \<longrightarrow> dk_addr d = pr_addr p) ps ds"
  using assms
  by (auto simp: disk_image__init_def disk_image__open_all_def split: if_splits open_result.splits sum.splits
      dest!: run_DoneD opened_addrs)

lemma addrs_of: "list_all2 (\<lambda>p t. \<forall>d. t = Ptr d \<longrightarrow> dk_addr d = pr_addr p) ps (map Ptr ds) \<Longrightarrow> map dk_addr ds = map pr_addr ps"
  by (auto simp: list_all2_conv_all_nth intro: nth_equalityI)

lemma device_initialize_waiting:
  assumes "device_initialize e stk leg ims dv = Done (rc, dv')" and "dv_bdevs dv = []"
  shows "waiting_devices (dv_bdevs dv') \<and>
    mset (mappings (gmap (dv_machine dv'))) = mset (mappings (gmap (dv_machine dv))) \<and>
    (\<not> rc < 0 \<longrightarrow> map device_addr (dv_bdevs dv') = map pr_addr ims)"
proof -
  let ?d0 = "dv\<lparr>dv_kvm := Kvm_at \<lparr>kv_params = ims, kv_disks = []\<rparr>\<rparr>"
  obtain rc1 d1 where r: "run_list (init_call e stk leg) 0 [Disk_image__init, Virtio_blk__init] ?d0 = Done (rc1, d1)"
      and d1: "dv_machine dv' = dv_machine d1" "dv_bdevs dv' = dv_bdevs d1" "rc1 < 0 \<longleftrightarrow> rc < 0"
    using assms(1) by (auto simp: device_initialize_def init_lists_eq init_list__init_def run_lists_concat bind_run_Done_iff
        simp del: run_list.simps split: if_splits)
  obtain r1 ds where 1: "disk_image__init stk ims = Done (r1, ds)"
    using r by (auto simp: the_kvm_def bind_run_Done_iff)
  show ?thesis
  proof (cases "r1 < 0")
    case True
    then show ?thesis using r 1 d1 assms(2) by (auto simp: the_kvm_def waiting_devices_def)
  next
    case False
    obtain ds' where ds': "list_all2 (\<lambda>p t. \<forall>d. t = Ptr d \<longrightarrow> dk_addr d = pr_addr p) ims ds'" "\<forall>d. Ptr d \<in> set ds' \<longrightarrow> disk_sound d"
        "(case ds of Some ds \<Rightarrow> ds | None \<Rightarrow> []) = ds'"
    proof (cases ds)
      case None
      then have "ims = []" using 1 False
        by (auto simp: disk_image__init_def split: if_splits open_result.splits dest!: run_DoneD)
      then show thesis using that None by simp
    next
      case (Some xs)
      then show thesis using that [of xs] disks_sound init_disks 1 by auto
    qed
    then have "(case ds of Some ds \<Rightarrow> ds | None \<Rightarrow> kv_disks \<lparr>kv_params = ims, kv_disks = []\<rparr>) = ds'" by (simp split: option.splits)
    then obtain m bs where 2: "virtio_blk__init e leg (dv_machine dv) [] ds' = Done (rc1, m, bs)" "dv_machine d1 = m" "dv_bdevs d1 = bs"
      using r 1 False assms(2) by (auto simp: the_kvm_def bind_run_Done_iff split: if_splits)
    show ?thesis
      using init_waiting [OF 2(1)] ds' 2(2,3) d1 addrs_of by (auto simp: waiting_devices_def)
  qed
qed

end
