(* ===== verification/XsDevProofs.thy ===== *)
theory XsDevProofs
  imports XsDev
begin

text \<open>
  Properties of the connection through Xenstore: numbers survive being written and read, a failed
  connection leaves nothing behind, and frontends are taken in the order of their domain numbers, each
  at most once.
\<close>

subsection \<open>Numbers\<close>

lemma digit_of_char: "0 \<le> d \<Longrightarrow> d < 10 \<Longrightarrow> digit_of (char_of (48 + d :: int)) = d"
proof -
  assume d: "0 \<le> d" "d < 10"
  have "of_char (char_of (48 + d) :: char) = (48 + d :: int)" using d by simp
  then show ?thesis using d by (simp add: digit_of_def)
qed

lemma scan_digits_append:
  "scan_digits b acc (s @ t) =
     (case scan_digits b acc s of (v, r) \<Rightarrow> if r = [] then scan_digits b v t else (v, r @ t))"
  by (induction s arbitrary: acc) auto

lemma scan_show_nat: "0 \<le> n \<Longrightarrow> scan_digits 10 0 (show_nat n) = (n, [])"
proof (induction n rule: show_nat.induct)
  case (1 n)
  show ?case
  proof (cases "n < 10")
    case True
    then show ?thesis using 1(2) by (simp add: show_nat.simps [of n] digit_of_char)
  next
    case False
    then have "scan_digits 10 0 (show_nat (n div 10)) = (n div 10, [])" using 1 by simp
    then show ?thesis using False
      by (simp add: show_nat.simps [of n] scan_digits_append digit_of_char)
  qed
qed

lemma show_nat_not_Nil: "show_nat n \<noteq> []"
  by (subst show_nat.simps) simp

lemma show_nat_hd: "0 \<le> n \<Longrightarrow> \<exists>d cs. show_nat n = char_of (48 + d :: int) # cs \<and> 0 \<le> d \<and> d < 10"
proof (induction n rule: show_nat.induct)
  case (1 n)
  show ?case
  proof (cases "n < 10")
    case True
    then show ?thesis using 1(2) by (subst show_nat.simps) (rule exI [of _ n], simp)
  next
    case False
    then have "0 \<le> n div 10" using 1(2) by simp
    then obtain d cs where "show_nat (n div 10) = char_of (48 + d :: int) # cs" "0 \<le> d" "d < 10"
      using 1(1) [OF False] by blast
    then show ?thesis using False by (subst show_nat.simps) (rule exI [of _ d], simp)
  qed
qed

lemma digit_char:
  assumes "0 \<le> d" "d < 10"
  shows "\<not> is_space (char_of (48 + d :: int))" "char_of (48 + d :: int) \<noteq> CHR ''-''"
    "char_of (48 + d :: int) \<noteq> CHR ''+''"
proof -
  have c: "of_char (char_of (48 + d) :: char) = (48 + d :: int)" using assms by simp
  show "\<not> is_space (char_of (48 + d :: int))" using assms by (simp add: is_space_def c)
  show "char_of (48 + d :: int) \<noteq> CHR ''-''" "char_of (48 + d :: int) \<noteq> CHR ''+''"
    using assms arg_cong [of "char_of (48 + d :: int)" _ "of_char :: char \<Rightarrow> int"] c by fastforce+
qed

lemma scan_long_show_nat:
  assumes "0 \<le> n" shows "scan_long (\<lambda>t. (10, t)) (show_nat n) = (Some (clamp_long n), [])"
proof -
  obtain d cs where s: "show_nat n = char_of (48 + d :: int) # cs" "0 \<le> d" "d < 10"
    using show_nat_hd [OF assms] by blast
  have "scan_digits 10 0 (char_of (48 + d) # cs) = (n, [])" using scan_show_nat [OF assms] s(1) by simp
  then show ?thesis
    using s(2,3) digit_char [OF s(2,3)] by (auto simp: scan_long_def s(1) digit_of_char)
qed

lemma scan_long_minus:
  assumes "0 \<le> n" shows "scan_long (\<lambda>t. (10, t)) (CHR ''-'' # show_nat n) = (Some (clamp_long (- n)), [])"
proof -
  obtain d cs where s: "show_nat n = char_of (48 + d :: int) # cs" "0 \<le> d" "d < 10"
    using show_nat_hd [OF assms] by blast
  have "scan_digits 10 0 (char_of (48 + d) # cs) = (n, [])" using scan_show_nat [OF assms] s(1) by simp
  moreover have "\<not> is_space (CHR ''-'')" by (simp add: is_space_def)
  ultimately show ?thesis
    using s(2,3) by (auto simp: scan_long_def s(1) digit_of_char)
qed

lemma to_int_id: "- (2 ^ 31) \<le> v \<Longrightarrow> v < 2 ^ 31 \<Longrightarrow> to_int v = v"
  unfolding to_int_def by (simp add: signed_take_bit_int_eq_self)

lemma scan_show_int:
  assumes "- (2 ^ 31) \<le> i" "i < 2 ^ 31" shows "scan_int (show_int i) = Some i"
proof -
  have "clamp_long i = i" using assms by (simp add: clamp_long_def)
  then show ?thesis
    using assms to_int_id [OF assms]
    by (auto simp: scan_int_def show_int_def scan_long_show_nat scan_long_minus)
qed

text \<open>Ten digits and a sign fit into the buffer of twelve characters.\<close>

lemma length_show_nat: "0 \<le> n \<Longrightarrow> n < 10 ^ k \<Longrightarrow> 0 < k \<Longrightarrow> length (show_nat n) \<le> k"
proof (induction k arbitrary: n)
  case 0
  then show ?case by simp
next
  case (Suc k)
  then show ?case
    by (cases "n < 10"; cases "k = 0") (auto simp: show_nat.simps [of n])
qed

lemma fit_show_int:
  assumes "- (2 ^ 31) \<le> i" "i < 2 ^ 31" shows "fit 12 (show_int i) = show_int i"
proof -
  have "length (show_nat (if i < 0 then - i else i)) \<le> 10" using assms by (intro length_show_nat) auto
  then show ?thesis by (auto simp: fit_def show_int_def split: if_splits)
qed

text \<open>A store in which a node just written is read back.\<close>

definition stores :: "'x xs_ops \<Rightarrow> bool" where
  "stores xs \<longleftrightarrow> (\<forall>x p v x'. xs_write xs x p v = (True, x') \<longrightarrow> fst (xs_read xs x' p) = Some v)"

lemma xenstore_int_roundtrip:
  assumes "stores xs" and "- (2 ^ 31) \<le> i" "i < 2 ^ 31" and "xenstore_write_int xs x base node i = (0, x')"
  shows "fst (xenstore_read_int xs x' base node) = Some i"
proof -
  have "xs_write xs x (node_path base node) (show_int i) = (True, x')"
    using assms(4) by (auto simp: xenstore_write_int_def xenstore_write_str_def fit_show_int [OF assms(2,3)]
        split: prod.splits if_splits)
  then have "fst (xs_read xs x' (node_path base node)) = Some (show_int i)"
    using assms(1) by (simp add: stores_def)
  then show ?thesis
    by (simp add: xenstore_read_int_def xenstore_read_str_def scan_show_int [OF assms(2,3)] case_prod_beta)
qed

subsection \<open>Watches\<close>

text \<open>\<open>w\<close> is the set of watches, which only the calls for watches change.\<close>

definition tracks :: "'x xs_ops \<Rightarrow> ('x \<Rightarrow> (string \<times> string) set) \<Rightarrow> bool" where
  "tracks xs w \<longleftrightarrow>
     (\<forall>x p. w (snd (xs_read xs x p)) = w x) \<and> (\<forall>x p v. w (snd (xs_write xs x p v)) = w x) \<and>
     (\<forall>x p. w (xs_rm xs x p) = w x) \<and> (\<forall>x r x'. xs_read_watch xs x = Some (r, x') \<longrightarrow> w x' = w x) \<and>
     (\<forall>x p t x'. xs_watch xs x p t = (True, x') \<longrightarrow> w x' = insert (p, t) (w x)) \<and>
     (\<forall>x p t x'. xs_watch xs x p t = (False, x') \<longrightarrow> w x' = w x) \<and>
     (\<forall>x p t. w (xs_unwatch xs x p t) = w x - {(p, t)})"

lemma tracksD:
  assumes "tracks xs w"
  shows "xs_read xs x p = (v, x') \<Longrightarrow> w x' = w x" and "xs_write xs x p s = (ok, x') \<Longrightarrow> w x' = w x"
    and "w (xs_rm xs x p) = w x" and "xs_read_watch xs x = Some (r, x') \<Longrightarrow> w x' = w x"
    and "xs_watch xs x p t = (ok, x') \<Longrightarrow> w x' = (if ok then insert (p, t) (w x) else w x)"
    and "w (xs_unwatch xs x p t) = w x - {(p, t)}"
proof -
  note u = assms [unfolded tracks_def]
  show "xs_read xs x p = (v, x') \<Longrightarrow> w x' = w x" using u by (metis snd_conv)
  show "xs_write xs x p s = (ok, x') \<Longrightarrow> w x' = w x" using u by (metis snd_conv)
  show "xs_watch xs x p t = (ok, x') \<Longrightarrow> w x' = (if ok then insert (p, t) (w x) else w x)" using u by (cases ok) auto
qed (use assms in \<open>auto simp: tracks_def\<close>)

lemma tracks_read_int: "tracks xs w \<Longrightarrow> xenstore_read_int xs x b n = (r, x') \<Longrightarrow> w x' = w x"
  by (auto simp: xenstore_read_int_def xenstore_read_str_def dest: tracksD(1) split: prod.splits)

lemma tracks_set_state:
  "tracks xs w \<Longrightarrow> xenstore_set_be_state xs x dev st = (rc, dev', x') \<Longrightarrow>
     w x' = w x \<and> xs_be dev' = xs_be dev \<and> xs_fe dev' = xs_fe dev"
  by (auto simp: xenstore_set_be_state_def xenstore_write_be_int_def xenstore_write_int_def
      xenstore_write_str_def dest: tracksD(2) split: prod.splits if_splits)

lemma tracks_wait:
  "tracks xs w \<Longrightarrow> wait_be_state xs n x dev a = Done (r, x') \<Longrightarrow> w x' = w x"
proof (induction n arbitrary: x)
  case 0
  show ?case using "0.prems"(2)
    by (subst (asm) wait_be_state.simps)
      (auto simp: xenstore_read_be_int_def tracks_read_int [OF "0.prems"(1)] tracksD(4) [OF "0.prems"(1)]
        split: prod.splits option.splits if_splits)
next
  case (Suc n)
  note t = Suc.prems(1)
  obtain st x1 where r: "xenstore_read_be_int xs x dev ''state'' = (st, x1)" by fastforce
  have w: "w x1 = w x" using r tracks_read_int [OF t] by (simp add: xenstore_read_be_int_def)
  show ?case using Suc.prems(2) r w Suc.IH [OF t]
    by (subst (asm) wait_be_state.simps)
      (fastforce dest: tracksD(4) [OF t] split: option.splits if_splits prod.splits)
qed

definition keeps_watches :: "('x \<Rightarrow> xs_dev \<Rightarrow> 'c \<Rightarrow> int \<times> 'c \<times> 'x) \<Rightarrow> ('x \<Rightarrow> (string \<times> string) set) \<Rightarrow> bool" where
  "keeps_watches cb w \<longleftrightarrow> (\<forall>x d c r c' x'. cb x d c = (r, c', x') \<longrightarrow> w x' = w x)"

lemma be_ready_watches:
  assumes t: "tracks xs w" and r: "be_ready xs x dev = (ok, dev', x')"
  shows "w x' = w x \<and> xs_be dev' = xs_be dev \<and> xs_fe dev' = xs_fe dev"
proof -
  obtain st x1 where 1: "xenstore_read_int xs x (xs_be dev) ''state'' = (st, x1)" by fastforce
  note w1 = tracks_read_int [OF t 1]
  show ?thesis
  proof (cases st)
    case None
    then show ?thesis using r 1 w1 by (auto simp: be_ready_def xenstore_read_be_int_def)
  next
    case (Some v)
    obtain rc dev2 x2 where
      2: "xenstore_set_be_state xs x1 (dev\<lparr>xs_be_state := v\<rparr>) (XenbusStateInitWait xs) = (rc, dev2, x2)"
      by (metis prod_cases3)
    show ?thesis using r 1 w1 2 Some tracks_set_state [OF t 2]
      by (auto simp: be_ready_def xenstore_read_be_int_def Let_def split: if_splits)
  qed
qed

lemma fe_ready_watches:
  "tracks xs w \<Longrightarrow> fe_ready xs x dev = (ok, dev', x') \<Longrightarrow>
     w x' = w x \<and> xs_be dev' = xs_be dev \<and> (ok \<longrightarrow> xs_fe dev' \<noteq> None)"
  by (auto simp: fe_ready_def xenstore_read_be_str_def xenstore_read_str_def dest: tracks_read_int tracksD(1)
      split: prod.splits option.splits)

lemma watch_both_watches:
  assumes t: "tracks xs w" and r: "watch_both xs x be fe = (ok, x')"
  shows "w x \<subseteq> w x' \<and> w x' \<subseteq> insert (fe, fe) (insert (be, be) (w x)) \<and>
     (ok \<longrightarrow> w x' = insert (fe, fe) (insert (be, be) (w x)))"
proof -
  obtain ok1 x1 where 1: "xs_watch xs x be be = (ok1, x1)" by fastforce
  note w1 = tracksD(5) [OF t 1]
  show ?thesis
  proof (cases ok1)
    case True
    then have 2: "xs_watch xs x1 fe fe = (ok, x')" using r 1 by (simp add: watch_both_def)
    show ?thesis using w1 tracksD(5) [OF t 2] True by auto
  qed (use r 1 w1 in \<open>auto simp: watch_both_def\<close>)
qed

lemma attempt_watches:
  assumes t: "tracks xs w" and k: "keeps_watches cb w"
    and r: "connect_attempt xs n cb x dev c = Done (ok, dev', c', x')"
  shows "xs_be dev' = xs_be dev \<and>
    (if ok then \<exists>fe. xs_fe dev' = Some fe \<and> w x' = insert (fe, fe) (insert (xs_be dev, xs_be dev) (w x))
     else w x' \<subseteq> insert (xs_be dev, xs_be dev)
            (case xs_fe dev' of None \<Rightarrow> w x | Some fe \<Rightarrow> insert (fe, fe) (w x)))"
proof -
  obtain ok1 dev1 x1 where 1: "be_ready xs x dev = (ok1, dev1, x1)" by (metis prod_cases3)
  obtain ok2 dev2 x2 where 2: "fe_ready xs x1 dev1 = (ok2, dev2, x2)" by (metis prod_cases3)
  note w12 = be_ready_watches [OF t 1] fe_ready_watches [OF t 2]
  show ?thesis
  proof (cases "ok1 \<and> ok2")
    case False
    then show ?thesis using r 1 2 w12 by (cases ok1) (auto simp: connect_attempt_def split: option.splits)
  next
    case True
    then obtain fe where fe: "xs_fe dev2 = Some fe" using w12 by blast
    obtain ok3 x3 where 3: "watch_both xs x2 (xs_be dev2) fe = (ok3, x3)" by fastforce
    note w3 = watch_both_watches [OF t 3]
    have r3: "(if \<not> ok3 then Done (False, dev2, c, x3)
        else bind_run (xenstore_wait_be_state xs n x3 dev2 (push_bit (nat (XenbusStateInitWait xs)) 1)) (\<lambda>(w, x4).
          if w \<noteq> XenbusStateInitWait xs then Done (False, dev2, c, x4)
          else case cb x4 dev2 c of (r, c', x5) \<Rightarrow> Done (\<not> r < 0, dev2, c', x5))) = Done (ok, dev', c', x')"
      using r 1 2 3 True fe by (simp add: connect_attempt_def fe_of_def)
    show ?thesis
    proof (cases ok3)
      case False
      then show ?thesis using r3 w12 w3 fe by auto
    next
      case ok3: True
      then obtain v x4 where 4: "xenstore_wait_be_state xs n x3 dev2 (push_bit (nat (XenbusStateInitWait xs)) 1) = Done (v, x4)"
          "(if v \<noteq> XenbusStateInitWait xs then Done (False, dev2, c, x4)
            else case cb x4 dev2 c of (r, c', x5) \<Rightarrow> Done (\<not> r < 0, dev2, c', x5)) = Done (ok, dev', c', x')"
        using r3 by (auto simp: bind_run_Done_iff)
      have w4: "w x4 = w x3" using 4(1) tracks_wait [OF t] by (simp add: xenstore_wait_be_state_def)
      obtain r c2 x5 where 5: "cb x4 dev2 c = (r, c2, x5)" by (metis prod_cases3)
      have w5: "w x5 = w x4" using k 5 by (auto simp: keeps_watches_def)
      show ?thesis using 4(2) 5 w12 w3 w4 w5 fe ok3 by (auto split: if_splits)
    qed
  qed
qed

lemma disconnect_watches:
  assumes "tracks xs w" and "xenstore_disconnect_dom xs x dev = (dev', x')"
  shows "xs_fe dev' = None \<and> xs_fe_domid dev' = 0 \<and> xs_be dev' = xs_be dev \<and>
    w x' = w x - {(xs_be dev, xs_be dev)} - (case xs_fe dev of None \<Rightarrow> {} | Some fe \<Rightarrow> {(fe, fe)}) \<and>
    (\<exists>y. x' = xs_rm xs y (xs_be dev))"
  using assms(2) tracks_set_state [OF assms(1)]
  by (fastforce simp: xenstore_disconnect_dom_def tracksD(3,6) [OF assms(1)] split: prod.splits option.splits)


text \<open>
  C33: A connection either succeeds or is undone.  On success both ends are watched; on a failure, whatever
  the step, no watch of the attempt remains, the frontend is forgotten, and the last thing done to the
  store is the removal of the backend's directory.
\<close>

theorem xenstore_connect_dom_clean:
  assumes "tracks xs w" and "keeps_watches cb w"
    and "xenstore_connect_dom xs n cb x dev be_domid fe_domid c = Done (rc, dev', c', x')"
  shows "(rc = 0 \<and> (\<exists>fe. xs_fe dev' = Some fe \<and> w x' = insert (fe, fe) (insert (xs_be dev', xs_be dev') (w x)))) \<or>
    (rc = -1 \<and> xs_fe dev' = None \<and> xs_fe_domid dev' = 0 \<and> w x' \<subseteq> w x \<and> (xs_be dev', xs_be dev') \<notin> w x' \<and>
      (\<exists>y. x' = xs_rm xs y (xs_be dev')))"
proof -
  let ?d = "dev\<lparr>xs_be_domid := be_domid, xs_fe_domid := fe_domid,
    xs_be := backend_path (dev\<lparr>xs_be_domid := be_domid, xs_fe_domid := fe_domid\<rparr>)\<rparr>"
  obtain ok dev1 c1 x1 where a: "connect_attempt xs n cb x ?d c = Done (ok, dev1, c1, x1)"
    using assms(3) by (auto simp: xenstore_connect_dom_def Let_def bind_run_Done_iff)
  note aw = attempt_watches [OF assms(1,2) a]
  show ?thesis
  proof (cases ok)
    case True
    then show ?thesis using assms(3) a aw by (auto simp: xenstore_connect_dom_def Let_def)
  next
    case False
    obtain dev2 x2 where d: "xenstore_disconnect_dom xs x1 dev1 = (dev2, x2)" by fastforce
    show ?thesis using assms(3) a aw False d disconnect_watches [OF assms(1) d]
      by (auto simp: xenstore_connect_dom_def Let_def split: option.splits)
  qed
qed

text \<open>A store of nodes, directories and watches.\<close>

record sample_store =
  ss_nodes :: "(string \<times> string) list"
  ss_dirs :: "(string \<times> string list) list"
  ss_watches :: "(string \<times> string) list"

definition sample_xs :: "sample_store xs_ops" where
  "sample_xs =
     \<lparr>xs_read = (\<lambda>x p. (map_of (ss_nodes x) p, x)),
      xs_write = (\<lambda>x p v. (True, x\<lparr>ss_nodes := (p, v) # ss_nodes x\<rparr>)),
      xs_rm = (\<lambda>x p. x\<lparr>ss_nodes := filter (\<lambda>(q, v). take (length p) q \<noteq> p) (ss_nodes x)\<rparr>),
      xs_watch = (\<lambda>x p t. (True, x\<lparr>ss_watches := (p, t) # ss_watches x\<rparr>)),
      xs_unwatch = (\<lambda>x p t. x\<lparr>ss_watches := filter (\<lambda>v. v \<noteq> (p, t)) (ss_watches x)\<rparr>),
      xs_read_watch = (\<lambda>x. case ss_watches x of [] \<Rightarrow> None | v # _ \<Rightarrow> Some (Some v, x)),
      xs_directory = (\<lambda>x p. (map_of (ss_dirs x) p, x)), xs_poll = (\<lambda>x. ((1, True), x)), errno_eintr = (\<lambda>x. False),
      XenbusStateUnknown = 0, XenbusStateInitialising = 1, XenbusStateInitWait = 2, XenbusStateClosed = 6\<rparr>"

definition sample_dev :: xs_dev where
  "sample_dev = \<lparr>xs_be_domid = 0, xs_fe_domid = 0, xs_type = ''virtio_disk'', xs_devid_str = None, xs_devid = 51712,
     xs_be = [], xs_path = ''backend/virtio_disk'', xs_fe = None, xs_be_state = 0, xs_curr_domid = 0\<rparr>"

definition sample_store :: sample_store where
  "sample_store =
     \<lparr>ss_nodes = [(''backend/virtio_disk/7/51712/state'', ''1''),
        (''backend/virtio_disk/7/51712/frontend'', ''/local/domain/7/device/virtio_disk/51712''),
        (''/local/domain/7/device/virtio_disk/51712/state'', ''1'')],
      ss_dirs = [(''backend/virtio_disk'', [''7'']), (''backend/virtio_disk/7'', [''51712''])], ss_watches = []\<rparr>"

lemma sample_tracks: "tracks sample_xs (\<lambda>x. set (ss_watches x))"
  by (auto simp: tracks_def sample_xs_def split: list.splits)

theorem xenstore_connect_dom_clean_witness:
  "\<exists>dev x fe. xenstore_connect_dom sample_xs 3 (\<lambda>x d c. (0, c, x)) sample_store sample_dev 0 7 () = Done (0, dev, (), x) \<and>
     set (ss_watches x) = {(fe, fe), (xs_be dev, xs_be dev)}"
proof -
  let ?r = "xenstore_connect_dom sample_xs 3 (\<lambda>x d c. (0, c, x)) sample_store sample_dev 0 7 ()"
  have "(case ?r of Done r \<Rightarrow> Some (fst r) | _ \<Rightarrow> None) = Some 0" by code_simp
  then obtain dev x where r: "?r = Done (0, dev, (), x)" by (auto split: run.splits)
  have "keeps_watches (\<lambda>x d c. (0, c, x)) (\<lambda>x. set (ss_watches x))" by (simp add: keeps_watches_def)
  from xenstore_connect_dom_clean [OF sample_tracks this r] obtain fe where
    "set (ss_watches x) = insert (fe, fe) (insert (xs_be dev, xs_be dev) (set (ss_watches sample_store)))" by auto
  then show ?thesis using r by (auto simp: sample_store_def)
qed

subsection \<open>Finding frontends\<close>

lemma newest_domid_ge: "c \<le> newest_domid c ds"
  unfolding newest_domid_def by (induction ds arbitrary: c) (auto intro: order.trans less_imp_le)

lemma newest_domid_le:
  "newest_domid c ds \<le> c' \<longleftrightarrow> c \<le> c' \<and> (\<forall>d\<in>set ds. of_int (atoi d) \<le> c')"
  unfolding newest_domid_def by (induction ds arbitrary: c) auto

definition domids_forward :: "xs_dev \<Rightarrow> int \<Rightarrow> xs_dev \<Rightarrow> bool" where
  "domids_forward dev r dev' \<longleftrightarrow> xs_path dev' = xs_path dev \<and> xs_curr_domid dev \<le> xs_curr_domid dev' \<and>
     (r > 0 \<longrightarrow> r = uint (xs_curr_domid dev') \<and> xs_curr_domid dev < xs_curr_domid dev')"

lemma check_fe_exists_keeps:
  "xenstore_check_fe_exists xs x dev domid = Done (ok, dev', x') \<Longrightarrow>
     xs_curr_domid dev' = xs_curr_domid dev \<and> xs_path dev' = xs_path dev"
  by (auto simp: xenstore_check_fe_exists_def bind_run_Done_iff case_prod_beta
      split: prod.split_asm option.split_asm)

lemma get_fe_domid_forward:
  "xenstore_get_fe_domid xs x dev = Done (r, dev', x') \<Longrightarrow> domids_forward dev r dev'"
  using newest_domid_ge [of "xs_curr_domid dev"]
  by (auto simp: xenstore_get_fe_domid_def Let_def bind_run_Done_iff domids_forward_def
      dest!: check_fe_exists_keeps split: prod.splits option.splits if_splits)

lemma poll_be_watch_forward:
  "xenstore_poll_be_watch xs x dev = Done (r, dev', x') \<Longrightarrow> domids_forward dev r dev'"
  by (auto simp: xenstore_poll_be_watch_def domids_forward_def
      dest: get_fe_domid_forward [unfolded domids_forward_def] split: option.splits prod.splits if_splits)

lemma forward_trans:
  "domids_forward d r d' \<Longrightarrow> domids_forward d' r' d'' \<Longrightarrow> domids_forward d r' d''"
  by (auto simp: domids_forward_def)

lemma wait_fe_step:
  assumes "wait_fe_loop xs n x dev = Done (r, dev', x')"
  obtains r1 dev1 x2 where "domids_forward dev r1 dev1"
    and "(if r1 > 0 then Done (r1, dev1, x2)
        else if r1 < 0 \<and> \<not> errno_eintr xs x2 then Done (-1, dev1, x2)
        else (case n of 0 \<Rightarrow> NoFuel | Suc n' \<Rightarrow> wait_fe_loop xs n' x2 dev1)) = Done (r, dev', x')"
proof -
  obtain rc pollin x1 where p: "xs_poll xs x = ((rc, pollin), x1)" by (metis prod.collapse)
  obtain q where q: "(if rc > 0 \<and> pollin then xenstore_poll_be_watch xs x1 dev else Done (min rc 0, dev, x1)) = Done q"
    and e: "(case q of (r1, dev1, x2) \<Rightarrow> if r1 > 0 then Done (r1, dev1, x2)
        else if r1 < 0 \<and> \<not> errno_eintr xs x2 then Done (-1, dev1, x2)
        else (case n of 0 \<Rightarrow> NoFuel | Suc n' \<Rightarrow> wait_fe_loop xs n' x2 dev1)) = Done (r, dev', x')"
    using assms unfolding wait_fe_loop.simps [of xs n x dev] p prod.case bind_run_Done_iff by (elim exE conjE)
  obtain r1 dev1 x2 where q3: "q = (r1, dev1, x2)" by (cases q)
  note s = q [unfolded q3]
  have "domids_forward dev r1 dev1"
  proof (cases "rc > 0 \<and> pollin")
    case True
    then have "xenstore_poll_be_watch xs x1 dev = Done (r1, dev1, x2)" using s by simp
    then show ?thesis by (rule poll_be_watch_forward)
  next
    case False
    then show ?thesis using s by (auto simp: domids_forward_def)
  qed
  then show thesis using e [unfolded q3 prod.case] by (rule that)
qed

lemma wait_fe_forward:
  "wait_fe_loop xs n x dev = Done (r, dev', x') \<Longrightarrow> domids_forward dev r dev'"
proof (induction n arbitrary: x dev)
  case 0
  show ?case by (rule wait_fe_step [OF 0]) (auto simp: domids_forward_def split: if_splits)
next
  case (Suc n)
  obtain r1 dev1 x2 where f: "domids_forward dev r1 dev1"
    and s: "(if r1 > 0 then Done (r1, dev1, x2) else if r1 < 0 \<and> \<not> errno_eintr xs x2 then Done (-1, dev1, x2)
      else (case Suc n of 0 \<Rightarrow> NoFuel | Suc n' \<Rightarrow> wait_fe_loop xs n' x2 dev1)) = Done (r, dev', x')"
    by (rule wait_fe_step [OF Suc.prems])
  show ?case using s Suc.IH [of x2 dev1] forward_trans [OF f] f by (auto simp: domids_forward_def split: if_splits)
qed

text \<open>
  Frontends are taken in the order of their domain numbers: the number that
  \<open>xenstore_wait_fe_domid\<close> returns is the largest that was listed and larger than any it has
  returned before, so no domain is ever served twice, whatever the other domains write to the store.
\<close>

theorem frontends_in_order:
  assumes "xenstore_wait_fe_domid xs n x dev = Done (r, dev1, x1)" and "r > 0"
    and "xenstore_wait_fe_domid xs m y dev2 = Done (r', dev3, y1)" and "r' > 0"
    and "xs_curr_domid dev2 = xs_curr_domid dev1"
  shows "uint (xs_curr_domid dev) < r \<and> r < r'"
proof -
  have "domids_forward dev r dev1" "domids_forward dev2 r' dev3"
    using assms(1-4)
    by (auto simp: xenstore_wait_fe_domid_def bind_run_Done_iff dest!: wait_fe_forward split: prod.splits if_splits)
  then show ?thesis using assms(2,4,5) by (auto simp: domids_forward_def word_less_def)
qed

definition later_store :: sample_store where
  "later_store = \<lparr>ss_nodes = [(''/local/domain/9/device/virtio_disk/51712'', []), (''/local/domain/7/device/virtio_disk/51712'', [])],
     ss_dirs = [(''backend/virtio_disk'', [''7'', ''9'']), (''backend/virtio_disk/7'', [''51712'']),
       (''backend/virtio_disk/9'', [''51712''])], ss_watches = []\<rparr>"

definition early_store :: sample_store where
  "early_store = later_store\<lparr>ss_dirs := [(''backend/virtio_disk'', [''7'']), (''backend/virtio_disk/7'', [''51712''])]\<rparr>"

theorem frontends_in_order_witness:
  "\<exists>dev x dev' x'. xenstore_wait_fe_domid sample_xs 3 early_store sample_dev = Done (7, dev, x) \<and>
     xenstore_wait_fe_domid sample_xs 3 later_store dev = Done (9, dev', x') \<and> (7 :: int) < 9"
proof -
  let ?d = "sample_dev\<lparr>xs_curr_domid := 7\<rparr>"
  have 1: "xenstore_wait_fe_domid sample_xs 3 early_store sample_dev = Done (7, ?d, early_store)" by code_simp
  have 2: "(case xenstore_wait_fe_domid sample_xs 3 later_store ?d of Done r \<Rightarrow> Some (fst r) | _ \<Rightarrow> None) = Some 9" by code_simp
  then obtain dev' x' where r: "xenstore_wait_fe_domid sample_xs 3 later_store ?d = Done (9, dev', x')"
    by (auto split: run.splits)
  show ?thesis using frontends_in_order [OF 1 _ r] 1 r by auto
qed

text \<open>
  A frontend whose nodes are not complete when its domain is first seen is lost: the look-up has
  already moved \<open>curr_domid\<close> past it, so a later look-up of the same domains returns nothing, even when
  the nodes are there by then.
\<close>

theorem unfinished_frontend_lost:
  assumes "xs_directory xs x (xs_path dev) = (Some ds, x1)"
    and "xenstore_get_fe_domid xs x dev = Done (0, dev1, x2)"
    and "xs_directory xs y (xs_path dev1) = (Some ds', y1)" and "set ds' \<subseteq> set ds"
  shows "xenstore_get_fe_domid xs y dev1 = Done (0, dev1, y1)"
proof -
  have c: "xs_curr_domid dev1 = newest_domid (xs_curr_domid dev) ds"
    using assms(1,2) newest_domid_ge [of "xs_curr_domid dev" ds]
    by (auto simp: xenstore_get_fe_domid_def Let_def bind_run_Done_iff dest!: check_fe_exists_keeps split: if_splits prod.splits)
  have "newest_domid (xs_curr_domid dev1) ds' \<le> xs_curr_domid dev1"
    using newest_domid_le [of "xs_curr_domid dev" ds "xs_curr_domid dev1"] assms(4) c
    by (auto simp: newest_domid_le)
  then have "newest_domid (xs_curr_domid dev1) ds' = xs_curr_domid dev1"
    using newest_domid_ge by (rule antisym)
  then show ?thesis using assms(3) by (simp add: xenstore_get_fe_domid_def Let_def)
qed

definition incomplete_store :: sample_store where
  "incomplete_store = early_store\<lparr>ss_nodes := []\<rparr>"

theorem unfinished_frontend_lost_witness:
  "\<exists>dev. xenstore_get_fe_domid sample_xs incomplete_store sample_dev = Done (0, dev, incomplete_store) \<and>
     xenstore_get_fe_domid sample_xs early_store sample_dev \<noteq> Done (0, dev, early_store) \<and>
     xenstore_get_fe_domid sample_xs early_store dev = Done (0, dev, early_store)"
proof -
  let ?d = "sample_dev\<lparr>xs_devid := 0, xs_curr_domid := 7\<rparr>"
  have 1: "xenstore_get_fe_domid sample_xs incomplete_store sample_dev = Done (0, ?d, incomplete_store)" by code_simp
  have 2: "(case xenstore_get_fe_domid sample_xs early_store sample_dev of Done r \<Rightarrow> Some (fst r) | _ \<Rightarrow> None) = Some 7"
    by code_simp
  have d: "xs_directory sample_xs incomplete_store (xs_path sample_dev) = (Some [''7''], incomplete_store)"
    "xs_directory sample_xs early_store (xs_path ?d) = (Some [''7''], early_store)" by code_simp+
  show ?thesis using unfinished_frontend_lost [OF d(1) 1 d(2)] 1 2 by auto
qed

end
