(* ===== verification/Session.thy ===== *)
theory Session
  imports DemuLedger DeviceSound XsDevProofs
begin

text \<open>
  Sessions: from \<open>demu_initialize\<close> over rounds of the main loop, steps of the devices' threads and writes
  of the guest, in any order, to \<open>demu_teardown\<close>.  The invariant of the reachable states, and the
  properties that rest on it.
\<close>

subsection \<open>Initialisation brings up devices or none\<close>

text \<open>
  Once they are up, the devices are attached and sound as \<open>attached\<close> and \<open>waiting_devices\<close> say, one for each image at its
  address; before that there is none.  No page \<open>M\<close> that was mapped before is given back, and none is mapped.
\<close>

definition image_addrs :: "'x demu \<Rightarrow> u32 list" where
  "image_addrs d = map im_addr (take (image_count d) (images d))"

definition guest_pages :: "'x demu \<Rightarrow> (u64 \<times> u32) multiset" where
  "guest_pages d = mset (mappings (gmap (dv_machine (devs d))))"

definition devices_up :: "'x demu \<Rightarrow> bool" where
  "devices_up d \<longleftrightarrow> devices_ok (devs d) \<and> (\<exists>k. dv_kvm (devs d) = Kvm_at k) \<and>
     map device_addr (dv_bdevs (devs d)) = image_addrs d"

definition devices_new :: "(u64 \<times> u32) multiset \<Rightarrow> 'x demu \<Rightarrow> bool" where
  "devices_new M d \<longleftrightarrow> devices_up d \<and> waiting_devices (dv_bdevs (devs d)) \<and> guest_pages d = M"

definition devices_down :: "(u64 \<times> u32) multiset \<Rightarrow> 'x demu \<Rightarrow> bool" where
  "devices_down M d \<longleftrightarrow> devices_ok (devs d) \<and> dv_bdevs (devs d) = [] \<and> guest_pages d = M"

lemma keeps_triple: "(\<And>d ok d'. f d = Done (ok, d') \<Longrightarrow> P d \<Longrightarrow> P d') \<Longrightarrow> triple P f P P"
  by (rule tripleI) (auto split: if_splits)

text \<open>The steps before the devices are brought up change neither them nor the connection to the store, which the first opens.\<close>

lemma bind_ports_frame: "bind_ports xen i n d = Done (ok, d') \<Longrightarrow> devs d' = devs d \<and> xdev d' = xdev d"
  by (induction n arbitrary: i d)
    (auto simp: Let_def hold_def dest!: next_seq_result split: if_splits)

lemma early_frames:
  "acquire b r d = Done (ok, d') \<Longrightarrow> devs d' = devs d \<and> xdev d' = xdev d"
  "server_step xen d = Done (ok, d') \<Longrightarrow> devs d' = devs d \<and> xdev d' = xdev d"
  "resource_step xen d = Done (ok, d') \<Longrightarrow> devs d' = devs d \<and> xdev d' = xdev d"
  "array_step xen c d = Done (ok, d') \<Longrightarrow> devs d' = devs d \<and> xdev d' = xdev d"
  "and_then (array_step xen c) (bind_ports xen i k) d = Done (ok, d') \<Longrightarrow> devs d' = devs d \<and> xdev d' = xdev d"
  "connect_step xs n d = Done (ok, d') \<Longrightarrow> devs d' = devs d"
  by (auto simp: acquire_def server_step_def resource_step_def array_step_def connect_step_def and_then_def hold_def Let_def
       bind_run_Done_iff dest!: next_seq_result bind_ports_frame split: if_splits option.splits)

lemma init_fails_empty:
  "bs = [] \<Longrightarrow> virtio_blk__init e leg m bs ps = Done (r, m', bs') \<Longrightarrow> r < 0 \<Longrightarrow> bs' = []"
proof -
  have "virtio_blk__init e leg m bs ps = Done (r, m', bs') \<Longrightarrow> r < 0 \<Longrightarrow> bs' = []" for bs
    by (induction ps arbitrary: m bs) (auto simp: bind_run_Done_iff split: if_splits)
  then show "virtio_blk__init e leg m bs ps = Done (r, m', bs') \<Longrightarrow> r < 0 \<Longrightarrow> bs' = []" by blast
qed

lemma device_initialize_result:
  assumes "device_initialize e stk leg ims d = Done (rc, d')" and "dv_bdevs d = []"
  shows "if rc < 0 then dv_bdevs d' = [] else \<exists>k. dv_kvm d' = Kvm_at k"
  using assms
  by (auto simp: device_initialize_def init_lists_eq init_list__init_def run_lists_concat bind_run_Done_iff the_kvm_def
      split: if_splits dest: init_fails_empty)

lemma devices_step_triple: "triple (devices_down M) (devices_step e stk leg host) (devices_new M) (devices_down M)"
proof (rule tripleI)
  fix d :: "'a demu" and ok d'
  assume d: "devices_down M d" and r: "devices_step e stk leg host d = Done (ok, d')"
  obtain rc dv where i: "device_initialize e stk leg (map (params_of host) (take (image_count d) (images d))) (devs d) = Done (rc, dv)"
    and d': "(if rc < 0 then Done (False, d\<lparr>devs := dv\<rparr>) else next_seq (d\<lparr>devs := dv\<rparr>)) = Done (ok, d')"
    using r by (auto simp: devices_step_def Let_def bind_run_Done_iff)
  have "devices_ok dv" using device_initialize_attached [OF _ i] d by (simp add: devices_down_def)
  moreover have "if rc < 0 then dv_bdevs dv = [] else \<exists>k. dv_kvm dv = Kvm_at k"
    using device_initialize_result [OF i] d by (simp add: devices_down_def)
  moreover note device_initialize_waiting [OF i]
  ultimately show "if ok then devices_new M d' else devices_down M d'"
    using d d' by (auto simp: devices_new_def devices_up_def devices_down_def guest_pages_def image_addrs_def params_of_def comp_def
        dest!: next_seq_result split: if_splits)
qed

lemma init_steps_devices: "triple (devices_down M) (init_steps e stk leg host xs xen) (devices_new M) (devices_down M)"
proof -
  have keep: "triple (devices_down M) f (devices_down M) (devices_down M)"
    if "\<And>d ok d'. f d = Done (ok, d') \<Longrightarrow> devs d' = devs d" for f :: "'a init_step"
    by (rule keeps_triple) (auto simp: devices_down_def guest_pages_def dest!: that)
  show ?thesis
  proof (rule init_steps_triple [where A = "devices_down M" and B = "devices_down M" and C = "devices_new M"])
    show "triple (devices_down M) forget_mappings_model (devices_down M) (devices_down M)"
      by (rule keeps_triple) (auto simp: devices_down_def guest_pages_def devices_ok_def forget_mappings_model_def attached_def)
    show "triple (devices_new M) next_seq (devices_new M) (devices_down M)"
      by (rule tripleI) (auto simp: devices_new_def devices_up_def guest_pages_def image_addrs_def dest!: next_seq_result)
  qed (auto intro!: keep devices_step_triple dest: early_frames)
qed

text \<open>Once the ports are bound there is one for each virtual CPU, the one that its slot of the shared page asks for.\<close>

definition ports_of :: "xen \<Rightarrow> nat \<Rightarrow> ioreq list \<Rightarrow> u32 list" where
  "ports_of xen n p = map (\<lambda>r. of_int (bind_port xen (vp_eport r))) (take n p)"

definition ports_bound :: "xen \<Rightarrow> 'x demu \<Rightarrow> bool" where
  "ports_bound xen d \<longleftrightarrow> (\<exists>n p. nr_vcpus xen = Some n \<and> iopage xen = Some p \<and> unat n \<le> length p \<and>
     ports d = ports_of xen (unat n) p)"

lemma bind_ports_binds:
  "bind_ports xen i n d = Done (True, d') \<Longrightarrow> i + n = length (ports d) \<Longrightarrow> take i (ports d) = ports_of xen i (page d) \<Longrightarrow> i \<le> length (page d) \<Longrightarrow>
     i + n \<le> length (page d) \<and> ports d' = ports_of xen (i + n) (page d)"
proof (induction n arbitrary: i d)
  case 0
  then show ?case by (auto dest!: next_seq_result)
next
  case (Suc n)
  let ?p = "of_int (bind_port xen (vp_eport (page d ! i))) :: u32"
  let ?d = "hold (Bound_port ?p) (d\<lparr>ports := (ports d)[i := ?p]\<rparr>)"
  have 1: "i < length (page d)" "bind_ports xen (Suc i) n ?d = Done (True, d')"
    using Suc.prems(1) by (auto simp: Let_def split: if_splits)
  have "take (Suc i) (ports ?d) = ports_of xen (Suc i) (page ?d)"
    using Suc.prems(2,3) 1(1) by (simp add: hold_def take_Suc_conv_app_nth ports_of_def)
  then show ?case using Suc.IH [OF 1(2)] Suc.prems(2) 1(1) by (simp add: hold_def)
qed

lemma init_steps_ports:
  "triple (\<lambda>d :: 'a demu. True) (init_steps e stk leg host xs xen) (ports_bound xen) (\<lambda>d. True)"
proof (rule init_steps_triple [where A = "\<lambda>d. iopage xen = Some (page d)" and B = "ports_bound xen" and C = "ports_bound xen"])
  fix n
  assume n: "nr_vcpus xen = Some n"
  show "triple (\<lambda>d :: 'a demu. iopage xen = Some (page d)) (and_then (array_step xen n) (bind_ports xen 0 (unat n)))
      (ports_bound xen) (\<lambda>d. True)"
  proof (rule tripleI)
    fix d :: "'a demu" and ok d'
    assume p: "iopage xen = Some (page d)" and r: "and_then (array_step xen n) (bind_ports xen 0 (unat n)) d = Done (ok, d')"
    show "if ok then ports_bound xen d' else True"
    proof (cases ok)
      case True
      then obtain d1 where 1: "array_step xen n d = Done (True, d1)" "bind_ports xen 0 (unat n) d1 = Done (True, d')"
        using r by (auto simp: and_then_def bind_run_Done_iff split: if_splits)
      have "ports d1 = replicate (unat n) (-1)" "page d1 = page d"
        using 1(1) by (auto simp: array_step_def hold_def dest!: next_seq_result split: if_splits)
      then show ?thesis using bind_ports_binds [OF 1(2)] n p by (simp add: ports_bound_def ports_of_def)
    qed simp
  qed
qed (auto intro!: tripleI simp: resource_step_def acquire_def hold_def devices_step_def ports_bound_def Let_def bind_run_Done_iff
    dest!: next_seq_result split: if_splits option.splits)

section \<open>Sessions\<close>

text \<open>
  One step of the running program: a round of the main loop, a step of a device's thread, or the guest
  and the hypervisor writing to memory and to the shared page.
\<close>

definition thread_step :: "env \<Rightarrow> nat \<Rightarrow> nat \<Rightarrow> devices \<Rightarrow> (unit \<times> devices) run" where
  "thread_step e k t dv =
     with_device k dv (\<lambda>s.
       if t < length (threads (dev s)) then
         (case virtio_blk_thread e t s of
            None \<Rightarrow> Done ((), s)
          | Some r \<Rightarrow> bind_run r (\<lambda>s'. Done ((), s')))
       else Done ((), s))"

inductive world_step :: "env \<Rightarrow> 'x xs_ops \<Rightarrow> 'x demu \<Rightarrow> 'x demu \<Rightarrow> bool" for e xs where
  main_step: "main_round e xs efd xfd d = Done (b, d') \<Longrightarrow> world_step e xs d d'"
| io_step: "thread_step e k t (devs d) = Done ((), dv) \<Longrightarrow> world_step e xs d (d\<lparr>devs := dv\<rparr>)"
| guest_step: "length p = length (page d) \<Longrightarrow>
    world_step e xs d (d\<lparr>page := p, devs := (devs d)\<lparr>dv_machine := (dv_machine (devs d))\<lparr>ram := m\<rparr>\<rparr>\<rparr>)"

inductive_cases world_step_cases: "world_step e xs d d'"

text \<open>
  Before a frontend is there nothing is held and no device is there; at the very first start nothing has
  been released in error either.
\<close>

definition at_rest :: "'x demu \<Rightarrow> bool" where
  "at_rest d \<longleftrightarrow> seq d = DEMU_SEQ_UNINITIALIZED \<and> held d = [] \<and> dv_bdevs (devs d) = [] \<and>
     spaces (dv_machine (devs d)) = [] \<and> io_ranges (dv_machine (devs d)) = []"

definition idle :: "'x demu \<Rightarrow> bool" where
  "idle d \<longleftrightarrow> at_rest d \<and> bad d = []"

text \<open>
  A session starts with \<open>demu_initialize\<close>, whose result it keeps: a failed one goes no further, the
  other ones run.
\<close>

inductive session ::
  "env \<Rightarrow> u8 list \<Rightarrow> bool \<Rightarrow> (string \<Rightarrow> host_file) \<Rightarrow> 'x xs_ops \<Rightarrow> xen \<Rightarrow> 'x demu \<Rightarrow> int \<Rightarrow> 'x demu \<Rightarrow> bool"
  for e stk leg host xs xen d0 where
  start: "demu_initialize e stk leg host xs xen d0 = Done (rc, d) \<Longrightarrow> session e stk leg host xs xen d0 rc d"
| run: "session e stk leg host xs xen d0 0 d \<Longrightarrow> world_step e xs d d' \<Longrightarrow> session e stk leg host xs xen d0 0 d'"

subsection \<open>Steps keep the devices attached\<close>

lemma put_slot_keys [simp]: "map fst (put_slot k sl bs) = map fst bs"
  by (induction bs) (auto simp: put_slot_def)

lemma put_slot_map:
  "distinct (map fst bs) \<Longrightarrow> map_of bs k = Some sl \<Longrightarrow> f (k, sl') = f (k, sl) \<Longrightarrow> map f (put_slot k sl' bs) = map f bs"
  by (induction bs) (auto simp: put_slot_def rev_image_eqI split: if_splits)

lemma put_slot_set: "b \<in> set (put_slot k sl bs) \<Longrightarrow> b \<in> set bs \<or> snd b = sl"
  by (auto simp: put_slot_def)

text \<open>What every step keeps of the devices; that they are sound, when the host gives event descriptors and threads.\<close>

definition devices_kept :: "env \<Rightarrow> devices \<Rightarrow> devices \<Rightarrow> bool" where
  "devices_kept e dv dv' \<longleftrightarrow> (devices_ok dv \<longrightarrow> devices_ok dv' \<and> dv_kvm dv' = dv_kvm dv \<and>
     map device_addr (dv_bdevs dv') = map device_addr (dv_bdevs dv) \<and>
     (efd_ok e \<and> thread_ok e \<and> devices_sound (dv_bdevs dv) \<longrightarrow> devices_sound (dv_bdevs dv')))"

lemma devices_kept_refl [simp]: "devices_kept e dv dv"
  by (simp add: devices_kept_def)

lemma devices_kept_trans: "devices_kept e a b \<Longrightarrow> devices_kept e b c \<Longrightarrow> devices_kept e a c"
  by (simp add: devices_kept_def)

lemma slot_of_with_slot [simp]: "slot_of (with_slot m sl) = sl"
  by (simp add: slot_of_def)

lemma with_device_kept:
  assumes "with_device k dv f = Done (a, dv')"
    and "\<And>s a s'. f s = Done (a, s') \<Longrightarrow> blk_frame s s' \<and> frame (keeps_sound e) s s'"
  shows "devices_kept e dv dv'"
  unfolding devices_kept_def
proof (intro impI)
  assume ok: "devices_ok dv"
  let ?bs = "dv_bdevs dv" and ?m = "dv_machine dv"
  obtain sl s where sl: "map_of ?bs k = Some sl" "f (with_slot ?m sl) = Done (a, s)"
      and dv': "dv' = dv\<lparr>dv_machine := machine.truncate s, dv_bdevs := put_slot k (slot_of s) ?bs\<rparr>"
    using assms(1) by (auto simp: with_device_def bind_run_Done_iff split: option.splits)
  have f: "blk_frame (with_slot ?m sl) s" "frame (keeps_sound e) (with_slot ?m sl) s" using assms(2) [OF sl(2)] by auto
  have at: "attached ?m ?bs" using ok by (simp add: devices_ok_def)
  then have d: "distinct (map fst ?bs)" by (simp add: attached_def)
  have eq: "slot_space (k, slot_of s) = slot_space (k, sl)" "device_addr (k, slot_of s) = device_addr (k, sl)"
    using f by (simp_all add: slot_space_def slot_of_def frame_def device_addr_def)
  note same = put_slot_map [OF d sl(1), of slot_space "slot_of s"] put_slot_map [OF d sl(1), of device_addr "slot_of s"]
    put_slot_map [OF d sl(1), of "range_of \<circ> slot_space" "slot_of s"]
  have maps: "map slot_space (put_slot k (slot_of s) ?bs) = map slot_space ?bs"
    "map device_addr (put_slot k (slot_of s) ?bs) = map device_addr ?bs"
    "map (range_of \<circ> slot_space) (put_slot k (slot_of s) ?bs) = map (range_of \<circ> slot_space) ?bs"
    using same eq by auto
  have "slot_ok sl" using at map_of_SomeD [OF sl(1)] by (auto simp: attached_def)
  then have "slot_ok (slot_of s)" using f by (auto simp: slot_ok_def slot_of_def frame_def same_shape_def)
  then have "\<forall>b\<in>set (put_slot k (slot_of s) ?bs). slot_ok (snd b)"
    using at put_slot_set by (fastforce simp: attached_def)
  then have "attached (machine.truncate s) (put_slot k (slot_of s) ?bs)"
    using at f maps by (simp add: attached_def frame_def)
  moreover have "devices_sound (put_slot k (slot_of s) ?bs)" if e: "efd_ok e \<and> thread_ok e" "devices_sound ?bs"
  proof -
    have "dev_sound (dev s)"
      using f(2) map_of_SomeD [OF sl(1)] e by (auto simp: frame_def keeps_sound_def devices_sound_def)
    then show ?thesis using e(2) put_slot_set by (fastforce simp: devices_sound_def slot_of_def)
  qed
  ultimately show "devices_ok dv' \<and> dv_kvm dv' = dv_kvm dv \<and> map device_addr (dv_bdevs dv') = map device_addr ?bs \<and>
      (efd_ok e \<and> thread_ok e \<and> devices_sound ?bs \<longrightarrow> devices_sound (dv_bdevs dv'))"
    using maps by (simp add: dv' devices_ok_def)
qed

lemma thread_step_kept:
  assumes "thread_step e k t dv = Done (u, dv')" shows "devices_kept e dv dv'"
proof (rule with_device_kept [OF assms [unfolded thread_step_def]])
  fix s s' :: blk and a
  assume r: "(if t < length (threads (dev s)) then (case virtio_blk_thread e t s of
            None \<Rightarrow> Done ((), s) | Some r \<Rightarrow> bind_run r (\<lambda>s'. Done ((), s'))) else Done ((), s)) = Done (a, s')"
  have "frame (keeps_sound e) s s1" if "virtio_blk_thread e t s = Some (Done s1)" for s1
    by (rule frame_also [OF thread_frame [OF that]]) (use thread_sound [OF that] in \<open>simp add: keeps_sound_def\<close>)
  then show "blk_frame s s' \<and> frame (keeps_sound e) s s'"
    using r by (auto simp: bind_run_Done_iff thread_frame sound_device.frame_refl split: if_splits option.splits)
qed

lemma mmio_call_kept:
  assumes "mmio_call e dv sp addr data len w = Done (r, dv')" shows "devices_kept e dv dv'"
proof (rule with_device_kept [OF assms [unfolded mmio_call_def]])
  fix s s' :: blk and a
  assume "(case sp_fn sp of
         Virtio_mmio_legacy_callback \<Rightarrow> virtio_mmio_legacy_callback e (blk_dev_virtio_ops e) s addr data len w
       | Virtio_mmio_modern_callback \<Rightarrow> virtio_mmio_modern_callback e (blk_dev_virtio_ops e) s addr data len w) = Done (a, s')"
  then show "blk_frame s s' \<and> frame (keeps_sound e) s s'"
    using blk_device.legacy_callback_frame blk_device.modern_callback_frame sound_device.legacy_callback_frame
      sound_device.modern_callback_frame by (auto split: mmio_fn.splits)
qed

lemma handle_ioreq_kept: "demu_handle_ioreq e dv r = Done (r', dv') \<Longrightarrow> devices_kept e dv dv'"
  by (auto simp: demu_handle_ioreq_def demu_handle_io_def bind_run_Done_iff mmio_call_kept
      split: ioreq_type.splits option.splits if_splits ioreq_dir.splits)

text \<open>What the requests leave of the program's state.\<close>

definition same_session :: "env \<Rightarrow> 'x demu \<Rightarrow> 'x demu \<Rightarrow> bool" where
  "same_session e d d' \<longleftrightarrow> seq d' = seq d \<and> held d' = held d \<and> bad d' = bad d \<and> ports d' = ports d \<and>
     ioservid d' = ioservid d \<and> length (page d') = length (page d) \<and> image_addrs d' = image_addrs d \<and>
     devices_kept e (devs d) (devs d')"

lemma same_session_refl [simp]: "same_session e d d"
  by (simp add: same_session_def)

lemma same_session_trans: "same_session e d d' \<Longrightarrow> same_session e d' d'' \<Longrightarrow> same_session e d d''"
  by (auto simp: same_session_def intro: devices_kept_trans)

lemma poll_shared_same: "demu_poll_shared_iopage e i d = Done d' \<Longrightarrow> same_session e d d'"
  by (auto simp: demu_poll_shared_iopage_def bind_run_Done_iff same_session_def image_addrs_def
      dest: handle_ioreq_kept split: if_splits)

lemma poll_ports_same: "poll_ports e port is d = Done d' \<Longrightarrow> same_session e d d'"
proof (induction "is" arbitrary: d)
  case (Cons i "is")
  then show ?case
    by (auto simp: bind_run_Done_iff split: if_splits intro: same_session_trans poll_shared_same)
qed simp

lemma main_round_same: "main_round e xs efd xfd d = Done (b, d') \<Longrightarrow> same_session e d d'"
proof -
  assume r: "main_round e xs efd xfd d = Done (b, d')"
  obtain d1 where 1: "(case efd of None \<Rightarrow> Done d | Some p \<Rightarrow> demu_poll_iopages e p d) = Done d1"
      "(if \<not> xfd then Done (True, d1) else bind_run (xenstore_poll_watches xs (store d1) (xdev d1)) (\<lambda>(rc, x).
         Done (\<not> rc < 0, d1\<lparr>store := x\<rparr>))) = Done (b, d')"
    using r by (auto simp: main_round_def bind_run_Done_iff)
  have "same_session e d d1"
    using 1(1) poll_ports_same by (auto simp: demu_poll_iopages_def Let_def split: option.splits if_splits)
  moreover have "same_session e d1 d'"
    using 1(2) by (auto simp: bind_run_Done_iff same_session_def image_addrs_def split: if_splits)
  ultimately show ?thesis by (rule same_session_trans)
qed

lemma world_step_same: "world_step e xs d d' \<Longrightarrow> same_session e d d'"
proof (induction rule: world_step.induct)
  case (main_step efd xfd d b d')
  then show ?case by (rule main_round_same)
next
  case (io_step k t d dv)
  then show ?case by (auto simp: same_session_def image_addrs_def dest: thread_step_kept)
next
  case (guest_step p d m)
  then show ?case by (auto simp: same_session_def image_addrs_def devices_kept_def devices_ok_def attached_def)
qed

text \<open>The invariant of a session.\<close>

definition running :: "env \<Rightarrow> xen \<Rightarrow> 'x demu \<Rightarrow> bool" where
  "running e xen d \<longleftrightarrow> seq d = DEMU_SEQ_INITIALIZED \<and> devices_up d \<and> ports_bound xen d \<and>
     (efd_ok e \<and> thread_ok e \<longrightarrow> devices_sound (dv_bdevs (devs d)))"

lemma running_same: "running e xen d \<Longrightarrow> same_session e d d' \<Longrightarrow> running e xen d'"
  by (auto simp: running_def same_session_def devices_up_def devices_kept_def ports_bound_def)

lemma session_invariant_rest:
  assumes "session e stk leg host xs xen d0 rc d" and "at_rest d0" and "valid_ports xen"
  shows "ledger d \<and> bad d = bad d0 \<and>
    (if rc = 0 then running e xen d else seq d < DEMU_SEQ_DEVICE_INITIALIZED \<and> devices_down (guest_pages d0) d)"
  using assms
proof (induction rule: session.induct)
  case (start rc d)
  obtain ok where i: "init_steps e stk leg host xs xen d0 = Done (ok, d)" and rc: "rc = (if ok then 0 else -1)"
    using start(1) by (auto simp: demu_initialize_def bind_run_Done_iff split: if_splits)
  have z: "ledger d0" "seq d0 = DEMU_SEQ_UNINITIALIZED" "devices_down (guest_pages d0) d0"
    using start(2) by (auto simp: at_rest_def ledger_def held_at_simps seq_order devices_down_def devices_ok_def attached_Nil)
  show ?case
    using step_okD [OF init_steps_ok [OF start(3)] z(2,1) i] tripleD [OF init_steps_devices z(3) i]
      tripleD [OF init_steps_ports TrueI i] waiting_sound
    by (auto simp: rc running_def devices_new_def split: if_splits)
next
  case (run d d')
  then show ?case using running_same [OF _ world_step_same [OF run(2)]] world_step_same [OF run(2)]
    by (auto simp: same_session_def ledger_def)
qed

lemma session_invariant:
  assumes "session e stk leg host xs xen d0 rc d" and "idle d0" and "valid_ports xen"
  shows "ledger d \<and> bad d = [] \<and>
    (if rc = 0 then running e xen d else seq d < DEMU_SEQ_DEVICE_INITIALIZED \<and> devices_down (guest_pages d0) d)"
  using session_invariant_rest [OF assms(1) _ assms(3)] assms(2) by (auto simp: idle_def)

lemma devs_release: "devs (release r d) = devs d"
  by (simp add: release_def)

lemma devs_fold_unbind: "devs (fold unbind ps d) = devs d"
  by (induction ps arbitrary: d) (simp_all add: unbind_def devs_release)

lemma devs_down_simps:
  "devs (down_ports d) = devs d" "devs (down_array d) = devs d" "devs (down_enabled d) = devs d"
  "devs (down_to s s' r d) = devs d" "devs (down_xenstore xs d) = devs d"
  by (simp_all add: down_ports_def down_array_def down_enabled_def down_to_def down_xenstore_def
      devs_release devs_fold_unbind case_prod_beta)

lemma devs_down_xen: "devs (down_xen d) = devs d"
  by (simp add: down_xen_def Let_def devs_down_simps)

text \<open>A teardown leads back to rest, from any point of a session.\<close>

lemma session_teardown:
  assumes "session e stk leg host xs xen d0 rc d" and "at_rest d0" and "valid_ports xen"
    and "demu_teardown e xs d = Done d'"
  shows "at_rest d' \<and> set (bad d') \<subseteq> insert (Bound_port (-1)) (set (bad d0)) \<and> (rc = 0 \<longrightarrow> bad d' = bad d0)"
proof -
  note i = session_invariant_rest [OF assms(1-3)]
  note t = teardown_ok [OF conjunct1 [OF i] assms(4)]
  obtain d1 where 1: "down_devices e d = Done d1" "devs d' = devs d1"
    using assms(4) by (auto simp: demu_teardown_def bind_run_Done_iff devs_down_simps devs_down_xen)
  have "devices_ok (devs d1) \<and> dv_bdevs (devs d1) = []"
  proof (cases "rc = 0")
    case True
    then obtain k where u: "seq d = DEMU_SEQ_INITIALIZED" "devices_ok (devs d)" "dv_kvm (devs d) = Kvm_at k"
      using i by (auto simp: running_def devices_up_def)
    then obtain ds dv where "device_teardown e (devs d) = Done (ds, dv)" "devs d1 = dv"
      using 1(1) by (auto simp: down_devices_def Let_def bind_run_Done_iff)
    then show ?thesis using device_teardown_attached [OF u(2,3)] by blast
  next
    case False
    then have "seq d < DEMU_SEQ_DEVICE_INITIALIZED" "devices_down (guest_pages d0) d" using i by auto
    moreover from this have "d1 = d" using 1(1) by (cases "seq d") (auto simp: down_devices_def seq_order)
    ultimately show ?thesis by (simp add: devices_down_def)
  qed
  then have "attached (dv_machine (devs d')) []" "dv_bdevs (devs d') = []" using 1(2) by (auto simp: devices_ok_def)
  then show ?thesis using t i by (auto simp: attached_Nil seq_order at_rest_def running_def)
qed

text \<open>
  And it returns.  It gives back the pages of the rings of the running queues, and the disks are closed: the descriptor of
  one whose operations have a \<open>close\<close> of their own is not.
\<close>

lemma down_devices_early: "seq d < DEMU_SEQ_DEVICE_INITIALIZED \<Longrightarrow> down_devices e d = Done d"
  by (cases "seq d") (auto simp: down_devices_def seq_order)

lemma session_teardown_done:
  assumes "session e stk leg host xs xen d0 rc d" and "at_rest d0" and "valid_ports xen"
    and "efd_ok e" and "thread_ok e" and "3 \<le> io_fuel e" and "devices_wakeable (dv_bdevs (devs d))"
  shows "\<exists>d'. demu_teardown e xs d = Done d' \<and>
    guest_pages d' = guest_pages d - mset (devices_pages e (dv_bdevs (devs d))) \<and>
    (rc \<noteq> 0 \<longrightarrow> guest_pages d' = guest_pages d0) \<and>
    (rc = 0 \<longrightarrow> (\<exists>ps. device_teardown e (devs d) = Done (ps, devs d') \<and> length ps = length (dv_bdevs (devs d)) \<and> list_all closed ps))"
proof -
  note i = session_invariant_rest [OF assms(1-3)]
  have g: "demu_teardown e xs d = Done (down_xenstore xs (down_xen d1)) \<and> devs (down_xenstore xs (down_xen d1)) = devs d1"
    if "down_devices e d = Done d1" for d1
    using that by (simp add: demu_teardown_def devs_down_simps devs_down_xen)
  show ?thesis
  proof (cases "rc = 0")
    case True
    then have r: "running e xen d" using i by simp
    then obtain k where u: "seq d = DEMU_SEQ_INITIALIZED" "dv_kvm (devs d) = Kvm_at k" "devices_sound (dv_bdevs (devs d))"
      using assms(4,5) by (auto simp: running_def devices_up_def)
    obtain ps dv where t: "device_teardown e (devs d) = Done (ps, dv)" "length ps = length (dv_bdevs (devs d))" "list_all closed ps"
        "mset (mappings (gmap (dv_machine dv))) = mset (mappings (gmap (dv_machine (devs d)))) - mset (devices_pages e (dv_bdevs (devs d)))"
      by (rule device_teardown_done [OF u(3) assms(7,6) u(2)])
    let ?d1 = "d\<lparr>devs := dv, seq := DEMU_SEQ_PORTS_BOUND\<rparr>"
    have "down_devices e d = Done ?d1" using t(1) u(1) by (simp add: down_devices_def)
    from g [OF this] show ?thesis using t True by (auto simp: guest_pages_def)
  next
    case False
    then have d: "seq d < DEMU_SEQ_DEVICE_INITIALIZED" "devices_down (guest_pages d0) d" using i by auto
    from g [OF down_devices_early [OF d(1)]] show ?thesis
      using d(2) False by (auto simp: guest_pages_def devices_down_def devices_pages_def)
  qed
qed

section \<open>Properties\<close>

text \<open>
  C9: A session can be ended at any point, and ending it gives back what it holds: \<open>demu_teardown\<close> returns, whether the
  initialisation failed, at any of its steps, or the devices have been running, with their threads anywhere, and then no
  handle, port, array, server or shared page is held, no device and no range of addresses is left, and the sequence
  is back at its start.  Of the guest's pages exactly the mappings of the rings of the running queues are removed: after a
  failed initialisation the mappings are those of before it, and a page that a failed request left mapped (C38)
  stays mapped.  Of the disks, which are all closed, exactly those that are mapped or QCOW images keep their file
  descriptor, as \<open>disk_image__close\<close> returns without closing it; the disks of a failed initialisation are not closed at
  all, and are not spoken of here.  After a successful initialisation nothing is released that was not held; after a
  failed one that can only be the port -1, which the test \<open>port >= 0\<close> of an unsigned number lets through.  The host gives
  event descriptors and threads, and no event counter is full.
\<close>

theorem teardown_gives_back:
  assumes "session e stk leg host xs xen d0 rc d" and "idle d0" and "valid_ports xen"
    and "efd_ok e" and "thread_ok e" and "3 \<le> io_fuel e" and "devices_wakeable (dv_bdevs (devs d))"
  shows "\<exists>d'. demu_teardown e xs d = Done d' \<and> held d' = [] \<and> seq d' = DEMU_SEQ_UNINITIALIZED \<and>
    set (bad d') \<subseteq> {Bound_port (-1)} \<and> (rc = 0 \<longrightarrow> bad d' = []) \<and>
    dv_bdevs (devs d') = [] \<and> spaces (dv_machine (devs d')) = [] \<and> io_ranges (dv_machine (devs d')) = [] \<and>
    guest_pages d' = (if rc = 0 then guest_pages d - mset (devices_pages e (dv_bdevs (devs d))) else guest_pages d0) \<and>
    (rc = 0 \<longrightarrow> (\<exists>ps. device_teardown e (devs d) = Done (ps, devs d') \<and> length ps = length (dv_bdevs (devs d)) \<and>
       list_all closed ps))"
proof -
  have r: "at_rest d0" "bad d0 = []" using assms(2) by (simp_all add: idle_def)
  obtain d' where d': "demu_teardown e xs d = Done d'" and t: "guest_pages d' = guest_pages d - mset (devices_pages e (dv_bdevs (devs d)))"
      "rc \<noteq> 0 \<longrightarrow> guest_pages d' = guest_pages d0"
      "rc = 0 \<longrightarrow> (\<exists>ps. device_teardown e (devs d) = Done (ps, devs d') \<and> length ps = length (dv_bdevs (devs d)) \<and> list_all closed ps)"
    using session_teardown_done [OF assms(1) r(1) assms(3-7)] by blast
  show ?thesis
    using d' t session_teardown [OF assms(1) r(1) assms(3) d'] r(2)
    by (intro exI [of _ d']) (simp add: at_rest_def)
qed

text \<open>A guest of one virtual CPU with one raw image.\<close>

definition sample_file :: host_file where
  "sample_file = \<lparr>hf_stat = True, hf_isblk = False, hf_rdev = 0, hf_mounts = None,
     hf_open = Some \<lparr>fbytes = [], fpos = 0, fscript = []\<rparr>, hf_blksize = None, hf_size = 0, hf_mmap = True\<rparr>"

definition guest_store :: sample_store where
  "guest_store =
     sample_store\<lparr>ss_nodes :=
       [(''backend/virtio_disk/7/51712/mode'', ''w''), (''backend/virtio_disk/7/51712/base'', ''33554432''),
        (''backend/virtio_disk/7/51712/irq'', ''33''), (''backend/virtio_disk/7/51712/params'', ''disk.img'')] @
       ss_nodes sample_store\<rparr>"

definition sample_xen :: xen where
  "sample_xen = \<lparr>evtchn_opens = True, foreignmemory_opens = True, devicemodel_opens = True, gnttab_opens = True,
     nr_vcpus = Some 1, new_server = Some 0,
     iopage = Some [\<lparr>io_addr = 0, io_data = 0, io_size = 4, io_is_ptr = False, io_dir = IOREQ_READ, io_type = IOREQ_TYPE_COPY,
       io_state = STATE_IOREQ_NONE, vp_eport = 5\<rparr>],
     enables = True, port_array = True, bind_port = (\<lambda>p. 11)\<rparr>"

definition sample_demu :: "sample_store demu" where
  "sample_demu =
     \<lparr>seq = DEMU_SEQ_UNINITIALIZED, store = guest_store, xdev = sample_dev,
      images = replicate 4 \<lparr>im_file = None, im_readonly = False, im_addr = 0, im_irq = 0\<rparr>, image_count = 0,
      domid = 7, be_domid = 0, ioservid = 0, page = [], ports = [], notified = [],
      devs = \<lparr>dv_machine = \<lparr>ram = (\<lambda>a. 0), gmap = \<lparr>use_gnttab = -1, mappings = []\<rparr>, irq_levels = [], spaces = [], io_ranges = []\<rparr>,
        dv_bdevs = [], dv_kvm = Kvm_null\<rparr>,
      held = [], bad = []\<rparr>"

abbreviation sample_init :: "(int \<times> sample_store demu) run" where
  "sample_init \<equiv> demu_initialize plain_env [] False (\<lambda>f. sample_file) sample_xs sample_xen sample_demu"

definition sample_opened :: disk_image where
  "sample_opened = \<lparr>dk_fd = \<lparr>fbytes = [], fpos = 0, fscript = []\<rparr>, dk_size = 0, dk_ops = Raw_image_regular_ops,
     dk_priv = PNull, dk_req_cb = False, dk_readonly = False, dk_async = False, dk_addr = 0x2000000, dk_irq = 33,
     dk_fd_open = True\<rparr>"

definition sample_params :: disk_image_params where
  "sample_params = \<lparr>pr_file = Some sample_file, pr_readonly = False, pr_addr = 0x2000000, pr_irq = 33\<rparr>"

lemma sample_disks: "disk_image__init [] [sample_params] = Done (0, Some [Ptr sample_opened])"
  by code_simp

definition sample_prefix :: "sample_store init_step" where
  "sample_prefix =
     and_then (connect_step sample_xs 4)
     (and_then (acquire True Evtchn_handle)
     (and_then (acquire True Foreignmemory_handle)
     (and_then (acquire True Devicemodel_handle)
     (and_then forget_mappings_model
     (and_then (acquire True Gnttab_handle)
     (and_then (server_step sample_xen)
     (and_then (resource_step sample_xen)
     (and_then (\<lambda>d. acquire True (Server_enabled (ioservid d)) d)
     (and_then (array_step sample_xen 1) (bind_ports sample_xen 0 1))))))))))"

lemma sample_ready:
  "(case sample_prefix sample_demu of
      Done (ok, d) \<Rightarrow> ok \<and> map (params_of (\<lambda>f. sample_file)) (take (image_count d) (images d)) = [sample_params] \<and>
        seq d = DEMU_SEQ_PORTS_BOUND \<and> spaces (dv_machine (devs d)) = [] \<and> dv_bdevs (devs d) = [] \<and>
        ports d = [11] \<and> length (page d) = 1
    | _ \<Rightarrow> False)"
  by code_simp

lemma sample_devices:
  assumes "spaces (dv_machine dv) = []" "dv_bdevs dv = []"
  shows "\<exists>sl dv'. device_initialize plain_env [] False [sample_params] dv = Done (0, dv') \<and> dv_bdevs dv' = [(1, sl)] \<and>
    vm_addr (sl_vmmio sl) = 0x2000000 \<and> io_efd (sl_dev sl) = None"
proof -
  have "dk_addr sample_opened = 0x2000000" by (simp add: sample_opened_def)
  then show ?thesis
    using assms sample_disks
    by (simp add: device_initialize_def init_lists_eq init_list__init_def run_lists_concat the_kvm_def sample_params_def
        virtio_blk__init_one_def virtio_init_def virtio_mmio_init_def Let_def demu_register_memory_space_def
        demu_register_space_def slot_of_def plain_env_def new_blk_dev_def c_simps)
qed

lemma sample_init_ok:
  obtains d sl where "demu_initialize plain_env [] False (\<lambda>f. sample_file) sample_xs sample_xen sample_demu = Done (0, d)"
    and "dv_bdevs (devs d) = [(1, sl)]" and "vm_addr (sl_vmmio sl) = 0x2000000" and "io_efd (sl_dev sl) = None"
proof -
  obtain d1 where 1: "sample_prefix sample_demu = Done (True, d1)"
      "map (params_of (\<lambda>f. sample_file)) (take (image_count d1) (images d1)) = [sample_params]"
      "seq d1 = DEMU_SEQ_PORTS_BOUND" "spaces (dv_machine (devs d1)) = []" "dv_bdevs (devs d1) = []"
    using sample_ready by (auto split: run.splits)
  obtain sl dv where 2: "device_initialize plain_env [] False [sample_params] (devs d1) = Done (0, dv)"
      "dv_bdevs dv = [(1, sl)]" "vm_addr (sl_vmmio sl) = 0x2000000" "io_efd (sl_dev sl) = None"
    using sample_devices [OF 1(4,5)] by blast
  let ?d = "d1\<lparr>devs := dv, seq := DEMU_SEQ_INITIALIZED\<rparr>"
  have "and_then (devices_step plain_env [] False (\<lambda>f. sample_file)) next_seq d1 = Done (True, ?d)"
    using 1(2,3) 2(1) by (simp add: and_then_def devices_step_def next_seq_def demu_seq_next_def seq_order)
  then have "and_then sample_prefix (and_then (devices_step plain_env [] False (\<lambda>f. sample_file)) next_seq) sample_demu = Done (True, ?d)"
    using 1(1) by (simp add: and_then_def [of sample_prefix])
  moreover have "init_steps plain_env [] False (\<lambda>f. sample_file) sample_xs sample_xen sample_demu =
      and_then sample_prefix (and_then (devices_step plain_env [] False (\<lambda>f. sample_file)) next_seq) sample_demu"
    by (simp add: init_steps_def sample_prefix_def and_then_assoc sample_xen_def plain_env_def)
  ultimately have "demu_initialize plain_env [] False (\<lambda>f. sample_file) sample_xs sample_xen sample_demu = Done (0, ?d)"
    by (simp add: demu_initialize_def)
  then show thesis using that [of ?d sl] 2(2-4) by simp
qed

lemma sample_idle: "idle sample_demu"
  by (simp add: idle_def at_rest_def sample_demu_def)

lemma sample_valid: "valid_ports sample_xen"
  by (simp add: valid_ports_def sample_xen_def)

text \<open>An initialisation whose second port cannot be bound.\<close>

definition short_xen :: xen where
  "short_xen = sample_xen\<lparr>nr_vcpus := Some 2,
     iopage := map_option (\<lambda>p. p @ map (\<lambda>r. r\<lparr>vp_eport := 6\<rparr>) p) (iopage sample_xen),
     bind_port := (\<lambda>p. if p = 6 then -1 else 11)\<rparr>"

lemma case_Done: "(case r of Done x \<Rightarrow> P x | _ \<Rightarrow> False) \<longleftrightarrow> (\<exists>x. r = Done x \<and> P x)"
  by (cases r) auto

theorem teardown_gives_back_witness:
  "\<exists>d d' p. demu_initialize plain_env [] False (\<lambda>f. sample_file) sample_xs sample_xen sample_demu = Done (0, d) \<and>
     demu_teardown plain_env sample_xs d = Done d' \<and> held d' = [] \<and> bad d' = [] \<and>
     device_teardown plain_env (devs d) = Done ([p], devs d') \<and> closed p"
proof -
  obtain d sl where 1: "demu_initialize plain_env [] False (\<lambda>f. sample_file) sample_xs sample_xen sample_demu = Done (0, d)"
      "dv_bdevs (devs d) = [(1, sl)]" "io_efd (sl_dev sl) = None"
    by (rule sample_init_ok)
  have "devices_wakeable (dv_bdevs (devs d))" using 1(2,3) by (simp add: devices_wakeable_def wakeable_def)
  moreover have "efd_ok plain_env" "thread_ok plain_env" "3 \<le> io_fuel plain_env" by (simp_all add: plain_env_def)
  ultimately show ?thesis
    using teardown_gives_back [OF session.start [OF 1(1)] sample_idle sample_valid] 1(1,2)
    by (fastforce simp: length_Suc_conv)
qed

text \<open>
  C8: While a session runs, whatever the guest, the hypervisor and the threads do, the ranges of the
  devices are disjoint and known to the hypervisor, every access inside the range of a device is
  delivered to this device, at the right offset and with its state, and a range that an access is found
  in belongs to a device.
\<close>

theorem every_access_reaches_its_device:
  assumes "session e stk leg host xs xen d0 0 d" and "idle d0" and "valid_ports xen"
  shows "(\<forall>(k, sl)\<in>set (dv_bdevs (devs d)). \<forall>off < VIRTIO_MMIO_IO_SIZE.
      demu_find_memory_space (dv_machine (devs d)) (ucast (vm_addr (sl_vmmio sl)) + off) = Some (slot_space (k, sl)) \<and>
      map_of (dv_bdevs (devs d)) k = Some sl \<and>
      reg_offset (with_slot (dv_machine (devs d)) sl) (ucast (vm_addr (sl_vmmio sl)) + off) = ucast off \<and>
      range_of (slot_space (k, sl)) \<in> set (io_ranges (dv_machine (devs d)))) \<and>
    (\<forall>a sp. demu_find_memory_space (dv_machine (devs d)) a = Some sp \<longrightarrow> sp \<in> slot_space ` set (dv_bdevs (devs d)))"
proof -
  let ?m = "dv_machine (devs d)" and ?bs = "dv_bdevs (devs d)"
  have at: "attached ?m ?bs" using session_invariant [OF assms] by (simp add: running_def devices_up_def devices_ok_def)
  have ss: "set (spaces ?m) = slot_space ` set ?bs" "set (io_ranges ?m) = (range_of \<circ> slot_space) ` set ?bs"
    using at by (metis attached_def set_map set_mset_mset)+
  have ok: "spaces_ok (spaces ?m)" and dist: "distinct (map fst ?bs)" using at by (auto simp: attached_def)
  have "demu_find_memory_space ?m (ucast (vm_addr (sl_vmmio sl)) + off) = Some (slot_space (k, sl)) \<and> map_of ?bs k = Some sl \<and>
      reg_offset (with_slot ?m sl) (ucast (vm_addr (sl_vmmio sl)) + off) = ucast off \<and>
      range_of (slot_space (k, sl)) \<in> set (io_ranges ?m)"
    if b: "(k, sl) \<in> set ?bs" and o: "off < VIRTIO_MMIO_IO_SIZE" for k sl off
  proof -
    let ?a = "ucast (vm_addr (sl_vmmio sl)) :: u64"
    have "unat ?a + unat off < 2 ^ 64" "unat ?a + unat (0x1FF :: u64) < 2 ^ 64" "unat off \<le> unat (0x1FF :: u64)"
      using o unsigned_less [of "vm_addr (sl_vmmio sl)", where ?'a = nat] by (simp_all add: unat_of_u32_as_u64 c_simps word_less_nat_alt)
    then have "?a \<le> ?a + off" "?a + off \<le> ?a + 0x1FF"
      by (simp_all add: word_le_nat_alt unat_word_ariths)
    moreover have "sp_start (slot_space (k, sl)) = ?a" "sp_end (slot_space (k, sl)) = ?a + 0x1FF"
      by (simp_all add: slot_space_def Let_def c_simps)
    ultimately have "demu_find_memory_space ?m (?a + off) = Some (slot_space (k, sl))"
      using imageI [OF b, of slot_space] by (simp add: demu_find_memory_space_def find_space_iff [OF ok] ss)
    then show ?thesis using b dist ss by (auto simp: reg_offset_def)
  qed
  moreover have "sp \<in> slot_space ` set ?bs" if "demu_find_memory_space ?m a = Some sp" for a sp
    using find_space_Some [of "spaces ?m" a sp] that ss by (simp add: demu_find_memory_space_def)
  ultimately show ?thesis by blast
qed

theorem every_access_reaches_its_device_witness:
  "\<exists>d sl. demu_initialize plain_env [] False (\<lambda>f. sample_file) sample_xs sample_xen sample_demu = Done (0, d) \<and>
     demu_find_memory_space (dv_machine (devs d)) 0x2000070 = Some (slot_space (1, sl)) \<and>
     (1, sl) \<in> set (dv_bdevs (devs d))"
proof -
  obtain d sl where 1: "demu_initialize plain_env [] False (\<lambda>f. sample_file) sample_xs sample_xen sample_demu = Done (0, d)"
      "dv_bdevs (devs d) = [(1, sl)]" "vm_addr (sl_vmmio sl) = 0x2000000"
    by (rule sample_init_ok)
  have "(0x70 :: u64) < VIRTIO_MMIO_IO_SIZE" by (simp add: c_simps)
  then have "demu_find_memory_space (dv_machine (devs d)) (ucast (vm_addr (sl_vmmio sl)) + 0x70) = Some (slot_space (1, sl))"
    using every_access_reaches_its_device [OF session.start [OF 1(1)] sample_idle sample_valid] 1(2) by auto
  then show ?thesis using 1 by auto
qed

text \<open>
  C20: While a session runs, whatever the guest, the hypervisor and the threads do, it keeps what its initialisation set
  up: the ports are exactly those that the slots of the shared page ask for, one for each virtual CPU in its order, each of
  them bound; there is one device for each image of the configuration, at the image's address; and every device is
  sound, provided that the host gives event descriptors and threads: its disk is open, with private data that fits its
  operations and a consistent cache, and when its queue is enabled, the queue has its size and its three rings, the
  event descriptor is open, and the thread of the queue has not ended.
\<close>

theorem session_well_formed:
  assumes "session e stk leg host xs xen d0 0 d" and "idle d0" and "valid_ports xen"
  shows "(\<exists>n p. nr_vcpus xen = Some n \<and> iopage xen = Some p \<and> unat n \<le> length p \<and>
      ports d = map (\<lambda>r. of_int (bind_port xen (vp_eport r))) (take (unat n) p) \<and> -1 \<notin> set (ports d)) \<and>
    map (\<lambda>(k, sl). vm_addr (sl_vmmio sl)) (dv_bdevs (devs d)) = map im_addr (take (image_count d) (images d)) \<and>
    (efd_ok e \<and> thread_ok e \<longrightarrow> (\<forall>(k, sl)\<in>set (dv_bdevs (devs d)). dev_sound (sl_dev sl)))"
proof -
  have r: "running e xen d" and l: "ledger d" using session_invariant [OF assms] by simp_all
  have "(\<lambda>(k, sl). vm_addr (sl_vmmio sl)) = device_addr" by (rule ext) (simp add: device_addr_def case_prod_beta)
  then show ?thesis
    using r l by (auto simp: running_def ports_bound_def ports_of_def devices_up_def image_addrs_def devices_sound_def ledger_def seq_order)
qed

theorem session_well_formed_witness:
  "\<exists>d. demu_initialize plain_env [] False (\<lambda>f. sample_file) sample_xs sample_xen sample_demu = Done (0, d) \<and> ports d = [11] \<and>
     (\<forall>(k, sl)\<in>set (dv_bdevs (devs d)). dev_sound (sl_dev sl))"
proof -
  obtain d sl where 1: "demu_initialize plain_env [] False (\<lambda>f. sample_file) sample_xs sample_xen sample_demu = Done (0, d)"
    by (rule sample_init_ok)
  have "efd_ok plain_env" "thread_ok plain_env" by (simp_all add: plain_env_def)
  then show ?thesis using session_well_formed [OF session.start [OF 1] sample_idle sample_valid] 1 by (auto simp: sample_xen_def)
qed

subsection \<open>Requests\<close>

lemma poll_ports_none: "\<forall>j\<in>set js. port \<noteq> ports d ! j \<Longrightarrow> poll_ports e port js d = Done d"
  by (induction js) auto

lemma poll_ports_append:
  "poll_ports e port (js @ ks) d = bind_run (poll_ports e port js d) (poll_ports e port ks)"
  by (induction js arbitrary: d) (auto simp: bind_run_assoc intro!: bind_run_cong)

text \<open>
  C24: An event on the port of a virtual CPU answers the request in its slot exactly once: a ready request
  becomes a response, with the address and the direction kept and the data too if it was a write, the
  hypervisor is notified on this port, and the slots of the other CPUs are as they were.  A slot that
  holds no ready request is left alone.
\<close>

theorem poll_answers_request:
  assumes "demu_poll_iopages e (uint (ports d ! i)) d = Done d'" and "seq d = DEMU_SEQ_INITIALIZED"
    and "i < length (ports d)" and "distinct (ports d)"
  shows "if io_state (page d ! i) = STATE_IOREQ_READY then
      io_state (page d' ! i) = STATE_IORESP_READY \<and> io_addr (page d' ! i) = io_addr (page d ! i) \<and>
      io_dir (page d' ! i) = io_dir (page d ! i) \<and>
      (io_dir (page d ! i) = IOREQ_WRITE \<longrightarrow> io_data (page d' ! i) = io_data (page d ! i)) \<and>
      (\<forall>j. j \<noteq> i \<longrightarrow> page d' ! j = page d ! j) \<and> notified d' = ports d ! i # notified d
    else d' = d"
proof -
  let ?p = "ports d ! i" and ?n = "length (ports d)"
  have js: "[0..<?n] = [0..<i] @ i # [Suc i..<?n]"
    using upt_add_eq_append [of 0 i "?n - i"] assms(3) by (simp add: upt_conv_Cons)
  have other: "port \<noteq> ports d ! j" if "j < ?n" "j \<noteq> i" "port = ?p" for j port
    using assms(3,4) that by (simp add: nth_eq_iff_index_eq)
  have "poll_ports e ?p [0..<?n] d = Done d'"
    using assms(1,2) by (simp add: demu_poll_iopages_def Let_def)
  then obtain d1 where 1: "demu_poll_shared_iopage e i d = Done d1" "poll_ports e ?p [Suc i..<?n] d1 = Done d'"
    unfolding js poll_ports_append using other assms(3) by (auto simp: poll_ports_none bind_run_Done_iff)
  have "ports d1 = ports d" using poll_shared_same [OF 1(1)] by (simp add: same_session_def)
  then have "d' = d1" using 1(2) other by (simp add: poll_ports_none)
  then show ?thesis
    using 1(1) assms(2)
    by (auto simp: demu_poll_shared_iopage_def demu_handle_ioreq_def demu_handle_io_def bind_run_Done_iff
        split: if_splits ioreq_type.splits option.splits ioreq_dir.splits)
qed

definition polled_demu :: "sample_store demu" where
  "polled_demu = sample_demu\<lparr>seq := DEMU_SEQ_INITIALIZED, ports := [11],
     page := [\<lparr>io_addr = 0x3000000, io_data = 0, io_size = 4, io_is_ptr = False, io_dir = IOREQ_READ,
       io_type = IOREQ_TYPE_COPY, io_state = STATE_IOREQ_READY, vp_eport = 5\<rparr>]\<rparr>"

theorem poll_answers_request_witness:
  "\<exists>d'. demu_poll_iopages plain_env 11 polled_demu = Done d' \<and> io_state (page d' ! 0) = STATE_IORESP_READY \<and> notified d' = [11]"
proof -
  have "\<exists>d'. demu_poll_iopages plain_env 11 polled_demu = Done d'"
    by (simp add: demu_poll_iopages_def demu_poll_shared_iopage_def demu_handle_ioreq_def demu_handle_io_def
        demu_find_memory_space_def polled_demu_def sample_demu_def)
  then obtain d' where d': "demu_poll_iopages plain_env 11 polled_demu = Done d'" by blast
  have u: "uint (ports polled_demu ! 0) = 11" by (simp add: polled_demu_def)
  show ?thesis
    using poll_answers_request [of plain_env polled_demu 0 d'] d' u by (simp add: polled_demu_def sample_demu_def)
qed

end
