(* ===== verification/MainLoop.thy ===== *)
theory MainLoop
  imports Session
begin

text \<open>
  The outer loop of \<open>main\<close> (\<^verbatim>\<open>demu.c\<close>): frontend after frontend is waited for, served and torn down.  Its
  invariant composes the connection to the store, the sequence of the initialisation and the devices.
\<close>

subsection \<open>The loop\<close>

text \<open>
  The options, as \<open>getopt_long\<close> gives them: the number of the device, whose argument is optional in the long
  form, the legacy interface, and help or anything else.  \<open>None\<close> is the end of the process with the usage.
\<close>

datatype option_answer = Opt_devid "string option" | Opt_legacy | Opt_help | Opt_unknown

fun main_options :: "option_answer list \<Rightarrow> string option \<Rightarrow> bool \<Rightarrow> (string option \<times> bool) option" where
  "main_options [] devid_str virtio_legacy = Some (devid_str, virtio_legacy)"
| "main_options (Opt_devid optarg # opts) devid_str virtio_legacy = main_options opts optarg virtio_legacy"
| "main_options (Opt_legacy # opts) devid_str virtio_legacy = main_options opts devid_str True"
| "main_options (Opt_help # opts) devid_str virtio_legacy = None"
| "main_options (Opt_unknown # opts) devid_str virtio_legacy = None"

lemma main_options_eq:
  "main_options opts devid_str virtio_legacy =
     (if Opt_help \<in> set opts \<or> Opt_unknown \<in> set opts then None
      else Some (last (devid_str # [d. Opt_devid d \<leftarrow> opts]), virtio_legacy \<or> Opt_legacy \<in> set opts))"
  by (induction opts devid_str virtio_legacy rule: main_options.induct) auto

text \<open>
  From the creation of the connection to the number of the backend; \<open>None\<close> is an exit of the process.
  The other fields of the state are static and start as zeros.
\<close>

definition main_start :: "'x xs_ops \<Rightarrow> bool \<Rightarrow> string \<Rightarrow> string option \<Rightarrow> 'x demu \<Rightarrow> 'x demu option" where
  "main_start xs opened disk_type devid_str d =
     (case xenstore_create opened disk_type devid_str of
        None \<Rightarrow> None
      | Some xd \<Rightarrow>
          (case xenstore_get_be_domid xs (store d) of
             (rc, x) \<Rightarrow> if rc < 0 then None else Some (d\<lparr>xdev := xd, store := x, be_domid := of_int rc\<rparr>)))"

definition next_frontend :: "'x xs_ops \<Rightarrow> nat \<Rightarrow> 'x demu \<Rightarrow> (int \<times> 'x demu) run" where
  "next_frontend xs n d =
     bind_run (xenstore_wait_fe_domid xs n (store d) (xdev d)) (\<lambda>(rc, xd, x).
       let d' = d\<lparr>xdev := xd, store := x\<rparr>
       in Done (rc, if rc < 0 then d' else d'\<lparr>domid := of_int rc\<rparr>))"

text \<open>
  What \<open>select\<close> answers in a round of the inner loop: what is ready, nothing within a second, or an
  error, perhaps an interruption.  The loop ends with the value of \<open>rc\<close>; when the answers are used up it
  is still running.
\<close>

datatype select_answer = Ready "int option" bool | Nothing_ready | Select_error bool

fun main_rounds :: "env \<Rightarrow> 'x xs_ops \<Rightarrow> select_answer list \<Rightarrow> 'x demu \<Rightarrow> (int option \<times> 'x demu) run" where
  "main_rounds e xs [] d = Done (None, d)"
| "main_rounds e xs (a # as) d =
     (case a of
        Ready efd xfd \<Rightarrow>
          bind_run (main_round e xs efd xfd d) (\<lambda>(go_on, d').
            if go_on then main_rounds e xs as d' else Done (Some 0, d'))
      | Nothing_ready \<Rightarrow> main_rounds e xs as d
      | Select_error interrupted \<Rightarrow> if interrupted then main_rounds e xs as d else Done (Some (-1), d))"

text \<open>One round of the outer loop, which says whether the loop goes on.\<close>

definition outer_round ::
  "env \<Rightarrow> u8 list \<Rightarrow> bool \<Rightarrow> (string \<Rightarrow> host_file) \<Rightarrow> 'x xs_ops \<Rightarrow> xen \<Rightarrow> select_answer list \<Rightarrow> 'x demu \<Rightarrow>
    (bool \<times> 'x demu) run" where
  "outer_round e stk virtio_legacy host xs xen answers d =
     bind_run (next_frontend xs (io_fuel e) d) (\<lambda>(rc, d1).
       if rc < 0 then Done (True, d1)
       else
         bind_run (demu_initialize e stk virtio_legacy host xs xen d1) (\<lambda>(rc, d2).
           if rc < 0 then bind_run (demu_teardown e xs d2) (\<lambda>d3. Done (True, d3))
           else
             bind_run (main_rounds e xs answers d2) (\<lambda>(rc, d3).
               case rc of
                 None \<Rightarrow> NoFuel
               | Some rc \<Rightarrow> bind_run (demu_teardown e xs d3) (\<lambda>d4. Done (\<not> rc < 0, d4)))))"

text \<open>
  The same round with the steps of the other threads and of the guest in between: it may find no frontend,
  fail to bring one up, or serve one.
\<close>

inductive outer_step ::
  "env \<Rightarrow> u8 list \<Rightarrow> bool \<Rightarrow> (string \<Rightarrow> host_file) \<Rightarrow> 'x xs_ops \<Rightarrow> 'x demu \<Rightarrow> int option \<Rightarrow> 'x demu \<Rightarrow> bool"
  for e stk leg host xs where
  no_frontend: "next_frontend xs n d = Done (rc, d') \<Longrightarrow> rc < 0 \<Longrightarrow> outer_step e stk leg host xs d None d'"
| frontend: "next_frontend xs n d = Done (r, d1) \<Longrightarrow> 0 \<le> r \<Longrightarrow> valid_ports xen \<Longrightarrow>
    session e stk leg host xs xen d1 rc d2 \<Longrightarrow> demu_teardown e xs d2 = Done d' \<Longrightarrow>
    outer_step e stk leg host xs d (Some r) d'"

inductive serving ::
  "env \<Rightarrow> u8 list \<Rightarrow> bool \<Rightarrow> (string \<Rightarrow> host_file) \<Rightarrow> 'x xs_ops \<Rightarrow> 'x demu \<Rightarrow> int list \<Rightarrow> 'x demu \<Rightarrow> bool"
  for e stk leg host xs d0 where
  begins: "serving e stk leg host xs d0 [] d0"
| idles: "serving e stk leg host xs d0 rs d \<Longrightarrow> outer_step e stk leg host xs d None d' \<Longrightarrow>
    serving e stk leg host xs d0 rs d'"
| serves: "serving e stk leg host xs d0 rs d \<Longrightarrow> outer_step e stk leg host xs d (Some r) d' \<Longrightarrow>
    serving e stk leg host xs d0 (rs @ [r]) d'"

lemma main_rounds_session:
  "session e stk leg host xs xen d0 0 d \<Longrightarrow> main_rounds e xs as d = Done (rc, d') \<Longrightarrow>
     session e stk leg host xs xen d0 0 d'"
proof (induction as arbitrary: d)
  case (Cons a as)
  show ?case
  proof (cases a)
    case (Ready efd xfd)
    then obtain b d1 where 1: "main_round e xs efd xfd d = Done (b, d1)"
        "(if b then main_rounds e xs as d1 else Done (Some 0, d1)) = Done (rc, d')"
      using Cons.prems(2) by (auto simp: bind_run_Done_iff)
    have "session e stk leg host xs xen d0 0 d1" by (rule session.run [OF Cons.prems(1) world_step.main_step [OF 1(1)]])
    then show ?thesis using 1(2) Cons.IH by (auto split: if_splits)
  qed (use Cons in \<open>auto split: if_splits\<close>)
qed simp

text \<open>The executable round is one of these steps.\<close>

lemma outer_round_step:
  assumes "outer_round e stk leg host xs xen as d = Done (b, d')" and "valid_ports xen"
  shows "\<exists>r. outer_step e stk leg host xs d r d'"
proof -
  obtain rc d1 where 1: "next_frontend xs (io_fuel e) d = Done (rc, d1)" using assms(1)
    by (auto simp: outer_round_def bind_run_Done_iff)
  show ?thesis
  proof (cases "rc < 0")
    case True
    then have "outer_step e stk leg host xs d None d1" by (rule outer_step.no_frontend [OF 1])
    then show ?thesis using assms(1) 1 True by (auto simp: outer_round_def)
  next
    case False
    obtain rc2 d2 where 2: "demu_initialize e stk leg host xs xen d1 = Done (rc2, d2)"
      using assms(1) 1 False by (auto simp: outer_round_def bind_run_Done_iff)
    note s = session.start [OF 2]
    have "\<exists>rc3 d3. session e stk leg host xs xen d1 rc3 d3 \<and> demu_teardown e xs d3 = Done d'"
    proof (cases "rc2 < 0")
      case True
      then show ?thesis using assms(1) 1 False 2 s by (auto simp: outer_round_def bind_run_Done_iff)
    next
      case ok: False
      then have "rc2 = 0" using 2 by (auto simp: demu_initialize_def bind_run_Done_iff split: if_splits)
      then obtain rc3 d3 where "main_rounds e xs as d2 = Done (rc3, d3)" "demu_teardown e xs d3 = Done d'"
        using assms(1) 1 False 2 by (auto simp: outer_round_def bind_run_Done_iff split: option.splits)
      then show ?thesis using main_rounds_session [OF s [unfolded \<open>rc2 = 0\<close>]] by blast
    qed
    then show ?thesis using outer_step.frontend [OF 1 _ assms(2)] False by fastforce
  qed
qed

text \<open>
  The handler of the signals that end the process, \<open>SIGABRT\<close> of a failed \<open>BUG_ON\<close> among them, takes
  the devices down before it exits; between two steps of a session this leads back to rest.
\<close>

definition demu_sigterm :: "env \<Rightarrow> 'x xs_ops \<Rightarrow> 'x demu \<Rightarrow> 'x demu run" where
  "demu_sigterm e xs d = demu_teardown e xs d"

lemma sigterm_rests:
  "session e stk leg host xs xen d0 rc d \<Longrightarrow> at_rest d0 \<Longrightarrow> valid_ports xen \<Longrightarrow> demu_sigterm e xs d = Done d' \<Longrightarrow> at_rest d'"
  unfolding demu_sigterm_def using session_teardown by blast

subsection \<open>The connection over a session\<close>

text \<open>The largest domain number seen is a static variable of the look-up, which nothing else writes.\<close>

abbreviation newest :: "'x demu \<Rightarrow> u16" where
  "newest d \<equiv> xs_curr_domid (xdev d)"

lemma set_be_state_newest [simp]: "xs_curr_domid (fst (snd (xenstore_set_be_state xs x xd st))) = xs_curr_domid xd"
  by (simp add: xenstore_set_be_state_def case_prod_beta)

lemma disconnect_newest [simp]: "xs_curr_domid (fst (xenstore_disconnect_dom xs x xd)) = xs_curr_domid xd"
  by (simp add: xenstore_disconnect_dom_def case_prod_beta split: option.split)

lemma be_ready_newest [simp]: "xs_curr_domid (fst (snd (be_ready xs x xd))) = xs_curr_domid xd"
  by (simp add: be_ready_def Let_def case_prod_beta split: option.split)

lemma fe_ready_newest [simp]: "xs_curr_domid (fst (snd (fe_ready xs x xd))) = xs_curr_domid xd"
  by (simp add: fe_ready_def case_prod_beta split: option.split)

lemma attempt_newest:
  "connect_attempt xs n cb x xd c = Done (ok, xd', c', x') \<Longrightarrow> xs_curr_domid xd' = xs_curr_domid xd"
  by (auto simp: connect_attempt_def bind_run_Done_iff case_prod_beta split: if_splits)

lemma connect_newest:
  "xenstore_connect_dom xs n cb x xd a b c = Done (rc, xd', c', x') \<Longrightarrow> xs_curr_domid xd' = xs_curr_domid xd"
  by (auto simp: xenstore_connect_dom_def Let_def bind_run_Done_iff case_prod_beta dest!: attempt_newest
      split: if_splits)

abbreviation newest_is :: "u16 \<Rightarrow> 'x demu \<Rightarrow> bool" where
  "newest_is c d \<equiv> newest d = c"

lemma init_steps_newest: "triple (newest_is c) (init_steps e stk leg host xs xen) (newest_is c) (newest_is c)"
proof -
  have "newest d' = newest d" if "forget_mappings_model d = Done (ok, d') \<or> connect_step xs n d = Done (ok, d') \<or>
      devices_step e stk leg host d = Done (ok, d') \<or> next_seq d = Done (ok, d')" for d d' :: "'a demu" and ok n
    using that by (auto simp: connect_step_def forget_mappings_model_def devices_step_def Let_def bind_run_Done_iff
       dest!: next_seq_result connect_newest split: if_splits)
  then show ?thesis
    by (intro init_steps_triple [where A = "newest_is c" and B = "newest_is c" and C = "newest_is c"] keeps_triple)
      (auto dest: early_frames)
qed

lemma initialize_newest: "demu_initialize e stk leg host xs xen d = Done (rc, d') \<Longrightarrow> newest d' = newest d"
  using tripleD [OF init_steps_newest refl, of e stk leg host xs xen d]
  by (fastforce simp: demu_initialize_def bind_run_Done_iff split: if_splits)

lemma poll_shared_xdev: "demu_poll_shared_iopage e i d = Done d' \<Longrightarrow> xdev d' = xdev d"
  by (auto simp: demu_poll_shared_iopage_def bind_run_Done_iff split: if_splits)

lemma poll_ports_xdev: "poll_ports e port is d = Done d' \<Longrightarrow> xdev d' = xdev d"
  by (induction "is" arbitrary: d) (auto simp: bind_run_Done_iff dest!: poll_shared_xdev split: if_splits)

lemma main_round_xdev: "main_round e xs efd xfd d = Done (b, d') \<Longrightarrow> xdev d' = xdev d"
  by (auto simp: main_round_def demu_poll_iopages_def Let_def bind_run_Done_iff dest!: poll_ports_xdev
      split: if_splits option.splits)

lemma session_newest: "session e stk leg host xs xen d0 rc d \<Longrightarrow> newest d = newest d0"
proof (induction rule: session.induct)
  case (start rc d)
  then show ?case by (rule initialize_newest)
next
  case (run d d')
  from run(2,3) show ?case by (auto elim!: world_step_cases dest: main_round_xdev)
qed

lemma down_xdev: "xdev (down_xen d) = xdev d"
proof -
  have 1: "xdev (fold unbind ps d) = xdev d" for ps and d :: "'a demu"
    by (induction ps arbitrary: d) (simp_all add: unbind_def release_def)
  have 2: "xdev (down_to s s' r d) = xdev d" for s s' r and d :: "'a demu"
    by (simp add: down_to_def release_def)
  show ?thesis
    by (simp add: down_xen_def Let_def 2 down_enabled_def down_array_def down_ports_def release_def 1)
qed

lemma teardown_newest: "demu_teardown e xs d = Done d' \<Longrightarrow> newest d' = newest d"
  by (auto simp: demu_teardown_def down_devices_def down_xenstore_def Let_def bind_run_Done_iff down_xdev
      case_prod_beta split: if_splits)

subsection \<open>The invariant of the loop\<close>

lemma wait_fe_nonzero: "wait_fe_loop xs n x xd = Done (r, xd', x') \<Longrightarrow> r \<noteq> 0"
proof (induction n arbitrary: x xd)
  case 0
  show ?case by (rule wait_fe_step [OF 0]) (auto split: if_splits)
next
  case (Suc n)
  show ?case by (rule wait_fe_step [OF Suc.prems]) (auto split: if_splits dest!: Suc.IH)
qed

lemma next_frontend_forward:
  assumes "next_frontend xs n d = Done (rc, d')"
  shows "domids_forward (xdev d) rc (xdev d') \<and> rc \<noteq> 0 \<and> (at_rest d \<longrightarrow> at_rest d') \<and> bad d' = bad d"
proof -
  obtain xd x where 1: "xenstore_wait_fe_domid xs n (store d) (xdev d) = Done (rc, xd, x)"
      "xdev d' = xd" "at_rest d \<longrightarrow> at_rest d'" "bad d' = bad d"
    using assms by (auto simp: next_frontend_def bind_run_Done_iff Let_def at_rest_def)
  have "domids_forward (xdev d) rc xd \<and> rc \<noteq> 0"
  proof (cases "fst (xs_watch xs (store d) (xs_path (xdev d)) (xs_path (xdev d)))")
    case False
    then show ?thesis using 1(1) by (auto simp: xenstore_wait_fe_domid_def domids_forward_def case_prod_beta)
  next
    case True
    then obtain x1 x2 where "wait_fe_loop xs n x1 (xdev d) = Done (rc, xd, x2)"
      using 1(1) by (auto simp: xenstore_wait_fe_domid_def bind_run_Done_iff case_prod_beta)
    then show ?thesis by (intro conjI wait_fe_forward wait_fe_nonzero)
  qed
  then show ?thesis using 1(2-4) by blast
qed

lemma served_in_order:
  assumes "serving e stk leg host xs d0 rs d" and "idle d0"
  shows "at_rest d \<and> set (bad d) \<subseteq> {Bound_port (-1)} \<and> sorted_wrt (<) rs \<and> uint (newest d0) \<le> uint (newest d) \<and>
    (\<forall>r\<in>set rs. uint (newest d0) < r \<and> r \<le> uint (newest d))"
  using assms
proof (induction rule: serving.induct)
  case begins
  then show ?case by (simp add: idle_def)
next
  case (idles rs d d')
  from idles(2) obtain n rc where n: "next_frontend xs n d = Done (rc, d')" by (auto elim: outer_step.cases)
  show ?case using next_frontend_forward [OF n] idles(3) [OF idles(4)]
    by (fastforce simp: domids_forward_def word_le_def)
next
  case (serves rs d r d')
  from serves(2) obtain n d1 xen rc d2 where 1: "next_frontend xs n d = Done (r, d1)" "0 \<le> r" "valid_ports xen"
      "session e stk leg host xs xen d1 rc d2" "demu_teardown e xs d2 = Done d'"
    by (auto elim: outer_step.cases)
  note f = next_frontend_forward [OF 1(1)]
  have "at_rest d1" using f serves by blast
  note t = session_teardown [OF 1(4) this 1(3,5)]
  have "newest d' = newest d1" using teardown_newest [OF 1(5)] session_newest [OF 1(4)] by simp
  then show ?case using f t serves(3) [OF serves(4)] 1(2)
    by (fastforce simp: domids_forward_def word_le_def word_less_def sorted_wrt_append)
qed

text \<open>
  C10: However many frontends the program has served, and whatever they did, between two of them it holds none of the
  things of the ledger: no handle, port, array, server or shared page is left of an earlier one, no device and no range
  of addresses, and nothing but the port -1 was ever released in error.  The frontends were served in the order of their
  numbers, and every later one will be larger than \<open>curr_domid\<close>.  And no frontend keeps the program from the next one: at
  any point of a session its teardown returns, and leads to such a state again, provided that the host gives event
  descriptors and threads and that no event counter is full.  The pages of the guests and the files of
  the disks are not part of the ledger: what a session leaves of them is stated by C9 and C38.
\<close>

theorem main_loop_rests:
  assumes "serving e stk leg host xs d0 rs d" and "idle d0"
  shows "at_rest d \<and> set (bad d) \<subseteq> {Bound_port (-1)} \<and> sorted_wrt (<) rs \<and> uint (newest d0) \<le> uint (newest d) \<and>
    (\<forall>r\<in>set rs. uint (newest d0) < r \<and> r \<le> uint (newest d)) \<and>
    (\<forall>n r d1 xen rc d2.
       next_frontend xs n d = Done (r, d1) \<and> 0 \<le> r \<and> valid_ports xen \<and> session e stk leg host xs xen d1 rc d2 \<and>
       efd_ok e \<and> thread_ok e \<and> 3 \<le> io_fuel e \<and> devices_wakeable (dv_bdevs (devs d2)) \<longrightarrow>
       (\<exists>d3. demu_teardown e xs d2 = Done d3 \<and> serving e stk leg host xs d0 (rs @ [r]) d3))"
proof -
  note f = served_in_order [OF assms]
  have "\<exists>d3. demu_teardown e xs d2 = Done d3 \<and> serving e stk leg host xs d0 (rs @ [r]) d3"
    if n: "next_frontend xs n d = Done (r, d1)" and 1: "0 \<le> r" "valid_ports xen" "session e stk leg host xs xen d1 rc d2"
      "efd_ok e" "thread_ok e" "3 \<le> io_fuel e" "devices_wakeable (dv_bdevs (devs d2))" for n r d1 xen rc d2
  proof -
    have "at_rest d1" using next_frontend_forward [OF n] f by blast
    then obtain d3 where d3: "demu_teardown e xs d2 = Done d3"
      using session_teardown_done [OF 1(3) _ 1(2,4-7)] by blast
    then have "outer_step e stk leg host xs d (Some r) d3" using outer_step.frontend [OF n 1(1-3)] by blast
    then show ?thesis using d3 serving.serves [OF assms(1)] by blast
  qed
  then show ?thesis using f by blast
qed

text \<open>The frontend of domain 7, whose second port cannot be bound.\<close>

definition seven_demu :: "sample_store demu" where
  "seven_demu = sample_demu\<lparr>store :=
     guest_store\<lparr>ss_nodes := (''/local/domain/7/device/virtio_disk/51712'', []) # ss_nodes guest_store\<rparr>\<rparr>"

lemma seven_run:
  "(case next_frontend sample_xs 4 seven_demu of
      Done (rc, d) \<Rightarrow> rc = 7 \<and>
        (case demu_initialize plain_env [] False (\<lambda>f. sample_file) sample_xs short_xen d of
           Done (rc, d') \<Rightarrow> rc = -1 \<and>
             (case down_devices plain_env d' of Done d'' \<Rightarrow> bad (down_xen d'') \<noteq> [] | _ \<Rightarrow> False)
         | _ \<Rightarrow> False)
    | _ \<Rightarrow> False)"
  by code_simp

theorem main_loop_rests_witness:
  "\<exists>d. serving plain_env [] False (\<lambda>f. sample_file) sample_xs seven_demu [7] d \<and> at_rest d \<and> bad d \<noteq> [] \<and>
     7 \<le> uint (newest d)"
proof -
  obtain d1 d2 d3 where 1: "next_frontend sample_xs 4 seven_demu = Done (7, d1)"
      "demu_initialize plain_env [] False (\<lambda>f. sample_file) sample_xs short_xen d1 = Done (-1, d2)"
      "down_devices plain_env d2 = Done d3" "bad (down_xen d3) \<noteq> []"
    using seven_run by (auto simp: case_Done)
  let ?d = "down_xenstore sample_xs (down_xen d3)"
  have 2: "demu_teardown plain_env sample_xs d2 = Done ?d" using 1(3) by (simp add: demu_teardown_def)
  have 3: "bad ?d \<noteq> []" using 1(4) by (simp add: down_xenstore_def split: prod.split)
  have v: "valid_ports short_xen" by (simp add: valid_ports_def short_xen_def)
  have "outer_step plain_env [] False (\<lambda>f. sample_file) sample_xs seven_demu (Some 7) ?d"
    by (rule outer_step.frontend [OF 1(1) _ v session.start [OF 1(2)] 2]) simp
  from serving.serves [OF serving.begins this]
  have s: "serving plain_env [] False (\<lambda>f. sample_file) sample_xs seven_demu [7] ?d" by simp
  have "idle seven_demu" by (simp add: idle_def at_rest_def seven_demu_def sample_demu_def)
  then show ?thesis using main_loop_rests [OF s] s 3 by auto
qed

end
