(* ===== verification/ListHeap.thy ===== *)
theory ListHeap
  imports Prelude
begin

text \<open>
  The doubly linked lists of \<^verbatim>\<open>include/linux/list.h\<close>, with their pointers.  A heap maps the address of a
  \<open>list_head\<close> to its two pointers; an access to an address without one is \<open>Wild\<close>.  A name
  \<open>__list_add\<close> of the source is \<open>inner_list_add\<close> here.  The second half holds the lists with
  a single pointer as their head.
\<close>

subsection \<open>Heaps\<close>

type_synonym laddr = u64

record list_head =
  lh_next :: laddr
  lh_prev :: laddr

type_synonym lheap = "laddr \<Rightarrow> list_head option"

definition get_next :: "lheap \<Rightarrow> laddr \<Rightarrow> laddr run" where
  "get_next h p = (case h p of None \<Rightarrow> Wild | Some n \<Rightarrow> Done (lh_next n))"

definition get_prev :: "lheap \<Rightarrow> laddr \<Rightarrow> laddr run" where
  "get_prev h p = (case h p of None \<Rightarrow> Wild | Some n \<Rightarrow> Done (lh_prev n))"

definition set_next :: "laddr \<Rightarrow> laddr \<Rightarrow> lheap \<Rightarrow> lheap run" where
  "set_next p v h = (case h p of None \<Rightarrow> Wild | Some n \<Rightarrow> Done (h(p \<mapsto> n\<lparr>lh_next := v\<rparr>)))"

definition set_prev :: "laddr \<Rightarrow> laddr \<Rightarrow> lheap \<Rightarrow> lheap run" where
  "set_prev p v h = (case h p of None \<Rightarrow> Wild | Some n \<Rightarrow> Done (h(p \<mapsto> n\<lparr>lh_prev := v\<rparr>)))"

subsection \<open>Circular lists\<close>

definition INIT_LIST_HEAD :: "laddr \<Rightarrow> lheap \<Rightarrow> lheap run" where
  "INIT_LIST_HEAD l h = bind_run (set_next l l h) (set_prev l l)"

definition inner_list_add :: "laddr \<Rightarrow> laddr \<Rightarrow> laddr \<Rightarrow> lheap \<Rightarrow> lheap run" where
  "inner_list_add new prev nxt h =
     bind_run (set_prev nxt new h) (\<lambda>h1.
     bind_run (set_next new nxt h1) (\<lambda>h2.
     bind_run (set_prev new prev h2) (set_next prev new)))"

definition list_add :: "laddr \<Rightarrow> laddr \<Rightarrow> lheap \<Rightarrow> lheap run" where
  "list_add new head h = bind_run (get_next h head) (\<lambda>n. inner_list_add new head n h)"

definition list_add_tail :: "laddr \<Rightarrow> laddr \<Rightarrow> lheap \<Rightarrow> lheap run" where
  "list_add_tail new head h = bind_run (get_prev h head) (\<lambda>p. inner_list_add new p head h)"

definition inner_list_del :: "laddr \<Rightarrow> laddr \<Rightarrow> lheap \<Rightarrow> lheap run" where
  "inner_list_del prev nxt h = bind_run (set_prev nxt prev h) (set_next prev nxt)"

definition inner_list_del_entry :: "laddr \<Rightarrow> lheap \<Rightarrow> lheap run" where
  "inner_list_del_entry entry h =
     bind_run (get_prev h entry) (\<lambda>p. bind_run (get_next h entry) (\<lambda>n. inner_list_del p n h))"

definition list_del :: "laddr \<Rightarrow> lheap \<Rightarrow> lheap run" where
  "list_del entry h =
     bind_run (inner_list_del_entry entry h) (\<lambda>h1. bind_run (set_next entry 0 h1) (set_prev entry 0))"

definition list_del_init :: "laddr \<Rightarrow> lheap \<Rightarrow> lheap run" where
  "list_del_init entry h = bind_run (inner_list_del_entry entry h) (INIT_LIST_HEAD entry)"

definition list_replace :: "laddr \<Rightarrow> laddr \<Rightarrow> lheap \<Rightarrow> lheap run" where
  "list_replace old new h =
     bind_run (get_next h old) (\<lambda>n.
     bind_run (set_next new n h) (\<lambda>h1.
     bind_run (set_prev n new h1) (\<lambda>h2.
     bind_run (get_prev h2 old) (\<lambda>p.
     bind_run (set_prev new p h2) (set_next p new)))))"

definition list_replace_init :: "laddr \<Rightarrow> laddr \<Rightarrow> lheap \<Rightarrow> lheap run" where
  "list_replace_init old new h = bind_run (list_replace old new h) (INIT_LIST_HEAD old)"

definition list_move :: "laddr \<Rightarrow> laddr \<Rightarrow> lheap \<Rightarrow> lheap run" where
  "list_move l head h = bind_run (inner_list_del_entry l h) (list_add l head)"

definition list_move_tail :: "laddr \<Rightarrow> laddr \<Rightarrow> lheap \<Rightarrow> lheap run" where
  "list_move_tail l head h = bind_run (inner_list_del_entry l h) (list_add_tail l head)"

definition list_is_last :: "laddr \<Rightarrow> laddr \<Rightarrow> lheap \<Rightarrow> bool run" where
  "list_is_last l head h = bind_run (get_next h l) (\<lambda>n. Done (n = head))"

definition list_empty :: "laddr \<Rightarrow> lheap \<Rightarrow> bool run" where
  "list_empty head h = bind_run (get_next h head) (\<lambda>n. Done (n = head))"

definition list_empty_careful :: "laddr \<Rightarrow> lheap \<Rightarrow> bool run" where
  "list_empty_careful head h =
     bind_run (get_next h head) (\<lambda>n.
       if n = head then bind_run (get_prev h head) (\<lambda>p. Done (n = p)) else Done False)"

definition list_rotate_left :: "laddr \<Rightarrow> lheap \<Rightarrow> lheap run" where
  "list_rotate_left head h =
     bind_run (list_empty head h) (\<lambda>e.
       if e then Done h else bind_run (get_next h head) (\<lambda>f. list_move_tail f head h))"

definition list_is_singular :: "laddr \<Rightarrow> lheap \<Rightarrow> bool run" where
  "list_is_singular head h =
     bind_run (list_empty head h) (\<lambda>e.
       if e then Done False
       else bind_run (get_next h head) (\<lambda>n. bind_run (get_prev h head) (\<lambda>p. Done (n = p))))"

definition inner_list_cut_position :: "laddr \<Rightarrow> laddr \<Rightarrow> laddr \<Rightarrow> lheap \<Rightarrow> lheap run" where
  "inner_list_cut_position l head entry h =
     bind_run (get_next h entry) (\<lambda>new_first.
     bind_run (get_next h head) (\<lambda>f.
     bind_run (set_next l f h) (\<lambda>h1.
     bind_run (set_prev f l h1) (\<lambda>h2.
     bind_run (set_prev l entry h2) (\<lambda>h3.
     bind_run (set_next entry l h3) (\<lambda>h4.
     bind_run (set_next head new_first h4) (set_prev new_first head)))))))"

definition list_cut_position :: "laddr \<Rightarrow> laddr \<Rightarrow> laddr \<Rightarrow> lheap \<Rightarrow> lheap run" where
  "list_cut_position l head entry h =
     bind_run (list_empty head h) (\<lambda>e.
       if e then Done h
       else bind_run (list_is_singular head h) (\<lambda>s.
         bind_run (get_next h head) (\<lambda>n.
           if s \<and> n \<noteq> entry \<and> head \<noteq> entry then Done h
           else if entry = head then INIT_LIST_HEAD l h
           else inner_list_cut_position l head entry h)))"

definition inner_list_splice :: "laddr \<Rightarrow> laddr \<Rightarrow> laddr \<Rightarrow> lheap \<Rightarrow> lheap run" where
  "inner_list_splice l prev nxt h =
     bind_run (get_next h l) (\<lambda>f.
     bind_run (get_prev h l) (\<lambda>la.
     bind_run (set_prev f prev h) (\<lambda>h1.
     bind_run (set_next prev f h1) (\<lambda>h2.
     bind_run (set_next la nxt h2) (set_prev nxt la)))))"

definition list_splice :: "laddr \<Rightarrow> laddr \<Rightarrow> lheap \<Rightarrow> lheap run" where
  "list_splice l head h =
     bind_run (list_empty l h) (\<lambda>e.
       if e then Done h else bind_run (get_next h head) (\<lambda>n. inner_list_splice l head n h))"

definition list_splice_tail :: "laddr \<Rightarrow> laddr \<Rightarrow> lheap \<Rightarrow> lheap run" where
  "list_splice_tail l head h =
     bind_run (list_empty l h) (\<lambda>e.
       if e then Done h else bind_run (get_prev h head) (\<lambda>p. inner_list_splice l p head h))"

definition list_splice_init :: "laddr \<Rightarrow> laddr \<Rightarrow> lheap \<Rightarrow> lheap run" where
  "list_splice_init l head h =
     bind_run (list_empty l h) (\<lambda>e.
       if e then Done h
       else bind_run (get_next h head) (\<lambda>n. bind_run (inner_list_splice l head n h) (INIT_LIST_HEAD l)))"

definition list_splice_tail_init :: "laddr \<Rightarrow> laddr \<Rightarrow> lheap \<Rightarrow> lheap run" where
  "list_splice_tail_init l head h =
     bind_run (list_empty l h) (\<lambda>e.
       if e then Done h
       else bind_run (get_prev h head) (\<lambda>p. bind_run (inner_list_splice l p head h) (INIT_LIST_HEAD l)))"

text \<open>
  Traversals, from a node on and with fuel: a list that is not circular may have no end.  The entry
  around a node is named by the node's address, so \<open>list_first_entry\<close> is the pointer of the head.
\<close>

definition list_first_entry :: "laddr \<Rightarrow> lheap \<Rightarrow> laddr run" where
  "list_first_entry head h = get_next h head"

definition list_last_entry :: "laddr \<Rightarrow> lheap \<Rightarrow> laddr run" where
  "list_last_entry head h = get_prev h head"

definition list_first_entry_or_null :: "laddr \<Rightarrow> lheap \<Rightarrow> laddr run" where
  "list_first_entry_or_null head h =
     bind_run (list_empty head h) (\<lambda>e. if e then Done 0 else list_first_entry head h)"

text \<open>The body of a loop works on a state with the heap in it.\<close>

fun list_for_each_from :: "nat \<Rightarrow> laddr \<Rightarrow> laddr \<Rightarrow> (laddr \<Rightarrow> 'a \<Rightarrow> 'a run) \<Rightarrow> lheap \<Rightarrow> 'a \<Rightarrow> 'a run" where
  "list_for_each_from n pos head body h a =
     (if pos = head then Done a
      else (case n of
              0 \<Rightarrow> NoFuel
            | Suc n' \<Rightarrow>
                bind_run (body pos a) (\<lambda>a'.
                bind_run (get_next h pos) (\<lambda>p. list_for_each_from n' p head body h a'))))"

definition list_for_each :: "nat \<Rightarrow> laddr \<Rightarrow> (laddr \<Rightarrow> 'a \<Rightarrow> 'a run) \<Rightarrow> lheap \<Rightarrow> 'a \<Rightarrow> 'a run" where
  "list_for_each n head body h a =
     bind_run (get_next h head) (\<lambda>p. list_for_each_from n p head body h a)"

fun list_for_each_prev_from :: "nat \<Rightarrow> laddr \<Rightarrow> laddr \<Rightarrow> (laddr \<Rightarrow> 'a \<Rightarrow> 'a run) \<Rightarrow> lheap \<Rightarrow> 'a \<Rightarrow> 'a run" where
  "list_for_each_prev_from n pos head body h a =
     (if pos = head then Done a
      else (case n of
              0 \<Rightarrow> NoFuel
            | Suc n' \<Rightarrow>
                bind_run (body pos a) (\<lambda>a'.
                bind_run (get_prev h pos) (\<lambda>p. list_for_each_prev_from n' p head body h a'))))"

definition list_for_each_prev :: "nat \<Rightarrow> laddr \<Rightarrow> (laddr \<Rightarrow> 'a \<Rightarrow> 'a run) \<Rightarrow> lheap \<Rightarrow> 'a \<Rightarrow> 'a run" where
  "list_for_each_prev n head body h a =
     bind_run (get_prev h head) (\<lambda>p. list_for_each_prev_from n p head body h a)"

text \<open>The safe traversal reads the next pointer before the body runs, and its body may change the heap.\<close>

fun list_for_each_safe_from :: "nat \<Rightarrow> laddr \<Rightarrow> laddr \<Rightarrow> laddr \<Rightarrow> (laddr \<Rightarrow> lheap \<Rightarrow> lheap run) \<Rightarrow> lheap \<Rightarrow> lheap run" where
  "list_for_each_safe_from n pos nxt head body h =
     (if pos = head then Done h
      else (case n of
              0 \<Rightarrow> NoFuel
            | Suc n' \<Rightarrow>
                bind_run (body pos h) (\<lambda>h'.
                bind_run (get_next h' nxt) (\<lambda>nn. list_for_each_safe_from n' nxt nn head body h'))))"

definition list_for_each_safe :: "nat \<Rightarrow> laddr \<Rightarrow> (laddr \<Rightarrow> lheap \<Rightarrow> lheap run) \<Rightarrow> lheap \<Rightarrow> lheap run" where
  "list_for_each_safe n head body h =
     bind_run (get_next h head) (\<lambda>p.
     bind_run (get_next h p) (\<lambda>nn. list_for_each_safe_from n p nn head body h))"

declare list_for_each_from.simps [simp del] list_for_each_prev_from.simps [simp del]
  list_for_each_safe_from.simps [simp del]

subsection \<open>Lists with a single pointer as their head\<close>

text \<open>
  The field \<open>pprev\<close> points to a pointer: to the head, to the \<open>next\<close> of another node, or nowhere.  A
  null \<open>next\<close> is the address 0.
\<close>

datatype slot = Null_slot | First_of laddr | Next_of laddr

record hlist_node =
  hn_next :: laddr
  hn_pprev :: slot

record hheap =
  hheads :: "laddr \<Rightarrow> laddr option"
  hnodes :: "laddr \<Rightarrow> hlist_node option"

definition get_first :: "hheap \<Rightarrow> laddr \<Rightarrow> laddr run" where
  "get_first h l = (case hheads h l of None \<Rightarrow> Wild | Some f \<Rightarrow> Done f)"

definition get_node :: "hheap \<Rightarrow> laddr \<Rightarrow> hlist_node run" where
  "get_node h p = (case hnodes h p of None \<Rightarrow> Wild | Some n \<Rightarrow> Done n)"

definition set_node :: "laddr \<Rightarrow> (hlist_node \<Rightarrow> hlist_node) \<Rightarrow> hheap \<Rightarrow> hheap run" where
  "set_node p f h =
     (case hnodes h p of None \<Rightarrow> Wild | Some n \<Rightarrow> Done (h\<lparr>hnodes := (hnodes h)(p \<mapsto> f n)\<rparr>))"

definition set_first :: "laddr \<Rightarrow> laddr \<Rightarrow> hheap \<Rightarrow> hheap run" where
  "set_first l v h = (case hheads h l of None \<Rightarrow> Wild | Some _ \<Rightarrow> Done (h\<lparr>hheads := (hheads h)(l \<mapsto> v)\<rparr>))"

fun set_slot :: "slot \<Rightarrow> laddr \<Rightarrow> hheap \<Rightarrow> hheap run" where
  "set_slot Null_slot v h = Wild"
| "set_slot (First_of l) v h = set_first l v h"
| "set_slot (Next_of p) v h = set_node p (\<lambda>n. n\<lparr>hn_next := v\<rparr>) h"

definition INIT_HLIST_HEAD :: "laddr \<Rightarrow> hheap \<Rightarrow> hheap run" where
  "INIT_HLIST_HEAD l h = set_first l 0 h"

definition INIT_HLIST_NODE :: "laddr \<Rightarrow> hheap \<Rightarrow> hheap run" where
  "INIT_HLIST_NODE p h =
     bind_run (set_node p (\<lambda>n. n\<lparr>hn_next := 0\<rparr>) h) (set_node p (\<lambda>n. n\<lparr>hn_pprev := Null_slot\<rparr>))"

definition hlist_unhashed :: "laddr \<Rightarrow> hheap \<Rightarrow> bool run" where
  "hlist_unhashed p h = bind_run (get_node h p) (\<lambda>n. Done (hn_pprev n = Null_slot))"

definition hlist_empty :: "laddr \<Rightarrow> hheap \<Rightarrow> bool run" where
  "hlist_empty l h = bind_run (get_first h l) (\<lambda>f. Done (f = 0))"

definition inner_hlist_del :: "laddr \<Rightarrow> hheap \<Rightarrow> hheap run" where
  "inner_hlist_del p h =
     bind_run (get_node h p) (\<lambda>n.
     bind_run (set_slot (hn_pprev n) (hn_next n) h) (\<lambda>h1.
       if hn_next n \<noteq> 0 then set_node (hn_next n) (\<lambda>m. m\<lparr>hn_pprev := hn_pprev n\<rparr>) h1 else Done h1))"

definition hlist_del :: "laddr \<Rightarrow> hheap \<Rightarrow> hheap run" where
  "hlist_del p h =
     bind_run (inner_hlist_del p h) (\<lambda>h1.
     bind_run (set_node p (\<lambda>n. n\<lparr>hn_next := 0\<rparr>) h1) (set_node p (\<lambda>n. n\<lparr>hn_pprev := Null_slot\<rparr>)))"

definition hlist_del_init :: "laddr \<Rightarrow> hheap \<Rightarrow> hheap run" where
  "hlist_del_init p h =
     bind_run (hlist_unhashed p h) (\<lambda>u.
       if u then Done h else bind_run (inner_hlist_del p h) (INIT_HLIST_NODE p))"

definition hlist_add_head :: "laddr \<Rightarrow> laddr \<Rightarrow> hheap \<Rightarrow> hheap run" where
  "hlist_add_head p l h =
     bind_run (get_first h l) (\<lambda>f.
     bind_run (set_node p (\<lambda>n. n\<lparr>hn_next := f\<rparr>) h) (\<lambda>h1.
     bind_run (if f \<noteq> 0 then set_node f (\<lambda>n. n\<lparr>hn_pprev := Next_of p\<rparr>) h1 else Done h1) (\<lambda>h2.
     bind_run (set_first l p h2) (set_node p (\<lambda>n. n\<lparr>hn_pprev := First_of l\<rparr>)))))"

definition hlist_add_before :: "laddr \<Rightarrow> laddr \<Rightarrow> hheap \<Rightarrow> hheap run" where
  "hlist_add_before p nxt h =
     bind_run (get_node h nxt) (\<lambda>m.
     bind_run (set_node p (\<lambda>n. n\<lparr>hn_pprev := hn_pprev m\<rparr>) h) (\<lambda>h1.
     bind_run (set_node p (\<lambda>n. n\<lparr>hn_next := nxt\<rparr>) h1) (\<lambda>h2.
     bind_run (set_node nxt (\<lambda>n. n\<lparr>hn_pprev := Next_of p\<rparr>) h2) (set_slot (hn_pprev m) p))))"

definition hlist_add_behind :: "laddr \<Rightarrow> laddr \<Rightarrow> hheap \<Rightarrow> hheap run" where
  "hlist_add_behind p prev h =
     bind_run (get_node h prev) (\<lambda>m.
     bind_run (set_node p (\<lambda>n. n\<lparr>hn_next := hn_next m\<rparr>) h) (\<lambda>h1.
     bind_run (set_node prev (\<lambda>n. n\<lparr>hn_next := p\<rparr>) h1) (\<lambda>h2.
     bind_run (set_node p (\<lambda>n. n\<lparr>hn_pprev := Next_of prev\<rparr>) h2) (\<lambda>h3.
       if hn_next m \<noteq> 0 then set_node (hn_next m) (\<lambda>n. n\<lparr>hn_pprev := Next_of p\<rparr>) h3 else Done h3))))"

definition hlist_add_fake :: "laddr \<Rightarrow> hheap \<Rightarrow> hheap run" where
  "hlist_add_fake p h = set_node p (\<lambda>n. n\<lparr>hn_pprev := Next_of p\<rparr>) h"

definition hlist_move_list :: "laddr \<Rightarrow> laddr \<Rightarrow> hheap \<Rightarrow> hheap run" where
  "hlist_move_list old new h =
     bind_run (get_first h old) (\<lambda>f.
     bind_run (set_first new f h) (\<lambda>h1.
     bind_run (if f \<noteq> 0 then set_node f (\<lambda>n. n\<lparr>hn_pprev := First_of new\<rparr>) h1 else Done h1) (set_first old 0)))"

fun hlist_for_each_from :: "nat \<Rightarrow> laddr \<Rightarrow> (laddr \<Rightarrow> 'a \<Rightarrow> 'a run) \<Rightarrow> hheap \<Rightarrow> 'a \<Rightarrow> 'a run" where
  "hlist_for_each_from n pos body h a =
     (if pos = 0 then Done a
      else (case n of
              0 \<Rightarrow> NoFuel
            | Suc n' \<Rightarrow>
                bind_run (body pos a) (\<lambda>a'.
                bind_run (get_node h pos) (\<lambda>m. hlist_for_each_from n' (hn_next m) body h a'))))"

definition hlist_for_each :: "nat \<Rightarrow> laddr \<Rightarrow> (laddr \<Rightarrow> 'a \<Rightarrow> 'a run) \<Rightarrow> hheap \<Rightarrow> 'a \<Rightarrow> 'a run" where
  "hlist_for_each n l body h a = bind_run (get_first h l) (\<lambda>f. hlist_for_each_from n f body h a)"

declare hlist_for_each_from.simps [simp del]

end
