(* ===== verification/ListHeapProofs.thy ===== *)
theory ListHeapProofs
  imports ListHeap
begin

text \<open>
  The pointer lists represent sequences: each operation of \<^verbatim>\<open>include/linux/list.h\<close> that finds its lists
  well linked returns, leaves them well linked, and does to the sequences what its comment says.
\<close>

subsection \<open>Linked nodes\<close>

text \<open>Neighbours in the sequence point at each other.\<close>

definition nx :: "lheap \<Rightarrow> laddr \<Rightarrow> laddr option" where
  "nx h p = map_option lh_next (h p)"

definition pv :: "lheap \<Rightarrow> laddr \<Rightarrow> laddr option" where
  "pv h p = map_option lh_prev (h p)"

fun linked :: "lheap \<Rightarrow> laddr list \<Rightarrow> bool" where
  "linked h (a # b # ps) \<longleftrightarrow> nx h a = Some b \<and> pv h b = Some a \<and> linked h (b # ps)"
| "linked h ps \<longleftrightarrow> True"

lemma linked_append: "linked h (as @ p # bs) \<longleftrightarrow> linked h (as @ [p]) \<and> linked h (p # bs)"
proof (induction as)
  case (Cons a as)
  then show ?case by (cases as) auto
qed simp

lemma linked_frame:
  assumes "linked h ps" and "\<forall>a\<in>set (butlast ps). nx h' a = nx h a" and "\<forall>a\<in>set (tl ps). pv h' a = pv h a"
  shows "linked h' ps"
  using assms by (induction h ps rule: linked.induct) (auto split: if_splits)

lemma nx_some: "nx h p = Some v \<longleftrightarrow> (\<exists>n. h p = Some n \<and> lh_next n = v)"
  by (auto simp: nx_def)

lemma pv_some: "pv h p = Some v \<longleftrightarrow> (\<exists>n. h p = Some n \<and> lh_prev n = v)"
  by (auto simp: pv_def)

text \<open>Reading and writing pointers, over \<open>nx\<close> and \<open>pv\<close>; a write keeps what is allocated.\<close>

lemma get_next_eq: "nx h p = Some v \<Longrightarrow> get_next h p = Done v"
  by (auto simp: get_next_def nx_def)

lemma get_prev_eq: "pv h p = Some v \<Longrightarrow> get_prev h p = Done v"
  by (auto simp: get_prev_def pv_def)

definition put_next :: "laddr \<Rightarrow> laddr \<Rightarrow> lheap \<Rightarrow> lheap" where
  "put_next p v h = h(p := map_option (\<lambda>n. n\<lparr>lh_next := v\<rparr>) (h p))"

definition put_prev :: "laddr \<Rightarrow> laddr \<Rightarrow> lheap \<Rightarrow> lheap" where
  "put_prev p v h = h(p := map_option (\<lambda>n. n\<lparr>lh_prev := v\<rparr>) (h p))"

lemma set_next_eq: "p \<in> dom h \<Longrightarrow> set_next p v h = Done (put_next p v h)"
  by (auto simp: set_next_def put_next_def)

lemma set_prev_eq: "p \<in> dom h \<Longrightarrow> set_prev p v h = Done (put_prev p v h)"
  by (auto simp: set_prev_def put_prev_def)

lemma dom_put [simp]: "dom (put_next p v h) = dom h" "dom (put_prev p v h) = dom h"
  by (auto simp: put_next_def put_prev_def)

lemma put_apply:
  "nx (put_next p v h) a = (if a = p \<and> p \<in> dom h then Some v else nx h a)"
  "nx (put_prev p v h) a = nx h a"
  "pv (put_next p v h) a = pv h a"
  "pv (put_prev p v h) a = (if a = p \<and> p \<in> dom h then Some v else pv h a)"
  by (cases "h p"; auto simp: put_next_def put_prev_def nx_def pv_def)+

lemma put_other: "a \<noteq> p \<Longrightarrow> put_next p v h a = h a" "a \<noteq> p \<Longrightarrow> put_prev p v h a = h a"
  by (auto simp: put_next_def put_prev_def)

lemma linked_dom: "linked h ps \<Longrightarrow> 2 \<le> length ps \<Longrightarrow> set ps \<subseteq> dom h"
proof (induction h ps rule: linked.induct)
  case (1 h a b ps)
  then show ?case by (cases ps) (auto simp: nx_some pv_some)
qed auto

lemmas heap_simps = get_next_eq get_prev_eq set_next_eq set_prev_eq

subsection \<open>Two changes to a chain\<close>

text \<open>
  A chain whose neighbours \<open>p\<close> and \<open>n\<close> are relinked over a chain \<open>ys\<close>: insertion, splicing and, with no
  \<open>ys\<close>, removal.  Only the pointers at the seams change.
\<close>

lemma relink:
  assumes l: "linked h (as @ [p])" "linked h ys" "linked h (n # bs)"
    and nxt: "\<forall>a\<in>set (as @ butlast ys @ butlast (n # bs)). nx h' a = nx h a"
    and prv: "\<forall>a\<in>set (tl (as @ [p]) @ tl ys @ bs). pv h' a = pv h a"
    and seam: "ys = [] \<longrightarrow> nx h' p = Some n \<and> pv h' n = Some p"
      "ys \<noteq> [] \<longrightarrow> nx h' p = Some (hd ys) \<and> pv h' (hd ys) = Some p \<and> nx h' (last ys) = Some n \<and> pv h' n = Some (last ys)"
  shows "linked h' (as @ p # ys @ n # bs)"
proof -
  have a: "linked h' (as @ [p])" using l(1) nxt prv by (intro linked_frame [OF l(1)]) auto
  have b: "linked h' (n # bs)" using nxt prv by (intro linked_frame [OF l(3)]) auto
  have y: "linked h' ys" using nxt prv by (intro linked_frame [OF l(2)]) auto
  have "linked h' (p # ys @ n # bs)"
  proof (cases ys)
    case Nil
    then show ?thesis using b seam by simp
  next
    case (Cons y ys')
    then have "linked h' (butlast ys @ [last ys])" using y by simp
    moreover have "linked h' (last ys # n # bs)" using b seam Cons by simp
    ultimately have "linked h' (ys @ n # bs)"
      using linked_append [of h' "butlast ys" "last ys" "n # bs"] Cons
      by (metis append_Cons append_Nil append_assoc append_butlast_last_id list.distinct(1))
    then show ?thesis using seam Cons by simp
  qed
  then show ?thesis using a linked_append by blast
qed

subsection \<open>Circular lists\<close>

definition ring :: "lheap \<Rightarrow> laddr \<Rightarrow> laddr list \<Rightarrow> bool" where
  "ring h head xs \<longleftrightarrow> distinct (head # xs) \<and> linked h (head # xs @ [head])"

lemma ring_dom: "ring h head xs \<Longrightarrow> set (head # xs) \<subseteq> dom h"
  using linked_dom [of h "head # xs @ [head]"] by (auto simp: ring_def)

lemma ring_next: "ring h head xs \<Longrightarrow> nx h head = Some (hd (xs @ [head]))"
  by (cases xs) (auto simp: ring_def)

lemma ring_prev: "ring h head xs \<Longrightarrow> pv h head = Some (last (head # xs))"
proof -
  assume r: "ring h head xs"
  have e: "head # xs @ [head] = butlast (head # xs) @ last (head # xs) # [head]"
    by (metis append_Cons append_Nil append_assoc append_butlast_last_id list.distinct(1))
  have "linked h (last (head # xs) # [head])"
    using r linked_append [of h "butlast (head # xs)" "last (head # xs)" "[head]"] by (simp only: ring_def e)
  then show ?thesis by simp
qed

lemma ring_frame: "ring h head xs \<Longrightarrow> \<forall>a\<in>set (head # xs). h' a = h a \<Longrightarrow> ring h' head xs"
  unfolding ring_def
  by (auto intro!: linked_frame [where h = h] simp: nx_def pv_def butlast_append split: if_splits)

lemma ring_Nil: "ring h head [] \<longleftrightarrow> nx h head = Some head \<and> pv h head = Some head"
  by (auto simp: ring_def)

text \<open>A place in the ring, with its two neighbours.\<close>

lemma ring_place:
  assumes "head # us = as @ [p]" and "vs @ [head] = n # bs"
  shows "head # (us @ vs) @ [head] = as @ p # n # bs"
proof -
  have "head # (us @ vs) @ [head] = (head # us) @ (vs @ [head])" by simp
  then show ?thesis by (simp only: assms append_assoc append_Cons append_Nil)
qed

lemma ring_split:
  assumes "ring h head (us @ vs)" and "head # us = as @ [p]" and "vs @ [head] = n # bs"
  shows "linked h (as @ [p])" "linked h (n # bs)" "nx h p = Some n" "pv h n = Some p"
proof -
  have "linked h (as @ p # n # bs)" using assms(1) unfolding ring_def ring_place [OF assms(2,3)] by blast
  from linked_append [THEN iffD1, OF this]
  show "linked h (as @ [p])" "linked h (n # bs)" "nx h p = Some n" "pv h n = Some p" by simp_all
qed

lemma ring_join:
  assumes "head # us = as @ [p]" and "vs @ [head] = n # bs"
    and "distinct (head # us @ ys @ vs)" and "linked h (as @ p # ys @ n # bs)"
  shows "ring h head (us @ ys @ vs)"
proof -
  have "head # (us @ ys @ vs) @ [head] = (head # us) @ ys @ (vs @ [head])" by simp
  then have "head # (us @ ys @ vs) @ [head] = as @ p # ys @ n # bs"
    by (simp only: assms(1,2) append_assoc append_Cons append_Nil)
  then show ?thesis using assms(3,4) by (simp only: ring_def)
qed

text \<open>
  Relinking a place in a ring over a chain \<open>ys\<close> of other nodes.  The pointers that matter, apart from the
  seams, are those of the nodes of the ring on their inner side.
\<close>

lemma ring_relink:
  assumes r: "ring h head (us @ zs @ vs)" and p: "head # us = as @ [p]" and n: "vs @ [head] = n # bs"
    and y: "linked h ys" "distinct (head # us @ ys @ vs)"
    and nxt: "\<forall>a\<in>set (as @ butlast ys @ vs). nx h' a = nx h a"
    and prv: "\<forall>a\<in>set (us @ tl ys @ bs). pv h' a = pv h a"
    and seam: "ys = [] \<longrightarrow> nx h' p = Some n \<and> pv h' n = Some p"
      "ys \<noteq> [] \<longrightarrow> nx h' p = Some (hd ys) \<and> pv h' (hd ys) = Some p \<and> nx h' (last ys) = Some n \<and> pv h' n = Some (last ys)"
  shows "ring h' head (us @ ys @ vs)"
proof (rule ring_join [OF p n y(2)])
  have t: "tl (as @ [p]) = us" using p by (cases as) auto
  have b: "butlast (n # bs) = vs" using n by (metis butlast_snoc)
  obtain m cs where z: "zs @ vs @ [head] = m # cs" by (cases "zs @ vs @ [head]") auto
  have l: "linked h (as @ [p])"
    by (rule ring_split(1) [OF r p, of m cs]) (use z in simp)
  have l': "linked h (n # bs)"
  proof -
    obtain qs q where q: "head # us @ zs = qs @ [q]" by (metis append_butlast_last_id list.distinct(1))
    show ?thesis by (rule ring_split(2) [of h head "us @ zs", OF _ q n]) (use r in simp)
  qed
  show "linked h' (as @ p # ys @ n # bs)"
    using relink [OF l y(1) l', of h'] nxt prv seam t b by simp
qed

subsection \<open>The operations\<close>

text \<open>
  An operation returns, changes nothing outside \<open>S\<close>, allocates and frees nothing, and its heap has \<open>Q\<close>.
\<close>

definition gives :: "lheap run \<Rightarrow> lheap \<Rightarrow> laddr set \<Rightarrow> (lheap \<Rightarrow> bool) \<Rightarrow> bool" where
  "gives m h S Q \<longleftrightarrow> (\<exists>h'. m = Done h' \<and> dom h' = dom h \<and> (\<forall>a. a \<notin> S \<longrightarrow> h' a = h a) \<and> Q h')"

lemma gives_Done: "Q h \<Longrightarrow> gives (Done h) h S Q"
  by (simp add: gives_def)

lemma gives_bind:
  assumes "gives m h S Q" and "\<And>h'. Q h' \<Longrightarrow> dom h' = dom h \<Longrightarrow> \<forall>a. a \<notin> S \<longrightarrow> h' a = h a \<Longrightarrow> gives (f h') h' S R"
  shows "gives (bind_run m f) h S R"
proof -
  obtain h1 where 1: "m = Done h1" "dom h1 = dom h" "\<forall>a. a \<notin> S \<longrightarrow> h1 a = h a" "Q h1"
    using assms(1) by (auto simp: gives_def)
  obtain h2 where "f h1 = Done h2" "dom h2 = dom h1" "\<forall>a. a \<notin> S \<longrightarrow> h2 a = h1 a" "R h2"
    using assms(2) [OF 1(4,2,3)] by (auto simp: gives_def)
  then show ?thesis using 1 by (auto simp: gives_def)
qed

lemma gives_mono: "gives m h S Q \<Longrightarrow> S \<subseteq> T \<Longrightarrow> (\<And>h'. Q h' \<Longrightarrow> R h') \<Longrightarrow> gives m h T R"
  unfolding gives_def by blast

lemma INIT_LIST_HEAD_gives: "l \<in> dom h \<Longrightarrow> gives (INIT_LIST_HEAD l h) h {l} (\<lambda>h'. ring h' l [])"
  by (auto simp: gives_def INIT_LIST_HEAD_def heap_simps ring_Nil put_apply put_other)

lemma place_facts:
  assumes "distinct (head # us @ vs)" and "head # us = as @ [p]" and "vs @ [head] = n # bs"
  shows "p \<notin> set as" "p \<notin> set vs" "n \<notin> set us" "n \<notin> set bs" "set us \<subseteq> insert p (set as)"
    "set as \<subseteq> insert head (set us)" "set bs \<subseteq> insert head (set vs)"
    "p \<in> insert head (set us)" "n \<in> insert head (set vs)"
proof -
  have "distinct (head # us)" using assms(1) by simp
  then have "distinct (as @ [p])" by (simp only: assms(2))
  moreover have "insert head (set us) = insert p (set as)" using arg_cong [OF assms(2), of set] by simp
  ultimately have p: "insert head (set us) = insert p (set as)" "distinct (as @ [p])" by blast+
  have "distinct (vs @ [head])" using assms(1) by simp
  then have "distinct (n # bs)" by (simp only: assms(3))
  moreover have "insert head (set vs) = insert n (set bs)" using arg_cong [OF assms(3), of set] by simp
  ultimately have n: "insert head (set vs) = insert n (set bs)" "n \<notin> set bs" by auto
  show "p \<notin> set as" "p \<notin> set vs" "n \<notin> set us" "n \<notin> set bs" "set us \<subseteq> insert p (set as)"
    "set as \<subseteq> insert head (set us)" "set bs \<subseteq> insert head (set vs)"
    "p \<in> insert head (set us)" "n \<in> insert head (set vs)"
    using p n assms(1) by auto
qed

lemma ring_distinct: "ring h head (us @ zs @ vs) \<Longrightarrow> distinct (head # us @ vs)"
  by (auto simp: ring_def)

lemma inner_list_add_gives:
  assumes r: "ring h head (us @ vs)" and p: "head # us = as @ [p]" and n: "vs @ [head] = n # bs"
    and new: "new \<notin> set (head # us @ vs)" "new \<in> dom h"
  shows "gives (inner_list_add new p n h) h (set (new # head # us @ vs)) (\<lambda>h'. ring h' head (us @ new # vs))"
proof -
  have d: "distinct (head # us @ vs)" using r by (simp add: ring_def)
  note f = place_facts [OF d p n]
  have h: "p \<in> dom h" "n \<in> dom h" using ring_dom [OF r] f(8,9) by auto
  let ?h = "put_next p new (put_prev new p (put_next new n (put_prev n new h)))"
  have e: "inner_list_add new p n h = Done ?h" using h new(2) by (simp add: inner_list_add_def heap_simps)
  have "ring ?h head (us @ [new] @ vs)"
  proof (rule ring_relink [where zs = "[]", OF _ p n])
    show "ring h head (us @ [] @ vs)" using r by simp
    show "linked h [new]" by simp
    show "distinct (head # us @ [new] @ vs)" using d new(1) by auto
    show "\<forall>a\<in>set (as @ butlast [new] @ vs). nx ?h a = nx h a"
      using f new(1) by (auto simp: put_apply)
    show "\<forall>a\<in>set (us @ tl [new] @ bs). pv ?h a = pv h a"
      using f new(1) by (auto simp: put_apply)
  qed (use f h new in \<open>auto simp: put_apply\<close>)
  moreover have "?h a = h a" if "a \<notin> set (new # head # us @ vs)" for a
  proof -
    have "a \<noteq> p" "a \<noteq> n" "a \<noteq> new" using that f(8,9) by auto
    then show ?thesis by (simp add: put_other)
  qed
  ultimately show ?thesis using e by (simp add: gives_def)
qed

lemma inner_list_del_gives:
  assumes r: "ring h head (us @ zs @ vs)" and p: "head # us = as @ [p]" and n: "vs @ [head] = n # bs"
  shows "gives (inner_list_del p n h) h (set (head # us @ vs)) (\<lambda>h'. ring h' head (us @ vs))"
proof -
  note f = place_facts [OF ring_distinct [OF r] p n]
  have h: "p \<in> dom h" "n \<in> dom h" using ring_dom [OF r] f(8,9) by auto
  let ?h = "put_next p n (put_prev n p h)"
  have e: "inner_list_del p n h = Done ?h" using h by (simp add: inner_list_del_def heap_simps)
  have "ring ?h head (us @ [] @ vs)"
  proof (rule ring_relink [OF r p n])
    show "distinct (head # us @ [] @ vs)" using ring_distinct [OF r] by simp
  qed (use f h in \<open>auto simp: put_apply\<close>)
  moreover have "?h a = h a" if "a \<notin> set (head # us @ vs)" for a
  proof -
    have "a \<noteq> p" "a \<noteq> n" using that f(8,9) by auto
    then show ?thesis by (simp add: put_other)
  qed
  ultimately show ?thesis using e by (simp add: gives_def)
qed

lemma places:
  obtains as p n bs where "head # us = as @ [p]" and "vs @ [head] = n # bs"
  by (metis append_butlast_last_id list.distinct(1) neq_Nil_conv snoc_eq_iff_butlast)

lemma list_add_gives:
  assumes r: "ring h head xs" and new: "new \<notin> set (head # xs)" "new \<in> dom h"
  shows "gives (list_add new head h) h (set (new # head # xs)) (\<lambda>h'. ring h' head (new # xs))"
proof -
  obtain n bs where n: "xs @ [head] = n # bs" by (cases "xs @ [head]") auto
  have r': "ring h head ([] @ xs)" using r by simp
  have "get_next h head = Done n" using ring_split(3) [OF r' _ n, of "[]" head] by (simp add: heap_simps)
  then show ?thesis using inner_list_add_gives [OF r' _ n, of "[]" head new] new by (simp add: list_add_def)
qed

lemma list_add_tail_gives:
  assumes r: "ring h head xs" and new: "new \<notin> set (head # xs)" "new \<in> dom h"
  shows "gives (list_add_tail new head h) h (set (new # head # xs)) (\<lambda>h'. ring h' head (xs @ [new]))"
proof -
  obtain as p where p: "head # xs = as @ [p]" by (rule places [of head xs "[]"]) blast
  have r': "ring h head (xs @ [])" using r by simp
  have "get_prev h head = Done p" using ring_split(4) [OF r' p, of head "[]"] by (simp add: heap_simps)
  then show ?thesis using inner_list_add_gives [OF r' p, of head "[]" new] new by (simp add: list_add_tail_def)
qed

text \<open>The neighbours of an entry, as it finds them in its own pointers.\<close>

lemma entry_neighbours:
  assumes r: "ring h head (us @ e # vs)" and p: "head # us = as @ [p]" and n: "vs @ [head] = n # bs"
  shows "get_prev h e = Done p" "get_next h e = Done n" "pv h e = Some p" "nx h e = Some n"
proof -
  show 1: "pv h e = Some p" using ring_split(4) [OF r p, of e "vs @ [head]"] by simp
  show 2: "nx h e = Some n" using ring_split(3) [of h head "us @ [e]" vs "head # us" e, OF _ _ n] r by simp
  show "get_prev h e = Done p" "get_next h e = Done n" using 1 2 by (simp_all add: heap_simps)
qed

lemma del_entry_gives:
  assumes r: "ring h head (us @ e # vs)"
  shows "gives (inner_list_del_entry e h) h (set (head # us @ vs)) (\<lambda>h'. ring h' head (us @ vs))"
proof -
  obtain as p n bs where p: "head # us = as @ [p]" and n: "vs @ [head] = n # bs" by (rule places)
  have "ring h head (us @ [e] @ vs)" using r by simp
  from inner_list_del_gives [OF this p n] show ?thesis
    by (simp add: inner_list_del_entry_def entry_neighbours [OF r p n])
qed

lemma entry_outside: "ring h head (us @ e # vs) \<Longrightarrow> e \<notin> set (head # us @ vs)"
  by (auto simp: ring_def)

lemma ring_member_dom: "ring h head (us @ e # vs) \<Longrightarrow> dom h' = dom h \<Longrightarrow> e \<in> dom h'"
  using ring_dom by fastforce

lemma list_del_gives:
  assumes r: "ring h head (us @ e # vs)"
  shows "gives (list_del e h) h (set (head # us @ e # vs))
    (\<lambda>h'. ring h' head (us @ vs) \<and> nx h' e = Some 0 \<and> pv h' e = Some 0)"
  unfolding list_del_def
proof (rule gives_bind)
  show "gives (inner_list_del_entry e h) h (set (head # us @ e # vs)) (\<lambda>h'. ring h' head (us @ vs))"
    by (rule gives_mono [OF del_entry_gives [OF r]]) auto
  fix h1
  assume h1: "ring h1 head (us @ vs)" "dom h1 = dom h"
  have e: "e \<in> dom h1" by (rule ring_member_dom [OF r h1(2)])
  let ?h = "put_prev e 0 (put_next e 0 h1)"
  have "ring ?h head (us @ vs)"
  proof (rule ring_frame [OF h1(1)], rule ballI)
    fix a assume "a \<in> set (head # us @ vs)"
    then have "a \<noteq> e" using entry_outside [OF r] by auto
    then show "?h a = h1 a" by (simp add: put_other)
  qed
  then show "gives (bind_run (set_next e 0 h1) (set_prev e 0)) h1 (set (head # us @ e # vs))
      (\<lambda>h'. ring h' head (us @ vs) \<and> nx h' e = Some 0 \<and> pv h' e = Some 0)"
    using e by (auto simp: gives_def heap_simps put_apply put_other)
qed

lemma list_del_init_gives:
  assumes r: "ring h head (us @ e # vs)"
  shows "gives (list_del_init e h) h (set (head # us @ e # vs)) (\<lambda>h'. ring h' head (us @ vs) \<and> ring h' e [])"
  unfolding list_del_init_def
proof (rule gives_bind)
  show "gives (inner_list_del_entry e h) h (set (head # us @ e # vs)) (\<lambda>h'. ring h' head (us @ vs))"
    by (rule gives_mono [OF del_entry_gives [OF r]]) auto
  fix h1
  assume h1: "ring h1 head (us @ vs)" "dom h1 = dom h"
  obtain h2 where h2: "INIT_LIST_HEAD e h1 = Done h2" "dom h2 = dom h1" "\<forall>a. a \<noteq> e \<longrightarrow> h2 a = h1 a" "ring h2 e []"
    using INIT_LIST_HEAD_gives [OF ring_member_dom [OF r h1(2)]] by (auto simp: gives_def)
  have "ring h2 head (us @ vs)" by (rule ring_frame [OF h1(1)]) (use h2(3) entry_outside [OF r] in auto)
  then show "gives (INIT_LIST_HEAD e h1) h1 (set (head # us @ e # vs)) (\<lambda>h'. ring h' head (us @ vs) \<and> ring h' e [])"
    using h2 by (auto simp: gives_def)
qed

lemma move_gives:
  assumes r: "ring h head (us @ e # vs)"
    and add: "\<And>h. ring h head (us @ vs) \<Longrightarrow> e \<in> dom h \<Longrightarrow>
      gives (f h) h (set (e # head # us @ vs)) (\<lambda>h'. ring h' head zs)"
  shows "gives (bind_run (inner_list_del_entry e h) f) h (set (head # us @ e # vs)) (\<lambda>h'. ring h' head zs)"
proof (rule gives_bind)
  show "gives (inner_list_del_entry e h) h (set (head # us @ e # vs)) (\<lambda>h'. ring h' head (us @ vs))"
    by (rule gives_mono [OF del_entry_gives [OF r]]) auto
  fix h1
  assume h1: "ring h1 head (us @ vs)" "dom h1 = dom h"
  show "gives (f h1) h1 (set (head # us @ e # vs)) (\<lambda>h'. ring h' head zs)"
    by (rule gives_mono [OF add [OF h1(1) ring_member_dom [OF r h1(2)]]]) auto
qed

lemma list_move_gives:
  "ring h head (us @ e # vs) \<Longrightarrow>
     gives (list_move e head h) h (set (head # us @ e # vs)) (\<lambda>h'. ring h' head (e # us @ vs))"
  unfolding list_move_def using move_gives [OF _ list_add_gives] entry_outside by blast

lemma list_move_tail_gives:
  "ring h head (us @ e # vs) \<Longrightarrow>
     gives (list_move_tail e head h) h (set (head # us @ e # vs)) (\<lambda>h'. ring h' head ((us @ vs) @ [e]))"
  unfolding list_move_tail_def using move_gives [OF _ list_add_tail_gives] entry_outside by blast

lemma list_replace_gives:
  assumes r: "ring h head (us @ old # vs)" and new: "new \<notin> set (head # us @ old # vs)" "new \<in> dom h"
  shows "gives (list_replace old new h) h (set (new # head # us @ vs)) (\<lambda>h'. ring h' head (us @ new # vs))"
proof -
  obtain as p n bs where p: "head # us = as @ [p]" and n: "vs @ [head] = n # bs" by (rule places)
  have r': "ring h head (us @ [old] @ vs)" using r by simp
  note f = place_facts [OF ring_distinct [OF r'] p n] and e = entry_neighbours [OF r p n]
  have h: "p \<in> dom h" "n \<in> dom h" using ring_dom [OF r] f(8,9) by auto
  have o: "old \<noteq> n" using entry_outside [OF r] f(9) by auto
  let ?h = "put_next p new (put_prev new p (put_prev n new (put_next new n h)))"
  have "list_replace old new h = Done ?h"
    using h new(2) o e by (simp add: list_replace_def heap_simps put_apply)
  moreover have "ring ?h head (us @ [new] @ vs)"
  proof (rule ring_relink [OF r' p n])
    show "linked h [new]" by simp
    show "distinct (head # us @ [new] @ vs)" using ring_distinct [OF r'] new(1) by auto
  qed (use f h new in \<open>auto simp: put_apply\<close>)
  moreover have "?h a = h a" if "a \<notin> set (new # head # us @ vs)" for a
  proof -
    have "a \<noteq> p" "a \<noteq> n" "a \<noteq> new" using that f(8,9) by auto
    then show ?thesis by (simp add: put_other)
  qed
  ultimately show ?thesis by (simp add: gives_def)
qed

lemma ring_first: "ring h head xs \<Longrightarrow> get_next h head = Done (hd (xs @ [head])) \<and> (hd (xs @ [head]) = head \<longleftrightarrow> xs = [])"
  by (cases xs) (auto simp: ring_def get_next_eq)

lemma list_empty_ring: "ring h head xs \<Longrightarrow> list_empty head h = Done (xs = [])"
  using ring_first [of h head xs] by (simp add: list_empty_def)

lemma list_is_last_ring:
  assumes "ring h head (us @ e # vs)"
  shows "list_is_last e head h = Done (vs = [])"
proof -
  obtain as p n bs where p: "head # us = as @ [p]" and n: "vs @ [head] = n # bs" by (rule places)
  show ?thesis using entry_neighbours(2) [OF assms p n] assms n
    by (cases vs) (auto simp: list_is_last_def ring_def)
qed

lemma list_is_singular_ring: "ring h head xs \<Longrightarrow> list_is_singular head h = Done (length xs = 1)"
proof -
  assume r: "ring h head xs"
  show ?thesis
  proof (cases xs)
    case (Cons x ys)
    have "x = last (head # xs) \<longleftrightarrow> ys = []" using r Cons by (cases ys rule: rev_cases) (auto simp: ring_def)
    then show ?thesis
      using r Cons by (auto simp: list_is_singular_def list_empty_ring get_next_eq [OF ring_next] get_prev_eq [OF ring_prev])
  qed (use r in \<open>simp add: list_is_singular_def list_empty_ring\<close>)
qed

lemma list_empty_careful_ring: "ring h head xs \<Longrightarrow> list_empty_careful head h = Done (xs = [])"
  using ring_first [of h head xs] by (auto simp: list_empty_careful_def get_prev_eq [OF ring_prev])

lemma list_first_entry_ring: "ring h head (x # xs) \<Longrightarrow> list_first_entry head h = Done x"
  by (simp add: list_first_entry_def get_next_eq [OF ring_next])

lemma list_rotate_left_gives:
  assumes r: "ring h head xs"
  shows "gives (list_rotate_left head h) h (set (head # xs)) (\<lambda>h'. ring h' head (rotate1 xs))"
proof (cases xs)
  case Nil
  then show ?thesis using r by (simp add: list_rotate_left_def list_empty_ring gives_Done)
next
  case (Cons x ys)
  then show ?thesis
    using r list_move_tail_gives [of h head "[]" x ys]
    by (simp add: list_rotate_left_def list_empty_ring get_next_eq [OF ring_next])
qed

subsection \<open>Splicing and cutting\<close>

lemma linked_parts: "linked h (as @ bs) \<Longrightarrow> linked h as \<and> linked h bs"
proof (induction as)
  case (Cons a as)
  then show ?case by (cases as; cases bs) auto
qed simp

lemma ring_chain: "ring h l (ys @ zs) \<Longrightarrow> linked h ys \<and> linked h (zs @ [l])"
  using linked_parts [of h "l # ys" "zs @ [l]"] linked_parts [of h "[l]" ys] by (simp add: ring_def)

lemma distinct_ends:
  assumes "distinct ys" and "ys \<noteq> []"
  shows "last ys \<notin> set (butlast ys)" "hd ys \<notin> set (tl ys)" "set (butlast ys) \<subseteq> set ys" "set (tl ys) \<subseteq> set ys"
proof -
  show "last ys \<notin> set (butlast ys)" "set (butlast ys) \<subseteq> set ys" using assms by (cases ys rule: rev_cases; auto)+
  show "hd ys \<notin> set (tl ys)" "set (tl ys) \<subseteq> set ys" using assms by (cases ys; auto)+
qed

lemma inner_list_splice_gives:
  assumes r: "ring h head (us @ vs)" and p: "head # us = as @ [p]" and n: "vs @ [head] = n # bs"
    and l: "ring h l ys" "ys \<noteq> []" "set (l # ys) \<inter> set (head # us @ vs) = {}"
  shows "gives (inner_list_splice l p n h) h (set (head # us @ vs @ ys)) (\<lambda>h'. ring h' head (us @ ys @ vs))"
proof -
  have d: "distinct (head # us @ vs)" "distinct ys" using r l(1) by (simp_all add: ring_def)
  note f = place_facts [OF d(1) p n]
  have h: "p \<in> dom h" "n \<in> dom h" "hd ys \<in> dom h" "last ys \<in> dom h" "hd ys \<in> set ys" "last ys \<in> set ys"
    using ring_dom [OF r] ring_dom [OF l(1)] l(2) f(8,9) by (auto dest: hd_in_set last_in_set)
  let ?h = "put_prev n (last ys) (put_next (last ys) n (put_next p (hd ys) (put_prev (hd ys) p h)))"
  have "get_next h l = Done (hd ys)" "get_prev h l = Done (last ys)"
    using l(1,2) by (simp_all add: get_next_eq [OF ring_next] get_prev_eq [OF ring_prev])
  then have e: "inner_list_splice l p n h = Done ?h" using h by (simp add: inner_list_splice_def heap_simps)
  have b: "last ys \<notin> set (butlast ys)" "hd ys \<notin> set (tl ys)" "set (butlast ys) \<subseteq> set ys" "set (tl ys) \<subseteq> set ys"
    using distinct_ends [OF d(2) l(2)] by blast+
  have x: "hd ys \<noteq> p" "hd ys \<noteq> n" "last ys \<noteq> p" "last ys \<noteq> n" using f(8,9) h(5,6) l(3) by auto
  have "ring ?h head (us @ ys @ vs)"
  proof (rule ring_relink [where zs = "[]", OF _ p n])
    show "ring h head (us @ [] @ vs)" using r by simp
    show "linked h ys" using ring_chain [of h l ys "[]"] l(1) by simp
    show "distinct (head # us @ ys @ vs)" using d l(3) by auto
    show "\<forall>a\<in>set (as @ butlast ys @ vs). nx ?h a = nx h a"
      using f b h x l(3) by (auto simp: put_apply)
    show "\<forall>a\<in>set (us @ tl ys @ bs). pv ?h a = pv h a"
      using f b h x l(3) by (auto simp: put_apply)
  qed (use f b h x l in \<open>auto simp: put_apply\<close>)
  moreover have "?h a = h a" if "a \<notin> set (head # us @ vs @ ys)" for a
  proof -
    have "a \<noteq> p" "a \<noteq> n" "a \<noteq> hd ys" "a \<noteq> last ys" using that f(8,9) h by auto
    then show ?thesis by (simp add: put_other)
  qed
  ultimately show ?thesis using e by (simp add: gives_def)
qed

lemma list_splice_gives:
  assumes r: "ring h head xs" and l: "ring h l ys" "set (l # ys) \<inter> set (head # xs) = {}"
  shows "gives (list_splice l head h) h (set (head # xs @ ys)) (\<lambda>h'. ring h' head (ys @ xs))"
proof (cases "ys = []")
  case True
  then show ?thesis using r list_empty_ring [OF l(1)] by (simp add: list_splice_def gives_Done)
next
  case False
  obtain n bs where n: "xs @ [head] = n # bs" by (cases "xs @ [head]") auto
  have "ring h head ([] @ xs)" using r by simp
  from inner_list_splice_gives [OF this _ n l(1) False, of "[]" head] show ?thesis
    using False l ring_first [OF r] n by (simp add: list_splice_def list_empty_ring)
qed

lemma list_splice_tail_gives:
  assumes r: "ring h head xs" and l: "ring h l ys" "set (l # ys) \<inter> set (head # xs) = {}"
  shows "gives (list_splice_tail l head h) h (set (head # xs @ ys)) (\<lambda>h'. ring h' head (xs @ ys))"
proof (cases "ys = []")
  case True
  then show ?thesis using r list_empty_ring [OF l(1)] by (simp add: list_splice_tail_def gives_Done)
next
  case False
  obtain as p where p: "head # xs = as @ [p]" by (rule places [of head xs "[]"]) blast
  have "ring h head (xs @ [])" using r by simp
  from inner_list_splice_gives [OF this p _ l(1) False, of head "[]"] show ?thesis
    using False l get_prev_eq [OF ring_prev [OF r]] p by (simp add: list_splice_tail_def list_empty_ring)
qed

lemma then_init_gives:
  assumes "gives m h S (\<lambda>h'. ring h' head xs)" and "l \<notin> set (head # xs)" and "l \<in> dom h"
  shows "gives (bind_run m (INIT_LIST_HEAD l)) h (insert l S) (\<lambda>h'. ring h' head xs \<and> ring h' l [])"
proof (rule gives_bind)
  show "gives m h (insert l S) (\<lambda>h'. ring h' head xs)" by (rule gives_mono [OF assms(1)]) auto
  fix h1
  assume h1: "ring h1 head xs" "dom h1 = dom h"
  obtain h2 where h2: "INIT_LIST_HEAD l h1 = Done h2" "dom h2 = dom h1" "\<forall>a. a \<noteq> l \<longrightarrow> h2 a = h1 a" "ring h2 l []"
    using INIT_LIST_HEAD_gives [of l h1] assms(3) h1(2) by (auto simp: gives_def)
  have "ring h2 head xs" by (rule ring_frame [OF h1(1)]) (use h2(3) assms(2) in auto)
  then show "gives (INIT_LIST_HEAD l h1) h1 (insert l S) (\<lambda>h'. ring h' head xs \<and> ring h' l [])"
    using h2 by (auto simp: gives_def)
qed

lemma bind_if: "bind_run (if b then m else k) f = (if b then bind_run m f else bind_run k f)"
  by simp

lemma list_splice_init_gives:
  assumes r: "ring h head xs" and l: "ring h l ys" "set (l # ys) \<inter> set (head # xs) = {}"
  shows "gives (list_splice_init l head h) h (set (l # head # xs @ ys)) (\<lambda>h'. ring h' head (ys @ xs) \<and> ring h' l [])"
proof (cases "ys = []")
  case True
  then show ?thesis using r l(1) list_empty_ring [OF l(1)] by (simp add: list_splice_init_def gives_Done)
next
  case False
  have "list_splice_init l head h = bind_run (list_splice l head h) (INIT_LIST_HEAD l)"
    using False l(1) by (simp add: list_splice_init_def list_splice_def list_empty_ring bind_run_assoc)
  moreover have "l \<notin> set (head # ys @ xs)" "l \<in> dom h" using l ring_dom [OF l(1)] by (auto simp: ring_def)
  ultimately show ?thesis using then_init_gives [OF list_splice_gives [OF r l]] by simp
qed

lemma list_splice_tail_init_gives:
  assumes r: "ring h head xs" and l: "ring h l ys" "set (l # ys) \<inter> set (head # xs) = {}"
  shows "gives (list_splice_tail_init l head h) h (set (l # head # xs @ ys)) (\<lambda>h'. ring h' head (xs @ ys) \<and> ring h' l [])"
proof (cases "ys = []")
  case True
  then show ?thesis using r l(1) list_empty_ring [OF l(1)] by (simp add: list_splice_tail_init_def gives_Done)
next
  case False
  have "list_splice_tail_init l head h = bind_run (list_splice_tail l head h) (INIT_LIST_HEAD l)"
    using False l(1) by (simp add: list_splice_tail_init_def list_splice_tail_def list_empty_ring bind_run_assoc)
  moreover have "l \<notin> set (head # xs @ ys)" "l \<in> dom h" using l ring_dom [OF l(1)] by (auto simp: ring_def)
  ultimately show ?thesis using then_init_gives [OF list_splice_tail_gives [OF r l]] by simp
qed

lemma list_replace_init_gives:
  assumes r: "ring h head (us @ old # vs)" and new: "new \<notin> set (head # us @ old # vs)" "new \<in> dom h"
  shows "gives (list_replace_init old new h) h (insert old (set (new # head # us @ vs)))
    (\<lambda>h'. ring h' head (us @ new # vs) \<and> ring h' old [])"
  unfolding list_replace_init_def
  using then_init_gives [OF list_replace_gives [OF r new], of old] entry_outside [OF r] new(1)
    ring_member_dom [OF r refl] by auto

text \<open>Cutting after \<open>entry\<close>: the first part goes to the list \<open>l\<close>, whose nodes are forgotten.\<close>

lemma inner_list_cut_gives:
  assumes r: "ring h head (us @ entry # vs)" and l: "l \<notin> set (head # us @ entry # vs)" "l \<in> dom h"
  shows "gives (inner_list_cut_position l head entry h) h (set (l # head # us @ entry # vs))
    (\<lambda>h'. ring h' l (us @ [entry]) \<and> ring h' head vs)"
proof -
  let ?xs = "us @ [entry]" and ?f = "hd (us @ [entry])"
  obtain as p n bs where p: "head # us = as @ [p]" and n: "vs @ [head] = n # bs" by (rule places)
  have d: "distinct (head # ?xs @ vs)" "set (head # ?xs @ vs) \<subseteq> dom h" using r ring_dom [OF r] by (auto simp: ring_def)
  have f: "?f \<in> set ?xs" "?f \<in> dom h" "?f \<notin> set (tl ?xs)" "entry \<notin> set us" "set (tl ?xs) \<subseteq> set ?xs"
    using d by (cases us; auto)+
  have n1: "n \<in> insert head (set vs)" "n \<in> dom h" "n \<notin> set bs" "set bs \<subseteq> insert head (set vs)"
    using place_facts [of head ?xs vs "head # us" entry n bs] d n by auto
  have nn: "n \<noteq> l" "n \<notin> set ?xs" using n1(1) d(1) l(1) by auto
  let ?h = "put_prev n head (put_next head n (put_next entry l (put_prev l entry (put_prev ?f l (put_next l ?f h)))))"
  have g: "get_next h head = Done ?f" using ring_first [OF r] by (cases us) auto
  have e: "inner_list_cut_position l head entry h = Done ?h"
    using entry_neighbours(2) [OF r p n] g f l n1 d by (simp add: inner_list_cut_position_def heap_simps)
  have c: "linked h ?xs" "linked h (vs @ [head])" using ring_chain [of h head ?xs vs] r by simp_all
  have "linked ?h ([] @ l # ?xs @ l # [])"
  proof (rule relink [OF _ c(1)])
    show "\<forall>a\<in>set ([] @ butlast ?xs @ butlast [l]). nx ?h a = nx h a"
      using f(4) d l by (auto simp: put_apply)
    show "\<forall>a\<in>set (tl ([] @ [l]) @ tl ?xs @ []). pv ?h a = pv h a"
      using f l nn by (auto simp: put_apply)
    show "?xs \<noteq> [] \<longrightarrow> nx ?h l = Some (hd ?xs) \<and> pv ?h (hd ?xs) = Some l \<and> nx ?h (last ?xs) = Some l \<and> pv ?h l = Some (last ?xs)"
      using f l nn d by (auto simp: put_apply)
  qed simp_all
  moreover have "linked ?h ([] @ head # [] @ n # bs)"
  proof (rule relink)
    show "linked h (n # bs)" using c(2) n by simp
    have "butlast (n # bs) = vs" using n by (metis butlast_snoc)
    then show "\<forall>a\<in>set ([] @ butlast [] @ butlast (n # bs)). nx ?h a = nx h a"
      using d l by (auto simp: put_apply)
    show "\<forall>a\<in>set (tl ([] @ [head]) @ tl [] @ bs). pv ?h a = pv h a"
      using f l n1 nn d by (auto simp: put_apply)
    show "[] = [] \<longrightarrow> nx ?h head = Some n \<and> pv ?h n = Some head" using d l n1 nn by (auto simp: put_apply)
  qed simp_all
  ultimately have "ring ?h l ?xs \<and> ring ?h head vs" using d l n by (simp add: ring_def)
  moreover have "?h a = h a" if "a \<notin> set (l # head # us @ entry # vs)" for a
  proof -
    have "a \<noteq> l" "a \<noteq> head" "a \<noteq> entry" "a \<noteq> n" "a \<noteq> ?f" using that n1(1) f(1) by auto
    then show ?thesis by (simp add: put_other)
  qed
  ultimately show ?thesis using e by (simp add: gives_def)
qed

lemma list_cut_position_gives:
  assumes r: "ring h head (us @ entry # vs)" and l: "l \<notin> set (head # us @ entry # vs)" "l \<in> dom h"
  shows "gives (list_cut_position l head entry h) h (set (l # head # us @ entry # vs))
    (\<lambda>h'. ring h' l (us @ [entry]) \<and> ring h' head vs)"
proof -
  have "length (us @ entry # vs) = 1 \<Longrightarrow> hd ((us @ entry # vs) @ [head]) = entry" by (cases us) auto
  then have "list_cut_position l head entry h = inner_list_cut_position l head entry h"
    using entry_outside [OF r] ring_first [OF r]
    by (auto simp: list_cut_position_def list_empty_ring [OF r] list_is_singular_ring [OF r])
  then show ?thesis using inner_list_cut_gives [OF r l] by simp
qed

subsection \<open>Traversals\<close>

text \<open>A body run for each of the nodes of a sequence, in order.\<close>

fun each :: "(laddr \<Rightarrow> 'a \<Rightarrow> 'a run) \<Rightarrow> laddr list \<Rightarrow> 'a \<Rightarrow> 'a run" where
  "each body [] a = Done a"
| "each body (x # xs) a = bind_run (body x a) (each body xs)"

lemma for_each_from:
  "ring h head (us @ vs) \<Longrightarrow> length vs \<le> n \<Longrightarrow>
     list_for_each_from n (hd (vs @ [head])) head body h a = each body vs a"
proof (induction vs arbitrary: us n a)
  case Nil
  then show ?case by (simp add: list_for_each_from.simps)
next
  case (Cons x vs)
  obtain n' where n: "n = Suc n'" using Cons.prems(2) by (cases n) auto
  obtain as p m bs where p: "head # us = as @ [p]" and m: "vs @ [head] = m # bs" by (rule places)
  have "x \<noteq> head" using Cons.prems(1) by (auto simp: ring_def)
  moreover have "get_next h x = Done (hd (vs @ [head]))" using entry_neighbours(2) [OF Cons.prems(1) p m] m by simp
  ultimately show ?case
    using Cons.IH [of "us @ [x]" n'] Cons.prems n by (simp add: list_for_each_from.simps [of "Suc n'"])
qed

lemma list_for_each_ring: "ring h head xs \<Longrightarrow> length xs \<le> n \<Longrightarrow> list_for_each n head body h a = each body xs a"
  using for_each_from [of h head "[]" xs n body a] ring_first [of h head xs] by (simp add: list_for_each_def)

lemma for_each_prev_from:
  "ring h head (us @ vs) \<Longrightarrow> length us \<le> n \<Longrightarrow>
     list_for_each_prev_from n (last (head # us)) head body h a = each body (rev us) a"
proof (induction us arbitrary: vs n a rule: rev_induct)
  case Nil
  then show ?case by (simp add: list_for_each_prev_from.simps)
next
  case (snoc x us)
  obtain n' where n: "n = Suc n'" using snoc.prems(2) by (cases n) auto
  obtain as p m bs where p: "head # us = as @ [p]" and m: "vs @ [head] = m # bs" by (rule places)
  have r: "ring h head (us @ x # vs)" using snoc.prems(1) by simp
  have "x \<noteq> head" using r by (auto simp: ring_def)
  moreover have "get_prev h x = Done (last (head # us))" unfolding p using entry_neighbours(1) [OF r p m] by simp
  ultimately have "list_for_each_prev_from (Suc n') x head body h a =
      bind_run (body x a) (list_for_each_prev_from n' (last (head # us)) head body h)"
    by (simp add: list_for_each_prev_from.simps [of "Suc n'"] del: last.simps)
  moreover have "list_for_each_prev_from n' (last (head # us)) head body h = each body (rev us)"
    by (rule ext) (rule snoc.IH [OF r], use snoc.prems(2) n in simp)
  ultimately show ?case using n by simp
qed

lemma list_for_each_prev_ring:
  "ring h head xs \<Longrightarrow> length xs \<le> n \<Longrightarrow> list_for_each_prev n head body h a = each body (rev xs) a"
  using for_each_prev_from [of h head xs "[]" n body a] get_prev_eq [OF ring_prev, of h head xs]
  by (simp add: list_for_each_prev_def)

text \<open>Taking every node out of a list, as the functions that free a cache do.\<close>

lemma safe_del_from:
  "ring h head xs \<Longrightarrow> length xs \<le> n \<Longrightarrow> xs \<noteq> [] \<longrightarrow> get_next h (hd xs) = Done nn \<Longrightarrow>
     gives (list_for_each_safe_from n (hd (xs @ [head])) nn head list_del h) h (set (head # xs)) (\<lambda>h'. ring h' head [])"
proof (induction xs arbitrary: h n nn)
  case Nil
  then show ?case by (simp add: list_for_each_safe_from.simps gives_Done)
next
  case (Cons x xs)
  obtain n' where n: "n = Suc n'" using Cons.prems(2) by (cases n) auto
  have r: "ring h head ([] @ x # xs)" using Cons.prems(1) by simp
  obtain m bs where m: "xs @ [head] = m # bs" by (cases "xs @ [head]") auto
  have nn: "nn = hd (xs @ [head])" using Cons.prems(3) entry_neighbours(2) [OF r _ m, of "[]" head] m by simp
  have x: "x \<noteq> head" using Cons.prems(1) by (auto simp: ring_def)
  have "gives (bind_run (list_del x h) (\<lambda>h'. bind_run (get_next h' nn) (\<lambda>n2.
      list_for_each_safe_from n' nn n2 head list_del h'))) h (set (head # x # xs)) (\<lambda>h'. ring h' head [])"
  proof (rule gives_bind)
    show "gives (list_del x h) h (set (head # x # xs)) (\<lambda>h'. ring h' head xs)"
      by (rule gives_mono [OF list_del_gives [OF r]]) auto
    fix h1
    assume h1: "ring h1 head xs"
    have "nn \<in> dom h1" using ring_dom [OF h1] nn by (cases xs) auto
    then obtain n2 where n2: "get_next h1 nn = Done n2" by (auto simp: get_next_def)
    have "xs \<noteq> [] \<longrightarrow> get_next h1 (hd xs) = Done n2" using n2 nn by (cases xs) auto
    from Cons.IH [OF h1 _ this] show
      "gives (bind_run (get_next h1 nn) (\<lambda>n2. list_for_each_safe_from n' nn n2 head list_del h1)) h1
         (set (head # x # xs)) (\<lambda>h'. ring h' head [])"
      using Cons.prems(2) n n2 nn by (auto intro: gives_mono)
  qed
  then show ?case using n x by (simp add: list_for_each_safe_from.simps [of "Suc n'"])
qed

lemma list_free_gives:
  assumes r: "ring h head xs" and n: "length xs \<le> n"
  shows "gives (list_for_each_safe n head list_del h) h (set (head # xs)) (\<lambda>h'. ring h' head [])"
proof -
  have "hd (xs @ [head]) \<in> dom h" using ring_dom [OF r] by (cases xs) auto
  then obtain nn where nn: "get_next h (hd (xs @ [head])) = Done nn" by (auto simp: get_next_def)
  then have "xs \<noteq> [] \<longrightarrow> get_next h (hd xs) = Done nn" by (cases xs) auto
  from safe_del_from [OF r n this] show ?thesis using ring_first [OF r] nn by (simp add: list_for_each_safe_def)
qed

end
