(* ===== verification/ListRefine.thy ===== *)
theory ListRefine
  imports ListHeapProofs
begin

text \<open>
  Programs over a pointer list: any sequence of operations on a list refines the same operations on a
  sequence, and the interface that the least recently used caches need of a list.
\<close>

subsection \<open>Sequences of operations\<close>

datatype list_cmd =
  Add laddr | Add_tail laddr | Del laddr | Del_init laddr | Move laddr | Move_tail laddr | Replace laddr laddr | Rotate_left

fun run_cmd :: "laddr \<Rightarrow> list_cmd \<Rightarrow> lheap \<Rightarrow> lheap run" where
  "run_cmd head (Add a) h = list_add a head h"
| "run_cmd head (Add_tail a) h = list_add_tail a head h"
| "run_cmd head (Del a) h = list_del a h"
| "run_cmd head (Del_init a) h = list_del_init a h"
| "run_cmd head (Move a) h = list_move a head h"
| "run_cmd head (Move_tail a) h = list_move_tail a head h"
| "run_cmd head (Replace a b) h = list_replace a b h"
| "run_cmd head Rotate_left h = list_rotate_left head h"

fun run_cmds :: "laddr \<Rightarrow> list_cmd list \<Rightarrow> lheap \<Rightarrow> lheap run" where
  "run_cmds head [] h = Done h"
| "run_cmds head (c # cs) h = bind_run (run_cmd head c h) (run_cmds head cs)"

text \<open>The same operations on sequences, and when they make sense.\<close>

fun seq_cmd :: "list_cmd \<Rightarrow> laddr list \<Rightarrow> laddr list" where
  "seq_cmd (Add a) xs = a # xs"
| "seq_cmd (Add_tail a) xs = xs @ [a]"
| "seq_cmd (Del a) xs = remove1 a xs"
| "seq_cmd (Del_init a) xs = remove1 a xs"
| "seq_cmd (Move a) xs = a # remove1 a xs"
| "seq_cmd (Move_tail a) xs = remove1 a xs @ [a]"
| "seq_cmd (Replace a b) xs = map (\<lambda>x. if x = a then b else x) xs"
| "seq_cmd Rotate_left xs = rotate1 xs"

fun cmd_ok :: "laddr set \<Rightarrow> laddr \<Rightarrow> list_cmd \<Rightarrow> laddr list \<Rightarrow> bool" where
  "cmd_ok D head (Add a) xs \<longleftrightarrow> a \<in> D \<and> a \<noteq> head \<and> a \<notin> set xs"
| "cmd_ok D head (Add_tail a) xs \<longleftrightarrow> a \<in> D \<and> a \<noteq> head \<and> a \<notin> set xs"
| "cmd_ok D head (Del a) xs \<longleftrightarrow> a \<in> set xs"
| "cmd_ok D head (Del_init a) xs \<longleftrightarrow> a \<in> set xs"
| "cmd_ok D head (Move a) xs \<longleftrightarrow> a \<in> set xs"
| "cmd_ok D head (Move_tail a) xs \<longleftrightarrow> a \<in> set xs"
| "cmd_ok D head (Replace a b) xs \<longleftrightarrow> a \<in> set xs \<and> b \<in> D \<and> b \<noteq> head \<and> b \<notin> set xs"
| "cmd_ok D head Rotate_left xs \<longleftrightarrow> True"

fun cmds_ok :: "laddr set \<Rightarrow> laddr \<Rightarrow> list_cmd list \<Rightarrow> laddr list \<Rightarrow> bool" where
  "cmds_ok D head [] xs \<longleftrightarrow> True"
| "cmds_ok D head (c # cs) xs \<longleftrightarrow> cmd_ok D head c xs \<and> cmds_ok D head cs (seq_cmd c xs)"

lemma map_replace_other: "a \<notin> set ys \<Longrightarrow> map (\<lambda>x. if x = a then b else x) ys = ys"
  by (induction ys) auto

lemma split_distinct:
  assumes "distinct xs" and "a \<in> set xs"
  obtains us vs where "xs = us @ a # vs" and "remove1 a xs = us @ vs"
    and "\<forall>b. map (\<lambda>x. if x = a then b else x) xs = us @ b # vs"
proof -
  obtain us vs where x: "xs = us @ a # vs" using assms(2) by (meson split_list)
  have n: "a \<notin> set us" "a \<notin> set vs" using assms(1) unfolding x by auto
  show ?thesis
  proof (rule that [OF x])
    show "remove1 a xs = us @ vs" unfolding x using n by (simp add: remove1_append)
    show "\<forall>b. map (\<lambda>x. if x = a then b else x) xs = us @ b # vs"
      unfolding x using map_replace_other [OF n(1)] map_replace_other [OF n(2)] by simp
  qed
qed

lemma gives_result: "gives m h S Q \<Longrightarrow> \<exists>h'. m = Done h' \<and> Q h' \<and> dom h' = dom h"
  unfolding gives_def by blast

lemma entry_cmds:
  assumes "ring h head (us @ a # vs)"
  shows "\<exists>S. gives (list_del a h) h S (\<lambda>h'. ring h' head (us @ vs))"
    "\<exists>S. gives (list_del_init a h) h S (\<lambda>h'. ring h' head (us @ vs))"
    "\<exists>S. gives (list_move a head h) h S (\<lambda>h'. ring h' head (a # us @ vs))"
    "\<exists>S. gives (list_move_tail a head h) h S (\<lambda>h'. ring h' head (us @ vs @ [a]))"
    "b \<notin> set (head # us @ a # vs) \<Longrightarrow> b \<in> dom h \<Longrightarrow>
       \<exists>S. gives (list_replace a b h) h S (\<lambda>h'. ring h' head (us @ b # vs))"
proof -
  show "\<exists>S. gives (list_del a h) h S (\<lambda>h'. ring h' head (us @ vs))"
    by (rule exI, rule gives_mono [OF list_del_gives [OF assms] subset_refl]) blast
  show "\<exists>S. gives (list_del_init a h) h S (\<lambda>h'. ring h' head (us @ vs))"
    by (rule exI, rule gives_mono [OF list_del_init_gives [OF assms] subset_refl]) blast
  show "\<exists>S. gives (list_move a head h) h S (\<lambda>h'. ring h' head (a # us @ vs))"
    by (rule exI, rule list_move_gives [OF assms])
  show "\<exists>S. gives (list_move_tail a head h) h S (\<lambda>h'. ring h' head (us @ vs @ [a]))"
    using list_move_tail_gives [OF assms] by auto
  show "b \<notin> set (head # us @ a # vs) \<Longrightarrow> b \<in> dom h \<Longrightarrow>
       \<exists>S. gives (list_replace a b h) h S (\<lambda>h'. ring h' head (us @ b # vs))"
    by (rule exI, rule list_replace_gives [OF assms])
qed

lemma run_cmd_refines:
  assumes r: "ring h head xs" and ok: "cmd_ok (dom h) head c xs"
  shows "\<exists>h'. run_cmd head c h = Done h' \<and> ring h' head (seq_cmd c xs) \<and> dom h' = dom h"
proof -
  have d: "distinct xs" using r by (simp add: ring_def)
  have mem: ?thesis if a: "a \<in> set xs"
    and c: "\<And>us vs. ring h head (us @ a # vs) \<Longrightarrow> xs = us @ a # vs \<Longrightarrow> remove1 a xs = us @ vs \<Longrightarrow>
      \<forall>b. map (\<lambda>x. if x = a then b else x) xs = us @ b # vs \<Longrightarrow>
      \<exists>S. gives (run_cmd head c h) h S (\<lambda>h'. ring h' head (seq_cmd c xs))" for a
  proof -
    obtain us vs where "xs = us @ a # vs" "remove1 a xs = us @ vs" "\<forall>b. map (\<lambda>x. if x = a then b else x) xs = us @ b # vs"
      by (rule split_distinct [OF d a]) blast
    moreover from this(1) have "ring h head (us @ a # vs)" using r by simp
    ultimately obtain S where "gives (run_cmd head c h) h S (\<lambda>h'. ring h' head (seq_cmd c xs))" using c by blast
    then show ?thesis by (rule gives_result [elim_format]) blast
  qed
  show ?thesis
  proof (cases c)
    case (Add a)
    then show ?thesis using gives_result [OF list_add_gives [OF r, of a]] ok by auto
  next
    case (Add_tail a)
    then show ?thesis using gives_result [OF list_add_tail_gives [OF r, of a]] ok by auto
  next
    case (Del a)
    show ?thesis by (rule mem [of a]) (use Del ok entry_cmds(1) in simp_all)
  next
    case (Del_init a)
    show ?thesis by (rule mem [of a]) (use Del_init ok entry_cmds(2) in simp_all)
  next
    case (Move a)
    show ?thesis by (rule mem [of a]) (use Move ok entry_cmds(3) in simp_all)
  next
    case (Move_tail a)
    show ?thesis by (rule mem [of a]) (use Move_tail ok entry_cmds(4) in simp_all)
  next
    case (Replace a b)
    show ?thesis by (rule mem [of a]) (use Replace ok entry_cmds(5) in auto)
  next
    case Rotate_left
    then show ?thesis using gives_result [OF list_rotate_left_gives [OF r]] by simp
  qed
qed

lemma run_cmds_refines:
  "ring h head xs \<Longrightarrow> cmds_ok (dom h) head cs xs \<Longrightarrow>
     \<exists>h'. run_cmds head cs h = Done h' \<and> ring h' head (fold seq_cmd cs xs) \<and> dom h' = dom h"
proof (induction cs arbitrary: h xs)
  case (Cons c cs)
  then obtain h1 where "run_cmd head c h = Done h1" "ring h1 head (seq_cmd c xs)" "dom h1 = dom h"
    using run_cmd_refines [of h head xs c] by auto
  then show ?case using Cons.IH [of h1 "seq_cmd c xs"] Cons.prems(2) by auto
qed simp

lemma each_collect: "each (\<lambda>p acc. Done (acc @ [p])) xs acc = Done (acc @ xs)"
  by (induction xs arbitrary: acc) auto

text \<open>
  C17: The pointer lists of \<^verbatim>\<open>list.h\<close> refine sequences: from a well-linked list, every program of additions at
  either end, removals, moves, replacements and rotations whose arguments make sense returns without
  an access outside the nodes, and walking the list afterwards, forwards or backwards, meets exactly
  the nodes of the same program run on the sequence.
\<close>

theorem list_operations_refine:
  assumes "ring h head xs" and "cmds_ok (dom h) head cs xs" and "length (fold seq_cmd cs xs) \<le> n"
  shows "\<exists>h'. run_cmds head cs h = Done h' \<and> ring h' head (fold seq_cmd cs xs) \<and>
    list_for_each n head (\<lambda>p acc. Done (acc @ [p])) h' [] = Done (fold seq_cmd cs xs) \<and>
    list_for_each_prev n head (\<lambda>p acc. Done (acc @ [p])) h' [] = Done (rev (fold seq_cmd cs xs))"
proof -
  obtain h' where h': "run_cmds head cs h = Done h'" "ring h' head (fold seq_cmd cs xs)"
    using run_cmds_refines [OF assms(1,2)] by blast
  then show ?thesis
    using list_for_each_ring [OF h'(2) assms(3), where body = "\<lambda>p acc. Done (acc @ [p])" and a = "[]"]
      list_for_each_prev_ring [OF h'(2) assms(3), where body = "\<lambda>p acc. Done (acc @ [p])" and a = "[]"]
    by (simp add: each_collect)
qed

definition sample_lheap :: lheap where
  "sample_lheap = (\<lambda>p. if p \<in> {0x10, 0x20, 0x30} then Some \<lparr>lh_next = p, lh_prev = p\<rparr> else None)"

lemma sample_lheap_ring: "ring sample_lheap 0x10 []"
  by (simp add: ring_Nil sample_lheap_def nx_def pv_def)

theorem list_operations_refine_witness:
  "\<exists>h'. run_cmds 0x10 [Add 0x20, Add_tail 0x30, Move_tail 0x20, Del 0x30] sample_lheap = Done h' \<and>
    list_for_each 1 0x10 (\<lambda>p acc. Done (acc @ [p])) h' [] = Done [0x20]"
  using list_operations_refine [OF sample_lheap_ring,
      of "[Add 0x20, Add_tail 0x30, Move_tail 0x20, Del 0x30]" 1]
  by (auto simp: sample_lheap_def dom_def)

subsection \<open>Least recently used\<close>

text \<open>An access brings its key to the end; a full cache gives up its first key for a new one.\<close>

definition lru_access :: "nat \<Rightarrow> 'k \<Rightarrow> 'k list \<Rightarrow> 'k list" where
  "lru_access m k xs =
     (if k \<in> set xs then filter (\<lambda>j. j \<noteq> k) xs @ [k] else (if length xs = m then tl xs else xs) @ [k])"

definition last_n :: "nat \<Rightarrow> 'k list \<Rightarrow> 'k list" where
  "last_n m xs = drop (length xs - m) xs"

lemma filter_other: "k \<notin> set zs \<Longrightarrow> filter (\<lambda>j. j \<noteq> k) zs = zs"
  by (auto simp: filter_id_conv)

lemma length_filter_neq:
  assumes "distinct xs" and "k \<in> set xs" shows "length (filter (\<lambda>j. j \<noteq> k) xs) = length xs - 1"
proof -
  obtain us vs where x: "xs = us @ k # vs" using assms(2) by (meson split_list)
  then have "filter (\<lambda>j. j \<noteq> k) us = us" "filter (\<lambda>j. j \<noteq> k) vs = vs" using assms(1) by (auto simp: filter_id_conv)
  then show ?thesis by (simp add: x)
qed

lemma remdups_snoc: "remdups (xs @ [k]) = filter (\<lambda>j. j \<noteq> k) (remdups xs) @ [k]"
  by (induction xs) auto

lemma lru_last_n:
  assumes "distinct ys" and "0 < m"
  shows "lru_access m k (last_n m ys) = last_n m (filter (\<lambda>j. j \<noteq> k) ys @ [k])"
proof -
  define us where "us = take (length ys - m) ys"
  define vs where "vs = last_n m ys"
  have ys: "ys = us @ vs" "last_n m ys = vs" unfolding us_def vs_def last_n_def by simp_all
  have l: "us = [] \<and> length vs \<le> m \<or> length vs = m" unfolding us_def vs_def last_n_def by auto
  have d: "distinct us" "distinct vs" "set us \<inter> set vs = {}" using assms(1) ys(1) by auto
  note same = filter_other [of k]
  consider "k \<in> set vs" | "k \<notin> set vs" "k \<in> set us" | "k \<notin> set us" "k \<notin> set vs" by blast
  then show ?thesis
  proof cases
    case 1
    have n: "k \<notin> set us" using 1 d(3) by auto
    have "0 < length vs" using 1 by (cases vs) auto
    then have "last_n m (us @ filter (\<lambda>j. j \<noteq> k) vs @ [k]) = filter (\<lambda>j. j \<noteq> k) vs @ [k]"
      using l length_filter_neq [OF d(2) 1] by (auto simp: last_n_def)
    then show ?thesis using 1 same [OF n] unfolding ys(2) by (simp add: ys(1) lru_access_def)
  next
    case 2
    have u: "0 < length us" using 2(2) by (cases us) auto
    then have m: "length vs = m" using l by auto
    then obtain v ws where v: "vs = v # ws" using assms(2) by (cases vs) auto
    have "last_n m (filter (\<lambda>j. j \<noteq> k) us @ vs @ [k]) = ws @ [k]"
    proof -
      have "length us - (length us - Suc 0) = 1" using u by arith
      then show ?thesis using m v length_filter_neq [OF d(1) 2(2)] by (simp add: last_n_def)
    qed
    then show ?thesis using 2(1) m v same [OF 2(1)] unfolding ys(2) by (simp add: ys(1) lru_access_def)
  next
    case 3
    show ?thesis
    proof (cases "length vs = m")
      case True
      then obtain v ws where v: "vs = v # ws" using assms(2) by (cases vs) auto
      have "last_n m (us @ vs @ [k]) = ws @ [k]" using True v by (auto simp: last_n_def Suc_diff_le)
      then show ?thesis using 3 True v same [OF 3(1)] same [OF 3(2)] unfolding ys(2) by (auto simp: ys(1) lru_access_def)
    next
      case False
      then have "us = []" "length vs < m" using l by auto
      then show ?thesis using 3 same unfolding ys(2) by (simp add: ys(1) lru_access_def last_n_def)
    qed
  qed
qed

text \<open>After any accesses the cache holds the most recent different keys, oldest first.\<close>

lemma lru_recent: "0 < m \<Longrightarrow> fold (lru_access m) ks [] = last_n m (remdups ks)"
proof (induction ks rule: rev_induct)
  case Nil
  then show ?case by (simp add: last_n_def)
next
  case (snoc k ks)
  then show ?case by (simp add: remdups_snoc lru_last_n)
qed

lemma lru_access_distinct:
  assumes "distinct xs" and "length xs \<le> m" and "0 < m"
  shows "distinct (lru_access m k xs) \<and> length (lru_access m k xs) \<le> m \<and> set (lru_access m k xs) \<subseteq> insert k (set xs)"
proof (cases "k \<in> set xs")
  case True
  then show ?thesis using assms length_filter_neq [OF assms(1) True] by (cases xs) (auto simp: lru_access_def)
next
  case False
  then show ?thesis using assms by (cases xs) (auto simp: lru_access_def)
qed

subsection \<open>The interface a cache needs of its list\<close>

text \<open>
  \<open>push\<close> adds at the end, \<open>touch\<close> moves to the end, \<open>shift\<close> takes out the first; \<open>room\<close> says that a node
  exists which may be in the list.
\<close>

definition lru_step ::
  "('k \<Rightarrow> 'h \<Rightarrow> 'h run) \<Rightarrow> ('k \<Rightarrow> 'h \<Rightarrow> 'h run) \<Rightarrow> ('h \<Rightarrow> 'h run) \<Rightarrow> nat \<Rightarrow> 'k \<Rightarrow> 'k list \<Rightarrow> 'h \<Rightarrow> 'h run" where
  "lru_step push touch shift m k xs h =
     (if k \<in> set xs then touch k h
      else bind_run (if length xs = m then shift h else Done h) (push k))"

fun lru_steps ::
  "('k \<Rightarrow> 'h \<Rightarrow> 'h run) \<Rightarrow> ('k \<Rightarrow> 'h \<Rightarrow> 'h run) \<Rightarrow> ('h \<Rightarrow> 'h run) \<Rightarrow> nat \<Rightarrow> 'k list \<Rightarrow> 'k list \<Rightarrow> 'h \<Rightarrow> 'h run" where
  "lru_steps push touch shift m [] xs h = Done h"
| "lru_steps push touch shift m (k # ks) xs h =
     bind_run (lru_step push touch shift m k xs h) (lru_steps push touch shift m ks (lru_access m k xs))"

locale lru_list =
  fixes rep :: "'h \<Rightarrow> 'k list \<Rightarrow> bool" and room :: "'h \<Rightarrow> 'k \<Rightarrow> bool"
    and push :: "'k \<Rightarrow> 'h \<Rightarrow> 'h run" and touch :: "'k \<Rightarrow> 'h \<Rightarrow> 'h run" and shift :: "'h \<Rightarrow> 'h run"
  assumes rep_distinct: "rep h xs \<Longrightarrow> distinct xs"
    and push_law: "rep h xs \<Longrightarrow> room h k \<Longrightarrow> k \<notin> set xs \<Longrightarrow> \<exists>h'. push k h = Done h' \<and> rep h' (xs @ [k]) \<and> room h' = room h"
    and touch_law: "rep h (us @ k # vs) \<Longrightarrow> \<exists>h'. touch k h = Done h' \<and> rep h' (us @ vs @ [k]) \<and> room h' = room h"
    and shift_law: "rep h (k # xs) \<Longrightarrow> \<exists>h'. shift h = Done h' \<and> rep h' xs \<and> room h' = room h"
begin

lemma step:
  assumes r: "rep h xs" and m: "length xs \<le> m" "0 < m" and k: "room h k"
  shows "\<exists>h'. lru_step push touch shift m k xs h = Done h' \<and> rep h' (lru_access m k xs) \<and> room h' = room h"
proof (cases "k \<in> set xs")
  case True
  then obtain us vs where x: "xs = us @ k # vs" by (meson split_list)
  have "k \<notin> set us" "k \<notin> set vs" using rep_distinct [OF r] unfolding x by auto
  then have "lru_access m k xs = us @ vs @ [k]" unfolding x by (simp add: lru_access_def filter_other)
  then show ?thesis using True touch_law [of h us k vs] r x by (simp add: lru_step_def)
next
  case False
  show ?thesis
  proof (cases "length xs = m")
    case True
    then obtain y ys where x: "xs = y # ys" using m(2) by (cases xs) auto
    obtain h1 where h1: "shift h = Done h1" "rep h1 ys" "room h1 = room h" using shift_law [of h y ys] r x by auto
    then show ?thesis using push_law [OF h1(2), of k] False True k x by (simp add: lru_step_def lru_access_def)
  next
    case n: False
    then show ?thesis using push_law [OF r k] False by (simp add: lru_step_def lru_access_def)
  qed
qed

lemma steps:
  "rep h xs \<Longrightarrow> length xs \<le> m \<Longrightarrow> 0 < m \<Longrightarrow> \<forall>k\<in>set ks. room h k \<Longrightarrow>
     \<exists>h'. lru_steps push touch shift m ks xs h = Done h' \<and> rep h' (fold (lru_access m) ks xs)"
proof (induction ks arbitrary: h xs)
  case (Cons k ks)
  obtain h1 where h1: "lru_step push touch shift m k xs h = Done h1" "rep h1 (lru_access m k xs)" "room h1 = room h"
    using step [of h xs m k] Cons.prems by auto
  then show ?case
    using Cons.IH [of h1 "lru_access m k xs"] lru_access_distinct [OF rep_distinct [OF Cons.prems(1)] Cons.prems(2,3)] Cons.prems
    by simp
qed simp

lemma recent:
  "rep h [] \<Longrightarrow> 0 < m \<Longrightarrow> \<forall>k\<in>set ks. room h k \<Longrightarrow>
     \<exists>h'. lru_steps push touch shift m ks [] h = Done h' \<and> rep h' (last_n m (remdups ks))"
  using steps [of h "[]" m ks] lru_recent [of m ks] by simp

end

text \<open>
  The pointer lists provide it: this is what \<open>cache_table\<close>, \<open>l2_table_search\<close> and their counterparts
  for reference counts do to their lists.
\<close>

definition evict_first :: "laddr \<Rightarrow> lheap \<Rightarrow> lheap run" where
  "evict_first head h = bind_run (list_first_entry head h) (\<lambda>lru. list_del_init lru h)"

interpretation ring_lru:
  lru_list "\<lambda>h. ring h head" "\<lambda>h k. k \<in> dom h \<and> k \<noteq> head" "\<lambda>k. list_add_tail k head" "\<lambda>k. list_move_tail k head" "evict_first head"
  for head
proof
  show "distinct xs" if "ring h head xs" for h xs using that by (simp add: ring_def)
  show "\<exists>h'. list_add_tail k head h = Done h' \<and> ring h' head (xs @ [k]) \<and>
      (\<lambda>j. j \<in> dom h' \<and> j \<noteq> head) = (\<lambda>j. j \<in> dom h \<and> j \<noteq> head)"
    if "ring h head xs" "k \<in> dom h \<and> k \<noteq> head" "k \<notin> set xs" for h xs k
    using gives_result [OF list_add_tail_gives [OF that(1), of k]] that by auto
  show "\<exists>h'. list_move_tail k head h = Done h' \<and> ring h' head (us @ vs @ [k]) \<and>
      (\<lambda>j. j \<in> dom h' \<and> j \<noteq> head) = (\<lambda>j. j \<in> dom h \<and> j \<noteq> head)"
    if "ring h head (us @ k # vs)" for h us k vs
    using gives_result [OF list_move_tail_gives [OF that]] by auto
  show "\<exists>h'. evict_first head h = Done h' \<and> ring h' head xs \<and>
      (\<lambda>j. j \<in> dom h' \<and> j \<noteq> head) = (\<lambda>j. j \<in> dom h \<and> j \<noteq> head)"
    if "ring h head (k # xs)" for h k xs
    using gives_result [OF list_del_init_gives [of h head "[]" k xs]] that
    by (auto simp: evict_first_def list_first_entry_ring)
qed

end
