(* ===== verification/CacheLists.thy ===== *)
theory CacheLists
  imports ListRefine QcowReadProofs
begin

text \<open>
  The cache of level 2 tables of \<^verbatim>\<open>disk/qcow.c\<close> is a least recently used one: what it holds after any reads,
  in the model of \<open>QcowTypes\<close> and in the pointer list the code keeps.
\<close>

abbreviation cached :: "qcow \<Rightarrow> u64 list" where
  "cached q \<equiv> map l2t_offset (l1_lru (table q))"

text \<open>Tables read one after the other; the table of a failed read is none.\<close>

fun read_tables :: "qcow \<Rightarrow> u64 list \<Rightarrow> qcow run" where
  "read_tables q [] = Done q"
| "read_tables q (off # offs) = bind_run (qcow_read_l2_table q off) (\<lambda>(t, q'). read_tables q' offs)"

lemma cache_table_offsets:
  assumes "l1_cache_inv l1t" and "cache_table l1t c = Done l1t'"
  shows "map l2t_offset (l1_lru l1t') =
    (if length (l1_lru l1t) = 32 then tl (map l2t_offset (l1_lru l1t)) else map l2t_offset (l1_lru l1t)) @ [l2t_offset c]"
  using assms
  by (cases "l1_lru l1t")
    (auto simp: cache_table_def l1_evict_def l1_cache_inv_def c_simps bind_run_Done_iff split: if_splits)

lemma search_found:
  "l2_table_search l1t off = Done (Some u, l1t') \<Longrightarrow> l1_lru l1t' = filter (\<lambda>u. l2t_offset u \<noteq> off) (l1_lru l1t) @ [u]"
  by (auto simp: l2_table_search_def bind_run_Done_iff split: option.splits)

lemma read_table_lru:
  assumes "image_ok q" and "qcow_read_l2_table q off = Done (Some t, q')"
  shows "cached q' = lru_access 32 off (cached q)"
proof -
  have inv: "l1_cache_inv (table q)" using assms(1) by (simp add: image_ok_def)
  obtain r l1t where s: "l2_table_search (table q) off = Done (r, l1t)"
      "case r of None \<Rightarrow> off \<notin> l2t_offset ` set (l1_lru (table q)) \<and> l1t = table q
       | Some t \<Rightarrow> t \<in> set (l1_lru (table q)) \<and> l2t_offset t = off"
    using search_spec [OF inv, of off] by blast
  show ?thesis
  proof (cases r)
    case (Some u)
    have "q' = q\<lparr>table := l1t\<rparr>" using assms(2) s(1) Some by (simp add: qcow_read_l2_table_def)
    then have "cached q' = map l2t_offset (filter (\<lambda>u. l2t_offset u \<noteq> off) (l1_lru (table q)) @ [u])"
      using search_found [of "table q" off u l1t] s(1) Some by simp
    moreover have "off \<in> set (cached q)" using s(2) Some by auto
    ultimately show ?thesis using s(2) Some by (simp add: lru_access_def map_offset_filter)
  next
    case None
    then obtain c where c: "cache_table (table q) c = Done (table q')" "l2t_offset c = off"
      using assms(2) s
      by (auto simp: qcow_read_l2_table_def Let_def bind_run_Done_iff new_cache_table_def split: option.splits prod.splits)
    then show ?thesis using cache_table_offsets [OF inv c(1)] s(2) None by (simp add: lru_access_def)
  qed
qed

lemma read_tables_lru:
  "image_ok q \<Longrightarrow> \<forall>off\<in>set offs. 0 \<le> sint off \<and> nat (sint off) < length (fbytes (q_fd q)) \<Longrightarrow>
     \<exists>q'. read_tables q offs = Done q' \<and> image_ok q' \<and> cached q' = fold (lru_access 32) offs (cached q)"
proof (induction offs arbitrary: q)
  case (Cons off offs)
  obtain t q1 where 1: "qcow_read_l2_table q off = Done (Some t, q1)" "image_ok q1" "same_image q q1"
    using read_l2_spec [of q off] Cons.prems by auto
  have "\<exists>q'. read_tables q1 offs = Done q' \<and> image_ok q' \<and> cached q' = fold (lru_access 32) offs (cached q1)"
    using Cons.IH [OF 1(2)] Cons.prems(2) 1(3) by (auto simp: same_image_def)
  then show ?case using 1 read_table_lru [OF Cons.prems(1) 1(1)] by simp
qed simp

text \<open>
  The list of the cache as the code keeps it: a node for each table, named by the table's offset.
\<close>

definition lru_nodes :: "laddr \<Rightarrow> (u64 \<Rightarrow> laddr) \<Rightarrow> u64 list \<Rightarrow> lheap \<Rightarrow> lheap run" where
  "lru_nodes head node offs h =
     lru_steps (\<lambda>k. list_add_tail k head) (\<lambda>k. list_move_tail k head) (evict_first head) 32 (map node offs) [] h"

lemma last_n_map: "last_n m (map f xs) = map f (last_n m xs)"
  by (simp add: last_n_def drop_map)

lemma remdups_map_inj: "inj_on f (set xs) \<Longrightarrow> remdups (map f xs) = map f (remdups xs)"
  by (induction xs) (auto simp: inj_on_def)

text \<open>
  C18: The cache of level 2 tables holds the 32 different tables read last, in the order of their last use:
  this is what any reads leave in an empty cache, and the pointer operations of the code, run on the
  nodes of the tables, leave the nodes of just these tables in its list, in this order.
\<close>

theorem l2_cache_is_lru:
  assumes "image_ok q" and "l1_lru (table q) = []"
    and "\<forall>off\<in>set offs. 0 \<le> sint off \<and> nat (sint off) < length (fbytes (q_fd q))"
    and "ring h head []" and "inj_on node (set offs)" and "\<forall>off\<in>set offs. node off \<in> dom h \<and> node off \<noteq> head"
  shows "\<exists>q' h'. read_tables q offs = Done q' \<and> cached q' = last_n 32 (remdups offs) \<and>
    lru_nodes head node offs h = Done h' \<and> ring h' head (map node (cached q'))"
proof -
  obtain q' where q': "read_tables q offs = Done q'" "cached q' = fold (lru_access 32) offs []"
    using read_tables_lru [OF assms(1,3)] assms(2) by auto
  moreover have "\<exists>h'. lru_nodes head node offs h = Done h' \<and> ring h' head (last_n 32 (remdups (map node offs)))"
    unfolding lru_nodes_def by (rule ring_lru.recent [OF assms(4)]) (use assms(6) in auto)
  ultimately show ?thesis
    using lru_recent [of 32 offs] by (auto simp: last_n_map remdups_map_inj [OF assms(5)] simp del: map_map)
qed

theorem l2_cache_is_lru_witness:
  "\<exists>q'. read_tables sample_image [0, 8, 0] = Done q' \<and> cached q' = [8, 0]"
proof -
  have r: "\<forall>off\<in>set [0, 8, 0 :: u64]. 0 \<le> sint off \<and> nat (sint off) < length (fbytes (q_fd sample_image))"
    by (simp add: sample_image_def)
  have i: "inj_on (\<lambda>off. if off = 0 then 0x20 else 0x30 :: laddr) (set [0, 8, 0 :: u64])" by (simp add: inj_on_def)
  have d: "\<forall>off\<in>set [0, 8, 0 :: u64]. (if off = 0 then 0x20 else 0x30 :: laddr) \<in> dom sample_lheap \<and>
      (if off = 0 then 0x20 else 0x30 :: laddr) \<noteq> 0x10"
    by (simp add: sample_lheap_def dom_def)
  have e: "l1_lru (table sample_image) = []" by (simp add: sample_image_def)
  have l: "last_n 32 (remdups [0, 8, 0 :: u64]) = [8, 0]" by (simp add: last_n_def)
  show ?thesis using l2_cache_is_lru [OF sample_image_ok e r sample_lheap_ring i d] 
    unfolding l by (elim exE conjE) (rule exI, rule conjI; assumption)
qed

end
