(* ===== verification/HlistProofs.thy ===== *)
theory HlistProofs
  imports ListHeapProofs Device
begin

text \<open>
  The lists with a single pointer as their head, and the initialisers, which are kept in them: the lists
  of \<open>Device\<close> are what the pointers represent.
\<close>

subsection \<open>Chains from a head\<close>

fun hchain :: "hheap \<Rightarrow> slot \<Rightarrow> laddr \<Rightarrow> laddr list \<Rightarrow> bool" where
  "hchain h s p [] \<longleftrightarrow> p = 0"
| "hchain h s p (x # xs) \<longleftrightarrow>
     p = x \<and> x \<noteq> 0 \<and> (\<exists>n. hnodes h x = Some n \<and> hn_pprev n = s \<and> hchain h (Next_of x) (hn_next n) xs)"

definition hlist :: "hheap \<Rightarrow> laddr \<Rightarrow> laddr list \<Rightarrow> bool" where
  "hlist h l xs \<longleftrightarrow> distinct xs \<and> (\<exists>f. hheads h l = Some f \<and> hchain h (First_of l) f xs)"

lemma hchain_frame: "hchain h s p xs \<Longrightarrow> \<forall>x\<in>set xs. hnodes h' x = hnodes h x \<Longrightarrow> hchain h' s p xs"
  by (induction xs arbitrary: s p) auto

lemma hlist_frame:
  "hlist h l xs \<Longrightarrow> hheads h' l = hheads h l \<Longrightarrow> \<forall>x\<in>set xs. hnodes h' x = hnodes h x \<Longrightarrow> hlist h' l xs"
  by (auto simp: hlist_def intro: hchain_frame)

lemma hchain_member: "hchain h s p xs \<Longrightarrow> x \<in> set xs \<Longrightarrow> x \<noteq> 0 \<and> x \<in> dom (hnodes h)"
  by (induction xs arbitrary: s p) auto

lemma hlist_empty_eq: "hlist h l xs \<Longrightarrow> hlist_empty l h = Done (xs = [])"
  by (cases xs) (auto simp: hlist_def hlist_empty_def get_first_def)

lemma INIT_HLIST_HEAD_ok:
  "l \<in> dom (hheads h) \<Longrightarrow> \<exists>h'. INIT_HLIST_HEAD l h = Done h' \<and> hlist h' l [] \<and> hnodes h' = hnodes h"
  by (auto simp: INIT_HLIST_HEAD_def set_first_def hlist_def)

lemma hlist_add_head_ok:
  assumes l: "hlist h l xs" and p: "p \<noteq> 0" "p \<in> dom (hnodes h)" "p \<notin> set xs"
  shows "\<exists>h'. hlist_add_head p l h = Done h' \<and> hlist h' l (p # xs) \<and> dom (hnodes h') = dom (hnodes h) \<and>
    dom (hheads h') = dom (hheads h) \<and> (\<forall>k. k \<noteq> l \<longrightarrow> hheads h' k = hheads h k) \<and>
    (\<forall>a. a \<notin> set (p # xs) \<longrightarrow> hnodes h' a = hnodes h a)"
proof -
  obtain n where n: "hnodes h p = Some n" using p(2) by auto
  obtain f where f: "hheads h l = Some f" "hchain h (First_of l) f xs" using l by (auto simp: hlist_def)
  show ?thesis
  proof (cases xs)
    case Nil
    then show ?thesis using n f p(1)
      by (auto simp: hlist_add_head_def get_first_def set_node_def set_first_def hlist_def)
  next
    case (Cons x ys)
    then obtain m where m: "hnodes h x = Some m" "hchain h (Next_of x) (hn_next m) ys" "f = x" "x \<noteq> 0" "p \<noteq> x"
      using f p(3) by auto
    let ?n' = "n\<lparr>hn_next := x, hn_pprev := First_of l\<rparr>" and ?m' = "m\<lparr>hn_pprev := Next_of p\<rparr>"
    let ?h = "h\<lparr>hnodes := (hnodes h)(p \<mapsto> ?n', x \<mapsto> ?m'), hheads := (hheads h)(l \<mapsto> p)\<rparr>"
    have r: "hlist_add_head p l h = Done ?h"
      using m n f by (simp add: hlist_add_head_def get_first_def set_node_def set_first_def fun_upd_twist)
    have d: "x \<notin> set ys" "p \<notin> set ys" "distinct ys" using l p(3) Cons by (auto simp: hlist_def)
    have "hchain ?h (Next_of x) (hn_next m) ys" by (rule hchain_frame [OF m(2)]) (use d in auto)
    then have "hlist ?h l (p # xs)" using d m p Cons by (simp add: hlist_def)
    then show ?thesis using r n m f Cons by auto
  qed
qed

lemma hfor_each_from:
  "hchain h s p xs \<Longrightarrow> length xs \<le> n \<Longrightarrow> hlist_for_each_from n p body h a = each body xs a"
proof (induction xs arbitrary: s p n a)
  case Nil
  then show ?case by (simp add: hlist_for_each_from.simps)
next
  case (Cons x xs)
  obtain n' where n: "n = Suc n'" using Cons.prems(2) by (cases n) auto
  obtain m where m: "hnodes h x = Some m" "hchain h (Next_of x) (hn_next m) xs" "p = x" "x \<noteq> 0"
    using Cons.prems(1) by auto
  then show ?case
    using Cons.IH [OF m(2), of n'] Cons.prems(2) n by (simp add: hlist_for_each_from.simps [of "Suc n'"] get_node_def)
qed

lemma hlist_for_each_ok: "hlist h l xs \<Longrightarrow> length xs \<le> n \<Longrightarrow> hlist_for_each n l body h a = each body xs a"
  by (auto simp: hlist_def hlist_for_each_def get_first_def hfor_each_from)

subsection \<open>Initialisers\<close>

text \<open>
  Items registered one after the other, with their priorities, on the model's lists and on pointer
  lists whose heads are \<open>head i\<close>; an item is named by the address of its node.
\<close>

fun add_items :: "('i \<times> nat) list \<Rightarrow> 'i list list \<Rightarrow> 'i list list run" where
  "add_items [] ls = Done ls"
| "add_items ((t, i) # rs) ls = bind_run (init_list_add t i ls) (add_items rs)"

fun link_items :: "(nat \<Rightarrow> laddr) \<Rightarrow> (laddr \<times> nat) list \<Rightarrow> hheap \<Rightarrow> hheap run" where
  "link_items head [] h = Done h"
| "link_items head ((t, i) # rs) h =
     bind_run (if i < PRIORITY_LISTS then hlist_add_head t (head i) h else Wild) (link_items head rs)"

text \<open>The items of a priority, latest first.\<close>

definition items_at :: "('i \<times> nat) list \<Rightarrow> nat \<Rightarrow> 'i list" where
  "items_at rs i = rev (map fst (filter (\<lambda>r. snd r = i) rs))"

lemma add_items_result:
  "\<forall>r\<in>set rs. snd r < length ls \<Longrightarrow>
     add_items rs ls = Done (map (\<lambda>i. items_at rs i @ ls ! i) [0..<length ls])"
proof (induction rs arbitrary: ls)
  case Nil
  then show ?case by (simp add: items_at_def map_nth)
next
  case (Cons r rs)
  obtain t i where r: "r = (t, i)" by (cases r)
  have "add_items rs (ls[i := t # ls ! i]) =
      Done (map (\<lambda>j. items_at rs j @ ls[i := t # ls ! i] ! j) [0..<length ls])"
    using Cons.IH [of "ls[i := t # ls ! i]"] Cons.prems by simp
  moreover have "items_at rs j @ ls[i := t # ls ! i] ! j = items_at (r # rs) j @ ls ! j" if "j < length ls" for j
    using that by (auto simp: items_at_def r nth_list_update)
  ultimately show ?case using Cons.prems by (simp add: r init_list_add_def)
qed

definition linked_items :: "(nat \<Rightarrow> laddr) \<Rightarrow> hheap \<Rightarrow> laddr list list \<Rightarrow> bool" where
  "linked_items head h ls \<longleftrightarrow> length ls = PRIORITY_LISTS \<and> (\<forall>i<PRIORITY_LISTS. hlist h (head i) (ls ! i)) \<and>
     (\<forall>i<PRIORITY_LISTS. \<forall>j<PRIORITY_LISTS. i \<noteq> j \<longrightarrow> set (ls ! i) \<inter> set (ls ! j) = {})"

lemma link_item:
  assumes l: "linked_items head h ls" and i: "inj_on head {..<PRIORITY_LISTS}" "i < PRIORITY_LISTS"
    and t: "t \<noteq> 0" "t \<in> dom (hnodes h)" "\<forall>j<PRIORITY_LISTS. t \<notin> set (ls ! j)"
  shows "\<exists>h'. hlist_add_head t (head i) h = Done h' \<and> linked_items head h' (ls[i := t # ls ! i]) \<and>
    dom (hnodes h') = dom (hnodes h)"
proof -
  have li: "hlist h (head i) (ls ! i)" using l i(2) by (simp add: linked_items_def)
  obtain h' where h': "hlist_add_head t (head i) h = Done h'" "hlist h' (head i) (t # ls ! i)"
      "dom (hnodes h') = dom (hnodes h)" "\<forall>k. k \<noteq> head i \<longrightarrow> hheads h' k = hheads h k"
      "\<forall>a. a \<notin> set (t # ls ! i) \<longrightarrow> hnodes h' a = hnodes h a"
    using hlist_add_head_ok [OF li t(1,2)] t(3) i(2) by blast
  have "hlist h' (head j) (ls ! j)" if j: "j < PRIORITY_LISTS" "j \<noteq> i" for j
  proof (rule hlist_frame)
    show "hlist h (head j) (ls ! j)" using l j by (simp add: linked_items_def)
    show "hheads h' (head j) = hheads h (head j)" using h'(4) i j by (auto dest: inj_onD)
    have "set (ls ! j) \<inter> set (ls ! i) = {}" using l j i(2) by (simp add: linked_items_def)
    then show "\<forall>x\<in>set (ls ! j). hnodes h' x = hnodes h x" using h'(5) t(3) j(1) by auto
  qed
  then have "linked_items head h' (ls[i := t # ls ! i])"
    using l h'(2) t(3) i(2) by (auto simp: linked_items_def nth_list_update)
  then show ?thesis using h'(1,3) by blast
qed

lemma link_items_result:
  "linked_items head h ls \<Longrightarrow> inj_on head {..<PRIORITY_LISTS} \<Longrightarrow> distinct (map fst rs) \<Longrightarrow>
     \<forall>r\<in>set rs. snd r < PRIORITY_LISTS \<and> fst r \<noteq> 0 \<and> fst r \<in> dom (hnodes h) \<and> (\<forall>j<PRIORITY_LISTS. fst r \<notin> set (ls ! j)) \<Longrightarrow>
     \<exists>h' ls'. link_items head rs h = Done h' \<and> add_items rs ls = Done ls' \<and> linked_items head h' ls'"
proof (induction rs arbitrary: h ls)
  case (Cons r rs)
  obtain t i where r: "r = (t, i)" by (cases r)
  have len: "length ls = PRIORITY_LISTS" using Cons.prems(1) by (simp add: linked_items_def)
  obtain h1 where h1: "hlist_add_head t (head i) h = Done h1" "linked_items head h1 (ls[i := t # ls ! i])"
      "dom (hnodes h1) = dom (hnodes h)"
    using link_item [OF Cons.prems(1,2), of i t] Cons.prems(4) r by auto
  have "\<exists>h' ls'. link_items head rs h1 = Done h' \<and> add_items rs (ls[i := t # ls ! i]) = Done ls' \<and> linked_items head h' ls'"
    by (rule Cons.IH [OF h1(2) Cons.prems(2)])
      (use Cons.prems r h1(3) len in \<open>auto simp: nth_list_update\<close>)
  then show ?case using h1(1) Cons.prems(4) r len by (simp add: init_list_add_def)
qed auto

text \<open>
  Running the lists of pointers: the loops of \<open>init_list__init\<close> with the nodes they meet.  After an
  error the rest of a list is passed over, which the jump out of the loops does at once.
\<close>

definition run_node :: "(laddr \<Rightarrow> 's \<Rightarrow> (int \<times> 's) run) \<Rightarrow> laddr \<Rightarrow> int \<times> 's \<Rightarrow> (int \<times> 's) run" where
  "run_node call p rs = (if fst rs < 0 then Done rs else call p (snd rs))"

fun run_heads :: "nat \<Rightarrow> (laddr \<Rightarrow> 's \<Rightarrow> (int \<times> 's) run) \<Rightarrow> hheap \<Rightarrow> laddr list \<Rightarrow> int \<times> 's \<Rightarrow> (int \<times> 's) run" where
  "run_heads n call h [] rs = Done rs"
| "run_heads n call h (l # ls) rs =
     bind_run (hlist_for_each n l (run_node call) h rs) (run_heads n call h ls)"

lemma run_node_apply: "run_node call p (r, s) = (if r < 0 then Done (r, s) else call p s)"
  by (simp add: run_node_def)

lemma each_failed: "r < 0 \<Longrightarrow> each (run_node call) xs (r, s) = Done (r, s)"
  by (induction xs) (simp_all add: run_node_apply)

lemma each_run_list: "0 \<le> r \<Longrightarrow> each (run_node call) xs (r, s) = run_list call r xs s"
proof (induction xs arbitrary: r s)
  case (Cons x xs)
  then show ?case
    by (cases "call x s") (auto simp: run_node_apply each_failed split: prod.splits if_splits)
qed simp

lemma run_heads_failed:
  "r < 0 \<Longrightarrow> \<forall>(l, xs)\<in>set (zip ls xss). hlist h l xs \<and> length xs \<le> n \<Longrightarrow> length ls = length xss \<Longrightarrow>
     run_heads n call h ls (r, s) = Done (r, s)"
  by (induction ls xss rule: list_induct2') (auto simp: hlist_for_each_ok each_failed)

lemma run_heads_lists:
  "0 \<le> r \<Longrightarrow> length ls = length xss \<Longrightarrow> \<forall>(l, xs)\<in>set (zip ls xss). hlist h l xs \<and> length xs \<le> n \<Longrightarrow>
     run_heads n call h ls (r, s) = run_lists call r xss s"
proof (induction ls xss arbitrary: r s rule: list_induct2')
  case (4 l ls xs xss)
  have f: "hlist_for_each n l (run_node call) h (r, s) = run_list call r xs s"
    using 4(2,4) hlist_for_each_ok [of h l xs n "run_node call" "(r, s)"] by (simp add: each_run_list)
  show ?case
  proof (cases "run_list call r xs s")
    case (Done q)
    then show ?thesis
      using 4 f run_heads_failed [of "fst q" ls xss h n call "snd q"] by (cases q) auto
  qed (use f in simp_all)
qed simp_all

text \<open>
  C35: Initialisers run in the order of their priorities, and those of one priority in the opposite order of
  their registration, until one fails: this is what the loops over the pointer lists do, for any
  registrations of different items, and what the lists of the model say.
\<close>

theorem initialisers_by_priority:
  assumes "\<forall>i<PRIORITY_LISTS. hlist h (head i) []" and "inj_on head {..<PRIORITY_LISTS}" and "distinct (map fst rs)"
    and "\<forall>r\<in>set rs. snd r < PRIORITY_LISTS \<and> fst r \<noteq> 0 \<and> fst r \<in> dom (hnodes h)" and "length rs \<le> n"
  shows "\<exists>h' ls. link_items head rs h = Done h' \<and> add_items rs no_items = Done ls \<and>
    run_heads n call h' (map head [0..<PRIORITY_LISTS]) (0, s) = init_list__init call ls s \<and>
    init_list__init call ls s = run_list call 0 (concat (map (items_at rs) [0..<PRIORITY_LISTS])) s"
proof -
  have e: "no_items ! j = ([] :: laddr list)" if "j < PRIORITY_LISTS" for j using that by (simp add: no_items_def)
  have len: "length (no_items :: laddr list list) = PRIORITY_LISTS" by (simp add: no_items_def)
  have "linked_items head h no_items" using assms(1) len e by (simp add: linked_items_def)
  then obtain h' ls where h': "link_items head rs h = Done h'" "add_items rs no_items = Done ls" "linked_items head h' ls"
    using link_items_result [OF _ assms(2,3), of h no_items] assms(4) e by auto
  have "add_items rs no_items = Done (map (\<lambda>i. items_at rs i @ no_items ! i) [0..<PRIORITY_LISTS])"
    using add_items_result [of rs "no_items :: laddr list list"] assms(4) len by simp
  then have ls: "ls = map (items_at rs) [0..<PRIORITY_LISTS]" using h'(2) e by simp
  have short: "length (items_at rs i) \<le> n" for i
    using le_trans [OF length_filter_le assms(5)] by (simp add: items_at_def)
  have "\<forall>(l, xs)\<in>set (zip (map head [0..<PRIORITY_LISTS]) ls). hlist h' l xs \<and> length xs \<le> n"
    using h'(3) short by (auto simp: ls set_zip linked_items_def)
  then have "run_heads n call h' (map head [0..<PRIORITY_LISTS]) (0, s) = run_lists call 0 ls s"
    using run_heads_lists [of 0 "map head [0..<PRIORITY_LISTS]" ls h' n call s] ls by simp
  then show ?thesis using h'(1,2) run_lists_concat [of 0 call ls s] by (simp add: init_list__init_def ls)
qed

text \<open>Four items, one of which fails.\<close>

definition sample_hheap :: hheap where
  "sample_hheap = \<lparr>hheads = (\<lambda>l. if l < 10 then Some 0 else None),
     hnodes = (\<lambda>p. if p \<in> {0x10, 0x20, 0x30, 0x40} then Some \<lparr>hn_next = 0, hn_pprev = Null_slot\<rparr> else None)\<rparr>"

theorem initialisers_by_priority_witness:
  "\<exists>h'. link_items of_nat [(0x10, 4), (0x20, 6), (0x30, 4), (0x40, 9)] sample_hheap = Done h' \<and>
    run_heads 4 (\<lambda>p s. Done (if p = 0x20 then -1 else 0, s @ [p])) h' (map of_nat [0..<10]) (0, []) =
      Done (-1, [0x30, 0x10, 0x20])"
proof -
  let ?rs = "[(0x10, 4), (0x20, 6), (0x30, 4), (0x40, 9)] :: (laddr \<times> nat) list"
  let ?call = "\<lambda>p s. Done (if p = 0x20 then -1 else 0, s @ [p]) :: (int \<times> laddr list) run"
  have 1: "\<forall>i<PRIORITY_LISTS. hlist sample_hheap (of_nat i) []"
    by (auto simp: sample_hheap_def hlist_def c_simps word_less_nat_alt unat_of_nat)
  have 2: "inj_on (of_nat :: nat \<Rightarrow> laddr) {..<PRIORITY_LISTS}"
    by (rule inj_onI) (auto simp: c_simps word_unat_eq_iff unat_of_nat)
  have 3: "concat (map (items_at ?rs) [0..<PRIORITY_LISTS]) = [0x30, 0x10, 0x20, 0x40]" by code_simp
  have 4: "run_list ?call 0 [0x30, 0x10, 0x20, 0x40] [] = Done (-1, [0x30, 0x10, 0x20])" by simp
  have 5: "distinct (map fst ?rs)" "length ?rs \<le> 4" by simp_all
  have 6: "\<forall>r\<in>set ?rs. snd r < PRIORITY_LISTS \<and> fst r \<noteq> 0 \<and> fst r \<in> dom (hnodes sample_hheap)"
    by (simp add: sample_hheap_def c_simps domIff)
  have 7: "PRIORITY_LISTS = 10" by (simp add: c_simps)
  obtain h' ls where "link_items of_nat ?rs sample_hheap = Done h'"
      "run_heads 4 ?call h' (map of_nat [0..<PRIORITY_LISTS]) (0, []) = init_list__init ?call ls []"
      "init_list__init ?call ls [] = Done (-1, [0x30, 0x10, 0x20])"
    using initialisers_by_priority [OF 1 2 5(1) 6 5(2), of ?call "[]"] unfolding 3 4 by blast
  then show ?thesis unfolding 7 by (intro exI conjI) simp_all
qed

end
