(* ===== verification/ListWalk.thy ===== *)
theory ListWalk
  imports ListHeapProofs
begin

text \<open>
  The traversals of \<^verbatim>\<open>include/linux/list.h\<close> over entries: from the first or the last entry, from a given one
  on, and past a given one.  An entry is named by the address of its node.
\<close>

definition list_next_entry :: "laddr \<Rightarrow> lheap \<Rightarrow> laddr run" where
  "list_next_entry pos h = get_next h pos"

definition list_prev_entry :: "laddr \<Rightarrow> lheap \<Rightarrow> laddr run" where
  "list_prev_entry pos h = get_prev h pos"

definition list_prepare_entry :: "laddr \<Rightarrow> laddr \<Rightarrow> laddr" where
  "list_prepare_entry pos head = (if pos \<noteq> 0 then pos else head)"

definition list_for_each_entry :: "nat \<Rightarrow> laddr \<Rightarrow> (laddr \<Rightarrow> 'a \<Rightarrow> 'a run) \<Rightarrow> lheap \<Rightarrow> 'a \<Rightarrow> 'a run" where
  "list_for_each_entry n head body h a =
     bind_run (list_first_entry head h) (\<lambda>p. list_for_each_from n p head body h a)"

definition list_for_each_entry_reverse :: "nat \<Rightarrow> laddr \<Rightarrow> (laddr \<Rightarrow> 'a \<Rightarrow> 'a run) \<Rightarrow> lheap \<Rightarrow> 'a \<Rightarrow> 'a run" where
  "list_for_each_entry_reverse n head body h a =
     bind_run (list_last_entry head h) (\<lambda>p. list_for_each_prev_from n p head body h a)"

definition list_for_each_entry_continue ::
  "nat \<Rightarrow> laddr \<Rightarrow> laddr \<Rightarrow> (laddr \<Rightarrow> 'a \<Rightarrow> 'a run) \<Rightarrow> lheap \<Rightarrow> 'a \<Rightarrow> 'a run" where
  "list_for_each_entry_continue n pos head body h a =
     bind_run (list_next_entry pos h) (\<lambda>p. list_for_each_from n p head body h a)"

definition list_for_each_entry_continue_reverse ::
  "nat \<Rightarrow> laddr \<Rightarrow> laddr \<Rightarrow> (laddr \<Rightarrow> 'a \<Rightarrow> 'a run) \<Rightarrow> lheap \<Rightarrow> 'a \<Rightarrow> 'a run" where
  "list_for_each_entry_continue_reverse n pos head body h a =
     bind_run (list_prev_entry pos h) (\<lambda>p. list_for_each_prev_from n p head body h a)"

definition list_for_each_entry_from ::
  "nat \<Rightarrow> laddr \<Rightarrow> laddr \<Rightarrow> (laddr \<Rightarrow> 'a \<Rightarrow> 'a run) \<Rightarrow> lheap \<Rightarrow> 'a \<Rightarrow> 'a run" where
  "list_for_each_entry_from n pos head body h a = list_for_each_from n pos head body h a"

definition list_for_each_entry_safe :: "nat \<Rightarrow> laddr \<Rightarrow> (laddr \<Rightarrow> lheap \<Rightarrow> lheap run) \<Rightarrow> lheap \<Rightarrow> lheap run" where
  "list_for_each_entry_safe n head body h =
     bind_run (list_first_entry head h) (\<lambda>p.
     bind_run (list_next_entry p h) (\<lambda>nn. list_for_each_safe_from n p nn head body h))"

definition list_for_each_entry_safe_continue ::
  "nat \<Rightarrow> laddr \<Rightarrow> laddr \<Rightarrow> (laddr \<Rightarrow> lheap \<Rightarrow> lheap run) \<Rightarrow> lheap \<Rightarrow> lheap run" where
  "list_for_each_entry_safe_continue n pos head body h =
     bind_run (list_next_entry pos h) (\<lambda>p.
     bind_run (list_next_entry p h) (\<lambda>nn. list_for_each_safe_from n p nn head body h))"

definition list_for_each_entry_safe_from ::
  "nat \<Rightarrow> laddr \<Rightarrow> laddr \<Rightarrow> (laddr \<Rightarrow> lheap \<Rightarrow> lheap run) \<Rightarrow> lheap \<Rightarrow> lheap run" where
  "list_for_each_entry_safe_from n pos head body h =
     bind_run (list_next_entry pos h) (\<lambda>nn. list_for_each_safe_from n pos nn head body h)"

text \<open>Which entries they visit, in which order.\<close>

lemma entry_walks:
  assumes "ring h head xs" and "length xs \<le> n"
  shows "list_for_each_entry n head body h a = each body xs a"
    and "list_for_each_entry_reverse n head body h a = each body (rev xs) a"
  using list_for_each_ring [OF assms, of body a] list_for_each_prev_ring [OF assms, of body a]
  by (simp_all add: list_for_each_entry_def list_for_each_entry_reverse_def list_first_entry_def list_last_entry_def
      list_for_each_def list_for_each_prev_def)

lemma walks_from_entry:
  assumes r: "ring h head (us @ pos # vs)" and n: "length (us @ pos # vs) \<le> n"
  shows "list_for_each_entry_from n pos head body h a = each body (pos # vs) a"
    and "list_for_each_entry_continue n pos head body h a = each body vs a"
    and "list_for_each_entry_continue_reverse n pos head body h a = each body (rev us) a"
proof -
  show "list_for_each_entry_from n pos head body h a = each body (pos # vs) a"
    using for_each_from [OF r, of n body a] n by (simp add: list_for_each_entry_from_def)
  obtain as p m bs where p: "head # us = as @ [p]" and m: "vs @ [head] = m # bs" by (rule places)
  note nb = entry_neighbours [OF r p m]
  have "ring h head ((us @ [pos]) @ vs)" using r by simp
  from for_each_from [OF this, of n body a] show "list_for_each_entry_continue n pos head body h a = each body vs a"
    using nb(2) m n by (simp add: list_for_each_entry_continue_def list_next_entry_def)
  show "list_for_each_entry_continue_reverse n pos head body h a = each body (rev us) a"
    using for_each_prev_from [OF r, of n body a] nb(1) n unfolding p
    by (simp add: list_for_each_entry_continue_reverse_def list_prev_entry_def)
qed

text \<open>The traversal that frees a list, written with entries.\<close>

lemma entry_free_gives:
  "ring h head xs \<Longrightarrow> length xs \<le> n \<Longrightarrow>
     gives (list_for_each_entry_safe n head list_del h) h (set (head # xs)) (\<lambda>h'. ring h' head [])"
  using list_free_gives [of h head xs n]
  by (simp add: list_for_each_entry_safe_def list_for_each_safe_def list_first_entry_def list_next_entry_def)

end
