(* ===== verification/GuestRam.thy ===== *)
theory GuestRam
  imports GuestMap
begin

text \<open>
  The guest's memory mapped in advance (the part of \<^verbatim>\<open>demu.c\<close> under \<open>MAP_IN_ADVANCE\<close>): the banks of the
  memory are found and mapped once, and an address of the guest is then translated instead of mapped.  In
  this build the grant table is never used.  The layout of the banks is a header of Xen; what Xen answers
  about the domain, and the host pointer at which it maps a number of pages (null for a failure), are
  parameters.
\<close>

subsection \<open>Banks\<close>

record arch_ram =
  GUEST_RAM0_BASE :: u64
  GUEST_RAM0_SIZE :: u64
  GUEST_RAM1_BASE :: u64

record dom_answer =
  dom_rc :: int
  dom_domain :: u16
  dom_tot_pages :: u64

record guest_ram =
  host_addr :: "u64 list"
  guest_ram_base :: "u64 list"
  guest_ram_size :: "u64 list"
  live_maps :: "(u64 \<times> u32) list"

definition NR_GUEST_RAM :: nat where
  "NR_GUEST_RAM = 2"

text \<open>No answer stands for an interface that does not open.\<close>

definition xenctrl_get_dom_mem :: "dom_answer option \<Rightarrow> u16 \<Rightarrow> u64" where
  "xenctrl_get_dom_mem ans domid =
     (case ans of
        None \<Rightarrow> 0
      | Some a \<Rightarrow>
          if dom_rc a < 0 \<or> dom_domain a \<noteq> domid then 0
          else push_bit TARGET_PAGE_SHIFT (dom_tot_pages a - 4))"

definition demu_init_guest_ram :: "arch_ram \<Rightarrow> dom_answer option \<Rightarrow> u16 \<Rightarrow> guest_ram \<Rightarrow> int \<times> guest_ram" where
  "demu_init_guest_ram ar ans domid g =
     (let g0 = g\<lparr>guest_ram_base := replicate NR_GUEST_RAM 0, guest_ram_size := replicate NR_GUEST_RAM 0\<rparr>;
          m = xenctrl_get_dom_mem ans domid
      in if m = 0 then (-1, g0)
         else if m \<le> GUEST_RAM0_SIZE ar then
           (0, g0\<lparr>guest_ram_base := [GUEST_RAM0_BASE ar, 0], guest_ram_size := [m, 0]\<rparr>)
         else
           (0, g0\<lparr>guest_ram_base := [GUEST_RAM0_BASE ar, GUEST_RAM1_BASE ar],
                  guest_ram_size := [GUEST_RAM0_SIZE ar, m - GUEST_RAM0_SIZE ar]\<rparr>))"

subsection \<open>Mapping them\<close>

text \<open>\<open>demu_map_guest_range\<close> and \<open>demu_unmap_guest_range\<close> of this build, without the choice of a mode.\<close>

definition map_range_in_advance :: "(u64 \<Rightarrow> u32 \<Rightarrow> u64) \<Rightarrow> guest_ram \<Rightarrow> u64 \<Rightarrow> u64 \<Rightarrow> (u64 \<times> guest_ram) run" where
  "map_range_in_advance xfm g addr len =
     (if addr AND XEN_GRANT_ADDR_OFF \<noteq> 0 then Abort
      else
        let n = npages addr len;
            p = xfm (drop_bit TARGET_PAGE_SHIFT addr) n
        in if p = 0 then Done (0, g)
           else Done (p + (addr AND NOT TARGET_PAGE_MASK), g\<lparr>live_maps := (p, n) # live_maps g\<rparr>))"

definition unmap_range_in_advance :: "guest_ram \<Rightarrow> u64 \<Rightarrow> u64 \<Rightarrow> guest_ram" where
  "unmap_range_in_advance g ptr len =
     g\<lparr>live_maps := remove1 (ptr AND TARGET_PAGE_MASK, npages ptr len) (live_maps g)\<rparr>"

definition unmap_bank :: "nat \<Rightarrow> guest_ram \<Rightarrow> guest_ram" where
  "unmap_bank i g =
     (if host_addr g ! i \<noteq> 0 then
        (unmap_range_in_advance g (host_addr g ! i) (guest_ram_size g ! i))\<lparr>host_addr := (host_addr g)[i := 0]\<rparr>
      else g)"

text \<open>A bank that cannot be mapped undoes the ones before it, last first.\<close>

fun map_banks :: "(u64 \<Rightarrow> u32 \<Rightarrow> u64) \<Rightarrow> nat list \<Rightarrow> guest_ram \<Rightarrow> (int \<times> guest_ram) run" where
  "map_banks xfm [] g = Done (0, g)"
| "map_banks xfm (i # is) g =
     (if host_addr g ! i \<noteq> 0 then map_banks xfm is g
      else if guest_ram_base g ! i = 0 \<or> guest_ram_size g ! i = 0 then map_banks xfm is g
      else
        bind_run (map_range_in_advance xfm g (guest_ram_base g ! i) (guest_ram_size g ! i)) (\<lambda>(p, g').
          let g'' = g'\<lparr>host_addr := (host_addr g')[i := p]\<rparr>
          in if p = 0 then Done (-1, fold unmap_bank (rev [0..<i]) g'')
             else map_banks xfm is g''))"

definition demu_map_guest_ram :: "(u64 \<Rightarrow> u32 \<Rightarrow> u64) \<Rightarrow> guest_ram \<Rightarrow> (int \<times> guest_ram) run" where
  "demu_map_guest_ram xfm g = map_banks xfm [0..<NR_GUEST_RAM] g"

definition demu_unmap_guest_ram :: "guest_ram \<Rightarrow> guest_ram" where
  "demu_unmap_guest_ram g = fold unmap_bank [0..<NR_GUEST_RAM] g"

subsection \<open>Translation\<close>

fun find_bank :: "guest_ram \<Rightarrow> u64 \<Rightarrow> nat list \<Rightarrow> u64" where
  "find_bank g a [] = 0"
| "find_bank g a (i # is) =
     (if host_addr g ! i \<noteq> 0 \<and> guest_ram_base g ! i \<le> a \<and> a < guest_ram_base g ! i + guest_ram_size g ! i
      then host_addr g ! i + (a - guest_ram_base g ! i)
      else find_bank g a is)"

definition demu_get_host_addr :: "guest_ram \<Rightarrow> u64 \<Rightarrow> u64 run" where
  "demu_get_host_addr g off =
     (if off AND XEN_GRANT_ADDR_OFF \<noteq> 0 then Abort else Done (find_bank g off [0..<NR_GUEST_RAM]))"

section \<open>Properties\<close>

text \<open>
  What the code relies on: the banks are aligned to pages, not at 0, and in order; Xen maps pages at a
  page boundary of the host's address space, inside it.
\<close>

definition arch_ok :: "arch_ram \<Rightarrow> bool" where
  "arch_ok ar \<longleftrightarrow> GUEST_RAM0_BASE ar \<noteq> 0 \<and> GUEST_RAM0_SIZE ar \<noteq> 0 \<and>
     unat (GUEST_RAM0_BASE ar) mod 4096 = 0 \<and> unat (GUEST_RAM0_SIZE ar) mod 4096 = 0 \<and>
     unat (GUEST_RAM1_BASE ar) mod 4096 = 0 \<and>
     unat (GUEST_RAM0_BASE ar) + unat (GUEST_RAM0_SIZE ar) \<le> unat (GUEST_RAM1_BASE ar)"

definition maps_ok :: "(u64 \<Rightarrow> u32 \<Rightarrow> u64) \<Rightarrow> bool" where
  "maps_ok xfm \<longleftrightarrow> (\<forall>f n. xfm f n \<noteq> 0 \<longrightarrow>
     xfm f n AND NOT TARGET_PAGE_MASK = 0 \<and> unat (xfm f n) + 4096 * unat n < 2 ^ 64)"

text \<open>Where the byte \<open>k\<close> of the guest's memory is: in the first bank as far as it goes, then in the second.\<close>

definition guest_byte :: "arch_ram \<Rightarrow> nat \<Rightarrow> u64" where
  "guest_byte ar k =
     (if k < unat (GUEST_RAM0_SIZE ar) then GUEST_RAM0_BASE ar + of_nat k
      else GUEST_RAM1_BASE ar + of_nat (k - unat (GUEST_RAM0_SIZE ar)))"

lemma in_range_iff:
  fixes b :: u64
  assumes "unat b + unat s < 2 ^ 64"
  shows "b \<le> a \<and> a < b + s \<longleftrightarrow> unat b \<le> unat a \<and> unat a < unat b + unat s"
  using unat_add64 [OF assms] by (simp add: word_le_nat_alt word_less_nat_alt)

lemma page_offset: "unat (b :: u64) mod 4096 = 0 \<Longrightarrow> b AND NOT TARGET_PAGE_MASK = 0"
proof -
  assume "unat b mod 4096 = 0"
  then have "unat (take_bit 12 b) = 0" by (simp add: unat_take_bit64)
  then show ?thesis by (simp add: page_mask take_bit_eq_mask [symmetric] unsigned_0 unat_eq_0)
qed

lemma aligned_page: "(p :: u64) AND NOT TARGET_PAGE_MASK = 0 \<Longrightarrow> p AND TARGET_PAGE_MASK = p"
  using page_split [of p] by simp

lemma npages_aligned:
  "p AND NOT TARGET_PAGE_MASK = 0 \<Longrightarrow> b AND NOT TARGET_PAGE_MASK = 0 \<Longrightarrow> npages p len = npages b len"
  by (simp add: npages_def)

lemma banks_upt: "[0..<NR_GUEST_RAM] = [0, 1]"
  by (simp add: NR_GUEST_RAM_def upt_rec)

lemma all_banks: "(\<forall>i < NR_GUEST_RAM. P i) \<longleftrightarrow> P 0 \<and> P (Suc 0)"
  by (auto simp: NR_GUEST_RAM_def less_2_cases_iff)

definition banks_ok :: "guest_ram \<Rightarrow> bool" where
  "banks_ok g \<longleftrightarrow> (\<exists>b0 b1 s0 s1. guest_ram_base g = [b0, b1] \<and> guest_ram_size g = [s0, s1] \<and>
     b0 AND NOT TARGET_PAGE_MASK = 0 \<and> b1 AND NOT TARGET_PAGE_MASK = 0)"

lemma bank_range_result:
  assumes "map_range_in_advance xfm g b len = Done (p, g')" and "maps_ok xfm" and "b AND NOT TARGET_PAGE_MASK = 0"
  shows "p = xfm (drop_bit TARGET_PAGE_SHIFT b) (npages b len) \<and> p AND NOT TARGET_PAGE_MASK = 0 \<and>
    (p \<noteq> 0 \<longrightarrow> unat p + 4096 * unat (npages b len) < 2 ^ 64) \<and>
    g' = (if p = 0 then g else g\<lparr>live_maps := (p, npages b len) # live_maps g\<rparr>)"
  using assms by (auto simp: map_range_in_advance_def maps_ok_def Let_def split: if_splits)

lemma map_banks_Cons:
  assumes "map_banks xfm (i # is) g = Done (rc, g')" and "host_addr g ! i = 0" and "maps_ok xfm"
    and "guest_ram_base g ! i AND NOT TARGET_PAGE_MASK = 0"
  obtains (unused) "guest_ram_base g ! i = 0 \<or> guest_ram_size g ! i = 0" "map_banks xfm is g = Done (rc, g')"
  | (fails) "guest_ram_base g ! i \<noteq> 0" "guest_ram_size g ! i \<noteq> 0" "rc = -1"
      "g' = fold unmap_bank (rev [0..<i]) (g\<lparr>host_addr := (host_addr g)[i := 0]\<rparr>)"
  | (mapped) p where "guest_ram_base g ! i \<noteq> 0" "guest_ram_size g ! i \<noteq> 0" "p \<noteq> 0" "p AND NOT TARGET_PAGE_MASK = 0"
      "unat p + 4096 * unat (npages (guest_ram_base g ! i) (guest_ram_size g ! i)) < 2 ^ 64"
      "map_banks xfm is (g\<lparr>host_addr := (host_addr g)[i := p],
         live_maps := (p, npages (guest_ram_base g ! i) (guest_ram_size g ! i)) # live_maps g\<rparr>) = Done (rc, g')"
proof (cases "guest_ram_base g ! i = 0 \<or> guest_ram_size g ! i = 0")
  case True
  then show thesis using assms(1,2) unused by auto
next
  case False
  then obtain p g1 where 1: "map_range_in_advance xfm g (guest_ram_base g ! i) (guest_ram_size g ! i) = Done (p, g1)"
      "(if p = 0 then Done (-1, fold unmap_bank (rev [0..<i]) (g1\<lparr>host_addr := (host_addr g1)[i := p]\<rparr>))
        else map_banks xfm is (g1\<lparr>host_addr := (host_addr g1)[i := p]\<rparr>)) = Done (rc, g')"
    using assms(1,2) by (auto simp: bind_run_Done_iff Let_def simp del: map_banks.simps(1))
  note r = bank_range_result [OF 1(1) assms(3,4)]
  show thesis
  proof (cases "p = 0")
    case True
    then show thesis using 1(2) r False fails by auto
  next
    case p: False
    have c: "g\<lparr>live_maps := x, host_addr := y\<rparr> = g\<lparr>host_addr := y, live_maps := x\<rparr>" for x y by (cases g) simp
    show thesis by (rule mapped [of p]) (use 1(2) r False p in \<open>auto simp: c\<close>)
  qed
qed

text \<open>What \<open>demu_map_guest_ram\<close> has done when it succeeds: each bank with memory has a mapping of its own.\<close>

lemma map_second:
  assumes "map_banks xfm [1] g = Done (rc, g')" and "host_addr g = [p0, 0]" and "maps_ok xfm"
    and "guest_ram_base g = [b0, b1]" and "guest_ram_size g = [s0, s1]" and "b1 AND NOT TARGET_PAGE_MASK = 0"
  obtains (failed) "rc = -1" "g' = unmap_bank 0 g"
  | (mapped) p1 where "rc = 0" "p1 \<noteq> 0 \<longleftrightarrow> b1 \<noteq> 0 \<and> s1 \<noteq> 0" "p1 AND NOT TARGET_PAGE_MASK = 0"
      "p1 \<noteq> 0 \<Longrightarrow> unat p1 + 4096 * unat (npages b1 s1) < 2 ^ 64"
      "g' = g\<lparr>host_addr := [p0, p1], live_maps := (if p1 \<noteq> 0 then [(p1, npages b1 s1)] else []) @ live_maps g\<rparr>"
proof (cases rule: map_banks_Cons [OF assms(1) _ assms(3)])
  case 1
  show ?case using assms(2) by simp
next
  case 2
  show ?case using assms(4,6) by simp
next
  case 3
  have "g' = g\<lparr>host_addr := [p0, 0], live_maps := live_maps g\<rparr>" "rc = 0" using 3 assms(2) by auto
  then show thesis using mapped [of 0] 3 assms(4,5) by simp
next
  case 4
  have e: "g\<lparr>host_addr := [p0, 0]\<rparr> = g" using assms(2) by (cases g) simp
  have "g' = unmap_bank 0 (g\<lparr>host_addr := [p0, 0]\<rparr>)" using 4(4) assms(2) by simp
  then have "g' = unmap_bank 0 g" unfolding e .
  then show thesis by (rule failed [OF 4(3)])
next
  case (5 p)
  then show thesis using mapped [of p] assms(2,4,5) by simp
qed

lemma unmap_first:
  assumes "host_addr g = [p0, p1]" and "p0 AND NOT TARGET_PAGE_MASK = 0" and "b0 AND NOT TARGET_PAGE_MASK = 0"
    and "guest_ram_base g = [b0, b1]" and "guest_ram_size g = [s0, s1]"
  shows "unmap_bank 0 g = g\<lparr>host_addr := [0, p1],
    live_maps := (if p0 \<noteq> 0 then remove1 (p0, npages b0 s0) (live_maps g) else live_maps g)\<rparr>"
  using assms by (auto simp: unmap_bank_def unmap_range_in_advance_def aligned_page npages_aligned [OF assms(2,3)])

lemma unmap_second:
  assumes "host_addr g = [p0, p1]" and "p1 AND NOT TARGET_PAGE_MASK = 0" and "b1 AND NOT TARGET_PAGE_MASK = 0"
    and "guest_ram_base g = [b0, b1]" and "guest_ram_size g = [s0, s1]"
  shows "unmap_bank 1 g = g\<lparr>host_addr := [p0, 0],
    live_maps := (if p1 \<noteq> 0 then remove1 (p1, npages b1 s1) (live_maps g) else live_maps g)\<rparr>"
  using assms by (auto simp: unmap_bank_def unmap_range_in_advance_def aligned_page npages_aligned [OF assms(2,3)])

lemma map_guest_ram_cases:
  assumes "demu_map_guest_ram xfm g = Done (rc, g')" and "host_addr g = [0, 0]" and "maps_ok xfm"
    and "guest_ram_base g = [b0, b1]" and "guest_ram_size g = [s0, s1]"
    and "b0 AND NOT TARGET_PAGE_MASK = 0" and "b1 AND NOT TARGET_PAGE_MASK = 0"
  obtains (failed) "rc = -1" "host_addr g' = [0, 0]" "live_maps g' = live_maps g"
  | (mapped) p0 p1 where "rc = 0" "p0 \<noteq> 0 \<longleftrightarrow> b0 \<noteq> 0 \<and> s0 \<noteq> 0" "p1 \<noteq> 0 \<longleftrightarrow> b1 \<noteq> 0 \<and> s1 \<noteq> 0"
      "p0 AND NOT TARGET_PAGE_MASK = 0" "p1 AND NOT TARGET_PAGE_MASK = 0"
      "p0 \<noteq> 0 \<Longrightarrow> unat p0 + 4096 * unat (npages b0 s0) < 2 ^ 64" "p1 \<noteq> 0 \<Longrightarrow> unat p1 + 4096 * unat (npages b1 s1) < 2 ^ 64"
      "g' = g\<lparr>host_addr := [p0, p1], live_maps := (if p1 \<noteq> 0 then [(p1, npages b1 s1)] else []) @
         (if p0 \<noteq> 0 then [(p0, npages b0 s0)] else []) @ live_maps g\<rparr>"
proof (cases rule: map_banks_Cons [OF assms(1) [unfolded demu_map_guest_ram_def banks_upt] _ assms(3)])
  case 1
  show ?case using assms(2) by simp
next
  case 2
  show ?case using assms(4,6) by simp
next
  case 3
  show thesis
  proof (cases rule: map_second [OF 3(2) assms(2,3,4,5,7)])
    case 1
    then show thesis using failed assms(2) by (simp add: unmap_bank_def)
  next
    case (2 p1)
    show thesis by (rule mapped [of 0 p1]) (use 2 3 assms(4,5) in auto)
  qed
next
  case 4
  then show thesis using failed assms(2) by simp
next
  case (5 p)
  let ?g = "g\<lparr>host_addr := [p, 0], live_maps := (p, npages b0 s0) # live_maps g\<rparr>"
  have m: "map_banks xfm [1] ?g = Done (rc, g')" using 5(6) assms(2,4,5) by simp
  have s: "host_addr ?g = [p, 0]" "guest_ram_base ?g = [b0, b1]" "guest_ram_size ?g = [s0, s1]" using assms(4,5) by auto
  show thesis
  proof (cases rule: map_second [OF m s(1) assms(3) s(2,3) assms(7)])
    case 1
    then show thesis using failed unmap_first [OF s(1) 5(4) assms(6) s(2,3)] 5(3) by simp
  next
    case (2 p1)
    show thesis by (rule mapped [of p p1]) (use 2 5 assms(4,5) in auto)
  qed
qed

text \<open>
  C34: Mapping the guest's memory takes all its banks or none: when a bank cannot be mapped the ones before
  it are unmapped again and nothing is left, and unmapping the banks after a success restores the mappings
  there were before.
\<close>

theorem guest_ram_all_or_none:
  assumes "demu_map_guest_ram xfm g = Done (rc, g')" and "host_addr g = [0, 0]" and "banks_ok g" and "maps_ok xfm"
  shows "if rc < 0 then host_addr g' = [0, 0] \<and> live_maps g' = live_maps g
    else (\<forall>i < NR_GUEST_RAM. host_addr g' ! i \<noteq> 0 \<longleftrightarrow> guest_ram_base g ! i \<noteq> 0 \<and> guest_ram_size g ! i \<noteq> 0) \<and>
      host_addr (demu_unmap_guest_ram g') = [0, 0] \<and> live_maps (demu_unmap_guest_ram g') = live_maps g"
proof -
  obtain b0 b1 s0 s1 where g: "guest_ram_base g = [b0, b1]" "guest_ram_size g = [s0, s1]"
      "b0 AND NOT TARGET_PAGE_MASK = 0" "b1 AND NOT TARGET_PAGE_MASK = 0"
    using assms(3) by (auto simp: banks_ok_def)
  show ?thesis
  proof (cases rule: map_guest_ram_cases [OF assms(1,2,4) g])
    case 1
    then show ?thesis by simp
  next
    case (2 p0 p1)
    have h: "host_addr g' = [p0, p1]" "guest_ram_base g' = [b0, b1]" "guest_ram_size g' = [s0, s1]" using 2(8) g by auto
    note u0 = unmap_first [OF h(1) 2(4) g(3) h(2,3)]
    have s: "host_addr (unmap_bank 0 g') = [0, p1]" "guest_ram_base (unmap_bank 0 g') = [b0, b1]"
        "guest_ram_size (unmap_bank 0 g') = [s0, s1]" using u0 h by auto
    note u1 = unmap_second [OF s(1) 2(5) g(4) s(2,3)]
    have "host_addr (demu_unmap_guest_ram g') = [0, 0]"
      unfolding demu_unmap_guest_ram_def banks_upt using u1 by simp
    moreover have "live_maps (demu_unmap_guest_ram g') = live_maps g"
      unfolding demu_unmap_guest_ram_def banks_upt using u1 u0 2(8) by auto
    ultimately show ?thesis using 2(1-3) h(1) g(1,2) by (simp add: all_banks)
  qed
qed

text \<open>Banks at 1 GiB and 8 GiB, mapped one to one; 8 KiB in the first bank leave two pages for the second.\<close>

definition sample_arch :: arch_ram where
  "sample_arch = \<lparr>GUEST_RAM0_BASE = 0x40000000, GUEST_RAM0_SIZE = 0x2000, GUEST_RAM1_BASE = 0x200000000\<rparr>"

definition sample_xfm :: "u64 \<Rightarrow> u32 \<Rightarrow> u64" where
  "sample_xfm f n = (if f = 0x40000 \<and> n = 2 then 0x7000 else if f = 0x200000 \<and> n = 2 then 0x9000 else 0)"

lemma sample_maps: "maps_ok sample_xfm"
  by (auto simp: maps_ok_def sample_xfm_def page_mask mask_eq_exp_minus_1)

definition full_ram :: guest_ram where
  "full_ram = \<lparr>host_addr = [0, 0], guest_ram_base = [0x40000000, 0x200000000], guest_ram_size = [0x2000, 0x3000],
     live_maps = []\<rparr>"

lemma full_ram_run: "(case demu_map_guest_ram sample_xfm full_ram of Done (rc, g) \<Rightarrow> rc = -1 | _ \<Rightarrow> False)"
  by code_simp

theorem guest_ram_all_or_none_witness:
  "\<exists>g. demu_map_guest_ram sample_xfm full_ram = Done (-1, g) \<and> host_addr g = [0, 0] \<and> live_maps g = []"
proof -
  obtain g where g: "demu_map_guest_ram sample_xfm full_ram = Done (-1, g)"
    using full_ram_run by (auto split: run.splits)
  have b: "banks_ok full_ram" by (simp add: banks_ok_def full_ram_def page_offset)
  have h: "host_addr full_ram = [0, 0]" "live_maps full_ram = []" by (simp_all add: full_ram_def)
  show ?thesis using guest_ram_all_or_none [OF g h(1) b sample_maps] g h(2) by simp
qed

lemma no_grant_bit: "unat (a :: u64) < 2 ^ 43 \<Longrightarrow> a AND XEN_GRANT_ADDR_OFF = 0"
proof -
  assume a: "unat a < 2 ^ 43"
  then have "unat (take_bit 43 a) = unat a" by (simp add: unat_take_bit64)
  then have "take_bit 43 a = a" by (simp only: word_unat_eq_iff)
  then have "\<not> bit a 63" by (metis bit_take_bit_iff less_imp_not_less numeral_less_iff semiring_norm(76,78,80,81))
  then show ?thesis unfolding XEN_GRANT_ADDR_OFF_def push_bit_of_1 by (simp only: and_exp_eq_0_iff_not_bit not_False_eq_True)
qed

lemma offset_back: "unat (b :: u64) \<le> unat a \<Longrightarrow> b + of_nat (unat a - unat b) = a"
  by (simp add: of_nat_diff)

lemma find_banks:
  assumes "host_addr g = [p0, p1]" and "guest_ram_base g = [b0, b1]" and "guest_ram_size g = [s0, s1]"
    and "unat b0 + unat s0 < 2 ^ 64" and "unat b1 + unat s1 < 2 ^ 64"
  shows "find_bank g a [0..<NR_GUEST_RAM] =
    (if p0 \<noteq> 0 \<and> unat b0 \<le> unat a \<and> unat a < unat b0 + unat s0 then p0 + (a - b0)
     else if p1 \<noteq> 0 \<and> unat b1 \<le> unat a \<and> unat a < unat b1 + unat s1 then p1 + (a - b1) else 0)"
  using assms(1-3) in_range_iff [OF assms(4), of a] in_range_iff [OF assms(5), of a] by (auto simp: banks_upt)

lemma bank_offset:
  fixes b p :: u64
  assumes "b AND NOT TARGET_PAGE_MASK = 0" and "unat p + 4096 * unat (npages b s) < 2 ^ 64" and "unat s < 2 ^ 43" and "k < unat s"
  shows "unat (p + of_nat k) = unat p + k \<and> k < 4096 * unat (npages b s)"
proof -
  have "unat b mod 4096 = unat (b AND NOT TARGET_PAGE_MASK)"
    by (simp add: page_mask take_bit_eq_mask [symmetric] unat_take_bit64)
  then have "unat (npages b s) = (unat s + 4095) div 4096" using assms(1,3) npages_spec [of s b] by simp
  then have "unat s \<le> 4096 * unat (npages b s)" by simp
  then show ?thesis using assms(2,4) by (simp add: unat_add_of_nat)
qed

text \<open>The banks that a size of the memory gives, in the two cases of \<open>demu_init_guest_ram\<close>.\<close>

lemma init_guest_ram_cases:
  assumes "demu_init_guest_ram ar ans domid g0 = (0, g)" and "arch_ok ar"
    and "unat (GUEST_RAM1_BASE ar) + unat (xenctrl_get_dom_mem ans domid) < 2 ^ 43"
  obtains b1 s0 s1 where "guest_ram_base g = [GUEST_RAM0_BASE ar, b1]" "guest_ram_size g = [s0, s1]"
    "host_addr g = host_addr g0" "live_maps g = live_maps g0" "s0 \<noteq> 0"
    "unat s0 + unat s1 = unat (xenctrl_get_dom_mem ans domid)" "unat s0 \<le> unat (GUEST_RAM0_SIZE ar)"
    "s1 \<noteq> 0 \<longleftrightarrow> b1 \<noteq> 0 \<and> s1 \<noteq> 0" "s1 \<noteq> 0 \<Longrightarrow> b1 = GUEST_RAM1_BASE ar \<and> s0 = GUEST_RAM0_SIZE ar"
    "b1 = 0 \<or> b1 = GUEST_RAM1_BASE ar"
proof -
  let ?m = "xenctrl_get_dom_mem ans domid"
  have "?m \<noteq> 0" using assms(1) by (auto simp: demu_init_guest_ram_def Let_def)
  show thesis
  proof (cases "?m \<le> GUEST_RAM0_SIZE ar")
    case True
    then show thesis using that [of 0 ?m 0] assms \<open>?m \<noteq> 0\<close>
      by (auto simp: demu_init_guest_ram_def Let_def word_le_nat_alt)
  next
    case False
    have "GUEST_RAM1_BASE ar \<noteq> 0" "GUEST_RAM0_SIZE ar \<noteq> 0"
      using assms(2) by (auto simp: arch_ok_def unat_eq_0)
    moreover have "unat (?m - GUEST_RAM0_SIZE ar) = unat ?m - unat (GUEST_RAM0_SIZE ar)"
      using False by (simp add: unat_sub not_le less_imp_le)
    ultimately show thesis
      using that [of "GUEST_RAM1_BASE ar" "GUEST_RAM0_SIZE ar" "?m - GUEST_RAM0_SIZE ar"] assms False \<open>?m \<noteq> 0\<close>
      by (auto simp: demu_init_guest_ram_def Let_def word_le_nat_alt)
  qed
qed

text \<open>
  The guest's memory after it was mapped: the second bank begins at \<open>b1\<close> (0 when there is none), the banks
  have \<open>s0\<close> and \<open>s1\<close> bytes and are mapped at \<open>p0\<close> and \<open>p1\<close>.
\<close>

definition laid_out :: "arch_ram \<Rightarrow> guest_ram \<Rightarrow> u64 \<Rightarrow> u64 \<Rightarrow> u64 \<Rightarrow> u64 \<Rightarrow> u64 \<Rightarrow> u64 \<Rightarrow> bool" where
  "laid_out ar g m b1 s0 s1 p0 p1 \<longleftrightarrow>
     host_addr g = [p0, p1] \<and> guest_ram_base g = [GUEST_RAM0_BASE ar, b1] \<and> guest_ram_size g = [s0, s1] \<and>
     GUEST_RAM0_BASE ar AND NOT TARGET_PAGE_MASK = 0 \<and> b1 AND NOT TARGET_PAGE_MASK = 0 \<and>
     unat (GUEST_RAM0_BASE ar) + unat s0 \<le> unat (GUEST_RAM1_BASE ar) \<and>
     unat (GUEST_RAM0_BASE ar) + unat s0 < 2 ^ 43 \<and> unat b1 + unat s1 < 2 ^ 43 \<and>
     unat s0 + unat s1 = unat m \<and> unat s0 \<le> unat (GUEST_RAM0_SIZE ar) \<and>
     (s1 \<noteq> 0 \<longrightarrow> b1 = GUEST_RAM1_BASE ar \<and> s0 = GUEST_RAM0_SIZE ar) \<and> p0 \<noteq> 0 \<and> (p1 \<noteq> 0 \<longleftrightarrow> s1 \<noteq> 0) \<and>
     unat p0 + 4096 * unat (npages (GUEST_RAM0_BASE ar) s0) < 2 ^ 64 \<and>
     (s1 \<noteq> 0 \<longrightarrow> unat p1 + 4096 * unat (npages b1 s1) < 2 ^ 64) \<and>
     (p0, npages (GUEST_RAM0_BASE ar) s0) \<in> set (live_maps g) \<and> (s1 \<noteq> 0 \<longrightarrow> (p1, npages b1 s1) \<in> set (live_maps g))"

lemma mapped_laid_out:
  assumes "arch_ok ar" and "maps_ok xfm" and "host_addr g0 = [0, 0]"
    and "unat (GUEST_RAM1_BASE ar) + unat (xenctrl_get_dom_mem ans domid) < 2 ^ 43"
    and "demu_init_guest_ram ar ans domid g0 = (0, g1)" and "demu_map_guest_ram xfm g1 = Done (0, g)"
  shows "\<exists>b1 s0 s1 p0 p1. laid_out ar g (xenctrl_get_dom_mem ans domid) b1 s0 s1 p0 p1"
proof -
  let ?b0 = "GUEST_RAM0_BASE ar" and ?m = "xenctrl_get_dom_mem ans domid"
  obtain b1 s0 s1 where i: "guest_ram_base g1 = [?b0, b1]" "guest_ram_size g1 = [s0, s1]" "host_addr g1 = host_addr g0"
      "s0 \<noteq> 0" "unat s0 + unat s1 = unat ?m" "unat s0 \<le> unat (GUEST_RAM0_SIZE ar)" "s1 \<noteq> 0 \<longleftrightarrow> b1 \<noteq> 0 \<and> s1 \<noteq> 0"
      "s1 \<noteq> 0 \<Longrightarrow> b1 = GUEST_RAM1_BASE ar \<and> s0 = GUEST_RAM0_SIZE ar" "b1 = 0 \<or> b1 = GUEST_RAM1_BASE ar"
    by (rule init_guest_ram_cases [OF assms(5,1,4)]) blast
  have al: "?b0 AND NOT TARGET_PAGE_MASK = 0" "b1 AND NOT TARGET_PAGE_MASK = 0"
    using assms(1) i(9) by (auto simp: arch_ok_def intro: page_offset)
  have fit: "unat ?b0 + unat s0 \<le> unat (GUEST_RAM1_BASE ar)" "unat b1 + unat s1 < 2 ^ 43" "unat ?b0 + unat s0 < 2 ^ 43"
    using assms(1,4) i(5,6,9) by (auto simp: arch_ok_def)
  have h1: "host_addr g1 = [0, 0]" using i(3) assms(3) by simp
  show ?thesis
  proof (cases rule: map_guest_ram_cases [OF assms(6) h1 assms(2) i(1,2) al])
    case 1
    then show ?thesis by simp
  next
    case (2 p0 p1)
    have p: "p0 \<noteq> 0" "p1 \<noteq> 0 \<longleftrightarrow> s1 \<noteq> 0" using 2(2,3) i(4,7) assms(1) by (auto simp: arch_ok_def)
    then have "laid_out ar g ?m b1 s0 s1 p0 p1" using 2(6,7,8) i(1,2,5,6,8) al fit by (auto simp: laid_out_def)
    then show ?thesis by blast
  qed
qed

lemma laid_find:
  assumes "laid_out ar g m b1 s0 s1 p0 p1"
  shows "find_bank g a [0..<NR_GUEST_RAM] =
     (if unat (GUEST_RAM0_BASE ar) \<le> unat a \<and> unat a < unat (GUEST_RAM0_BASE ar) + unat s0 then p0 + (a - GUEST_RAM0_BASE ar)
      else if s1 \<noteq> 0 \<and> unat b1 \<le> unat a \<and> unat a < unat b1 + unat s1 then p1 + (a - b1) else 0)"
proof -
  have h: "host_addr g = [p0, p1]" "guest_ram_base g = [GUEST_RAM0_BASE ar, b1]" "guest_ram_size g = [s0, s1]"
      "unat (GUEST_RAM0_BASE ar) + unat s0 < 2 ^ 64" "unat b1 + unat s1 < 2 ^ 64" "p0 \<noteq> 0" "p1 \<noteq> 0 \<longleftrightarrow> s1 \<noteq> 0"
    using assms by (simp_all add: laid_out_def)
  show ?thesis unfolding find_banks [OF h(1-5)] using h(6,7) by (simp cong: if_cong)
qed

lemma laid_low:
  assumes l: "laid_out ar g m b1 s0 s1 p0 p1" and "k < unat m" and "k < unat (GUEST_RAM0_SIZE ar)"
  shows "demu_get_host_addr g (guest_byte ar k) = Done (p0 + of_nat k) \<and>
    unat (p0 + of_nat k) = unat p0 + k \<and> k < 4096 * unat (npages (GUEST_RAM0_BASE ar) s0)"
proof -
  have k: "k < unat s0" using assms by (cases "s1 = 0") (auto simp: laid_out_def)
  have u: "unat (GUEST_RAM0_BASE ar + of_nat k) = unat (GUEST_RAM0_BASE ar) + k" "unat (GUEST_RAM0_BASE ar) + k < 2 ^ 43"
    using k l by (simp_all add: laid_out_def unat_add_of_nat)
  have "demu_get_host_addr g (guest_byte ar k) = Done (p0 + of_nat k)"
    using assms(3) k u by (simp add: demu_get_host_addr_def guest_byte_def no_grant_bit laid_find [OF l])
  then show ?thesis using l bank_offset [OF _ _ _ k, of "GUEST_RAM0_BASE ar" p0] by (simp add: laid_out_def)
qed

lemma laid_high:
  assumes l: "laid_out ar g m b1 s0 s1 p0 p1" and "unat (GUEST_RAM0_SIZE ar) + j < unat m"
  shows "s1 \<noteq> 0 \<and> demu_get_host_addr g (guest_byte ar (unat (GUEST_RAM0_SIZE ar) + j)) = Done (p1 + of_nat j) \<and>
    unat (p1 + of_nat j) = unat p1 + j \<and> j < 4096 * unat (npages b1 s1)"
proof -
  have s1: "s1 \<noteq> 0" using assms by (cases "s1 = 0") (auto simp: laid_out_def)
  then have b1: "b1 = GUEST_RAM1_BASE ar" "s0 = GUEST_RAM0_SIZE ar" using l by (auto simp: laid_out_def)
  then have j: "j < unat s1" using assms by (simp add: laid_out_def)
  define a where "a = b1 + of_nat j"
  have u: "unat a = unat b1 + j" "unat b1 + j < 2 ^ 43" using j l by (simp_all add: a_def laid_out_def unat_add_of_nat)
  have "unat (GUEST_RAM0_BASE ar) + unat s0 \<le> unat b1" using l b1 by (simp add: laid_out_def)
  then have "find_bank g a [0..<NR_GUEST_RAM] = p1 + (a - b1)" using s1 j u by (simp add: laid_find [OF l])
  then have "demu_get_host_addr g (guest_byte ar (unat (GUEST_RAM0_SIZE ar) + j)) = Done (p1 + of_nat j)"
    using u b1 by (simp add: demu_get_host_addr_def guest_byte_def no_grant_bit a_def)
  moreover have w: "b1 AND NOT TARGET_PAGE_MASK = 0" "unat p1 + 4096 * unat (npages b1 s1) < 2 ^ 64"
    using l s1 unfolding laid_out_def by blast+
  have "unat (p1 + of_nat j) = unat p1 + j \<and> j < 4096 * unat (npages b1 s1)"
    using bank_offset [OF w _ j] l by (simp add: laid_out_def)
  ultimately show ?thesis using s1 by blast
qed

lemma laid_only:
  assumes l: "laid_out ar g m b1 s0 s1 p0 p1" and "a AND XEN_GRANT_ADDR_OFF = 0" and "demu_get_host_addr g a \<noteq> Done 0"
  shows "a \<in> guest_byte ar ` {..<unat m}"
proof -
  consider "unat (GUEST_RAM0_BASE ar) \<le> unat a" "unat a < unat (GUEST_RAM0_BASE ar) + unat s0"
    | "s1 \<noteq> 0" "unat b1 \<le> unat a" "unat a < unat b1 + unat s1"
    using assms(2,3) by (auto simp: demu_get_host_addr_def laid_find [OF l] split: if_splits)
  then show ?thesis
  proof cases
    case 1
    then have "a = guest_byte ar (unat a - unat (GUEST_RAM0_BASE ar))" "unat a - unat (GUEST_RAM0_BASE ar) < unat m"
      using l by (auto simp: laid_out_def guest_byte_def offset_back)
    then show ?thesis by blast
  next
    case 2
    let ?k = "unat (GUEST_RAM0_SIZE ar) + (unat a - unat b1)"
    have "a = guest_byte ar ?k" "?k < unat m" using 2 l by (auto simp: laid_out_def guest_byte_def offset_back)
    then show ?thesis by blast
  qed
qed

text \<open>
  C29: Once the banks are mapped the translation reaches all of the guest's memory and nothing else: each
  of its bytes is translated to a byte of a live mapping, as far behind the start of its bank's mapping
  as the byte is behind the start of the bank, and every other address of the guest is refused.
\<close>

theorem guest_ram_translates:
  assumes "arch_ok ar" and "maps_ok xfm" and "host_addr g0 = [0, 0]"
    and "unat (GUEST_RAM1_BASE ar) + unat (xenctrl_get_dom_mem ans domid) < 2 ^ 43"
    and "demu_init_guest_ram ar ans domid g0 = (0, g1)" and "demu_map_guest_ram xfm g1 = Done (0, g)"
  shows "(\<forall>k < unat (xenctrl_get_dom_mem ans domid). \<exists>(p, n)\<in>set (live_maps g). \<exists>q.
      demu_get_host_addr g (guest_byte ar k) = Done q \<and> q \<noteq> 0 \<and>
      unat q = unat p + (if k < unat (GUEST_RAM0_SIZE ar) then k else k - unat (GUEST_RAM0_SIZE ar)) \<and>
      unat q < unat p + 4096 * unat n) \<and>
    (\<forall>a. a AND XEN_GRANT_ADDR_OFF = 0 \<and> a \<notin> guest_byte ar ` {..<unat (xenctrl_get_dom_mem ans domid)} \<longrightarrow>
      demu_get_host_addr g a = Done 0)"
proof -
  let ?m = "xenctrl_get_dom_mem ans domid"
  obtain b1 s0 s1 p0 p1 where l: "laid_out ar g ?m b1 s0 s1 p0 p1" using mapped_laid_out [OF assms] by blast
  have p: "p0 \<noteq> 0" "s1 \<noteq> 0 \<Longrightarrow> p1 \<noteq> 0" "(p0, npages (GUEST_RAM0_BASE ar) s0) \<in> set (live_maps g)"
      "s1 \<noteq> 0 \<Longrightarrow> (p1, npages b1 s1) \<in> set (live_maps g)"
    using l by (auto simp: laid_out_def)
  have "\<exists>(p, n)\<in>set (live_maps g). \<exists>q. demu_get_host_addr g (guest_byte ar k) = Done q \<and> q \<noteq> 0 \<and>
      unat q = unat p + (if k < unat (GUEST_RAM0_SIZE ar) then k else k - unat (GUEST_RAM0_SIZE ar)) \<and>
      unat q < unat p + 4096 * unat n" if k: "k < unat ?m" for k
  proof (cases "k < unat (GUEST_RAM0_SIZE ar)")
    case True
    then show ?thesis using laid_low [OF l k] p(1) by (intro bexI [OF _ p(3)]) (auto simp: unat_gt_0 [symmetric])
  next
    case False
    then obtain j where kj: "k = unat (GUEST_RAM0_SIZE ar) + j" by (metis le_iff_add not_le)
    note h = laid_high [OF l k [unfolded kj]]
    then show ?thesis using kj p(2) by (intro bexI [OF _ p(4)]) (auto simp: unat_gt_0 [symmetric])
  qed
  then show ?thesis using laid_only [OF l] by blast
qed

definition sample_answer :: dom_answer where
  "sample_answer = \<lparr>dom_rc = 0, dom_domain = 7, dom_tot_pages = 8\<rparr>"

definition no_ram :: guest_ram where
  "no_ram = \<lparr>host_addr = [0, 0], guest_ram_base = [], guest_ram_size = [], live_maps = []\<rparr>"

definition mapped_ram :: guest_ram where
  "mapped_ram = \<lparr>host_addr = [0x7000, 0x9000], guest_ram_base = [0x40000000, 0x200000000],
     guest_ram_size = [0x2000, 0x2000], live_maps = [(0x9000, 2), (0x7000, 2)]\<rparr>"

lemma sample_mapped:
  "demu_init_guest_ram sample_arch (Some sample_answer) 7 no_ram = (0, full_ram\<lparr>guest_ram_size := [0x2000, 0x2000]\<rparr>)"
  "demu_map_guest_ram sample_xfm (full_ram\<lparr>guest_ram_size := [0x2000, 0x2000]\<rparr>) = Done (0, mapped_ram)"
  by code_simp+

theorem guest_ram_translates_witness:
  "demu_init_guest_ram sample_arch (Some sample_answer) 7 no_ram = (0, full_ram\<lparr>guest_ram_size := [0x2000, 0x2000]\<rparr>) \<and>
   demu_map_guest_ram sample_xfm (full_ram\<lparr>guest_ram_size := [0x2000, 0x2000]\<rparr>) = Done (0, mapped_ram) \<and>
   (\<exists>q. demu_get_host_addr mapped_ram (guest_byte sample_arch 0x2010) = Done q \<and> q \<noteq> 0)"
proof -
  have a: "arch_ok sample_arch" by (simp add: arch_ok_def sample_arch_def)
  have h: "host_addr no_ram = [0, 0]" by (simp add: no_ram_def)
  have m: "unat (xenctrl_get_dom_mem (Some sample_answer) 7) = 0x4000"
    by (simp add: xenctrl_get_dom_mem_def sample_answer_def TARGET_PAGE_SHIFT_def)
  then have l: "unat (GUEST_RAM1_BASE sample_arch) + unat (xenctrl_get_dom_mem (Some sample_answer) 7) < 2 ^ 43"
    by (simp add: sample_arch_def)
  note t = conjunct1 [OF guest_ram_translates [OF a sample_maps h l sample_mapped]]
  have "\<exists>q. demu_get_host_addr mapped_ram (guest_byte sample_arch 0x2010) = Done q \<and> q \<noteq> 0"
    using t [rule_format, of "0x2010"] unfolding m by auto
  then show ?thesis using sample_mapped by blast
qed

text \<open>
  Only the first byte of a buffer is translated.  The last byte of the first bank is the last one of its
  mapping, so a longer buffer there runs out of the guest's memory, and nothing refuses it.
\<close>

lemma last_byte_translated:
  "demu_get_host_addr mapped_ram 0x40001FFF = Done 0x8FFF \<and> 0x8FFF + 1 = 0x7000 + 4096 * (2 :: u64)"
  by code_simp

end
