(* ===== verification/Aio.thy ===== *)
theory Aio
  imports VecIo "HOL-Library.Multiset"
begin

text \<open>
  Asynchronous disk operations (\<^verbatim>\<open>disk/aio.c\<close>, under \<open>CONFIG_HAS_AIO\<close>): the thread that submits requests,
  the kernel that completes them in any order, and the thread that collects the completions, step by step.
  The steps of the two threads are the accesses to the counter \<open>aio_inflight\<close> and the calls of the kernel.
\<close>

subsection \<open>Requests\<close>

text \<open>What the code keeps for a request is the parameter of its callback, of a type \<open>'p\<close>.\<close>

record 'p iocb =
  cb_write :: bool
  cb_iov :: "iovec list"
  cb_offset :: u64
  cb_data :: 'p

definition AIO_MAX :: nat where [c_simps]: "AIO_MAX = 256"
definition AIO_SECTOR_SHIFT :: nat where [c_simps]: "AIO_SECTOR_SHIFT = 9"
definition EAGAIN_number :: int where [c_simps]: "EAGAIN_number = 11"

text \<open>
  \<open>aio_submit\<close> over the answers of \<open>io_submit\<close>; while they run out it is still trying.  The counter goes up
  before the first of them, and down again when the kernel has not taken the request.
\<close>

fun submit_loop :: "u64 \<Rightarrow> int \<Rightarrow> int list \<Rightarrow> (int \<times> u64) run" where
  "submit_loop infl nr [] = NoFuel"
| "submit_loop infl nr (ret # rets) =
     (if ret = - EAGAIN_number then submit_loop infl nr rets
      else if ret \<le> 0 then Done (ret, infl - of_int nr)
      else Done (ret, infl))"

definition aio_submit :: "u64 \<Rightarrow> int \<Rightarrow> int list \<Rightarrow> (int \<times> u64) run" where
  "aio_submit infl nr rets = submit_loop (infl + of_int nr) nr rets"

definition raw_image__read_async :: "u64 \<Rightarrow> iovec list \<Rightarrow> 'p \<Rightarrow> 'p iocb" where
  "raw_image__read_async sector iov param =
     \<lparr>cb_write = False, cb_iov = iov, cb_offset = push_bit AIO_SECTOR_SHIFT sector, cb_data = param\<rparr>"

definition raw_image__write_async :: "u64 \<Rightarrow> iovec list \<Rightarrow> 'p \<Rightarrow> 'p iocb" where
  "raw_image__write_async sector iov param =
     \<lparr>cb_write = True, cb_iov = iov, cb_offset = push_bit AIO_SECTOR_SHIFT sector, cb_data = param\<rparr>"

text \<open>
  \<open>raw_image__wait\<close> over the values of the counter it reads: the first is the result, as an \<open>int\<close>, and it
  stops at the first 0 after that.
\<close>

definition wait_for_none :: "u64 list \<Rightarrow> int run" where
  "wait_for_none vs =
     (case vs of [] \<Rightarrow> NoFuel | v # vs' \<Rightarrow> if 0 \<in> set vs' then Done (sint (ucast v :: u32)) else NoFuel)"

subsection \<open>Two threads and the kernel\<close>

text \<open>
  Where the collecting thread is: in \<open>read\<close> of the event descriptor, before \<open>io_getevents\<close>, or with the
  answer of that call and the events it still has to call back.
\<close>

datatype 'p reaper = Waits_evt | Gets_events | Calls_back "('p \<times> int) list" int

text \<open>
  The last three fields are not the program's: the requests that the kernel took, the callbacks made, and
  the errors that \<open>io_getevents\<close> has returned.
\<close>

record 'p aio =
  aio_inflight :: u64
  adding :: "'p iocb option"
  in_kernel :: "'p iocb list"
  completions :: "('p \<times> int) list"
  evt_count :: nat
  reaper :: "'p reaper"
  taken :: "'p list"
  called :: "('p \<times> int) list"
  failures :: "int list"

definition aio_start :: "'p aio" where
  "aio_start = \<lparr>aio_inflight = 0, adding = None, in_kernel = [], completions = [], evt_count = 0, reaper = Waits_evt,
     taken = [], called = [], failures = []\<rparr>"

definition submit_add :: "'p iocb \<Rightarrow> 'p aio \<Rightarrow> 'p aio" where
  "submit_add io s = s\<lparr>aio_inflight := aio_inflight s + 1, adding := Some io\<rparr>"

definition submit_answer :: "int \<Rightarrow> 'p iocb \<Rightarrow> 'p aio \<Rightarrow> 'p aio" where
  "submit_answer ret io s =
     (if ret = - EAGAIN_number then s
      else if ret \<le> 0 then s\<lparr>aio_inflight := aio_inflight s - 1, adding := None\<rparr>
      else s\<lparr>adding := None, in_kernel := in_kernel s @ [io], taken := taken s @ [cb_data io]\<rparr>)"

definition kernel_completes :: "nat \<Rightarrow> int \<Rightarrow> 'p aio \<Rightarrow> 'p aio" where
  "kernel_completes i res s =
     s\<lparr>in_kernel := take i (in_kernel s) @ drop (Suc i) (in_kernel s),
       completions := completions s @ [(cb_data (in_kernel s ! i), res)], evt_count := Suc (evt_count s)\<rparr>"

definition take_events :: "nat \<Rightarrow> 'p aio \<Rightarrow> 'p aio" where
  "take_events k s =
     s\<lparr>completions := drop k (completions s), reaper := Calls_back (take k (completions s)) (int k)\<rparr>"

definition call_back :: "'p \<times> int \<Rightarrow> ('p \<times> int) list \<Rightarrow> int \<Rightarrow> 'p aio \<Rightarrow> 'p aio" where
  "call_back ev evs nr s = s\<lparr>called := called s @ [ev], reaper := Calls_back evs nr\<rparr>"

definition count_events :: "int \<Rightarrow> 'p aio \<Rightarrow> 'p aio" where
  "count_events nr s =
     s\<lparr>aio_inflight := aio_inflight s - of_int nr, reaper := (if nr > 0 then Gets_events else Waits_evt)\<rparr>"

text \<open>
  The steps and when each can happen.  \<open>limit\<close> bounds what the kernel holds; \<open>io_getevents\<close> returns at
  most \<open>AIO_MAX\<close> events and none only when there are none.
\<close>

datatype 'p aio_act =
  Submits "'p iocb" | Answers int | Completes nat int | Wakes | Takes nat | Fails int | Calls | Counts

fun aio_do :: "nat \<Rightarrow> 'p aio_act \<Rightarrow> 'p aio \<Rightarrow> 'p aio option" where
  "aio_do limit (Submits io) s = (if adding s = None then Some (submit_add io s) else None)"
| "aio_do limit (Answers ret) s =
     (case adding s of
        None \<Rightarrow> None
      | Some io \<Rightarrow>
          if ret \<le> 0 \<or> ret = 1 \<and> length (in_kernel s) + length (completions s) < limit then Some (submit_answer ret io s)
          else None)"
| "aio_do limit (Completes i res) s = (if i < length (in_kernel s) then Some (kernel_completes i res s) else None)"
| "aio_do limit Wakes s =
     (if reaper s = Waits_evt \<and> 0 < evt_count s then Some (s\<lparr>evt_count := 0, reaper := Gets_events\<rparr>) else None)"
| "aio_do limit (Takes k) s =
     (if reaper s = Gets_events \<and> k \<le> AIO_MAX \<and> k \<le> length (completions s) \<and> (k = 0 \<longrightarrow> completions s = [])
      then Some (take_events k s) else None)"
| "aio_do limit (Fails e) s =
     (if reaper s = Gets_events \<and> e < 0 then Some (s\<lparr>reaper := Calls_back [] e, failures := e # failures s\<rparr>) else None)"
| "aio_do limit Calls s =
     (case reaper s of Calls_back (ev # evs) nr \<Rightarrow> Some (call_back ev evs nr s) | _ \<Rightarrow> None)"
| "aio_do limit Counts s =
     (case reaper s of Calls_back [] nr \<Rightarrow> Some (count_events nr s) | _ \<Rightarrow> None)"

fun aio_run :: "nat \<Rightarrow> 'p aio_act list \<Rightarrow> 'p aio \<Rightarrow> 'p aio option" where
  "aio_run limit [] s = Some s"
| "aio_run limit (a # as) s = (case aio_do limit a s of None \<Rightarrow> None | Some s' \<Rightarrow> aio_run limit as s')"

subsection \<open>Setting it up\<close>

text \<open>What the operating system answers, and what is held.\<close>

record aio_system =
  eventfd_rc :: int
  eventfd_errno :: int
  io_setup_ok :: bool
  create_rc :: int
  create_errno :: int

datatype aio_resource = Event_fd | Io_context | Aio_thread

record aio_disk =
  ad_ops_async :: bool
  ad_async :: bool
  ad_held :: "aio_resource list"

definition disk_aio_setup :: "aio_system \<Rightarrow> aio_disk \<Rightarrow> int \<times> aio_disk" where
  "disk_aio_setup sys d =
     (if \<not> ad_ops_async d then (0, d)
      else if eventfd_rc sys < 0 then (- eventfd_errno sys, d)
      else
        let d1 = d\<lparr>ad_held := Event_fd # ad_held d\<rparr>;
            d2 = (if io_setup_ok sys then d1\<lparr>ad_held := Io_context # ad_held d1\<rparr> else d1)
        in if create_rc sys \<noteq> 0 then (- create_errno sys, d2\<lparr>ad_held := remove1 Event_fd (ad_held d2)\<rparr>)
           else (0, d2\<lparr>ad_held := Aio_thread # ad_held d2, ad_async := True\<rparr>))"

definition disk_aio_destroy :: "aio_disk \<Rightarrow> aio_disk" where
  "disk_aio_destroy d =
     (if \<not> ad_async d then d
      else d\<lparr>ad_held := remove1 Io_context (remove1 Event_fd (remove1 Aio_thread (ad_held d)))\<rparr>)"

section \<open>Invariants\<close>

text \<open>What is under way: a request being submitted, in the kernel, completed, or being called back.\<close>

fun being_called :: "'p reaper \<Rightarrow> ('p \<times> int) list" where
  "being_called (Calls_back evs nr) = evs"
| "being_called _ = []"

fun not_counted :: "'p reaper \<Rightarrow> int" where
  "not_counted (Calls_back evs nr) = nr"
| "not_counted _ = 0"

definition under_way :: "'p aio \<Rightarrow> int" where
  "under_way s = (if adding s = None then 0 else 1) + int (length (in_kernel s)) + int (length (completions s)) +
     not_counted (reaper s)"

fun reaper_ok :: "'p reaper \<Rightarrow> bool" where
  "reaper_ok (Calls_back evs nr) \<longleftrightarrow> int (length evs) \<le> max 0 nr \<and> nr \<le> int AIO_MAX"
| "reaper_ok _ \<longleftrightarrow> True"

definition aio_inv :: "nat \<Rightarrow> 'p aio \<Rightarrow> bool" where
  "aio_inv limit s \<longleftrightarrow>
     aio_inflight s = of_int (under_way s - sum_list (failures s)) \<and>
     mset (taken s) = mset (map cb_data (in_kernel s)) + mset (map fst (completions s)) +
       mset (map fst (being_called (reaper s))) + mset (map fst (called s)) \<and>
     reaper_ok (reaper s) \<and> length (in_kernel s) + length (completions s) \<le> limit \<and> (\<forall>e\<in>set (failures s). e < 0) \<and>
     (failures s = [] \<longrightarrow> 0 \<le> not_counted (reaper s))"

lemma mset_drop_nth:
  assumes "i < length xs"
  shows "mset (map f (take i xs @ drop (Suc i) xs)) + {#f (xs ! i)#} = mset (map f xs)"
  by (subst (4) id_take_nth_drop [OF assms]) simp

lemma mset_take_drop: "mset (map f (drop k xs)) + mset (map f (take k xs)) = mset (map f xs)"
  by (metis append_take_drop_id map_append mset_append add.commute)

lemma aio_start_inv: "aio_inv limit aio_start"
  by (simp add: aio_inv_def aio_start_def under_way_def)

lemma submit_add_inv: "aio_inv limit s \<Longrightarrow> adding s = None \<Longrightarrow> aio_inv limit (submit_add io s)"
  by (simp add: aio_inv_def under_way_def submit_add_def)

lemma submit_answer_inv:
  assumes "aio_inv limit s" and "adding s = Some io"
    and "ret \<le> 0 \<or> length (in_kernel s) + length (completions s) < limit"
  shows "aio_inv limit (submit_answer ret io s)"
  using assms by (auto simp: aio_inv_def under_way_def submit_answer_def)

lemma kernel_completes_inv:
  assumes "aio_inv limit s" and "i < length (in_kernel s)"
  shows "aio_inv limit (kernel_completes i res s)"
  using assms mset_drop_nth [OF assms(2), of cb_data]
  by (auto simp: aio_inv_def under_way_def kernel_completes_def)

lemma take_events_inv:
  assumes "aio_inv limit s" and "reaper s = Gets_events" and "k \<le> AIO_MAX" and "k \<le> length (completions s)"
  shows "aio_inv limit (take_events k s)"
  using assms mset_take_drop [of fst k "completions s"]
  by (auto simp: aio_inv_def under_way_def take_events_def of_nat_diff)

lemma call_back_inv: "aio_inv limit s \<Longrightarrow> reaper s = Calls_back (ev # evs) nr \<Longrightarrow> aio_inv limit (call_back ev evs nr s)"
  by (simp add: aio_inv_def under_way_def call_back_def)

lemma count_events_inv: "aio_inv limit s \<Longrightarrow> reaper s = Calls_back [] nr \<Longrightarrow> aio_inv limit (count_events nr s)"
  by (simp add: aio_inv_def under_way_def count_events_def)

lemma aio_do_inv: "aio_inv limit s \<Longrightarrow> aio_do limit a s = Some s' \<Longrightarrow> aio_inv limit s'"
proof (cases a)
  case Wakes
  then show "aio_inv limit s \<Longrightarrow> aio_do limit a s = Some s' \<Longrightarrow> aio_inv limit s'"
    by (auto simp: aio_inv_def under_way_def split: if_splits)
next
  case (Fails e)
  then show "aio_inv limit s \<Longrightarrow> aio_do limit a s = Some s' \<Longrightarrow> aio_inv limit s'"
    by (auto simp: aio_inv_def under_way_def c_simps split: if_splits)
qed (auto simp: submit_add_inv submit_answer_inv kernel_completes_inv take_events_inv call_back_inv count_events_inv
    split: if_splits option.splits reaper.splits list.splits)

lemma aio_run_inv: "aio_inv limit s \<Longrightarrow> aio_run limit as s = Some s' \<Longrightarrow> aio_inv limit s'"
  by (induction as arbitrary: s) (auto split: option.splits dest: aio_do_inv)

text \<open>
  No wake-up is lost: while completions wait, the thread is on its way to collect them or the event
  descriptor has something to read.
\<close>

definition awake :: "'p aio \<Rightarrow> bool" where
  "awake s \<longleftrightarrow> failures s = [] \<longrightarrow> completions s \<noteq> [] \<longrightarrow>
     0 < evt_count s \<or> reaper s = Gets_events \<or> (\<exists>evs nr. reaper s = Calls_back evs nr \<and> 0 < nr)"

lemma aio_do_awake: "aio_inv limit s \<Longrightarrow> awake s \<Longrightarrow> aio_do limit a s = Some s' \<Longrightarrow> awake s'"
  by (cases a)
    (auto simp: awake_def submit_add_def submit_answer_def kernel_completes_def take_events_def call_back_def count_events_def
      split: if_splits option.splits reaper.splits list.splits)

lemma aio_run_awake: "aio_inv limit s \<Longrightarrow> awake s \<Longrightarrow> aio_run limit as s = Some s' \<Longrightarrow> awake s'"
  by (induction as arbitrary: s) (auto split: option.splits dest: aio_do_inv aio_do_awake)

lemma aio_reached:
  assumes "aio_run limit as aio_start = Some s"
  shows "aio_inv limit s" "awake s"
proof -
  have "awake aio_start" by (simp add: awake_def aio_start_def)
  then show "aio_inv limit s" "awake s"
    using aio_run_inv [OF aio_start_inv assms] aio_run_awake [OF aio_start_inv _ assms] by auto
qed

text \<open>The counter is exact as a word, since the kernel's limit keeps it far from wrapping.\<close>

lemma under_way_range:
  assumes "aio_inv limit s" and "failures s = []"
  shows "0 \<le> under_way s \<and> under_way s \<le> 1 + int limit + int AIO_MAX"
  using assms by (cases "reaper s") (auto simp: aio_inv_def under_way_def c_simps)

lemma word_of_int_0: "0 \<le> x \<Longrightarrow> x < 2 ^ 64 \<Longrightarrow> (of_int x :: u64) = 0 \<longleftrightarrow> x = 0"
  using uint_word_of_int [of x, where ?'a = 64] by (auto simp: word_uint_eq_iff)

lemma no_inflight:
  assumes "aio_inv limit s" and "failures s = []" and "limit < 2 ^ 32" and "aio_inflight s = 0"
  shows "adding s = None \<and> in_kernel s = [] \<and> completions s = [] \<and> being_called (reaper s) = []"
proof -
  have r: "0 \<le> under_way s" "under_way s < 2 ^ 64" using under_way_range [OF assms(1,2)] assms(3) by (auto simp: c_simps)
  have "of_int (under_way s) = (0 :: u64)" using assms(1,2,4) by (simp add: aio_inv_def)
  then have "under_way s = 0" using word_of_int_0 [OF r] by simp
  then have "adding s = None \<and> length (in_kernel s) = 0 \<and> length (completions s) = 0 \<and> not_counted (reaper s) = 0"
    using assms(1,2) by (cases "reaper s") (auto simp: under_way_def aio_inv_def simp del: length_0_conv split: if_splits)
  then show ?thesis using assms(1) by (cases "reaper s") (auto simp: aio_inv_def)
qed

text \<open>
  C27: \<open>raw_image__wait\<close> returns only when nothing is in flight: whatever the order in which requests are
  submitted, completed and collected, among the states whose counter it has read there is one in which
  no request is being submitted, in the kernel or waiting for its callback, and the callbacks made are
  those of exactly the requests that the kernel took, one each.  The errors of \<open>io_submit\<close> are included;
  those of \<open>io_getevents\<close> are not.
\<close>

theorem wait_returns_when_drained:
  assumes "wait_for_none (map aio_inflight ss) = Done r" and "limit < 2 ^ 32"
    and "\<forall>s\<in>set ss. failures s = [] \<and> (\<exists>as. aio_run limit as aio_start = Some s)"
  shows "\<exists>s\<in>set ss. aio_inflight s = 0 \<and> adding s = None \<and> in_kernel s = [] \<and> completions s = [] \<and> being_called (reaper s) = [] \<and>
    mset (map fst (called s)) = mset (taken s)"
proof -
  obtain s where s: "s \<in> set ss" "aio_inflight s = 0"
    using assms(1) by (cases ss) (fastforce simp: wait_for_none_def split: if_splits)+
  then have f: "failures s = []" and i: "aio_inv limit s" using assms(3) aio_reached by blast+
  note n = no_inflight [OF i f assms(2) s(2)]
  then show ?thesis using s i by (auto simp: aio_inv_def)
qed

text \<open>A read, with a first answer that makes the code try again.\<close>

definition one_read :: "nat aio_act list" where
  "one_read = [Submits (raw_image__read_async 2 [] 5), Answers (-11), Answers 1, Completes 0 512, Wakes, Takes 1, Calls, Counts]"

lemma one_read_run:
  "(case aio_run 256 one_read aio_start of
      Some s \<Rightarrow> aio_inflight s = 0 \<and> called s = [(5, 512)] \<and> failures s = [] | None \<Rightarrow> False)"
  "(case aio_run 256 (take 3 one_read) aio_start of Some s \<Rightarrow> aio_inflight s = 1 \<and> failures s = [] | None \<Rightarrow> False)"
  by code_simp+

theorem wait_returns_when_drained_witness:
  "\<exists>ss :: nat aio list. wait_for_none (map aio_inflight ss) = Done 1 \<and>
     (\<exists>s\<in>set ss. called s = [(5, 512)] \<and> taken s = [5])"
proof -
  obtain s t where r: "aio_run 256 (take 3 one_read) aio_start = Some s" "aio_inflight s = 1" "failures s = []"
      "aio_run 256 one_read aio_start = Some t" "aio_inflight t = 0" "called t = [(5, 512)]" "failures t = []"
    using one_read_run by (auto split: option.splits)
  have w: "wait_for_none (map aio_inflight [s, s, t]) = Done 1" using r(2,5) by (simp add: wait_for_none_def)
  have "\<forall>u\<in>set [s, s, t]. failures u = [] \<and> (\<exists>as. aio_run 256 as aio_start = Some u)" using r(1,3,4,7) by auto
  from wait_returns_when_drained [OF w _ this] have "taken t = [5]" using r by auto
  then show ?thesis using w r(6) by (intro exI [of _ "[s, s, t]"]) auto
qed

text \<open>The function \<open>aio_submit\<close> is the steps of the submitting thread, one after the other.\<close>

lemma submit_loop_steps:
  assumes "submit_loop (aio_inflight s) 1 rets = Done (ret, infl)" and "adding s = Some io"
    and "\<forall>r\<in>set rets. r \<le> 1" and "length (in_kernel s) + length (completions s) < limit"
  shows "\<exists>k s'. aio_run limit (map Answers (take k rets)) s = Some s' \<and> aio_inflight s' = infl \<and> adding s' = None \<and>
    taken s' = (if 0 < ret then taken s @ [cb_data io] else taken s)"
  using assms(1,3)
proof (induction rets)
  case (Cons r rets)
  show ?case
  proof (cases "r = - EAGAIN_number")
    case True
    then obtain k s' where "aio_run limit (map Answers (take k rets)) s = Some s'" "aio_inflight s' = infl" "adding s' = None"
        "taken s' = (if 0 < ret then taken s @ [cb_data io] else taken s)"
      using Cons by auto
    then show ?thesis using True assms(2,4)
      by (intro exI [of _ "Suc k"] exI [of _ s']) (simp add: submit_answer_def c_simps)
  next
    case False
    then show ?thesis using Cons.prems assms(2,4)
      by (intro exI [of _ 1]) (auto simp: submit_answer_def split: if_splits)
  qed
qed simp

lemma aio_submit_steps:
  assumes "aio_submit (aio_inflight s) 1 rets = Done (ret, infl)" and "adding s = None"
    and "\<forall>r\<in>set rets. r \<le> 1" and "length (in_kernel s) + length (completions s) < limit"
  shows "\<exists>k s'. aio_run limit (Submits io # map Answers (take k rets)) s = Some s' \<and> aio_inflight s' = infl \<and> adding s' = None \<and>
    taken s' = (if 0 < ret then taken s @ [cb_data io] else taken s)"
  using submit_loop_steps [of "submit_add io s" rets ret infl io limit] assms
  by (simp add: aio_submit_def submit_add_def cong: if_cong)

subsection \<open>Draining\<close>

text \<open>The steps of the kernel and of the collecting thread, without new requests and without errors.\<close>

fun quiet :: "'p aio_act \<Rightarrow> bool" where
  "quiet (Submits io) \<longleftrightarrow> False"
| "quiet (Answers ret) \<longleftrightarrow> False"
| "quiet (Fails e) \<longleftrightarrow> False"
| "quiet _ \<longleftrightarrow> True"

fun reaper_work :: "'p reaper \<Rightarrow> nat" where
  "reaper_work Waits_evt = 0"
| "reaper_work Gets_events = 2"
| "reaper_work (Calls_back evs nr) = length evs + (if 0 < nr then 3 else 1)"

definition drain_bound :: "'p aio \<Rightarrow> nat" where
  "drain_bound s = 10 * length (in_kernel s) + 5 * length (completions s) + (if 0 < evt_count s then 3 else 0) +
     reaper_work (reaper s)"

lemma quiet_decreases: "quiet a \<Longrightarrow> aio_do limit a s = Some s' \<Longrightarrow> drain_bound s' < drain_bound s"
  by (cases a)
    (auto simp: drain_bound_def kernel_completes_def take_events_def call_back_def count_events_def
      split: if_splits reaper.splits list.splits)

lemma quiet_keeps:
  "quiet a \<Longrightarrow> aio_do limit a s = Some s' \<Longrightarrow> adding s' = adding s \<and> taken s' = taken s \<and> failures s' = failures s"
  by (cases a)
    (auto simp: kernel_completes_def take_events_def call_back_def count_events_def
      split: if_splits reaper.splits list.splits)

lemma quiet_run:
  "list_all quiet as \<Longrightarrow> aio_run limit as s = Some s' \<Longrightarrow>
     length as + drain_bound s' \<le> drain_bound s \<and> adding s' = adding s \<and> taken s' = taken s \<and> failures s' = failures s"
proof (induction as arbitrary: s)
  case (Cons a as)
  obtain s1 where 1: "aio_do limit a s = Some s1" "aio_run limit as s1 = Some s'" using Cons.prems(2) by (auto split: option.splits)
  show ?case
    using Cons.IH [OF _ 1(2)] Cons.prems(1) quiet_decreases [OF _ 1(1)] quiet_keeps [OF _ 1(1)] by fastforce
qed simp

lemma aio_run_append: "aio_run limit (as @ bs) s = (case aio_run limit as s of None \<Rightarrow> None | Some s' \<Rightarrow> aio_run limit bs s')"
  by (induction as arbitrary: s) (auto split: option.splits)

lemma stuck_is_drained:
  assumes "awake s" and "failures s = []" and "\<forall>a. quiet a \<longrightarrow> aio_do limit a s = None"
  shows "in_kernel s = [] \<and> completions s = [] \<and> reaper s = Waits_evt"
proof -
  have k: "in_kernel s = []" using assms(3) [rule_format, of "Completes 0 0"] by (auto split: if_splits)
  have r: "reaper s = Waits_evt"
  proof (cases "reaper s")
    case Gets_events
    then show ?thesis
      using assms(3) [rule_format, of "Takes (min AIO_MAX (length (completions s)))"] by (auto simp: c_simps min_def split: if_splits)
  next
    case (Calls_back evs nr)
    then show ?thesis using assms(3) [rule_format, of Calls] assms(3) [rule_format, of Counts] by (cases evs) auto
  qed
  then have "evt_count s = 0" using assms(3) [rule_format, of Wakes] by (auto split: if_splits)
  then show ?thesis using k r assms(1,2) by (auto simp: awake_def)
qed



text \<open>
  One failed \<open>io_getevents\<close> makes every later wait endless: its negative result is subtracted like a
  number of events, so the counter stays above the number of requests in flight for good and
  \<open>raw_image__wait\<close> reads 0 never again.
\<close>

theorem failed_getevents_blocks_wait:
  assumes "\<forall>s\<in>set ss. \<exists>as. aio_run limit as aio_start = Some s" and "limit < 2 ^ 32"
    and "\<forall>s\<in>set ss. failures s \<noteq> [] \<and> - sum_list (failures s) < 2 ^ 32 \<and> 0 \<le> not_counted (reaper s)"
  shows "wait_for_none (map aio_inflight ss) = NoFuel"
proof -
  have "aio_inflight s \<noteq> 0" if s: "s \<in> set ss" for s
  proof -
    have i: "aio_inv limit s" using assms(1) s aio_reached(1) by blast
    have "sum_list es < 0" if "es \<noteq> []" "\<forall>e\<in>set es. e < 0" for es :: "int list"
      using that by (induction es rule: list_nonempty_induct) auto
    then have n: "sum_list (failures s) < 0" using i assms(3) s by (auto simp: aio_inv_def)
    have u: "0 \<le> under_way s \<and> under_way s \<le> 1 + int limit + int AIO_MAX"
      using i assms(3) s by (cases "reaper s") (auto simp: aio_inv_def under_way_def c_simps)
    let ?x = "under_way s - sum_list (failures s)"
    have "0 < ?x" "?x < 2 ^ 64" using u n assms(2,3) s by (auto simp: c_simps)
    then have "(of_int ?x :: u64) \<noteq> 0" using word_of_int_0 [of ?x] by auto
    then show ?thesis using i by (simp add: aio_inv_def)
  qed
  then show ?thesis by (auto simp: wait_for_none_def split: list.split)
qed

text \<open>Two reads; the first attempt to collect is interrupted, and the second one collects both.\<close>

definition interrupted_reads :: "nat aio_act list" where
  "interrupted_reads =
     [Submits (raw_image__read_async 2 [] 5), Answers 1, Completes 0 512, Wakes, Fails (-4), Counts,
      Submits (raw_image__read_async 3 [] 6), Answers 1, Completes 0 512, Wakes, Takes 2, Calls, Calls, Counts, Takes 0, Counts]"

theorem failed_getevents_blocks_wait_witness:
  "\<exists>s :: nat aio. aio_run 256 interrupted_reads aio_start = Some s \<and> called s = [(5, 512), (6, 512)] \<and>
     wait_for_none (map aio_inflight (replicate 3 s)) = NoFuel"
proof -
  have "(case aio_run 256 interrupted_reads aio_start of
      Some s \<Rightarrow> failures s = [-4] \<and> reaper s = Waits_evt \<and> called s = [(5, 512), (6, 512)] | None \<Rightarrow> False)"
    by code_simp
  then obtain s where r: "aio_run 256 interrupted_reads aio_start = Some s" "failures s = [-4]" "reaper s = Waits_evt"
      "called s = [(5, 512), (6, 512)]"
    by (auto split: option.splits)
  have "wait_for_none (map aio_inflight (replicate 3 s)) = NoFuel"
    by (rule failed_getevents_blocks_wait [of _ 256]) (use r in auto)
  then show ?thesis using r by blast
qed

subsection \<open>Setting up and giving back\<close>

lemma setup_destroy:
  assumes "disk_aio_setup sys d = (0, d')" and "create_rc sys = 0" and "eventfd_rc sys < 0 \<longrightarrow> eventfd_errno sys \<noteq> 0"
    and "\<not> ad_async d" and "Io_context \<notin> set (ad_held d)"
  shows "ad_held (disk_aio_destroy d') = ad_held d \<and> (ad_async d' \<longleftrightarrow> ad_ops_async d)"
  using assms by (auto simp: disk_aio_setup_def disk_aio_destroy_def Let_def remove1_idem split: if_splits)

text \<open>
  \<open>pthread_create\<close> returns its error and leaves \<open>errno\<close> alone, so the code that looks at \<open>errno\<close> can take
  the failure for a success; the context stays behind.
\<close>

lemma thread_failure_unseen:
  assumes "ad_ops_async d" and "0 \<le> eventfd_rc sys" and "io_setup_ok sys" and "create_rc sys \<noteq> 0" and "create_errno sys = 0"
  shows "\<exists>d'. disk_aio_setup sys d = (0, d') \<and> Io_context \<in> set (ad_held d') \<and> (ad_async d' \<longleftrightarrow> ad_async d)"
  using assms by (auto simp: disk_aio_setup_def)

end
