(* ===== verification/QcowZlib.thy ===== *)
theory QcowZlib
  imports QcowReadProofs
begin

text \<open>
  Compressed clusters of a QCOW image (\<^verbatim>\<open>disk/qcow.c\<close>) in a build with zlib: where they are in the file,
  what a read of one delivers, and when its bytes run over the buffer.
\<close>

text \<open>
  Where the entry of a compressed cluster points: how many bytes are read, how many of them come before
  the compressed data, and the position of the first.
\<close>

definition compressed_place :: "qcow \<Rightarrow> u64 \<Rightarrow> nat \<times> nat \<times> int" where
  "compressed_place q off =
     (let e = l2_entry q off;
          c = ucast (e AND cluster_offset_mask q) :: u32
      in if version q = QCOW1_VERSION then
           (unat (ucast (drop_bit (63 - cbits q) e) AND ucast (cluster_size q - 1) :: u32), 0, sint c)
         else
           (512 * unat ((ucast (drop_bit (csize_shift q) e) AND csize_mask q) + 1 :: u32),
            unat (c AND 511), sint (c AND NOT 511)))"

definition qcow_read_cluster_z :: "zlib option \<Rightarrow> qcow \<Rightarrow> mem \<Rightarrow> u64 \<Rightarrow> u64 \<Rightarrow> u32 \<Rightarrow> (int \<times> mem \<times> qcow) run" where
  "qcow_read_cluster_z z q m off dst dst_len =
     (if version q = QCOW1_VERSION then qcow1_read_cluster_z z q m off dst dst_len
      else qcow2_read_cluster_z z q m off dst dst_len)"

lemma read_cluster_default: "qcow_read_cluster_z None = qcow_read_cluster"
  by (intro ext) (simp add: qcow_read_cluster_z_def qcow_read_cluster_def qcow1_read_cluster_def qcow2_read_cluster_def)

text \<open>An offset with a compressed cluster, whose table is in the file.\<close>

definition packed :: "qcow \<Rightarrow> u64 \<Rightarrow> bool" where
  "packed q off \<longleftrightarrow>
     get_l1_index q off < ucast (table_size (table q)) \<and> l2_pos q off \<noteq> 0 \<and> 0 \<le> sint (l2_pos q off) \<and>
     nat (sint (l2_pos q off)) < length (fbytes (q_fd q)) \<and> compressed q off"

text \<open>A read of a compressed cluster is a read of the table and then of the place of the cluster.\<close>

lemma read_packed:
  assumes ok: "image_ok q" and p: "packed q off" and pl: "compressed_place q off = (csize, skip, pos)"
  obtains q' where "image_ok q'" "same_image q q'"
    "qcow_read_cluster_z z q m off dst dst_len =
       read_compressed z q' m dst (get_cluster_offset q off) (piece_length q (get_cluster_offset q off) dst_len) csize skip pos"
proof -
  have geo: "geometry_ok q" using ok by (simp add: image_ok_def)
  have i1: "\<not> get_l1_index q off \<ge> ucast (table_size (table q))" using p by (auto simp: packed_def not_le)
  have co: "\<not> get_cluster_offset q off \<ge> cluster_size q"
    using coff_less [OF geo, of off] by (simp add: word_le_nat_alt)
  have i2: "\<not> get_l2_index q off \<ge> l2_entries q"
    using l2_index_less [of q off] geo by (auto simp: geometry_ok_def not_le)
  obtain t q' where t: "qcow_read_l2_table q (l2_pos q off) = Done (Some t, q')"
      "l2t_table t = disk_l2 q (l2_pos q off)" "image_ok q'" "same_image q q'"
    using read_l2_spec [OF ok, of "l2_pos q off"] p by (auto simp: packed_def)
  then have e: "be64_to_cpu (l2t_table t ! unat (get_l2_index q off)) = l2_entry q off"
    by (simp add: l2_entry_def)
  show thesis
  proof (cases "version q = QCOW1_VERSION")
    case True
    then have "be64_to_cpu (l1_table (table q) ! unat (get_l1_index q off)) = l2_pos q off"
      "l2_entry q off AND QCOW1_OFLAG_COMPRESSED \<noteq> 0"
      using p by (simp_all add: packed_def l2_pos_def compressed_def Let_def)
    then show thesis using that [OF t(3,4)] True p i1 i2 co t(1) e pl
      by (simp add: packed_def qcow_read_cluster_z_def qcow1_read_cluster_z_def compressed_place_def Let_def)
  next
    case False
    then have "be64_to_cpu (l1_table (table q) ! unat (get_l1_index q off)) AND NOT QCOW2_OFLAG_COPIED = l2_pos q off"
      "l2_entry q off AND QCOW2_OFLAG_COMPRESSED \<noteq> 0"
      using p by (simp_all add: packed_def l2_pos_def compressed_def Let_def)
    then show thesis using that [OF t(3,4)] False p i1 i2 co t(1) e pl
      by (simp add: packed_def qcow_read_cluster_z_def qcow2_read_cluster_z_def compressed_place_def Let_def)
  qed
qed

text \<open>
  C13: With zlib a read of a compressed cluster delivers the piece of the decompressed cluster that was
  asked for, of both versions of the format: when the place that the entry names lies in the file and
  fits the buffer, and inflating what is there gives a whole cluster.  When inflating fails, or gives
  less, the read fails and the guest's memory stays as it was.
\<close>

theorem compressed_read_correct:
  assumes "image_ok q" and "packed q off" and "compressed_place q off = (csize, skip, pos)"
    and "0 \<le> pos" and "0 < csize" and "nat pos + csize \<le> length (fbytes (q_fd q))" and "csize \<le> unat (cluster_size q)"
  shows "\<exists>q'. qcow_read_cluster_z (Some zl) q m off dst dst_len =
      Done (case inflate zl (drop skip (take csize (drop (nat pos) (fbytes (q_fd q))))) (unat (cluster_size q)) of
          Some c \<Rightarrow>
            if length c = unat (cluster_size q) then
              (int (piece q off dst_len), stn m dst (take (piece q off dst_len) (drop (unat (get_cluster_offset q off)) c)), q')
            else (-1, m, q')
        | None \<Rightarrow> (-1, m, q')) \<and> image_ok q' \<and> same_image q q'"
proof -
  obtain q1 where 1: "image_ok q1" "same_image q q1"
    "qcow_read_cluster_z (Some zl) q m off dst dst_len =
       read_compressed (Some zl) q1 m dst (get_cluster_offset q off)
         (piece_length q (get_cluster_offset q off) dst_len) csize skip pos"
    using read_packed [OF assms(1-3)] by metis
  have fb: "fbytes (q_fd q1) = fbytes (q_fd q)" and cs: "cluster_size q1 = cluster_size q" using 1(2) by (auto simp: same_image_def)
  have ben: "benign (q_fd q1)" using 1(1) by (simp add: image_ok_def)
  let ?d = "take csize (drop (nat pos) (fbytes (q_fd q)))"
  have len: "length ?d = csize" using assms(6) by simp
  obtain f where f: "pread_in_full (q_fd q1) csize pos = (Some ?d, f)" "fbytes f = fbytes (q_fd q1)" "benign f"
    using pread_in_full_benign [OF ben assms(4), of csize] assms(5) len by (auto simp: file_slice_def fb)
  have g: "geometry_ok q" using assms(1) by (simp add: image_ok_def)
  have ok: "image_ok (q1\<lparr>q_fd := f\<rparr>)" "same_image q (q1\<lparr>q_fd := f\<rparr>)"
    using image_ok_upd_fd [OF 1(1) f(2,3)] same_image_upd_fd [OF 1(2) f(2)] by auto
  have "take csize (into_buffer (cluster_data zl) ?d) = ?d" using len by (simp add: into_buffer_def)
  then have "read_compressed (Some zl) q1 m dst (get_cluster_offset q off)
         (piece_length q (get_cluster_offset q off) dst_len) csize skip pos =
      Done (case inflate zl (drop skip ?d) (unat (cluster_size q)) of
          Some c \<Rightarrow>
            if length c = unat (cluster_size q) then
              (int (piece q off dst_len), stn m dst (take (piece q off dst_len) (drop (unat (get_cluster_offset q off)) c)),
               q1\<lparr>q_fd := f\<rparr>)
            else (-1, m, q1\<lparr>q_fd := f\<rparr>)
        | None \<Rightarrow> (-1, m, q1\<lparr>q_fd := f\<rparr>))"
    using assms(7) len
    by (simp add: read_compressed_def f(1) cs Let_def qcow_decompress_buffer_def piece_length_nat [OF g] split: option.split)
  then show ?thesis using 1(3) ok by auto
qed

text \<open>A version 2 image with one compressed cluster, from byte 24 of its second sector on.\<close>

definition packed_image :: qcow where
  "packed_image = sample_image\<lparr>cluster_offset_mask := 0x1FFFFFFFFFFFFFFF,
     q_fd := \<lparr>fbytes = replicate 8 0 @ [0x40, 0, 0, 0, 0, 0, 2, 0x18] @ replicate 496 0 @ replicate 512 7, fpos = 0,
       fscript = [SErr EINTR]\<rparr>\<rparr>"

definition sample_zlib :: zlib where
  "sample_zlib = \<lparr>inflate = (\<lambda>buf n. if length buf = 488 then Some (replicate n 9) else None), cluster_data = replicate 512 0\<rparr>"

lemma packed_image_ok: "image_ok packed_image"
  by (simp add: image_ok_def geometry_ok_def l1_cache_inv_def coherent_def benign_def transient_def
      packed_image_def sample_image_def cbits_def c_simps)

lemma packed_sample:
  "packed packed_image 0" "compressed_place packed_image 0 = (512, 24, 512)"
proof -
  have b: "be64_to_cpu 0x0800000000000000 = 8" "be64_to_cpu 0x1802000000000040 = 0x4000000000000218" by code_simp+
  have i: "get_l1_index packed_image 0 = 0" "get_l2_index packed_image 0 = 0" "l2_entries packed_image = 2"
    by (simp_all add: get_l1_index_def get_l2_index_def l2_entries_def packed_image_def sample_image_def)
  have p: "l2_pos packed_image 0 = 8"
    by (simp add: l2_pos_def i) (simp add: packed_image_def sample_image_def b c_simps)
  have "take 16 (drop 8 (fbytes (q_fd packed_image)) @ replicate 16 0) = [0x40, 0, 0, 0, 0, 0, 2, 0x18] @ replicate 8 0"
    by (simp add: packed_image_def numeral_eq_Suc)
  then have "disk_l2 packed_image 8 = words64 ([0x40, 0, 0, 0, 0, 0, 2, 0x18] @ replicate 8 0)"
    by (simp add: disk_l2_def i)
  also have "\<dots> = [0x1802000000000040, 0]" by code_simp
  finally have e: "l2_entry packed_image 0 = 0x4000000000000218" by (simp add: l2_entry_def p i b)
  show "packed packed_image 0"
    unfolding packed_def i p compressed_def e by (simp add: packed_image_def sample_image_def c_simps)
  show "compressed_place packed_image 0 = (512, 24, 512)"
    unfolding compressed_place_def e by (simp add: packed_image_def sample_image_def cbits_def c_simps Let_def)
qed

theorem compressed_read_correct_witness:
  "\<exists>q'. qcow_read_cluster_z (Some sample_zlib) packed_image (\<lambda>a. 0) 0 0x1000 512 =
     Done (512, stn (\<lambda>a. 0) 0x1000 (replicate 512 9), q') \<and> image_ok q'"
proof -
  have l: "length (fbytes (q_fd packed_image)) = 1024" by (simp add: packed_image_def)
  have c: "unat (cluster_size packed_image) = 512" by (simp add: packed_image_def sample_image_def)
  have o: "unat (get_cluster_offset packed_image 0) = 0" by (simp add: get_cluster_offset_def)
  have p: "piece packed_image 0 512 = 512" by (simp add: piece_def c o)
  have "length (drop 24 (take 512 (drop 512 (fbytes (q_fd packed_image))))) = 488" by (simp add: l)
  then have "inflate sample_zlib (drop 24 (take 512 (drop (nat 512) (fbytes (q_fd packed_image))))) 512 = Some (replicate 512 9)"
    by (simp add: sample_zlib_def)
  then show ?thesis
    using compressed_read_correct [OF packed_image_ok packed_sample, of sample_zlib "\<lambda>a. 0" "0x1000" 512]
    unfolding l c o p by auto
qed

text \<open>
  The place of a compressed cluster of version 2 is counted in sectors, from the one where it starts, and
  can take twice the room of a cluster.  Reading it then runs over \<open>cluster_data\<close>, also without zlib.
\<close>

lemma compressed_overflow:
  assumes "image_ok q" and "packed q off" and "compressed_place q off = (csize, skip, pos)"
    and "0 \<le> pos" and "nat pos + csize \<le> length (fbytes (q_fd q))" and "unat (cluster_size q) < csize"
  shows "qcow_read_cluster q m off dst dst_len = Wild"
proof -
  obtain q1 where 1: "image_ok q1" "same_image q q1"
    "qcow_read_cluster_z None q m off dst dst_len =
       read_compressed None q1 m dst (get_cluster_offset q off)
         (piece_length q (get_cluster_offset q off) dst_len) csize skip pos"
    using read_packed [OF assms(1-3)] by metis
  have fb: "fbytes (q_fd q1) = fbytes (q_fd q)" and cs: "cluster_size q1 = cluster_size q" using 1(2) by (auto simp: same_image_def)
  have ben: "benign (q_fd q1)" using 1(1) by (simp add: image_ok_def)
  let ?d = "take csize (drop (nat pos) (fbytes (q_fd q)))"
  have len: "length ?d = csize" using assms(5) by simp
  obtain f where f: "pread_in_full (q_fd q1) csize pos = (Some ?d, f)"
    using pread_in_full_benign [OF ben assms(4), of csize] assms(6) len by (auto simp: file_slice_def fb)
  have l: "unat (cluster_size q1) < length ?d" using len assms(6) cs by simp
  show ?thesis
    unfolding 1(3) [unfolded read_cluster_default] read_compressed_def f prod.case option.case using l by (simp only: simp_thms if_True)
qed

end
