(* ===== verification/Endian.thy ===== *)
theory Endian
  imports VirtioDev
begin

text \<open>
  The byte order of a ring (\<^verbatim>\<open>include/kvm/virtio.h\<close>), in a build where it is not the host's: the
  conversions between the guest's order and the little-endian host's.  In the default build they are the
  identity.
\<close>

definition virtio_g2h_u16 :: "u16 \<Rightarrow> u16 \<Rightarrow> u16" where
  "virtio_g2h_u16 endian val = (if endian = VIRTIO_ENDIAN_LE then val else be16_to_cpu val)"

definition virtio_h2g_u16 :: "u16 \<Rightarrow> u16 \<Rightarrow> u16" where
  "virtio_h2g_u16 endian val = (if endian = VIRTIO_ENDIAN_LE then val else cpu_to_be16 val)"

definition virtio_g2h_u32 :: "u16 \<Rightarrow> u32 \<Rightarrow> u32" where
  "virtio_g2h_u32 endian val = (if endian = VIRTIO_ENDIAN_LE then val else be32_to_cpu val)"

definition virtio_h2g_u32 :: "u16 \<Rightarrow> u32 \<Rightarrow> u32" where
  "virtio_h2g_u32 endian val = (if endian = VIRTIO_ENDIAN_LE then val else word_of_le (rev (le_of_word 4 val)))"

definition virtio_g2h_u64 :: "u16 \<Rightarrow> u64 \<Rightarrow> u64" where
  "virtio_g2h_u64 endian val = (if endian = VIRTIO_ENDIAN_LE then val else be64_to_cpu val)"

definition virtio_h2g_u64 :: "u16 \<Rightarrow> u64 \<Rightarrow> u64" where
  "virtio_h2g_u64 endian val = (if endian = VIRTIO_ENDIAN_LE then val else cpu_to_be64 val)"

text \<open>Either order is its own inverse, so what the device writes is what the guest reads.\<close>

lemma swap_twice:
  "LENGTH('a) = 8 * n \<Longrightarrow> word_of_le (rev (le_of_word n (word_of_le (rev (le_of_word n w)) :: 'a::len word))) = (w :: 'a word)"
  by (simp add: le_of_word_of_le word_of_le_of_word)

lemma ring_endian_roundtrip:
  "virtio_g2h_u16 en (virtio_h2g_u16 en v) = v" "virtio_h2g_u16 en (virtio_g2h_u16 en v) = v"
  "virtio_g2h_u32 en (virtio_h2g_u32 en w) = w" "virtio_h2g_u32 en (virtio_g2h_u32 en w) = w"
  "virtio_g2h_u64 en (virtio_h2g_u64 en x) = x" "virtio_h2g_u64 en (virtio_g2h_u64 en x) = x"
  by (simp_all add: virtio_g2h_u16_def virtio_h2g_u16_def virtio_g2h_u32_def virtio_h2g_u32_def virtio_g2h_u64_def
      virtio_h2g_u64_def be16_to_cpu_def cpu_to_be16_def be32_to_cpu_def be64_to_cpu_def cpu_to_be64_def swap_twice)

text \<open>The ring's index in the guest's order, as the code compares it.\<close>

lemma ring_index_compare: "virtio_h2g_u16 en a = virtio_h2g_u16 en b \<longleftrightarrow> a = b"
  by (metis ring_endian_roundtrip(1))

end
