(* ===== verification/Bitops.thy ===== *)
theory Bitops
  imports Prelude
begin

text \<open>
  The bit operations of \<^verbatim>\<open>include/kvm/util.h\<close> and \<^verbatim>\<open>include/linux/bitops.h\<close> and the alignment macros of
  \<^verbatim>\<open>include/linux/kernel.h\<close>, for the 64-bit \<open>unsigned long\<close> of the host.  A shift by the width of the type or
  by a negative number is undefined behaviour: \<open>Wild\<close>.
\<close>

subsection \<open>The highest bit\<close>

text \<open>\<open>__builtin_clzl\<close>, a function of the compiler: the zeros before the highest bit.\<close>

definition builtin_clzl :: "u64 \<Rightarrow> nat" where
  "builtin_clzl x = length (takeWhile (\<lambda>i. \<not> bit x i) (rev [0..<64]))"

definition fls_long :: "u64 \<Rightarrow> nat" where
  "fls_long x = (if x = 0 then 0 else 64 - builtin_clzl x)"

definition roundup_pow_of_two :: "u64 \<Rightarrow> u64 run" where
  "roundup_pow_of_two x =
     (if x = 0 then Done 0 else if fls_long (x - 1) < 64 then Done (push_bit (fls_long (x - 1)) 1) else Wild)"

lemma bit_ge: "bit (x :: u64) k \<Longrightarrow> 2 ^ k \<le> unat x"
proof (rule ccontr)
  assume b: "bit x k" and "\<not> 2 ^ k \<le> unat x"
  then have "unat (take_bit k x) = unat x" by (simp add: unat_take_bit64)
  then have "take_bit k x = x" by (simp only: word_unat_eq_iff)
  then have "bit (take_bit k x) k" using b by simp
  then show False by (simp add: bit_take_bit_iff)
qed

lemma bits_less: "(\<And>i. k \<le> i \<Longrightarrow> \<not> bit (x :: u64) i) \<Longrightarrow> unat x < 2 ^ k"
proof -
  assume h: "\<And>i. k \<le> i \<Longrightarrow> \<not> bit x i"
  have "take_bit k x = x" by (rule bit_eqI) (use h in \<open>auto simp: bit_take_bit_iff not_less [symmetric]\<close>)
  then have "unat x = unat x mod 2 ^ k" using unat_take_bit64 [of k x] by simp
  moreover have "unat x mod 2 ^ k < 2 ^ k" by simp
  ultimately show ?thesis by linarith
qed

lemma highest_bit:
  assumes "x \<noteq> 0"
  shows "builtin_clzl x < 64 \<and> bit x (63 - builtin_clzl x) \<and> (\<forall>i > 63 - builtin_clzl x. \<not> bit x i)"
proof -
  let ?l = "rev [0..<64]" and ?P = "\<lambda>i. \<not> bit x i"
  have nth: "?l ! i = 63 - i" if "i < 64" for i using that by (simp add: rev_nth)
  obtain b where b: "bit x b" using assms bit_eq_iff [of x 0] by auto
  then have "b < 64" using bit_imp_le_length [of x b] by simp
  then have "takeWhile ?P ?l \<noteq> ?l" using b by (metis atLeastLessThan_iff le0 set_rev set_upt takeWhile_eq_all_conv)
  then have l: "builtin_clzl x < 64"
    using length_takeWhile_le [of ?P ?l] unfolding builtin_clzl_def
    by (metis length_rev length_upt diff_zero le_neq_implies_less takeWhile_eq_take take_all order_refl)
  have "bit x (63 - builtin_clzl x)"
    using nth_length_takeWhile [of ?P ?l] l nth [OF l] by (simp add: builtin_clzl_def)
  moreover have "\<not> bit x i" if i: "63 - builtin_clzl x < i" for i
  proof (cases "i < 64")
    case True
    then have "63 - i < length (takeWhile ?P ?l)" using i l unfolding builtin_clzl_def by simp
    then have "?P (takeWhile ?P ?l ! (63 - i))" using set_takeWhileD nth_mem by metis
    then show ?thesis using \<open>63 - i < length (takeWhile ?P ?l)\<close> True nth [of "63 - i"] by (simp add: takeWhile_nth)
  next
    case False
    then show ?thesis using bit_imp_le_length [of x i] by auto
  qed
  ultimately show ?thesis using l by blast
qed

lemma fls_long_bounds:
  "fls_long x \<le> 64" "unat x < 2 ^ fls_long x" "x \<noteq> 0 \<Longrightarrow> 2 ^ (fls_long x - 1) \<le> unat x \<and> 0 < fls_long x"
proof -
  show "fls_long x \<le> 64" by (simp add: fls_long_def)
  show "unat x < 2 ^ fls_long x"
  proof (cases "x = 0")
    case True
    then show ?thesis by (simp add: fls_long_def)
  next
    case False
    then show ?thesis using highest_bit [OF False] by (intro bits_less) (auto simp: fls_long_def)
  qed
  show "2 ^ (fls_long x - 1) \<le> unat x \<and> 0 < fls_long x" if "x \<noteq> 0"
    using highest_bit [OF that] bit_ge [of x "63 - builtin_clzl x"] that by (simp add: fls_long_def)
qed

text \<open>Rounding up gives the least power of two that is large enough, and is undefined where none fits.\<close>

lemma roundup_pow_of_two_least:
  assumes "0 < unat x" and "unat x \<le> 2 ^ 63"
  shows "\<exists>k < 64. roundup_pow_of_two x = Done (push_bit k 1) \<and> unat x \<le> 2 ^ k \<and> (\<forall>j. unat x \<le> 2 ^ j \<longrightarrow> k \<le> j)"
proof -
  let ?k = "fls_long (x - 1)"
  have u: "unat (x - 1) = unat x - 1" using assms(1) by (metis unat_gt_0 unat_minus_one)
  have le: "unat x \<le> 2 ^ ?k" using fls_long_bounds(2) [of "x - 1"] u by linarith
  have least: "?k \<le> j" if "unat x \<le> 2 ^ j" for j
  proof (cases "x - 1 = 0")
    case True
    then show ?thesis by (simp add: fls_long_def)
  next
    case False
    have "(2::nat) ^ (?k - 1) < 2 ^ j" using fls_long_bounds(3) [OF False] u that assms(1) by linarith
    then have "?k - 1 < j" by simp
    then show ?thesis by simp
  qed
  have "?k < 64" using least [OF assms(2)] by simp
  moreover have "x \<noteq> 0" using assms(1) by auto
  ultimately show ?thesis using le least by (auto simp: roundup_pow_of_two_def)
qed

lemma roundup_pow_of_two_overflow: "2 ^ 63 < unat x \<Longrightarrow> roundup_pow_of_two x = Wild"
proof -
  assume x: "2 ^ 63 < unat x"
  have u: "unat (x - 1) = unat x - 1" using x by (intro unat_minus_one) auto
  have "(2::nat) ^ 63 < 2 ^ fls_long (x - 1)" using fls_long_bounds(2) [of "x - 1"] u x by linarith
  then have "63 < fls_long (x - 1)" by (simp only: power_strict_increasing_iff one_less_numeral_iff semiring_norm(76))
  then show ?thesis using x by (auto simp: roundup_pow_of_two_def)
qed

subsection \<open>Alignment\<close>

definition DIV_ROUND_UP :: "u64 \<Rightarrow> u64 \<Rightarrow> u64" where
  "DIV_ROUND_UP n d = (n + d - 1) div d"

definition ALIGN_MASK :: "u64 \<Rightarrow> u64 \<Rightarrow> u64" where
  "ALIGN_MASK x m = (x + m) AND NOT m"

definition ALIGN :: "u64 \<Rightarrow> u64 \<Rightarrow> u64" where
  "ALIGN x a = ALIGN_MASK x (a - 1)"

lemma DIV_ROUND_UP_ceil:
  assumes "unat n + unat d \<le> 2 ^ 64" and "0 < unat d"
  shows "unat (DIV_ROUND_UP n d) = (unat n + unat d - 1) div unat d"
proof -
  have "unat (n + (d - 1)) = unat n + (unat d - 1)"
    using assms by (subst unat_add64) (simp_all add: unat_minus_one [OF unat_gt_0 [THEN iffD1]])
  then show ?thesis using assms(2) by (simp add: DIV_ROUND_UP_def unat_div add_diff_eq Nat.add_diff_assoc)
qed

lemma and_not_mask_unat: "unat (y AND NOT (mask k) :: u64) = unat y div 2 ^ k * 2 ^ k"
proof -
  have "y - take_bit k y = y AND NOT (take_bit k y)" by (rule disjunctive_diff) (simp add: bit_take_bit_iff)
  also have "\<dots> = y AND NOT (mask k)"
    by (rule bit_eqI) (auto simp: bit_and_iff bit_not_iff bit_mask_iff bit_take_bit_iff)
  finally have e: "y AND NOT (mask k) = y - take_bit k y" ..
  have t: "unat (take_bit k y) = unat y mod 2 ^ k" by (rule unat_take_bit64)
  have "take_bit k y \<le> y" unfolding word_le_nat_alt t by simp
  have "unat (y - take_bit k y) = unat y - unat y mod 2 ^ k" unfolding unat_sub [OF \<open>take_bit k y \<le> y\<close>] t by (rule refl)
  then show ?thesis unfolding e by (simp add: minus_mod_eq_div_mult)
qed

lemma ALIGN_rounds_up:
  assumes "k < 64" and "unat x + (2 ^ k - 1) < 2 ^ 64"
  shows "unat (ALIGN x (push_bit k 1)) = (unat x + (2 ^ k - 1)) div 2 ^ k * 2 ^ k"
proof -
  have "unat (x + (push_bit k 1 - 1)) = unat x + (2 ^ k - 1)"
    using unat_add64 [of x "push_bit k 1 - 1"] unat_shift1_minus1 [OF assms(1)] assms(2) by simp
  then show ?thesis
    using and_not_mask_unat [of "x + (push_bit k 1 - 1)" k] by (simp add: ALIGN_def ALIGN_MASK_def mask_eq_exp_minus_1)
qed

subsection \<open>Bits of an array\<close>

definition set_bit_in :: "int \<Rightarrow> u64 list \<Rightarrow> u64 list run" where
  "set_bit_in nr a =
     (if nr < 0 \<or> length a \<le> nat nr div 64 then Wild
      else Done (a[nat nr div 64 := a ! (nat nr div 64) OR push_bit (nat nr mod 64) 1]))"

definition clear_bit_in :: "int \<Rightarrow> u64 list \<Rightarrow> u64 list run" where
  "clear_bit_in nr a =
     (if nr < 0 \<or> length a \<le> nat nr div 64 then Wild
      else Done (a[nat nr div 64 := a ! (nat nr div 64) AND NOT (push_bit (nat nr mod 64) 1)]))"

definition test_bit_in :: "u32 \<Rightarrow> u64 list \<Rightarrow> bool run" where
  "test_bit_in nr a =
     (if length a \<le> unat nr div 64 then Wild
      else Done (push_bit (unat nr mod 64) 1 AND a ! (unat nr div 64) \<noteq> 0))"

text \<open>The bits of an array are its words' bits, one after the other.\<close>

lemma test_bit_in_eq: "unat nr < 64 * length a \<Longrightarrow> test_bit_in nr a = Done (bit (a ! (unat nr div 64)) (unat nr mod 64))"
  by (auto simp: test_bit_in_def push_bit_of_1 and.commute and_exp_eq_0_iff_not_bit)

lemma place_64: "(n :: nat) div 64 = m div 64 \<and> n mod 64 = m mod 64 \<longleftrightarrow> n = m"
  by (metis div_mult_mod_eq)

lemma set_then_test:
  assumes "unat n < 64 * length a" and "m < 64 * length a"
  shows "\<exists>a'. set_bit_in (int m) a = Done a' \<and> length a' = length a \<and>
    test_bit_in n a' = (if unat n = m then Done True else test_bit_in n a)"
proof -
  have l: "m div 64 < length a" "unat n div 64 < length a" using assms by auto
  show ?thesis
    using l assms place_64 [of "unat n" m]
    by (auto simp: set_bit_in_def test_bit_in_eq nth_list_update bit_or_iff bit_push_bit_iff bit_1_iff push_bit_of_1 bit_exp_iff)
qed

lemma clear_then_test:
  assumes "unat n < 64 * length a" and "m < 64 * length a"
  shows "\<exists>a'. clear_bit_in (int m) a = Done a' \<and> length a' = length a \<and>
    test_bit_in n a' = (if unat n = m then Done False else test_bit_in n a)"
proof -
  have l: "m div 64 < length a" "unat n div 64 < length a" using assms by auto
  show ?thesis
    using l assms place_64 [of "unat n" m]
    by (auto simp: clear_bit_in_def test_bit_in_eq nth_list_update bit_and_iff bit_not_iff bit_push_bit_iff bit_1_iff push_bit_of_1
        bit_exp_iff)
qed

end
