(* ===== verification/Spec2Isabelle.thy ===== *)
theory Spec2Isabelle
  imports BringUp Wakeup MainLoop CacheLists HlistProofs ListWalk GuestRam Aio QcowZlib Endian Bitops
begin

text \<open>
  A virtio-mmio disk backend for Xen guests, written in C: this development models the program and proves
  what makes its parts correct.  File names are those under \<^verbatim>\<open>src/\<close>, without the prefix.

  \<^bold>\<open>The program.\<close>  The process serves one frontend at a time.  \<^verbatim>\<open>demu.c\<close> waits until the Xenstore names a
  frontend (\<^verbatim>\<open>xs_dev.c\<close>), brings up its connection in a fixed sequence of steps (\<open>demu_initialize\<close>), answers the
  requests that the hypervisor puts in a shared page until the frontend is gone, and takes the connection down
  (\<open>demu_teardown\<close>), as far as the sequence number says it had come.  One of the steps opens the disk images
  (\<^verbatim>\<open>disk/core.c\<close>, which probes for raw, mapped, block device and QCOW images) and brings up a virtio device for
  each one (\<^verbatim>\<open>device.c\<close>, \<^verbatim>\<open>util/init.c\<close>, \<^verbatim>\<open>virtio/blk.c\<close>), which registers a range of guest addresses.  A request whose
  address falls in a range goes to the handler of the range, the registers of \<^verbatim>\<open>virtio/mmio-modern.c\<close> or
  \<^verbatim>\<open>virtio/mmio-legacy.c\<close>.  Writing the register \<open>QUEUE_NOTIFY\<close> wakes the I/O thread of the device, which takes
  descriptor chains from the available ring (\<^verbatim>\<open>virtio/core.c\<close>), maps their buffers, calls the operations of the
  disk image, writes the status byte, puts the chain in the used ring and raises an interrupt.  A QCOW image
  (\<^verbatim>\<open>disk/qcow.c\<close>) is read through least recently used caches, each a list (\<^verbatim>\<open>include/linux/list.h\<close>) and a
  red-black tree (\<^verbatim>\<open>util/rbtree.c\<close>), and all images end in the transfer loops of \<^verbatim>\<open>util/read-write.c\<close>.

  \<^bold>\<open>Conventions.\<close>  A C function is a HOL function of the same name that takes the state and returns it
  updated; a name that clashes or begins with an underscore has a prefix or a suffix.  Machine integers are
  words of their width (\<open>u8\<close> to \<open>u64\<close>), so \<open>+\<close> wraps as in C; results that mix a count with an error are \<open>int\<close>
  or an option.  The outcome \<open>'a run\<close> of \<open>Prelude\<close> is \<open>Done\<close> with a value, \<open>Wild\<close> for an access outside an object
  or another undefined behaviour, \<open>Abort\<close> for a failed \<open>BUG_ON\<close>, and \<open>NoFuel\<close> for a call that has not returned.
  So a theorem that a run is \<open>Done\<close> says that the code returns and stays inside its objects.  What is outside
  the repository (the Xen libraries, the system calls, the inline functions of the ring header, zlib) is a
  parameter: a field of \<open>env\<close>, \<open>xen\<close>, \<open>xs_ops\<close>, \<open>zlib\<close>, or an argument.

  \<^bold>\<open>Theories.\<close>
  \<^item> \<open>Prelude\<close>: types, outcomes, words in memory and in buffers, byte order, and the lemma collections
    \<open>c_simps\<close> and \<open>mem_simps\<close>.
  \<^item> \<open>ReadWrite\<close>, \<open>VecIo\<close>, \<open>VecIoProofs\<close> (\<^verbatim>\<open>util/read-write.c\<close>): the loops over \<open>read\<close>, \<open>pwrite\<close>, \<open>preadv\<close> and
    the others.  A descriptor is the file's bytes and a script of what the kernel will answer, so that a theorem
    for every script covers every pattern of short transfers and interruptions.  The loops over one buffer
    transfer all or fail; \<open>preadv_in_full\<close> does so when the file covers the request, and never returns when the
    end of the file is strictly inside an element.
  \<^item> \<open>RbTree\<close>, \<open>RbTreeProofs\<close> (\<^verbatim>\<open>util/rbtree.c\<close>, \<^verbatim>\<open>include/linux/rbtree_augmented.h\<close>): a node with its parent
    pointers is a zipper.  Insertion and erasure keep order, colours and black heights, whence no child the loops
    follow is null.
  \<^item> \<open>ListHeap\<close>, \<open>ListHeapProofs\<close>, \<open>ListRefine\<close>, \<open>ListWalk\<close>, \<open>HlistProofs\<close> (\<^verbatim>\<open>include/linux/list.h\<close>, and for the last
    one the lists of \<^verbatim>\<open>util/init.c\<close>): the circular lists and the lists with a single pointer as their head, on a
    heap of nodes.  \<open>ring h head xs\<close> says that the nodes reachable from \<open>head\<close> are the sequence \<open>xs\<close>; every
    operation, and any sequence of them, does to \<open>xs\<close> what it should and leaves other nodes alone.
  \<^item> \<open>QcowTypes\<close>, \<open>QcowRead\<close>, \<open>QcowReadProofs\<close>, \<open>QcowZlib\<close>, \<open>QcowAlloc\<close>, \<open>QcowWrite\<close>, \<open>QcowProbe\<close>, \<open>QcowProofs\<close>,
    \<open>CacheLists\<close> (\<^verbatim>\<open>disk/qcow.c\<close>, \<^verbatim>\<open>include/kvm/qcow.h\<close>): tables and caches, reading with and without zlib, counting
    references and allocating, writing, probing.  The virtual disk is specified on the bytes of the image file;
    reading refines it, whatever the caches hold; probing takes the fields of the header from the offsets that the
    formats give them, accepts exactly the well-formed images, and starts with empty caches, which establishes the invariant.
  \<^item> \<open>Disk\<close>, \<open>DiskProofs\<close> (\<^verbatim>\<open>disk/core.c\<close>, \<^verbatim>\<open>disk/raw.c\<close>, \<^verbatim>\<open>disk/blk.c\<close>, \<^verbatim>\<open>include/kvm/disk-image.h\<close>): opening,
    closing, and requests through the table of operations of an image.
  \<^item> \<open>Aio\<close> (\<^verbatim>\<open>disk/aio.c\<close>, the build with \<open>CONFIG_HAS_AIO\<close>): the submitting thread, the collecting thread and the
    kernel as an inductive step relation, and what waiting for an image guarantees.
  \<^item> \<open>GuestMap\<close>, \<open>GuestRam\<close>, \<open>IoSpace\<close> (\<^verbatim>\<open>demu.c\<close>): pages mapped on demand, the memory of the guest mapped in
    advance (the build with \<open>MAP_IN_ADVANCE\<close>), and the ranges of guest addresses.
  \<^item> \<open>Virtqueue\<close>, \<open>VirtqueueProofs\<close>, \<open>VirtioDev\<close>, \<open>Endian\<close> (\<^verbatim>\<open>virtio/core.c\<close>, \<^verbatim>\<open>include/kvm/virtio.h\<close>): the rings
    over the memory of the guest, the walk through a chain, the suppression of interrupts; queues, features,
    status and configuration of a device; the conversions for a ring in another byte order.
  \<^item> \<open>VirtioMmio\<close>, \<open>VirtioMmioProofs\<close>, \<open>Registers\<close> (\<^verbatim>\<open>virtio/mmio.c\<close>, \<^verbatim>\<open>virtio/mmio-modern.c\<close>,
    \<^verbatim>\<open>virtio/mmio-legacy.c\<close>): the registers in both layouts, what they leave alone, and what a driver sees.
  \<^item> \<open>VirtioBlk\<close>, \<open>VirtioBlkProofs\<close> (\<^verbatim>\<open>virtio/blk.c\<close>): requests, the I/O thread and the operations of the block
    device; a read or a write from the available ring to the used ring.
  \<^item> \<open>Footprint\<close>, \<open>BlkStore\<close>: which bytes a request is read from and which ones serving it writes, and from that
    the service of a whole queue: everything the driver has made available is served in order, and to the driver
    the device is an array of bytes.
  \<^item> \<open>Wakeup\<close>, \<open>Service\<close> (\<^verbatim>\<open>virtio/blk.c\<close>, \<^verbatim>\<open>include/kvm/virtio.h\<close>): how the I/O thread learns of requests, access by
    access, and that none is missed; and the way of a notification from the register to the thread asleep again.
  \<^item> \<open>BringUp\<close> (\<^verbatim>\<open>virtio/mmio-modern.c\<close>, \<^verbatim>\<open>virtio/core.c\<close>, \<^verbatim>\<open>virtio/blk.c\<close>): the registers a driver writes to get a queue
    and a thread that serves it, which is where the service of notifications begins.
  \<^item> \<open>UsedRing\<close> (\<^verbatim>\<open>virtio/blk.c\<close>, \<^verbatim>\<open>virtio/core.c\<close>): threads that complete requests at the same time, access by
    access; under the mutex the used ring is a log of the completions, whatever the interleaving.
  \<^item> \<open>Device\<close>, \<open>Attached\<close> (\<^verbatim>\<open>util/init.c\<close>, \<^verbatim>\<open>device.c\<close>): initialisers by priority, devices brought up and down in
    step with their ranges.
  \<^item> \<open>DeviceSound\<close> (\<^verbatim>\<open>virtio/blk.c\<close>, \<^verbatim>\<open>disk/core.c\<close>, \<^verbatim>\<open>device.c\<close>): what a device needs so that it can be taken down.  An open
    disk with consistent caches and, for a running queue, a live thread and an open event descriptor: opening
    and starting a queue set this up, requests, threads and registers keep it, and with it the devices go down and the disks are closed.
  \<^item> \<open>Bitops\<close> (\<^verbatim>\<open>include/kvm/util.h\<close>, \<^verbatim>\<open>include/linux/bitops.h\<close>, \<^verbatim>\<open>include/linux/kernel.h\<close>): highest bits, powers
    of two, arrays of bits, alignment; the program has them and does not call them.
  \<^item> \<open>XsDev\<close>, \<open>XsDevProofs\<close> (\<^verbatim>\<open>xs_dev.c\<close>): the connection to a frontend through the Xenstore.
  \<^item> \<open>Demu\<close>, \<open>DemuLedger\<close>, \<open>Session\<close>, \<open>MainLoop\<close> (\<^verbatim>\<open>demu.c\<close>): the sequence of the initialisation with the ledger
    of what is held, the requests of the guest, sessions with the threads of the devices and the guest in any
    order, and the loop over frontends.  The ledger has what \<open>demu_initialize\<close> acquires; the pages of the guest are in
    the ledger of \<open>GuestMap\<close> and the files of the disks in the disks, and \<open>teardown_gives_back\<close> says what becomes of each.

  \<^bold>\<open>State.\<close>  \<open>machine\<close> holds the memory of the guest and the live mappings; \<open>'d vstate\<close> extends it by the structures
  of one virtio device, with \<open>struct blk_dev\<close> as \<open>'d\<close>.  \<open>devices\<close> holds the disks, the device slots, the ranges and
  what the hypervisor knows of them; \<open>'x demu\<close> is \<open>demu_state\<close> with the devices, the connection, the store and the
  ledger.  Pointers to the memory of the guest are guest addresses, and a mapping is an entry of a ledger, so a
  use after unmapping is visible as a difference of ledgers, not as \<open>Wild\<close>.

  \<^bold>\<open>Interfaces.\<close>  Where a part relies on another, what it needs is a locale, interpreted on the model:
  \<^item> \<open>positioned_read\<close> (\<open>pio\<close>): a positioned read delivers the bytes of the file; what QCOW reading needs.
  \<^item> \<open>key_index\<close> (\<open>rbi\<close>): the trees are ordered sets; what the caches need.
  \<^item> \<open>lru_list\<close> (\<open>ring_lru\<close>): push, touch and evict on a list; a cache over it keeps the most recent keys.
  \<^item> \<open>block_backend\<close>, \<open>writable_backend\<close> (\<open>raw\<close>, \<open>mapped\<close>, \<open>qcow_be\<close>) and \<open>disk_backend\<close> (\<open>raw_disk\<close>, \<open>map_disk\<close>,
    \<open>qcow_disk\<close>): what the operations of a kind of image promise to the layer above.
  \<^item> \<open>request_steps\<close> (\<open>blk_steps\<close>, \<open>wait_steps\<close>, \<open>sound_steps\<close>): a relation that the few kinds of updates of a request
    keep, given what the operations of an image keep of the image; so the whole request keeps it.
  \<^item> \<open>queue_store\<close> (\<open>blk_queues\<close>) and \<open>device_frame\<close> (\<open>blk_device\<close> for sizes and addresses, \<open>sound_device\<close> for what a
    running queue needs): what a device promises to the registers.

  The type of the steps of the initialisation, \<open>demu_seq\<close>, is an instance of \<open>linorder\<close>.

  \<^bold>\<open>Fuel and bounds.\<close>
  \<^item> \<open>io_fuel\<close> bounds the vector loops and the waits on the store.  The premise \<open>raw_ready\<close> asks for more fuel than
    the script has entries, and then the loop returns: each round but the last uses an entry.  Where the code
    does not return, as in \<open>preadv_in_full_diverges\<close> and \<open>get_head_iov_endless\<close>, this is proved for every amount.
  \<^item> \<open>read_single\<close> and the loop of QCOW writes carry bounds computed from the length of the request, since each
    round moves at least one byte; the walk through a chain is bounded by the array of its result.
  \<^item> Allocation of clusters (\<open>QcowAlloc\<close>) takes fuel; its theorems hold for any amount.
  \<^item> A run of \<open>virtio_blk_do_io\<close> needs fuel for as many rounds as there are requests (\<open>pending_requests_served\<close>), and the
    thread three more steps from its wakeup to its next sleep (\<open>notification_served\<close>).
  \<^item> \<open>pthread_join\<close> runs the thread for \<open>io_fuel\<close> steps; three are enough, wherever it is (\<open>exit_vq_returns\<close>).
  \<^item> A traversal of a list is bounded by the number of its nodes; the interleavings of \<open>Aio\<close> have a measure.
  \<^item> The inner loop of \<open>main\<close> runs over the answers of \<open>select\<close>; when they are used up it is still running.

  \<^bold>\<open>Not modelled.\<close>
  \<^item> Signal masks and messages (\<^verbatim>\<open>util/util.c\<close>, \<^verbatim>\<open>debug.h\<close>): nothing else depends on them.
    Of the handler of signals only what it does to the connection is there (\<open>demu_sigterm\<close>).
  \<^item> Other mutexes than that of \<open>virtio_blk_complete\<close>, and the order of memory accesses of a processor: the steps
    of the threads are atomic, at the granularity that \<open>VirtioBlk\<close>, \<open>UsedRing\<close>, \<open>Wakeup\<close> and \<open>Aio\<close> describe, and a
    barrier is the order of the program.
  \<^item> The calls from \<^verbatim>\<open>virtio/core.c\<close> that differ under \<open>MAP_IN_ADVANCE\<close>, and code that is disabled by \<^verbatim>\<open>#if 0\<close>.
  \<^item> Failures of \<open>malloc\<close>; where it matters what fresh memory holds, that is a parameter.
  \<^item> The headers of the kernel and of Xen that come with the program (\<^verbatim>\<open>include/linux/kvm.h\<close>, \<^verbatim>\<open>vfio.h\<close>, \<^verbatim>\<open>9p.h\<close>,
    \<^verbatim>\<open>vhost.h\<close> and other declarations), which it does not use.
\<close>

end
